(* ===== verification/Prelude.thy ===== *)
theory Prelude
  imports Main "HOL-Library.Word"
begin

text \<open>
  Shared vocabulary of the development: bytes and machine integers, nullable C pointers,
  buffer writes and reads (\<open>memcpy\<close>, \<open>bslice\<close>), and big-endian integers. The lemmas here are
  about lists and words only; they are declared \<open>[simp]\<close> or collected in \<open>buf\<close> so that the
  component proofs can rely on automation.

  Conventions used by every component:
  \<^item> a byte buffer is a \<open>byte list\<close>; \<open>size_t\<close> values are \<open>nat\<close>, fixed-width integers that the
    code computes with are words of their width;
  \<^item> a pointer that the code compares with \<open>NULL\<close> is an option value (\<open>NULL\<close> is \<open>None\<close>); an
    output parameter is passed with its old pointee and returned with the new one;
  \<^item> a write through \<open>memcpy\<close> beyond the end of a buffer changes its length, so a lemma that the
    length of a buffer is unchanged is also a lemma that no write was out of bounds.
\<close>

unbundle bit_operations_syntax

type_synonym byte = "8 word"
type_synonym u16 = "16 word"
type_synonym u32 = "32 word"
type_synonym u64 = "64 word"
type_synonym bytes = "byte list"
type_synonym 'a ptr = "'a option"

abbreviation NULL :: "'a ptr" where
  "NULL \<equiv> None"

abbreviation UINT64_MAX :: u64 where
  "UINT64_MAX \<equiv> - 1"

named_theorems buf \<open>reading and writing byte buffers\<close>
named_theorems wire_len \<open>lengths of encoded values\<close>

definition memcpy :: "'a list \<Rightarrow> nat \<Rightarrow> 'a list \<Rightarrow> 'a list" where
  "memcpy dst off src = take off dst @ src @ drop (off + length src) dst"

definition bslice :: "'a list \<Rightarrow> nat \<Rightarrow> nat \<Rightarrow> 'a list" where
  "bslice b off n = take n (drop off b)"

definition zeros :: "nat \<Rightarrow> bytes" where
  "zeros n = replicate n 0"

definition store_be :: "nat \<Rightarrow> 'a::len word \<Rightarrow> bytes" where
  "store_be n v = map (\<lambda>i. ucast (drop_bit (8 * (n - 1 - i)) v)) [0..<n]"

definition load_be :: "bytes \<Rightarrow> 'a::len word" where
  "load_be bs = foldl (\<lambda>v b. push_bit 8 v OR ucast b) 0 bs"

section \<open>Buffers\<close>

lemma length_memcpy [simp]:
  "off + length src \<le> length dst \<Longrightarrow> length (memcpy dst off src) = length dst"
  by (simp add: memcpy_def)

lemma memcpy_append [buf]:
  "off2 = off + length a \<Longrightarrow> off \<le> length dst \<Longrightarrow>
   memcpy (memcpy dst off a) off2 b = memcpy dst off (a @ b)"
  by (simp add: memcpy_def add.commute add.left_commute)

lemma memcpy_update:
  "k < length b \<Longrightarrow> memcpy (b[k := x]) (Suc k) xs = memcpy b k (x # xs)"
  by (simp add: memcpy_def take_Suc_conv_app_nth)

lemma memcpy_snoc: "off + length xs < length b \<Longrightarrow> (memcpy b off xs)[off + length xs := v] = memcpy b off (xs @ [v])"
  by (simp add: memcpy_def list_update_append flip: Cons_nth_drop_Suc)

lemma foldl_update: "off + n \<le> length b \<Longrightarrow> foldl (\<lambda>b i. b[off + i := f i]) b [0..<n] = memcpy b off (map f [0..<n])"
proof (induction n)
  case (Suc n)
  then show ?case using memcpy_snoc [of off "map f [0..<n]" b "f n"] by simp
qed (simp add: memcpy_def)

lemma memcpy_whole [simp]: "length src = length dst \<Longrightarrow> memcpy dst 0 src = src"
  by (simp add: memcpy_def)

lemma memcpy_0: "memcpy dst 0 src = src @ drop (length src) dst"
  by (simp add: memcpy_def)

lemma take_memcpy_0 [simp]: "take (length src) (memcpy dst 0 src) = src"
  by (simp add: memcpy_def)

lemma take_memcpy_0' [simp]: "length src = n \<Longrightarrow> take n (memcpy dst 0 src) = src"
  by (auto simp: memcpy_def)

lemma drop_memcpy_0 [simp]: "length src = n \<Longrightarrow> drop n (memcpy dst 0 src) = drop n dst"
  by (auto simp: memcpy_def)

lemma memcpy_zeros_0 [buf]:
  "length src \<le> n \<Longrightarrow> memcpy (zeros n) 0 src = src @ zeros (n - length src)"
  by (simp add: memcpy_def zeros_def)

lemma length_bslice [simp]: "off + n \<le> length b \<Longrightarrow> length (bslice b off n) = n"
  by (simp add: bslice_def)

lemma length_bslice_min: "length (bslice b off n) = min n (length b - off)"
  by (simp add: bslice_def)

lemma bslice_append_left [simp]:
  "off + n \<le> length a \<Longrightarrow> bslice (a @ b) off n = bslice a off n"
  by (simp add: bslice_def)

lemma bslice_append_right [simp]:
  "length a \<le> off \<Longrightarrow> bslice (a @ b) off n = bslice b (off - length a) n"
  by (simp add: bslice_def)

lemma bslice_append_exact: "length a = off \<Longrightarrow> length b = n \<Longrightarrow> bslice (a @ b @ c) off n = b"
  by (simp add: bslice_def)

lemma bslice_0 [simp]: "bslice b 0 n = take n b"
  by (simp add: bslice_def)

lemma bslice_Cons [simp]: "0 < off \<Longrightarrow> bslice (x # xs) off n = bslice xs (off - 1) n"
  by (cases off) (simp_all add: bslice_def)

lemma bslice_slice: "off2 + n2 \<le> n \<Longrightarrow> bslice (bslice b off n) off2 n2 = bslice b (off + off2) n2"
  by (simp add: bslice_def drop_take min_absorb1 add.commute)

lemma bslice_join [buf]:
  "bslice b off n @ bslice b (off + n) m = bslice b off (n + m)"
  by (simp only: bslice_def take_add drop_drop add.commute [of n off])

lemma bslice_join' [buf]:
  "off2 = off + n \<Longrightarrow> bslice b off n @ bslice b off2 m = bslice b off (n + m)"
  by (simp add: bslice_join)

lemma bslice_all: "off \<le> length b \<Longrightarrow> n = length b - off \<Longrightarrow> bslice b off n = drop off b"
  by (simp add: bslice_def)

lemma Cons_nth_bslice_tail:
  "0 < length b \<Longrightarrow> n + 1 = length b \<Longrightarrow> b ! 0 # bslice b 1 n = b"
  by (cases b) (simp_all add: bslice_def)

lemma Cons2_nth_bslice_tail:
  "2 \<le> length b \<Longrightarrow> n + 2 = length b \<Longrightarrow> b ! 0 # b ! 1 # bslice b 2 n = b"
  by (cases b; cases "tl b") (simp_all add: bslice_def)

lemma take_bslice_split: "take off b @ bslice b off n = take (off + n) b"
  by (simp add: bslice_def take_add)

lemma length_zeros [simp]: "length (zeros n) = n"
  by (simp add: zeros_def)

lemma take_zeros [simp]: "take k (zeros n) = zeros (min k n)"
  by (simp add: zeros_def)

lemma drop_zeros [simp]: "drop k (zeros n) = zeros (n - k)"
  by (simp add: zeros_def)

lemma zeros_0 [simp]: "zeros 0 = []"
  by (simp add: zeros_def)

lemma zeros_append: "zeros m @ zeros n = zeros (m + n)"
  by (simp add: zeros_def replicate_add)

lemma set_zeros: "set (zeros n) \<subseteq> {0}"
  by (auto simp: zeros_def)

lemma append_take_drop_pad:
  "length a = k \<Longrightarrow> drop k xs = pad \<Longrightarrow> take k xs = a \<Longrightarrow> xs = a @ pad"
  by (metis append_take_drop_id)

section \<open>Big-endian integers\<close>

lemma length_store_be [simp]: "length (store_be n v) = n"
  by (simp add: store_be_def)

lemma nth_store_be: "i < n \<Longrightarrow> store_be n v ! i = ucast (drop_bit (8 * (n - 1 - i)) v)"
  by (simp add: store_be_def)

lemma load_be_snoc: "load_be (bs @ [b]) = (push_bit 8 (load_be bs) OR ucast b :: 'a::len word)"
  by (simp add: load_be_def)

lemma bit_load_be:
  "8 * length bs \<le> LENGTH('a::len) \<Longrightarrow>
   bit (load_be bs :: 'a word) k \<longleftrightarrow>
     k < 8 * length bs \<and> bit (bs ! (length bs - 1 - k div 8)) (k mod 8)"
proof (induction bs arbitrary: k rule: rev_induct)
  case Nil
  then show ?case by (simp add: load_be_def)
next
  case (snoc b bs)
  show ?case
  proof (cases "k < 8")
    case True
    with snoc.prems show ?thesis
      by (simp add: load_be_snoc bit_simps nth_append)
  next
    case False
    then have k: "k div 8 = Suc ((k - 8) div 8)" "k mod 8 = (k - 8) mod 8"
      by (simp_all add: div_if mod_if)
    have nb: "\<not> bit b k"
      using False bit_imp_le_length [of b k] by auto
    have IH: "bit (load_be bs :: 'a word) (k - 8) \<longleftrightarrow>
       k - 8 < 8 * length bs \<and> bit (bs ! (length bs - 1 - (k - 8) div 8)) ((k - 8) mod 8)"
      using snoc by simp
    show ?thesis
    proof (cases "k < 8 * Suc (length bs)")
      case True
      then have "length bs - Suc ((k - 8) div 8) < length bs" "k - 8 < 8 * length bs"
        using False by auto
      then show ?thesis
        using False True snoc.prems nb IH k
        by (simp add: load_be_snoc bit_simps nth_append)
    next
      case False': False
      then have "\<not> k - 8 < 8 * length bs" by simp
      with False' show ?thesis
        using False snoc.prems nb IH by (simp add: load_be_snoc bit_simps)
    qed
  qed
qed

lemma load_store_be:
  assumes "8 * n = LENGTH('a::len)"
  shows "load_be (store_be n (v :: 'a word)) = v"
proof (rule bit_word_eqI)
  fix k assume k: "k < LENGTH('a)"
  then have i: "n - 1 - k div 8 < n" "8 * (n - 1 - (n - 1 - k div 8)) + k mod 8 = k"
    using assms by (auto simp: less_mult_imp_div_less)
  show "bit (load_be (store_be n v) :: 'a word) k \<longleftrightarrow> bit v k"
    using assms k i by (simp add: bit_load_be nth_store_be bit_simps)
qed

lemma store_load_be:
  assumes "8 * length bs = LENGTH('a::len)"
  shows "store_be (length bs) (load_be bs :: 'a word) = bs"
proof (rule nth_equalityI)
  fix i assume "i < length (store_be (length bs) (load_be bs :: 'a word))"
  then have i: "i < length bs" by simp
  show "store_be (length bs) (load_be bs :: 'a word) ! i = bs ! i"
  proof (rule bit_word_eqI)
    fix j assume j: "j < LENGTH(8)"
    have "(8 * (length bs - 1 - i) + j) div 8 = length bs - 1 - i" using j by simp
    moreover have "(8 * (length bs - 1 - i) + j) mod 8 = j" using j by simp
    moreover have "8 * (length bs - Suc i) + j < LENGTH('a)"
      using assms i j by simp
    ultimately show "bit (store_be (length bs) (load_be bs :: 'a word) ! i) j = bit (bs ! i) j"
      using assms i j by (simp add: nth_store_be bit_simps bit_load_be)
  qed
qed simp

lemma load_store_be_16 [simp]: "load_be (store_be 2 (v :: u16)) = v"
  by (rule load_store_be) simp

lemma load_store_be_32 [simp]: "load_be (store_be 4 (v :: u32)) = v"
  by (rule load_store_be) simp

lemma load_store_be_64 [simp]: "load_be (store_be 8 (v :: u64)) = v"
  by (rule load_store_be) simp

lemma store_load_be_16 [simp]: "length bs = 2 \<Longrightarrow> store_be 2 (load_be bs :: u16) = bs"
  using store_load_be [of bs, where 'a = 16] by simp

lemma store_load_be_32 [simp]: "length bs = 4 \<Longrightarrow> store_be 4 (load_be bs :: u32) = bs"
  using store_load_be [of bs, where 'a = 32] by simp

lemma store_load_be_64 [simp]: "length bs = 8 \<Longrightarrow> store_be 8 (load_be bs :: u64) = bs"
  using store_load_be [of bs, where 'a = 64] by simp

lemma store_be_inj_64: "store_be 8 (v :: u64) = store_be 8 w \<Longrightarrow> v = w"
  by (metis load_store_be_64)

lemma unat_of_nat_16 [simp]: "n < 65536 \<Longrightarrow> unat (of_nat n :: u16) = n"
  by (simp add: unat_of_nat)

lemma unat_of_nat_8 [simp]: "n < 256 \<Longrightarrow> unat (of_nat n :: byte) = n"
  by (simp add: unat_of_nat)

lemma byte_of_nat_eq_iff [simp]:
  assumes "m < 256" "n < 256"
  shows "(of_nat m :: byte) = of_nat n \<longleftrightarrow> m = n"
  using unat_of_nat_8 [OF assms(1)] unat_of_nat_8 [OF assms(2)] by metis

lemma u16_of_nat_eq_iff [simp]:
  assumes "m < 65536" "n < 65536"
  shows "(of_nat m :: u16) = of_nat n \<longleftrightarrow> m = n"
  using unat_of_nat_16 [OF assms(1)] unat_of_nat_16 [OF assms(2)] by metis

lemma of_nat_unat_id [simp]: "of_nat (unat w) = (w :: 'a::len word)"
  by simp

lemma unat_byte_le [simp]: "unat (b :: byte) \<le> 255"
  using unsigned_less [of b, where ?'a = nat] by simp

lemma unat_u16_less: "unat (v :: u16) < 65536"
  using unsigned_less [of v, where ?'a = nat] by simp

lemma unat_UINT64_MAX [simp]: "unat UINT64_MAX = 18446744073709551615"
  by (simp add: unsigned_minus_1_eq_mask mask_eq_exp_minus_1)

section \<open>Following the branches of a program\<close>

text \<open>
  \<open>along Q x\<close> is \<open>Q x\<close>. The rules take it apart along the conditionals and case distinctions that
  compute \<open>x\<close>, one subgoal per path, without rewriting the paths already passed.
\<close>

definition along :: "('a \<Rightarrow> bool) \<Rightarrow> 'a \<Rightarrow> bool" where
  "along Q x \<longleftrightarrow> Q x"

lemma along_if: "(P \<Longrightarrow> along Q x) \<Longrightarrow> (\<not> P \<Longrightarrow> along Q y) \<Longrightarrow> along Q (if P then x else y)"
  by simp

lemma along_prod: "(\<And>a b. p = (a, b) \<Longrightarrow> along Q (f a b)) \<Longrightarrow> along Q (case p of (a, b) \<Rightarrow> f a b)"
  by (cases p) simp

lemma along_option:
  "(p = None \<Longrightarrow> along Q x) \<Longrightarrow> (\<And>a. p = Some a \<Longrightarrow> along Q (f a)) \<Longrightarrow>
   along Q (case p of None \<Rightarrow> x | Some a \<Rightarrow> f a)"
  by (cases p) simp_all

lemmas along_intros = along_if along_prod along_option

lemma alongI: "Q x \<Longrightarrow> along Q x"
  by (simp add: along_def)

lemma alongD: "along Q x \<Longrightarrow> Q x"
  by (simp add: along_def)

end
