(* ===== verification/Interfaces.thy ===== *)
theory Interfaces
  imports Prelude
begin

text \<open>
  The interfaces that several components share, as locales. Each is interpreted on the model's
  own definitions in the theory of the component that provides the operations.

  \<^item> \<open>wire_codec\<close>: an encoder and a strict decoder of one message type. The decoder accepts
    exactly the encodings of well-formed messages.
  \<^item> \<open>delimited_codec\<close>: a codec whose encodings also delimit themselves, so that a
    concatenation of an encoding and anything else splits in one way only.
  \<^item> \<open>chunked_reader\<close>: an incremental parser that is fed the input in pieces.
  \<^item> \<open>stream_machine\<close>: a decoder that takes its input as it comes; how the input is cut does not matter.
  \<^item> \<open>credit_machine\<close>: a component whose calls earn and spend credit; over any sequence of calls no
    more is spent than was earned.
  \<^item> \<open>pin_store\<close>: a store of keys by identity in which a pin is never replaced.
\<close>

section \<open>Codecs\<close>

locale wire_codec =
  fixes enc :: "'m \<Rightarrow> bytes"
    and dec :: "bytes \<Rightarrow> 'm option"
    and wf :: "'m \<Rightarrow> bool"
  assumes dec_enc: "wf m \<Longrightarrow> dec (enc m) = Some m"
    and enc_dec: "dec b = Some m \<Longrightarrow> wf m \<and> enc m = b"
begin

lemma dec_iff: "dec b = Some m \<longleftrightarrow> wf m \<and> enc m = b"
  using dec_enc enc_dec by blast

lemma dec_None_iff: "dec b = None \<longleftrightarrow> (\<forall>m. wf m \<longrightarrow> enc m \<noteq> b)"
proof
  assume "dec b = None"
  then show "\<forall>m. wf m \<longrightarrow> enc m \<noteq> b" by (auto simp: dec_enc)
next
  assume *: "\<forall>m. wf m \<longrightarrow> enc m \<noteq> b"
  show "dec b = None"
  proof (rule ccontr)
    assume "dec b \<noteq> None"
    then obtain m where "dec b = Some m" by blast
    with * enc_dec show False by blast
  qed
qed

lemma enc_inj: "wf m \<Longrightarrow> wf m' \<Longrightarrow> enc m = enc m' \<Longrightarrow> m = m'"
  by (metis dec_enc option.inject)

lemma dec_inj: "dec b = Some m \<Longrightarrow> dec b' = Some m \<Longrightarrow> b = b'"
  using enc_dec by blast

end

locale delimited_codec = wire_codec +
  assumes enc_prefix: "wf m \<Longrightarrow> wf m' \<Longrightarrow> enc m @ r = enc m' @ r' \<Longrightarrow> length (enc m) = length (enc m')"
begin

lemma enc_append_inj:
  assumes "wf m" "wf m'" "enc m @ r = enc m' @ r'"
  shows "m = m' \<and> r = r'"
proof -
  from assms have "length (enc m) = length (enc m')" by (rule enc_prefix)
  with assms(3) have "enc m = enc m'" "r = r'" by simp_all
  with assms(1,2) show ?thesis by (simp add: enc_inj)
qed

lemma no_trailing: "dec b = Some m \<Longrightarrow> r \<noteq> [] \<Longrightarrow> dec (b @ r) = None"
proof (rule ccontr)
  assume b: "dec b = Some m" and r: "r \<noteq> []" and "dec (b @ r) \<noteq> None"
  then obtain m' where "dec (b @ r) = Some m'" by blast
  with b have "wf m" "wf m'" "enc m @ r = enc m' @ []" using enc_dec by auto
  then have "r = []" using enc_append_inj by blast
  with r show False by simp
qed

end

section \<open>Incremental readers\<close>

text \<open>
  \<open>feed s d\<close> gives the state after the bytes \<open>d\<close> and the number of bytes taken. A settled reader
  takes nothing more; feeding two pieces one after the other is the same as feeding their
  concatenation.
\<close>

locale chunked_reader =
  fixes feed :: "'s \<Rightarrow> bytes \<Rightarrow> 's \<times> nat"
    and settled :: "'s \<Rightarrow> bool"
    and inv :: "'s \<Rightarrow> bool"
  assumes feed_inv: "inv s \<Longrightarrow> inv (fst (feed s d))"
    and feed_nil: "inv s \<Longrightarrow> feed s [] = (s, 0)"
    and feed_used: "inv s \<Longrightarrow> snd (feed s d) \<le> length d"
    and feed_settled: "inv s \<Longrightarrow> settled s \<Longrightarrow> feed s d = (s, 0)"
    and feed_all: "inv s \<Longrightarrow> \<not> settled (fst (feed s d)) \<Longrightarrow> snd (feed s d) = length d"
    and feed_append: "inv s \<Longrightarrow> feed s d = (s', u) \<Longrightarrow>
      feed s (d @ e) = (if settled s' then (s', u) else (fst (feed s' e), u + snd (feed s' e)))"
begin

primrec feed_list :: "'s \<Rightarrow> bytes list \<Rightarrow> 's \<times> nat" where
  "feed_list s [] = (s, 0)"
| "feed_list s (d # ds) =
     (let (s1, u1) = feed s d; (s2, u2) = feed_list s1 ds in (s2, u1 + u2))"

lemma feed_list_settled: "inv s \<Longrightarrow> settled s \<Longrightarrow> feed_list s ds = (s, 0)"
  by (induction ds) (auto simp: feed_settled)

lemma feed_list_concat:
  "inv s \<Longrightarrow> feed_list s ds = feed s (concat ds)"
proof (induction ds arbitrary: s)
  case Nil
  then show ?case by (simp add: feed_nil)
next
  case (Cons d ds)
  obtain s1 u1 where f: "feed s d = (s1, u1)" by force
  then have inv1: "inv s1" using feed_inv [OF Cons.prems, of d] by simp
  show ?case
  proof (cases "settled s1")
    case True
    then show ?thesis
      using f inv1 feed_append [OF Cons.prems f, of "concat ds"]
      by (simp add: feed_list_settled)
  next
    case False
    have "feed_list s1 ds = feed s1 (concat ds)"
      using inv1 by (rule Cons.IH)
    with False f feed_append [OF Cons.prems f, of "concat ds"] show ?thesis
      by (simp add: split_beta)
  qed
qed

end

section \<open>Stores of pinned keys\<close>

locale pin_store =
  fixes inv :: "'s \<Rightarrow> bool"
    and lookup :: "'s \<Rightarrow> 'i \<Rightarrow> 'k option"
    and add :: "'s \<Rightarrow> 'i \<Rightarrow> 'k \<Rightarrow> 's"
    and key_ok :: "'k \<Rightarrow> bool"
  assumes add_inv: "inv s \<Longrightarrow> key_ok k \<Longrightarrow> inv (add s i k)"
    and lookup_add_other: "inv s \<Longrightarrow> key_ok k \<Longrightarrow> i \<noteq> j \<Longrightarrow> lookup (add s i k) j = lookup s j"
    and lookup_add_same: "inv s \<Longrightarrow> key_ok k \<Longrightarrow>
      lookup (add s i k) i = (case lookup s i of Some k' \<Rightarrow> Some k' | None \<Rightarrow> lookup (add s i k) i)"
    and lookup_add_new: "inv s \<Longrightarrow> key_ok k \<Longrightarrow> lookup s i = None \<Longrightarrow> lookup (add s i k) i \<in> {None, Some k}"
begin

primrec add_all :: "'s \<Rightarrow> ('i \<times> 'k) list \<Rightarrow> 's" where
  "add_all s [] = s"
| "add_all s (p # ps) = add_all (add s (fst p) (snd p)) ps"

lemma lookup_add_kept:
  assumes "inv s" "key_ok k" "lookup s j = Some k'"
  shows "lookup (add s i k) j = Some k'"
  using lookup_add_other [OF assms(1,2), of i j] lookup_add_same [OF assms(1,2), of i] assms(3)
  by (cases "i = j") auto

lemma add_all_inv: "inv s \<Longrightarrow> \<forall>p \<in> set ps. key_ok (snd p) \<Longrightarrow> inv (add_all s ps)"
  by (induction ps arbitrary: s) (simp_all add: add_inv)

lemma add_all_kept:
  "inv s \<Longrightarrow> \<forall>p \<in> set ps. key_ok (snd p) \<Longrightarrow> lookup s j = Some k \<Longrightarrow> lookup (add_all s ps) j = Some k"
  by (induction ps arbitrary: s) (simp_all add: add_inv lookup_add_kept)

lemma add_all_origin:
  "inv s \<Longrightarrow> \<forall>p \<in> set ps. key_ok (snd p) \<Longrightarrow> lookup (add_all s ps) j = Some k \<Longrightarrow>
   lookup s j = Some k \<or> (j, k) \<in> set ps"
proof (induction ps arbitrary: s)
  case (Cons p ps)
  have ok: "key_ok (snd p)" using Cons.prems(2) by simp
  have "lookup (add s (fst p) (snd p)) j = Some k \<or> (j, k) \<in> set ps"
    using Cons.prems by (intro Cons.IH) (simp_all add: add_inv)
  then show ?case
    using lookup_add_other [OF Cons.prems(1) ok, of "fst p" j]
      lookup_add_new [OF Cons.prems(1) ok, of j] lookup_add_same [OF Cons.prems(1) ok, of j]
    by (cases "fst p = j"; cases "lookup s j") (auto simp: prod_eq_iff)
qed simp

end

section \<open>Components that meter what they grant\<close>

text \<open>\<open>run_ops\<close> is a sequence of calls with the answer each one gave.\<close>

primrec run_ops :: "('s \<Rightarrow> 'o \<Rightarrow> 'r \<times> 's) \<Rightarrow> 's \<Rightarrow> 'o list \<Rightarrow> ('o \<times> 'r) list \<times> 's" where
  "run_ops exec s [] = ([], s)"
| "run_ops exec s (a # as) =
     (let (r, s1) = exec s a; (tr, s2) = run_ops exec s1 as in ((a, r) # tr, s2))"

lemma run_ops_Cons:
  "run_ops exec s as = (x # tr, s') \<longleftrightarrow>
   (\<exists>as1 v. as = fst x # as1 \<and> exec s (fst x) = (snd x, v) \<and> run_ops exec v as1 = (tr, s'))"
  by (cases as; cases x) (auto split: prod.splits)

lemma run_ops_split:
  "run_ops exec s as = (t1 @ (a, r) # t2, s') \<Longrightarrow>
   \<exists>as1 as2 u v. as = as1 @ a # as2 \<and> run_ops exec s as1 = (t1, u) \<and> exec u a = (r, v) \<and> run_ops exec v as2 = (t2, s')"
proof (induction t1 arbitrary: s as)
  case Nil
  then obtain as1 v where "as = a # as1" "exec s a = (r, v)" "run_ops exec v as1 = (t2, s')"
    by (auto simp: run_ops_Cons)
  then show ?case by - (rule exI [of _ "[]"], auto)
next
  case (Cons x t1)
  then obtain bs v where b: "as = fst x # bs" "exec s (fst x) = (snd x, v)" "run_ops exec v bs = (t1 @ (a, r) # t2, s')"
    by (auto simp: run_ops_Cons)
  from Cons.IH [OF b(3)] obtain as1 where "\<exists>as2 u w. bs = as1 @ a # as2 \<and> run_ops exec v as1 = (t1, u) \<and>
    exec u a = (r, w) \<and> run_ops exec w as2 = (t2, s')" by blast
  with b(1,2) show ?case by - (rule exI [of _ "fst x # as1"], auto)
qed

text \<open>Every call is made in a state in which it may be made.\<close>

primrec run_ok :: "('s \<Rightarrow> 'o \<Rightarrow> 'r \<times> 's) \<Rightarrow> ('s \<Rightarrow> 'o \<Rightarrow> bool) \<Rightarrow> 's \<Rightarrow> 'o list \<Rightarrow> bool" where
  "run_ok exec ok s [] = True"
| "run_ok exec ok s (a # as) = (ok s a \<and> run_ok exec ok (snd (exec s a)) as)"

lemma run_ok_list_all [simp]: "run_ok exec (\<lambda>_. ok) s as = list_all ok as"
  by (induction as arbitrary: s) simp_all

locale credit_machine =
  fixes exec :: "'s \<Rightarrow> 'o \<Rightarrow> 'r \<times> 's"
    and inv :: "'s \<Rightarrow> bool"
    and op_ok :: "'s \<Rightarrow> 'o \<Rightarrow> bool"
    and credit :: "'s \<Rightarrow> nat"
    and gain :: "'o \<Rightarrow> 'r \<Rightarrow> nat"
    and spend :: "'o \<Rightarrow> 'r \<Rightarrow> nat"
  assumes exec_inv: "inv s \<Longrightarrow> op_ok s a \<Longrightarrow> exec s a = (r, s') \<Longrightarrow> inv s'"
    and exec_credit: "inv s \<Longrightarrow> op_ok s a \<Longrightarrow> exec s a = (r, s') \<Longrightarrow>
      credit s' + spend a r \<le> credit s + gain a r"
begin

lemma run_inv: "inv s \<Longrightarrow> run_ok exec op_ok s as \<Longrightarrow> run_ops exec s as = (tr, s') \<Longrightarrow> inv s'"
  by (induction as arbitrary: s tr) (auto split: prod.splits dest: exec_inv)

lemma run_credit:
  "inv s \<Longrightarrow> run_ok exec op_ok s as \<Longrightarrow> run_ops exec s as = (tr, s') \<Longrightarrow>
   credit s' + (\<Sum>(a, r)\<leftarrow>tr. spend a r) \<le> credit s + (\<Sum>(a, r)\<leftarrow>tr. gain a r)"
proof (induction as arbitrary: s tr)
  case (Cons a as)
  obtain r s1 where e: "exec s a = (r, s1)" by force
  obtain tr1 where t: "run_ops exec s1 as = (tr1, s')" "tr = (a, r) # tr1"
    using Cons.prems(3) e by (auto split: prod.splits)
  have "credit s' + (\<Sum>(a, r)\<leftarrow>tr1. spend a r) \<le> credit s1 + (\<Sum>(a, r)\<leftarrow>tr1. gain a r)"
    using Cons.prems e t(1) exec_inv [OF _ _ e] by (intro Cons.IH) auto
  with exec_credit [OF _ _ e] Cons.prems t(2) show ?case by fastforce
qed simp

end

section \<open>Streams\<close>

text \<open>One step after the other, until one fails.\<close>

primrec feeds :: "('s \<Rightarrow> 'a \<Rightarrow> 's option) \<Rightarrow> 's \<Rightarrow> 'a list \<Rightarrow> 's option" where
  "feeds step s [] = Some s"
| "feeds step s (a # as) = Option.bind (step s a) (\<lambda>s. feeds step s as)"

lemma feeds_append: "feeds step s (xs @ ys) = Option.bind (feeds step s xs) (\<lambda>s. feeds step s ys)"
  by (induction xs arbitrary: s) (auto split: Option.bind_splits)

lemma feeds_inv:
  assumes "\<And>s a s'. P s \<Longrightarrow> step s a = Some s' \<Longrightarrow> P s'"
  shows "feeds step s as = Some s' \<Longrightarrow> P s \<Longrightarrow> P s'"
  by (induction as arbitrary: s) (auto split: Option.bind_splits dest: assms)

text \<open>\<open>fits s d\<close> says that the state \<open>s\<close> is one of the decoder's and has room for the input \<open>d\<close>.\<close>

locale stream_machine =
  fixes feed :: "'s \<Rightarrow> bytes \<Rightarrow> 's option"
    and fits :: "'s \<Rightarrow> bytes \<Rightarrow> bool"
  assumes feed_nil: "fits s [] \<Longrightarrow> feed s [] = Some s"
    and feed_append: "fits s (x @ y) \<Longrightarrow> feed s (x @ y) = Option.bind (feed s x) (\<lambda>s. feed s y)"
    and feed_fits: "fits s (x @ y) \<Longrightarrow> feed s x = Some s' \<Longrightarrow> fits s' y"
begin

lemma feeds_concat: "fits s (concat ds) \<Longrightarrow> feeds feed s ds = feed s (concat ds)"
proof (induction ds arbitrary: s)
  case Nil
  then show ?case by (simp add: feed_nil)
next
  case (Cons d ds)
  then show ?case using feed_append [of s d "concat ds"] feed_fits [of s d "concat ds"]
    by (auto split: Option.bind_splits)
qed

lemma any_cut: "fits s (concat ds) \<Longrightarrow> concat ds = concat es \<Longrightarrow> feeds feed s ds = feeds feed s es"
  by (simp add: feeds_concat)

end

end
