(* ===== verification/Wire_Int.thy ===== *)
theory Wire_Int
  imports Interfaces
begin

text \<open>
  Fixed-width big-endian integers: \<open>src/util/wire_int.c\<close> (the handshake wire format), the
  \<open>store_be64\<close>/\<open>load_be64\<close>/\<open>store_be16\<close>/\<open>load_be16\<close> helpers of \<open>src/protocol/session.c\<close>, the
  \<open>put_be64\<close>/\<open>get_be64\<close>/\<open>put_be16\<close>/\<open>get_be16\<close> helpers of \<open>apps/authd/authmsg.c\<close>, \<open>be16\<close> of
  \<open>apps/authd/proxy_v2.c\<close> and the frame header of \<open>apps/frame.c\<close>. A pointer \<open>p + off\<close> into a
  buffer is the buffer and the offset. The lemmas reduce each of them to \<open>store_be\<close> and
  \<open>load_be\<close> of the prelude, whose round trips then apply.
\<close>

definition wire_int_write_u8 :: "bytes \<Rightarrow> nat \<Rightarrow> byte \<Rightarrow> bytes" where
  "wire_int_write_u8 out off value = memcpy out off [value]"

definition wire_int_write_u16 :: "bytes \<Rightarrow> nat \<Rightarrow> u16 \<Rightarrow> bytes" where
  "wire_int_write_u16 out off value =
     (let out = memcpy out off [ucast (drop_bit 8 value AND 0xFF)]
      in memcpy out (off + 1) [ucast (value AND 0xFF)])"

definition wire_int_read_u8 :: "bytes \<Rightarrow> nat \<Rightarrow> nat \<Rightarrow> byte option" where
  "wire_int_read_u8 buf off len = (if len < 1 then None else Some (buf ! off))"

definition wire_int_read_u16 :: "bytes \<Rightarrow> nat \<Rightarrow> nat \<Rightarrow> u16 option" where
  "wire_int_read_u16 buf off len =
     (if len < 2 then None
      else Some (push_bit 8 (ucast (buf ! off)) OR ucast (buf ! (off + 1))))"

definition store_be64 :: "u64 \<Rightarrow> bytes" where
  "store_be64 v = map (\<lambda>i. ucast (drop_bit (56 - 8 * i) v)) [0..<8]"

definition load_be64 :: "bytes \<Rightarrow> u64" where
  "load_be64 bs = foldl (\<lambda>v b. push_bit 8 v OR ucast b) 0 (take 8 bs)"

definition store_be16 :: "u16 \<Rightarrow> bytes" where
  "store_be16 v = [ucast (drop_bit 8 v), ucast v]"

definition load_be16 :: "bytes \<Rightarrow> u16" where
  "load_be16 bs = push_bit 8 (ucast (bs ! 0)) OR ucast (bs ! 1)"

definition frame_put_header :: "bytes \<Rightarrow> u32 \<Rightarrow> bytes" where
  "frame_put_header hdr len =
     hdr[0 := ucast (drop_bit 24 len), 1 := ucast (drop_bit 16 len),
         2 := ucast (drop_bit 8 len), 3 := ucast len]"

definition frame_get_header :: "bytes \<Rightarrow> u32" where
  "frame_get_header hdr =
     push_bit 24 (ucast (hdr ! 0)) OR push_bit 16 (ucast (hdr ! 1)) OR
     push_bit 8 (ucast (hdr ! 2)) OR ucast (hdr ! 3)"

section \<open>Reduction to the generic big-endian functions\<close>

lemma upt_2: "[0..<2] = [0, Suc 0]"
  by (simp add: upt_rec)

lemma upt_4: "[0..<4] = [0, 1, 2, 3::nat]"
  by (simp add: upt_rec)

lemma store_be_2: "store_be 2 (v :: u16) = [ucast (drop_bit 8 v), ucast v]"
  by (simp add: store_be_def upt_2)

lemma store_be_4:
  "store_be 4 (v :: u32) = [ucast (drop_bit 24 v), ucast (drop_bit 16 v), ucast (drop_bit 8 v), ucast v]"
  by (simp add: store_be_def upt_4)

lemma list_2: "length bs = 2 \<Longrightarrow> bs = [bs ! 0, bs ! 1]"
  by (cases bs; cases "tl bs") auto

lemma list_4: "length bs = 4 \<Longrightarrow> bs = [bs ! 0, bs ! 1, bs ! 2, bs ! 3]"
  by (rule nth_equalityI) (auto simp: less_Suc_eq numeral_eq_Suc)

lemma load_be_2: "length bs = 2 \<Longrightarrow> load_be bs = push_bit 8 (ucast (bs ! 0)) OR (ucast (bs ! 1) :: u16)"
  by (subst list_2) (simp_all add: load_be_def)

lemma write_u16_eq [buf]:
  "off \<le> length out \<Longrightarrow> wire_int_write_u16 out off v = memcpy out off (store_be 2 v)"
proof -
  assume "off \<le> length out"
  moreover have m: "(0xFF :: u16) = mask 8"
    by (simp add: mask_eq_exp_minus_1)
  have "(ucast (drop_bit 8 v AND 0xFF) :: byte) = ucast (drop_bit 8 v)"
    unfolding m by (rule bit_word_eqI) (auto simp: bit_simps)
  moreover have "(ucast (v AND 0xFF) :: byte) = ucast v"
    unfolding m by (rule bit_word_eqI) (auto simp: bit_simps)
  ultimately show ?thesis
    by (simp add: wire_int_write_u16_def store_be_2 memcpy_append)
qed

lemma bslice_2: "off + 2 \<le> length b \<Longrightarrow> bslice b off 2 = [b ! off, b ! (off + 1)]"
  by (subst list_2) (simp_all add: bslice_def)

lemma read_u16_eq [buf]:
  "off + 2 \<le> length b \<Longrightarrow> 2 \<le> len \<Longrightarrow>
   wire_int_read_u16 b off len = Some (load_be (bslice b off 2))"
  by (simp add: wire_int_read_u16_def bslice_2 load_be_def)

lemma store_be64_eq: "store_be64 v = store_be 8 v"
  by (auto simp: store_be64_def store_be_def diff_mult_distrib2)

lemma load_be64_eq: "length bs = 8 \<Longrightarrow> load_be64 bs = load_be bs"
  by (simp add: load_be64_def load_be_def)

lemma store_be16_eq: "store_be16 v = store_be 2 v"
  by (simp add: store_be16_def store_be_2)

lemma load_be16_eq: "length bs = 2 \<Longrightarrow> load_be16 bs = load_be bs"
  by (simp add: load_be16_def load_be_2)

lemmas be_eqs = store_be64_eq load_be64_eq store_be16_eq load_be16_eq

lemma length_store_be64 [simp]: "length (store_be64 v) = 8"
  by (simp add: store_be64_eq)

lemma length_store_be16 [simp]: "length (store_be16 v) = 2"
  by (simp add: store_be16_eq)

lemma load_store_be64 [simp]: "load_be64 (store_be64 v) = v"
  by (simp add: be_eqs)

lemma store_load_be64 [simp]: "length bs = 8 \<Longrightarrow> store_be64 (load_be64 bs) = bs"
  by (simp add: be_eqs)

lemma store_be64_inj [simp]: "store_be64 v = store_be64 w \<longleftrightarrow> v = w"
  by (metis load_store_be64)

lemma load_store_be16 [simp]: "load_be16 (store_be16 v) = v"
  by (simp add: be_eqs)

lemma store_load_be16 [simp]: "length bs = 2 \<Longrightarrow> store_be16 (load_be16 bs) = bs"
  by (simp add: be_eqs)

lemma frame_put_header_eq: "length hdr = 4 \<Longrightarrow> frame_put_header hdr len = store_be 4 len"
  by (subst list_4 [of hdr]) (simp_all add: frame_put_header_def store_be_4)

lemma frame_get_header_eq: "length hdr = 4 \<Longrightarrow> frame_get_header hdr = load_be hdr"
proof -
  assume l: "length hdr = 4"
  have "load_be hdr = (load_be [hdr ! 0, hdr ! 1, hdr ! 2, hdr ! 3] :: u32)"
    using list_4 [OF l] by simp
  also have "\<dots> = frame_get_header hdr"
    by (simp add: load_be_def frame_get_header_def push_bit_or) (simp add: ac_simps)
  finally show ?thesis by simp
qed

interpretation frame_header: wire_codec
  "\<lambda>len. frame_put_header (zeros 4) len"
  "\<lambda>b. if length b = 4 then Some (frame_get_header b) else None"
  "\<lambda>_. True"
  by unfold_locales (auto simp: frame_put_header_eq frame_get_header_eq split: if_splits)

end
