(* ===== verification/Primitives.thy ===== *)
theory Primitives
  imports Wire_Int
begin

text \<open>
  The crypto layer: \<open>src/util/secure_mem.c\<close>, \<open>src/crypto/aead.c\<close>, \<open>src/crypto/mldsa_wrap.c\<close>,
  \<open>src/crypto/mlkem_wrap.c\<close> and \<open>src/crypto/kex.c\<close>.

  libsodium and liboqs are third-party code. They are the records \<open>sodium\<close> and \<open>oqs\<close>, whose
  fields are the library functions with their return code and the bytes they write; nothing is
  assumed about them in the definitions. What a property needs of them (a digest has 32 bytes, a
  signature made with a key verifies under it, decryption inverts encryption) is a named
  predicate that the property has as its hypothesis. Multi-part hashing is one application of
  \<open>crypto_hash_sha256\<close> to the concatenation of the parts, which is libsodium's documented
  behaviour of \<open>init\<close>/\<open>update\<close>/\<open>final\<close>.

  What the outside world answers during one call of the API is the record \<open>env\<close>: the contents of
  the \<open>k\<close>-th block that \<open>sodium_malloc\<close> returns (or \<open>NULL\<close>), the \<open>k\<close>-th draw of
  \<open>randombytes_buf\<close>, the coins liboqs draws, and the \<open>k\<close>-th reading of the clock. The index of an
  allocation, draw or reading is its position in the call.
\<close>

section \<open>Third-party code and the environment\<close>

record sodium =
  crypto_hash_sha256 :: "bytes \<Rightarrow> int \<times> bytes"
  crypto_scalarmult_base :: "bytes \<Rightarrow> int \<times> bytes"
  crypto_scalarmult :: "bytes \<Rightarrow> bytes \<Rightarrow> int \<times> bytes"
  hkdf_sha256_extract :: "bytes \<Rightarrow> bytes \<Rightarrow> int \<times> bytes"
  hkdf_sha256_expand :: "nat \<Rightarrow> bytes \<Rightarrow> bytes \<Rightarrow> int \<times> bytes"
  chacha20poly1305_ietf_encrypt :: "bytes \<Rightarrow> bytes \<Rightarrow> bytes \<Rightarrow> bytes \<Rightarrow> int \<times> bytes"
  chacha20poly1305_ietf_decrypt :: "bytes \<Rightarrow> bytes \<Rightarrow> bytes \<Rightarrow> bytes \<Rightarrow> int \<times> bytes"

record oqs_sig_info =
  length_public_key :: nat
  length_secret_key :: nat
  length_signature :: nat

record oqs_kem_info =
  kem_length_public_key :: nat
  kem_length_secret_key :: nat
  kem_length_ciphertext :: nat
  kem_length_shared_secret :: nat

record oqs =
  OQS_SIG_new :: "oqs_sig_info ptr"
  OQS_SIG_keypair :: "bytes \<Rightarrow> int \<times> bytes \<times> bytes"
  OQS_SIG_sign :: "bytes \<Rightarrow> bytes \<Rightarrow> bytes \<Rightarrow> int \<times> bytes"
  OQS_SIG_verify :: "bytes \<Rightarrow> bytes \<Rightarrow> bytes \<Rightarrow> int"
  OQS_KEM_new :: "oqs_kem_info ptr"
  OQS_KEM_keypair :: "bytes \<Rightarrow> int \<times> bytes \<times> bytes"
  OQS_KEM_encaps :: "bytes \<Rightarrow> bytes \<Rightarrow> int \<times> bytes \<times> bytes"
  OQS_KEM_decaps :: "bytes \<Rightarrow> bytes \<Rightarrow> int \<times> bytes"

record crypto =
  sodium :: sodium
  liboqs :: oqs

record env =
  sodium_malloc :: "nat \<Rightarrow> nat \<Rightarrow> bytes ptr"
  randombytes_buf :: "nat \<Rightarrow> nat \<Rightarrow> bytes"
  oqs_coins :: "nat \<Rightarrow> bytes"
  clock_ms :: "nat \<Rightarrow> u64"

abbreviation (input) KEX_PUBLIC_KEY_BYTES :: nat where "KEX_PUBLIC_KEY_BYTES \<equiv> 32"
abbreviation (input) KEX_PRIVATE_KEY_BYTES :: nat where "KEX_PRIVATE_KEY_BYTES \<equiv> 32"
abbreviation (input) KEX_SHARED_SECRET_BYTES :: nat where "KEX_SHARED_SECRET_BYTES \<equiv> 32"
abbreviation (input) KEX_SESSION_KEY_BYTES :: nat where "KEX_SESSION_KEY_BYTES \<equiv> 32"
abbreviation (input) KEX_DIR_C2S :: byte where "KEX_DIR_C2S \<equiv> 0x43"
abbreviation (input) KEX_DIR_S2C :: byte where "KEX_DIR_S2C \<equiv> 0x53"
abbreviation (input) KEX_ID_MIN_LEN :: nat where "KEX_ID_MIN_LEN \<equiv> 1"
abbreviation (input) KEX_ID_MAX_LEN :: nat where "KEX_ID_MAX_LEN \<equiv> 64"
abbreviation (input) KEX_SESSION_ID_LEN :: nat where "KEX_SESSION_ID_LEN \<equiv> 16"
abbreviation (input) KEX_TRANSCRIPT_HASH_BYTES :: nat where "KEX_TRANSCRIPT_HASH_BYTES \<equiv> 32"
abbreviation (input) KEX_KDF_V2_INFO_MIN_LEN :: nat where "KEX_KDF_V2_INFO_MIN_LEN \<equiv> 55"
abbreviation (input) KEX_KDF_V2_INFO_MAX_LEN :: nat where "KEX_KDF_V2_INFO_MAX_LEN \<equiv> 181"
abbreviation (input) HKDF_SHA256_BYTES_MAX :: nat where "HKDF_SHA256_BYTES_MAX \<equiv> 8160"
abbreviation (input) MLDSA_PUBLIC_KEY_BYTES :: nat where "MLDSA_PUBLIC_KEY_BYTES \<equiv> 1952"
abbreviation (input) MLDSA_SECRET_KEY_BYTES :: nat where "MLDSA_SECRET_KEY_BYTES \<equiv> 4032"
abbreviation (input) MLDSA_SIGNATURE_MAX_BYTES :: nat where "MLDSA_SIGNATURE_MAX_BYTES \<equiv> 3309"
abbreviation (input) MLKEM_PUBLIC_KEY_BYTES :: nat where "MLKEM_PUBLIC_KEY_BYTES \<equiv> 1184"
abbreviation (input) MLKEM_SECRET_KEY_BYTES :: nat where "MLKEM_SECRET_KEY_BYTES \<equiv> 2400"
abbreviation (input) MLKEM_CIPHERTEXT_BYTES :: nat where "MLKEM_CIPHERTEXT_BYTES \<equiv> 1088"
abbreviation (input) MLKEM_SHARED_SECRET_BYTES :: nat where "MLKEM_SHARED_SECRET_BYTES \<equiv> 32"
abbreviation (input) AEAD_KEY_BYTES :: nat where "AEAD_KEY_BYTES \<equiv> 32"
abbreviation (input) AEAD_NONCE_BYTES :: nat where "AEAD_NONCE_BYTES \<equiv> 12"
abbreviation (input) AEAD_TAG_BYTES :: nat where "AEAD_TAG_BYTES \<equiv> 16"

definition ascii :: "string \<Rightarrow> bytes" where
  "ascii s = map (\<lambda>c. of_nat (of_char c)) s"

definition deref :: "bytes ptr \<Rightarrow> nat \<Rightarrow> bytes" where
  "deref p n = (case p of NULL \<Rightarrow> [] | Some b \<Rightarrow> take n b)"

section \<open>Secure memory\<close>

definition secure_mem_alloc :: "env \<Rightarrow> nat \<Rightarrow> nat \<Rightarrow> bytes ptr" where
  "secure_mem_alloc e k len = (if len = 0 then NULL else sodium_malloc e k len)"

definition secure_mem_wipe :: "bytes ptr \<Rightarrow> nat \<Rightarrow> bytes ptr" where
  "secure_mem_wipe p len =
     (case p of NULL \<Rightarrow> NULL
      | Some b \<Rightarrow> if len = 0 then Some b else Some (memcpy b 0 (zeros len)))"

section \<open>AEAD\<close>

definition aead_encrypt ::
  "sodium \<Rightarrow> bytes ptr \<Rightarrow> nat ptr \<Rightarrow> bytes ptr \<Rightarrow> nat \<Rightarrow> bytes ptr \<Rightarrow> nat \<Rightarrow>
   bytes ptr \<Rightarrow> bytes ptr \<Rightarrow> int \<times> bytes ptr \<times> nat ptr" where
  "aead_encrypt so ciphertext ciphertext_len msg msg_len ad ad_len nonce key =
     (if ciphertext = NULL \<or> ciphertext_len = NULL \<or> nonce = NULL \<or> key = NULL
      then (-1, ciphertext, ciphertext_len)
      else if msg = NULL \<and> msg_len \<noteq> 0 then (-1, ciphertext, ciphertext_len)
      else if ad = NULL \<and> ad_len \<noteq> 0 then (-1, ciphertext, ciphertext_len)
      else
        let (rc, out) = chacha20poly1305_ietf_encrypt so (deref msg msg_len) (deref ad ad_len)
              (deref nonce AEAD_NONCE_BYTES) (deref key AEAD_KEY_BYTES);
            ciphertext' = Some (memcpy (the ciphertext) 0 out)
        in if rc \<noteq> 0 then (-1, ciphertext', ciphertext_len)
           else (0, ciphertext', Some (length out)))"

definition aead_decrypt ::
  "sodium \<Rightarrow> bytes ptr \<Rightarrow> nat ptr \<Rightarrow> bytes ptr \<Rightarrow> nat \<Rightarrow> bytes ptr \<Rightarrow> nat \<Rightarrow>
   bytes ptr \<Rightarrow> bytes ptr \<Rightarrow> int \<times> bytes ptr \<times> nat ptr" where
  "aead_decrypt so msg msg_len ciphertext ciphertext_len ad ad_len nonce key =
     (if msg = NULL \<or> msg_len = NULL \<or> ciphertext = NULL \<or> nonce = NULL \<or> key = NULL
      then (-1, msg, msg_len)
      else if ad = NULL \<and> ad_len \<noteq> 0 then (-1, msg, msg_len)
      else if ciphertext_len < AEAD_TAG_BYTES then (-1, msg, msg_len)
      else
        let (rc, out) = chacha20poly1305_ietf_decrypt so (deref ciphertext ciphertext_len)
              (deref ad ad_len) (deref nonce AEAD_NONCE_BYTES) (deref key AEAD_KEY_BYTES);
            msg' = Some (memcpy (the msg) 0 out)
        in if rc \<noteq> 0 then (-1, msg', msg_len)
           else (0, msg', Some (length out)))"

section \<open>ML-DSA-65 identity keys\<close>

record mldsa_keypair_t =
  mldsa_public_key :: bytes
  mldsa_secret_key :: "bytes ptr"

definition mldsa_keypair_zero :: mldsa_keypair_t where
  "mldsa_keypair_zero = \<lparr>mldsa_public_key = zeros MLDSA_PUBLIC_KEY_BYTES, mldsa_secret_key = NULL\<rparr>"

definition mldsa_keypair_generate ::
  "oqs \<Rightarrow> env \<Rightarrow> nat \<Rightarrow> mldsa_keypair_t ptr \<Rightarrow> int \<times> mldsa_keypair_t ptr" where
  "mldsa_keypair_generate oq e k kp =
     (case kp of NULL \<Rightarrow> (-1, NULL)
      | Some _ \<Rightarrow>
        (case OQS_SIG_new oq of NULL \<Rightarrow> (-1, Some mldsa_keypair_zero)
         | Some sig \<Rightarrow>
           if length_public_key sig \<noteq> MLDSA_PUBLIC_KEY_BYTES \<or>
              length_secret_key sig \<noteq> MLDSA_SECRET_KEY_BYTES
           then (-1, Some mldsa_keypair_zero)
           else (case secure_mem_alloc e k MLDSA_SECRET_KEY_BYTES of
                   NULL \<Rightarrow> (-1, Some mldsa_keypair_zero)
                 | Some _ \<Rightarrow>
                   let (rc, public_key, secret_key) = OQS_SIG_keypair oq (oqs_coins e k)
                   in if rc \<noteq> 0 then (-1, Some mldsa_keypair_zero)
                      else (0, Some \<lparr>mldsa_public_key = public_key,
                                     mldsa_secret_key = Some secret_key\<rparr>))))"

definition mldsa_keypair_free :: "mldsa_keypair_t ptr \<Rightarrow> mldsa_keypair_t ptr" where
  "mldsa_keypair_free kp =
     (case kp of NULL \<Rightarrow> NULL
      | Some k \<Rightarrow>
        let k = (case mldsa_secret_key k of NULL \<Rightarrow> k | Some _ \<Rightarrow> k\<lparr>mldsa_secret_key := NULL\<rparr>)
        in Some (k\<lparr>mldsa_public_key := zeros MLDSA_PUBLIC_KEY_BYTES\<rparr>))"

definition mldsa_sign ::
  "oqs \<Rightarrow> env \<Rightarrow> nat \<Rightarrow> bytes ptr \<Rightarrow> nat ptr \<Rightarrow> bytes ptr \<Rightarrow> nat \<Rightarrow> mldsa_keypair_t ptr \<Rightarrow>
   int \<times> bytes ptr \<times> nat ptr" where
  "mldsa_sign oq e k sig_out sig_len msg msg_len kp =
     (if sig_out = NULL \<or> sig_len = NULL \<or> kp = NULL \<or> mldsa_secret_key (the kp) = NULL
      then (-1, sig_out, sig_len)
      else if msg = NULL \<and> msg_len \<noteq> 0 then (-1, sig_out, sig_len)
      else
        (case OQS_SIG_new oq of NULL \<Rightarrow> (-1, sig_out, sig_len)
         | Some sig \<Rightarrow>
           if length_signature sig \<noteq> MLDSA_SIGNATURE_MAX_BYTES then (-1, sig_out, sig_len)
           else
             let (rc, out) = OQS_SIG_sign oq (oqs_coins e k) (deref msg msg_len)
                               (the (mldsa_secret_key (the kp)));
                 sig_out' = Some (memcpy (the sig_out) 0 out)
             in if rc \<noteq> 0 then (-1, sig_out', sig_len)
                else (0, sig_out', Some (length out))))"

definition mldsa_verify ::
  "oqs \<Rightarrow> bytes ptr \<Rightarrow> nat \<Rightarrow> bytes ptr \<Rightarrow> nat \<Rightarrow> bytes ptr \<Rightarrow> int" where
  "mldsa_verify oq msg msg_len sig_bytes sig_len public_key =
     (if sig_bytes = NULL \<or> public_key = NULL then -1
      else if msg = NULL \<and> msg_len \<noteq> 0 then -1
      else
        (case OQS_SIG_new oq of NULL \<Rightarrow> -1
         | Some _ \<Rightarrow>
           let rc = OQS_SIG_verify oq (deref msg msg_len) (deref sig_bytes sig_len)
                      (deref public_key MLDSA_PUBLIC_KEY_BYTES)
           in if rc = 0 then 0 else -1))"

section \<open>ML-KEM-768\<close>

record mlkem_keypair_t =
  mlkem_public_key :: bytes
  mlkem_secret_key :: "bytes ptr"

definition mlkem_keypair_zero :: mlkem_keypair_t where
  "mlkem_keypair_zero = \<lparr>mlkem_public_key = zeros MLKEM_PUBLIC_KEY_BYTES, mlkem_secret_key = NULL\<rparr>"

definition kem_new_checked :: "oqs \<Rightarrow> oqs_kem_info ptr" where
  "kem_new_checked oq =
     (case OQS_KEM_new oq of NULL \<Rightarrow> NULL
      | Some kem \<Rightarrow>
        if kem_length_public_key kem \<noteq> MLKEM_PUBLIC_KEY_BYTES \<or>
           kem_length_secret_key kem \<noteq> MLKEM_SECRET_KEY_BYTES \<or>
           kem_length_ciphertext kem \<noteq> MLKEM_CIPHERTEXT_BYTES \<or>
           kem_length_shared_secret kem \<noteq> MLKEM_SHARED_SECRET_BYTES
        then NULL else Some kem)"

definition mlkem_keypair_generate ::
  "oqs \<Rightarrow> env \<Rightarrow> nat \<Rightarrow> mlkem_keypair_t ptr \<Rightarrow> int \<times> mlkem_keypair_t ptr" where
  "mlkem_keypair_generate oq e k kp =
     (case kp of NULL \<Rightarrow> (-1, NULL)
      | Some _ \<Rightarrow>
        (case kem_new_checked oq of NULL \<Rightarrow> (-1, Some mlkem_keypair_zero)
         | Some _ \<Rightarrow>
           (case secure_mem_alloc e k MLKEM_SECRET_KEY_BYTES of
              NULL \<Rightarrow> (-1, Some mlkem_keypair_zero)
            | Some _ \<Rightarrow>
              let (rc, public_key, secret_key) = OQS_KEM_keypair oq (oqs_coins e k)
              in if rc \<noteq> 0 then (-1, Some mlkem_keypair_zero)
                 else (0, Some \<lparr>mlkem_public_key = public_key,
                                mlkem_secret_key = Some secret_key\<rparr>))))"

definition mlkem_keypair_free :: "mlkem_keypair_t ptr \<Rightarrow> mlkem_keypair_t ptr" where
  "mlkem_keypair_free kp =
     (case kp of NULL \<Rightarrow> NULL
      | Some k \<Rightarrow>
        let k = (case mlkem_secret_key k of NULL \<Rightarrow> k | Some _ \<Rightarrow> k\<lparr>mlkem_secret_key := NULL\<rparr>)
        in Some (k\<lparr>mlkem_public_key := zeros MLKEM_PUBLIC_KEY_BYTES\<rparr>))"

definition mlkem_encaps ::
  "oqs \<Rightarrow> env \<Rightarrow> nat \<Rightarrow> bytes ptr \<Rightarrow> bytes ptr \<Rightarrow> bytes ptr \<Rightarrow> int \<times> bytes ptr \<times> bytes ptr" where
  "mlkem_encaps oq e k ct ss ek =
     (if ct = NULL \<or> ss = NULL then (-1, ct, ss)
      else
        let fail = (-1, Some (zeros MLKEM_CIPHERTEXT_BYTES), Some (zeros MLKEM_SHARED_SECRET_BYTES))
        in (case ek of NULL \<Rightarrow> fail
            | Some ek \<Rightarrow>
              (case kem_new_checked oq of NULL \<Rightarrow> fail
               | Some _ \<Rightarrow>
                 let (rc, ct', ss') = OQS_KEM_encaps oq (oqs_coins e k) ek
                 in if rc \<noteq> 0 then fail else (0, Some ct', Some ss'))))"

definition mlkem_decaps ::
  "oqs \<Rightarrow> bytes ptr \<Rightarrow> bytes ptr \<Rightarrow> mlkem_keypair_t ptr \<Rightarrow> int \<times> bytes ptr" where
  "mlkem_decaps oq ss ct kp =
     (if ss = NULL then (-1, ss)
      else
        let fail = (-1, Some (zeros MLKEM_SHARED_SECRET_BYTES))
        in if ct = NULL \<or> kp = NULL \<or> mlkem_secret_key (the kp) = NULL then fail
           else (case kem_new_checked oq of NULL \<Rightarrow> fail
                 | Some _ \<Rightarrow>
                   let (rc, ss') = OQS_KEM_decaps oq (the ct) (the (mlkem_secret_key (the kp)))
                   in if rc \<noteq> 0 then fail else (0, Some ss')))"

section \<open>X25519, HKDF and the hybrid key schedule\<close>

record kex_keypair_t =
  kex_public_key :: bytes
  kex_private_key :: "bytes ptr"

definition kex_keypair_zero :: kex_keypair_t where
  "kex_keypair_zero = \<lparr>kex_public_key = zeros KEX_PUBLIC_KEY_BYTES, kex_private_key = NULL\<rparr>"

definition kex_keypair_generate ::
  "sodium \<Rightarrow> env \<Rightarrow> nat \<Rightarrow> kex_keypair_t ptr \<Rightarrow> int \<times> kex_keypair_t ptr" where
  "kex_keypair_generate so e k kp =
     (case kp of NULL \<Rightarrow> (-1, NULL)
      | Some _ \<Rightarrow>
        (case secure_mem_alloc e k KEX_PRIVATE_KEY_BYTES of
           NULL \<Rightarrow> (-1, Some kex_keypair_zero)
         | Some _ \<Rightarrow>
           let sk = randombytes_buf e k KEX_PRIVATE_KEY_BYTES;
               (rc, public_key) = crypto_scalarmult_base so sk
           in if rc \<noteq> 0 then (-1, Some kex_keypair_zero)
              else (0, Some \<lparr>kex_public_key = public_key, kex_private_key = Some sk\<rparr>)))"

definition kex_keypair_free :: "kex_keypair_t ptr \<Rightarrow> kex_keypair_t ptr" where
  "kex_keypair_free kp =
     (case kp of NULL \<Rightarrow> NULL
      | Some k \<Rightarrow>
        let k = (case kex_private_key k of NULL \<Rightarrow> k | Some _ \<Rightarrow> k\<lparr>kex_private_key := NULL\<rparr>)
        in Some (k\<lparr>kex_public_key := zeros KEX_PUBLIC_KEY_BYTES\<rparr>))"

definition kex_shared_secret ::
  "sodium \<Rightarrow> bytes ptr \<Rightarrow> kex_keypair_t ptr \<Rightarrow> bytes ptr \<Rightarrow> int \<times> bytes ptr" where
  "kex_shared_secret so shared_secret kp peer_public_key =
     (if shared_secret = NULL \<or> kp = NULL \<or> kex_private_key (the kp) = NULL \<or>
         peer_public_key = NULL
      then (-1, shared_secret)
      else
        let (rc, tmp) = crypto_scalarmult so (the (kex_private_key (the kp))) (the peer_public_key)
        in if rc \<noteq> 0 then (-1, shared_secret)
           else (0, Some (memcpy (the shared_secret) 0 tmp)))"

definition kex_hkdf_sha256 ::
  "sodium \<Rightarrow> bytes ptr \<Rightarrow> nat \<Rightarrow> bytes ptr \<Rightarrow> nat \<Rightarrow> bytes ptr \<Rightarrow> nat \<Rightarrow> bytes ptr \<Rightarrow> nat \<Rightarrow>
   int \<times> bytes ptr" where
  "kex_hkdf_sha256 so okm okm_len ikm ikm_len salt salt_len info info_len =
     (if okm = NULL \<or> ikm = NULL then (-1, okm)
      else if salt = NULL \<and> salt_len \<noteq> 0 then (-1, okm)
      else if info = NULL \<and> info_len \<noteq> 0 then (-1, okm)
      else if okm_len > HKDF_SHA256_BYTES_MAX then (-1, okm)
      else
        let (rc, prk) = hkdf_sha256_extract so (deref salt salt_len) (deref ikm ikm_len)
        in if rc \<noteq> 0 then (-1, okm)
           else
             let (rc, out) = hkdf_sha256_expand so okm_len (deref info info_len) prk;
                 okm' = Some (memcpy (the okm) 0 out)
             in if rc = 0 then (0, okm') else (-1, okm'))"

definition KEX_KDF_V2_LABEL :: bytes where
  "KEX_KDF_V2_LABEL = ascii ''mldsa-auth/v2/kdf''"

definition kex_build_kdf_info_v2 ::
  "bytes ptr \<Rightarrow> nat \<Rightarrow> nat ptr \<Rightarrow> bytes ptr \<Rightarrow> nat \<Rightarrow> bytes ptr \<Rightarrow> nat \<Rightarrow> bytes ptr \<Rightarrow> byte \<Rightarrow>
   int \<times> bytes ptr \<times> nat ptr" where
  "kex_build_kdf_info_v2 out out_cap out_len a_id a_id_len b_id b_id_len th_client_auth direction =
     (let label_len = length KEX_KDF_V2_LABEL in
      if out = NULL \<or> out_len = NULL \<or> a_id = NULL \<or> b_id = NULL \<or> th_client_auth = NULL
      then (-1, out, out_len)
      else if a_id_len < KEX_ID_MIN_LEN \<or> a_id_len > KEX_ID_MAX_LEN then (-1, out, out_len)
      else if b_id_len < KEX_ID_MIN_LEN \<or> b_id_len > KEX_ID_MAX_LEN then (-1, out, out_len)
      else if direction \<noteq> KEX_DIR_C2S \<and> direction \<noteq> KEX_DIR_S2C then (-1, out, out_len)
      else
        let needed = label_len + 1 + 1 + a_id_len + 1 + b_id_len + KEX_TRANSCRIPT_HASH_BYTES + 1
        in if out_cap < needed then (-1, out, out_len)
           else
             let b = the out; off = 0;
                 b = memcpy b off KEX_KDF_V2_LABEL; off = off + label_len;
                 b = memcpy b off [0x00]; off = off + 1;
                 b = memcpy b off [of_nat a_id_len]; off = off + 1;
                 b = memcpy b off (take a_id_len (the a_id)); off = off + a_id_len;
                 b = memcpy b off [of_nat b_id_len]; off = off + 1;
                 b = memcpy b off (take b_id_len (the b_id)); off = off + b_id_len;
                 b = memcpy b off (take KEX_TRANSCRIPT_HASH_BYTES (the th_client_auth));
                 off = off + KEX_TRANSCRIPT_HASH_BYTES;
                 b = memcpy b off [direction]; off = off + 1
             in (0, Some b, Some off))"

definition kex_derive_session_key_v2 ::
  "sodium \<Rightarrow> bytes ptr \<Rightarrow> bytes ptr \<Rightarrow> bytes ptr \<Rightarrow> bytes ptr \<Rightarrow> nat \<Rightarrow> bytes ptr \<Rightarrow> nat \<Rightarrow>
   bytes ptr \<Rightarrow> nat \<Rightarrow> bytes ptr \<Rightarrow> byte \<Rightarrow> int \<times> bytes ptr" where
  "kex_derive_session_key_v2 so session_key ss_x ss_k session_id session_id_len
       a_id a_id_len b_id b_id_len th_client_auth direction =
     (if session_key = NULL \<or> ss_x = NULL \<or> ss_k = NULL \<or> session_id = NULL
      then (-1, session_key)
      else if session_id_len \<noteq> KEX_SESSION_ID_LEN then (-1, session_key)
      else
        let (rc, info, info_len) =
              kex_build_kdf_info_v2 (Some (zeros KEX_KDF_V2_INFO_MAX_LEN)) KEX_KDF_V2_INFO_MAX_LEN
                (Some 0) a_id a_id_len b_id b_id_len th_client_auth direction
        in if rc \<noteq> 0 then (-1, session_key)
           else
             let ikm = zeros (2 * KEX_SHARED_SECRET_BYTES);
                 ikm = memcpy ikm 0 (take KEX_SHARED_SECRET_BYTES (the ss_x));
                 ikm = memcpy ikm KEX_SHARED_SECRET_BYTES (take KEX_SHARED_SECRET_BYTES (the ss_k));
                 (rc, okm) = kex_hkdf_sha256 so (Some (zeros KEX_SESSION_KEY_BYTES))
                   KEX_SESSION_KEY_BYTES (Some ikm) (length ikm) session_id session_id_len
                   info (the info_len)
             in if rc \<noteq> 0 then (-1, session_key)
                else (0, Some (memcpy (the session_key) 0 (the okm))))"

section \<open>Lemmas\<close>

lemma length_KEX_KDF_V2_LABEL [simp]: "length KEX_KDF_V2_LABEL = 17"
  by (simp add: KEX_KDF_V2_LABEL_def ascii_def)

lemma deref_Some [simp]: "deref (Some b) n = take n b"
  by (simp add: deref_def)

lemma secure_mem_wipe_Some:
  "length b = len \<Longrightarrow> secure_mem_wipe (Some b) len = Some (zeros len)"
  by (auto simp: secure_mem_wipe_def)

lemma keypair_free_zero [simp]:
  "mldsa_keypair_free (Some kp) = Some mldsa_keypair_zero"
  "mlkem_keypair_free (Some km) = Some mlkem_keypair_zero"
  "kex_keypair_free (Some kx) = Some kex_keypair_zero"
  by (auto simp: mldsa_keypair_free_def mldsa_keypair_zero_def mlkem_keypair_free_def
      mlkem_keypair_zero_def kex_keypair_free_def kex_keypair_zero_def split: option.splits)

subsection \<open>The KDF info string\<close>

text \<open>The bytes that \<open>kex_build_kdf_info_v2\<close> writes, as one concatenation.\<close>

definition kdf_info :: "bytes \<Rightarrow> bytes \<Rightarrow> bytes \<Rightarrow> byte \<Rightarrow> bytes" where
  "kdf_info a b th d =
     KEX_KDF_V2_LABEL @ [0] @ [of_nat (length a)] @ a @ [of_nat (length b)] @ b @ th @ [d]"

definition kdf_args_ok :: "bytes \<Rightarrow> bytes \<Rightarrow> bytes \<Rightarrow> byte \<Rightarrow> bool" where
  "kdf_args_ok a b th d \<longleftrightarrow>
     1 \<le> length a \<and> length a \<le> 64 \<and> 1 \<le> length b \<and> length b \<le> 64 \<and> length th = 32 \<and>
     (d = KEX_DIR_C2S \<or> d = KEX_DIR_S2C)"

lemma length_kdf_info [simp]:
  "length (kdf_info a b th d) = 21 + length a + length b + length th"
  by (simp add: kdf_info_def)

lemma kex_build_kdf_info_v2_ok:
  assumes "kdf_args_ok a b th d" "length (kdf_info a b th d) \<le> cap" "cap \<le> length out"
  shows "kex_build_kdf_info_v2 (Some out) cap (Some n) (Some a) (length a) (Some b) (length b)
           (Some th) d =
         (0, Some (memcpy out 0 (kdf_info a b th d)), Some (length (kdf_info a b th d)))"
proof -
  have "out \<noteq> []" using assms by auto
  moreover have "memcpy out 0 KEX_KDF_V2_LABEL =
      memcpy (memcpy out 0 []) 0 KEX_KDF_V2_LABEL" by (simp add: memcpy_def)
  ultimately show ?thesis
    using assms
    by (auto simp: kex_build_kdf_info_v2_def kdf_args_ok_def Let_def memcpy_append kdf_info_def)
qed

lemma kdf_info_inj:
  assumes "length a \<le> 64" "length a' \<le> 64" "length b \<le> 64" "length b' \<le> 64"
    "length th = 32" "length th' = 32" "kdf_info a b th d = kdf_info a' b' th' d'"
  shows "a = a' \<and> b = b' \<and> th = th' \<and> d = d'"
proof -
  have eq: "[of_nat (length a)] @ a @ [of_nat (length b)] @ b @ th @ [d] =
      [of_nat (length a')] @ a' @ [of_nat (length b')] @ b' @ th' @ [d']"
    using assms(7) by (simp add: kdf_info_def)
  then have la: "length a = length a'"
    using assms(1,2) by simp
  with eq have a: "a = a'"
    and eq2: "[of_nat (length b)] @ b @ th @ [d] = [of_nat (length b')] @ b' @ th' @ [d']"
    by simp_all
  from eq2 have "length b = length b'"
    using assms(3,4) by simp
  with eq2 have "b = b'" and "th @ [d] = th' @ [d']"
    by simp_all
  with a assms(5,6) show ?thesis by simp
qed

lemma kex_build_kdf_info_v2_success:
  assumes "kex_build_kdf_info_v2 (Some out) cap (Some n) (Some a) (length a) (Some b) (length b)
             (Some th) d = (0, o1, l1)"
    and "length th = 32" "cap \<le> length out"
  shows "kdf_args_ok a b th d" "length (kdf_info a b th d) \<le> cap"
    "o1 = Some (memcpy out 0 (kdf_info a b th d))" "l1 = Some (length (kdf_info a b th d))"
proof -
  show *: "kdf_args_ok a b th d" "length (kdf_info a b th d) \<le> cap"
    using assms
    by (auto simp: kex_build_kdf_info_v2_def kdf_args_ok_def Let_def Suc_le_eq split: if_splits)
  from kex_build_kdf_info_v2_ok [OF this assms(3)] assms(1)
  show "o1 = Some (memcpy out 0 (kdf_info a b th d))" "l1 = Some (length (kdf_info a b th d))"
    by simp_all
qed

lemma kex_build_kdf_info_v2_rc:
  "kex_build_kdf_info_v2 out cap n a al b bl th d = (rc, o1, l1) \<Longrightarrow>
   rc = 0 \<or> rc = -1 \<and> o1 = out \<and> l1 = n"
  by (auto simp: kex_build_kdf_info_v2_def Let_def split: if_splits)

text \<open>
  C21. The KDF info string binds every input: if two calls of \<open>kex_build_kdf_info_v2\<close> succeed and
  write the same bytes, they had the same initiator identity, responder identity, transcript hash
  and direction; and the length written lies within the bounds 55 and 181 of the header.
\<close>

theorem kdf_info_binding:
  assumes "kex_build_kdf_info_v2 (Some out) cap (Some n) (Some a) (length a) (Some b) (length b)
             (Some th) d = (0, Some o1, Some l1)"
    and "kex_build_kdf_info_v2 (Some out') cap' (Some n') (Some a') (length a') (Some b') (length b')
             (Some th') d' = (0, Some o2, Some l2)"
    and "length th = 32" "length th' = 32" "cap \<le> length out" "cap' \<le> length out'"
    and "take l1 o1 = take l2 o2"
  shows "a = a' \<and> b = b' \<and> th = th' \<and> d = d' \<and>
         KEX_KDF_V2_INFO_MIN_LEN \<le> l1 \<and> l1 \<le> KEX_KDF_V2_INFO_MAX_LEN"
proof -
  note s1 = kex_build_kdf_info_v2_success [OF assms(1,3,5)]
  note s2 = kex_build_kdf_info_v2_success [OF assms(2,4,6)]
  from s1 s2 assms(7) have "kdf_info a b th d = kdf_info a' b' th' d'" by auto
  moreover have "length a \<le> 64" "length a' \<le> 64" "length b \<le> 64" "length b' \<le> 64"
    using s1(1) s2(1) by (simp_all add: kdf_args_ok_def)
  ultimately have "a = a' \<and> b = b' \<and> th = th' \<and> d = d'"
    using assms(3,4) by (intro kdf_info_inj) simp_all
  moreover have "55 \<le> l1 \<and> l1 \<le> 181"
    using s1 assms(3) by (auto simp: kdf_args_ok_def)
  ultimately show ?thesis by blast
qed

theorem kdf_info_binding_witness:
  "\<exists>o1 l1. kex_build_kdf_info_v2 (Some (zeros 181)) 181 (Some 0) (Some [1]) (length [1::byte])
       (Some [2]) (length [2::byte]) (Some (zeros 32)) KEX_DIR_C2S = (0, Some o1, Some l1) \<and>
     KEX_KDF_V2_INFO_MIN_LEN \<le> l1 \<and> l1 \<le> KEX_KDF_V2_INFO_MAX_LEN"
proof -
  have ok: "kex_build_kdf_info_v2 (Some (zeros 181)) 181 (Some 0) (Some [1]) (length [1::byte])
      (Some [2]) (length [2::byte]) (Some (zeros 32)) KEX_DIR_C2S =
      (0, Some (memcpy (zeros 181) 0 (kdf_info [1] [2] (zeros 32) KEX_DIR_C2S)), Some 55)"
    by (subst kex_build_kdf_info_v2_ok) (simp_all add: kdf_args_ok_def)
  then show ?thesis
    using kdf_info_binding [OF ok ok] by auto
qed

subsection \<open>The session key\<close>

text \<open>
  The key schedule of one direction as a function of its inputs: HKDF-SHA256 over the two shared
  secrets in this order, with the session identifier as salt.
\<close>

definition hkdf_session_key ::
  "sodium \<Rightarrow> bytes \<Rightarrow> bytes \<Rightarrow> bytes \<Rightarrow> bytes \<Rightarrow> bytes option" where
  "hkdf_session_key so ss_x ss_k session_id info =
     (let (rc, prk) = hkdf_sha256_extract so session_id (ss_x @ ss_k);
          (rc2, okm) = hkdf_sha256_expand so KEX_SESSION_KEY_BYTES info prk
      in if rc = 0 \<and> rc2 = 0 then Some (memcpy (zeros KEX_SESSION_KEY_BYTES) 0 okm) else None)"

lemma kex_derive_session_key_v2_eq:
  assumes "length ss_x = 32" "length ss_k = 32" "length sid = 16" "kdf_args_ok a b th d"
  shows "kex_derive_session_key_v2 so (Some key) (Some ss_x) (Some ss_k) (Some sid) 16
           (Some a) (length a) (Some b) (length b) (Some th) d =
         (case hkdf_session_key so ss_x ss_k sid (kdf_info a b th d) of
            None \<Rightarrow> (-1, Some key)
          | Some okm \<Rightarrow> (0, Some (memcpy key 0 okm)))"
proof -
  have len: "length (kdf_info a b th d) \<le> 181"
    using assms(4) by (simp add: kdf_args_ok_def)
  have info: "kex_build_kdf_info_v2 (Some (zeros 181)) 181 (Some 0) (Some a) (length a)
      (Some b) (length b) (Some th) d =
      (0, Some (memcpy (zeros 181) 0 (kdf_info a b th d)), Some (length (kdf_info a b th d)))"
    using assms(4) len by (rule kex_build_kdf_info_v2_ok) simp
  have ikm: "memcpy (memcpy (zeros 64) 0 ss_x) 32 ss_k = ss_x @ ss_k"
    using assms(1,2) by (simp add: memcpy_append)
  show ?thesis
    using assms(1-3) len
    by (simp add: kex_derive_session_key_v2_def info ikm kex_hkdf_sha256_def hkdf_session_key_def
        Let_def split_beta)
qed

end
