(* ===== verification/Sample_Crypto.thy ===== *)
theory Sample_Crypto
  imports Primitives
begin

text \<open>
  A concrete instance of the third-party primitives. It is no cryptography: each function is the
  simplest total function with the documented lengths and algebra (decryption inverts encryption,
  the two sides of a key agreement meet, a signature verifies on what was signed). Its only use is
  to show that hypotheses on the primitives can be met, on inputs that evaluate.
\<close>

definition fit :: "nat \<Rightarrow> bytes \<Rightarrow> bytes" where
  "fit n b = take n (b @ zeros n)"

lemma length_fit [simp]: "length (fit n b) = n"
  by (simp add: fit_def)

lemma fit_id [simp]: "length b = n \<Longrightarrow> fit n b = b"
  by (simp add: fit_def)

definition mix_bytes :: "bytes \<Rightarrow> bytes \<Rightarrow> bytes" where
  "mix_bytes a b = map2 (+) (fit 32 a) (fit 32 b)"

lemma length_mix_bytes [simp]: "length (mix_bytes a b) = 32"
  by (simp add: mix_bytes_def)

lemma mix_bytes_commute: "mix_bytes a b = mix_bytes b a"
proof -
  have "map2 (+) xs ys = map2 (+) ys xs" for xs ys :: bytes
    by (induction xs ys rule: list_induct2') (simp_all add: add.commute)
  then show ?thesis by (simp add: mix_bytes_def)
qed

definition sample_sodium :: sodium where
  "sample_sodium = \<lparr>
     crypto_hash_sha256 = \<lambda>x. (0, fit 32 (of_nat (length x) # x)),
     crypto_scalarmult_base = \<lambda>sk. (0, fit 32 sk),
     crypto_scalarmult = \<lambda>sk pk. (0, mix_bytes sk pk),
     hkdf_sha256_extract = \<lambda>salt ikm. (0, fit 32 ikm),
     hkdf_sha256_expand = \<lambda>n info prk. (0, fit n (drop 18 info)),
     chacha20poly1305_ietf_encrypt = \<lambda>m ad n k. (0, m @ zeros 16),
     chacha20poly1305_ietf_decrypt = \<lambda>c ad n k.
       (if drop (length c - 16) c = zeros 16 then (0, take (length c - 16) c) else (-1, []))\<rparr>"

definition sample_oqs :: oqs where
  "sample_oqs = \<lparr>
     OQS_SIG_new = Some \<lparr>length_public_key = 1952, length_secret_key = 4032, length_signature = 3309\<rparr>,
     OQS_SIG_keypair = \<lambda>coins. (0, fit 1952 coins, fit 4032 coins),
     OQS_SIG_sign = \<lambda>coins m sk. (0, 1 # take 32 m),
     OQS_SIG_verify = \<lambda>m sig pk. (if sig = 1 # take 32 m then 0 else -1),
     OQS_KEM_new = Some \<lparr>kem_length_public_key = 1184, kem_length_secret_key = 2400,
       kem_length_ciphertext = 1088, kem_length_shared_secret = 32\<rparr>,
     OQS_KEM_keypair = \<lambda>coins. (0, fit 1184 coins, fit 2400 coins),
     OQS_KEM_encaps = \<lambda>coins ek. (0, fit 1088 coins, fit 32 coins),
     OQS_KEM_decaps = \<lambda>ct dk. (0, fit 32 ct)\<rparr>"

definition sample_crypto :: crypto where
  "sample_crypto = \<lparr>sodium = sample_sodium, liboqs = sample_oqs\<rparr>"

definition sample_env :: env where
  "sample_env = \<lparr>
     sodium_malloc = \<lambda>k n. Some (zeros n),
     randombytes_buf = \<lambda>k n. fit n [of_nat k],
     oqs_coins = \<lambda>k. [of_nat k],
     clock_ms = \<lambda>k. of_nat k\<rparr>"

lemmas sample_defs = sample_sodium_def sample_oqs_def sample_crypto_def sample_env_def

end
