(* ===== verification/Transcript.thy ===== *)
theory Transcript
  imports Sample_Crypto
begin

text \<open>
  The handshake wire format and transcript hashes: \<open>src/protocol/transcript.c\<close> and
  \<open>transcript.h\<close>. The three message structs keep the C layout, a fixed-size array with a length
  field for the identity and the signature. Encoders take the output buffer with its capacity and
  return the buffer after the call; decoders return the struct after the call. A \<open>goto fail\<close> is
  the value \<open>fail\<close>, which has the struct zeroed and \<open>consumed\<close> unset.

  The lemmas show that each decoder accepts exactly the encodings of well-formed messages (the
  \<open>wire_codec\<close> interface), that encoders validate before they write and never write past the
  encoded length, and that the strings the transcript hashes are taken over are unambiguous: the
  label separates the three domains, and within a domain the string determines both messages.
\<close>

abbreviation (input) WIRE_ID_MIN_LEN :: nat where "WIRE_ID_MIN_LEN \<equiv> 1"
abbreviation (input) WIRE_ID_MAX_LEN :: nat where "WIRE_ID_MAX_LEN \<equiv> 64"
abbreviation (input) WIRE_X25519_PUB_LEN :: nat where "WIRE_X25519_PUB_LEN \<equiv> 32"
abbreviation (input) WIRE_MLKEM_EK_LEN :: nat where "WIRE_MLKEM_EK_LEN \<equiv> 1184"
abbreviation (input) WIRE_MLKEM_CT_LEN :: nat where "WIRE_MLKEM_CT_LEN \<equiv> 1088"
abbreviation (input) WIRE_SESSION_ID_LEN :: nat where "WIRE_SESSION_ID_LEN \<equiv> 16"
abbreviation (input) WIRE_NONCE_LEN :: nat where "WIRE_NONCE_LEN \<equiv> 32"
abbreviation (input) WIRE_HANDSHAKE_ID_LEN :: nat where "WIRE_HANDSHAKE_ID_LEN \<equiv> 16"
abbreviation (input) MSG_TYPE_CLIENT_HELLO :: byte where "MSG_TYPE_CLIENT_HELLO \<equiv> 0x01"
abbreviation (input) MSG_TYPE_SERVER_HELLO :: byte where "MSG_TYPE_SERVER_HELLO \<equiv> 0x02"
abbreviation (input) MSG_TYPE_CLIENT_AUTH :: byte where "MSG_TYPE_CLIENT_AUTH \<equiv> 0x03"
abbreviation (input) CLIENT_HELLO_MAX_ENCODED_LEN :: nat where "CLIENT_HELLO_MAX_ENCODED_LEN \<equiv> 1330"
abbreviation (input) SERVER_HELLO_UNSIGNED_MAX_ENCODED_LEN :: nat where
  "SERVER_HELLO_UNSIGNED_MAX_ENCODED_LEN \<equiv> 1234"
abbreviation (input) SERVER_HELLO_MAX_ENCODED_LEN :: nat where "SERVER_HELLO_MAX_ENCODED_LEN \<equiv> 4545"
abbreviation (input) CLIENT_AUTH_MAX_ENCODED_LEN :: nat where "CLIENT_AUTH_MAX_ENCODED_LEN \<equiv> 3328"

section \<open>Messages\<close>

record client_hello_t =
  ch_id :: bytes
  ch_id_len :: byte
  ch_ephemeral_pub :: bytes
  ch_mlkem_ek :: bytes
  ch_session_id :: bytes
  ch_nonce :: bytes

record server_hello_t =
  sh_id :: bytes
  sh_id_len :: byte
  sh_ephemeral_pub :: bytes
  sh_mlkem_ct :: bytes
  sh_nonce :: bytes
  sh_session_id_echo :: bytes
  sh_sig :: bytes
  sh_sig_len :: u16

record client_auth_t =
  ca_handshake_id :: bytes
  ca_sig :: bytes
  ca_sig_len :: u16

definition client_hello_zero :: client_hello_t where
  "client_hello_zero =
     \<lparr>ch_id = zeros WIRE_ID_MAX_LEN, ch_id_len = 0, ch_ephemeral_pub = zeros WIRE_X25519_PUB_LEN,
      ch_mlkem_ek = zeros WIRE_MLKEM_EK_LEN, ch_session_id = zeros WIRE_SESSION_ID_LEN,
      ch_nonce = zeros WIRE_NONCE_LEN\<rparr>"

definition server_hello_zero :: server_hello_t where
  "server_hello_zero =
     \<lparr>sh_id = zeros WIRE_ID_MAX_LEN, sh_id_len = 0, sh_ephemeral_pub = zeros WIRE_X25519_PUB_LEN,
      sh_mlkem_ct = zeros WIRE_MLKEM_CT_LEN, sh_nonce = zeros WIRE_NONCE_LEN,
      sh_session_id_echo = zeros WIRE_SESSION_ID_LEN, sh_sig = zeros MLDSA_SIGNATURE_MAX_BYTES,
      sh_sig_len = 0\<rparr>"

definition client_auth_zero :: client_auth_t where
  "client_auth_zero =
     \<lparr>ca_handshake_id = zeros WIRE_HANDSHAKE_ID_LEN, ca_sig = zeros MLDSA_SIGNATURE_MAX_BYTES,
      ca_sig_len = 0\<rparr>"

section \<open>Encoders\<close>

definition client_hello_encoded_len :: "byte \<Rightarrow> nat" where
  "client_hello_encoded_len id_len =
     1 + 1 + unat id_len + WIRE_X25519_PUB_LEN + WIRE_MLKEM_EK_LEN + WIRE_SESSION_ID_LEN +
     WIRE_NONCE_LEN"

definition server_hello_unsigned_encoded_len :: "byte \<Rightarrow> nat" where
  "server_hello_unsigned_encoded_len id_len =
     1 + 1 + unat id_len + WIRE_X25519_PUB_LEN + WIRE_MLKEM_CT_LEN + WIRE_NONCE_LEN +
     WIRE_SESSION_ID_LEN"

definition write_server_hello_unsigned_unchecked :: "server_hello_t \<Rightarrow> bytes \<Rightarrow> bytes" where
  "write_server_hello_unsigned_unchecked msg out =
     (let off = 0;
          out = wire_int_write_u8 out off MSG_TYPE_SERVER_HELLO; off = off + 1;
          out = wire_int_write_u8 out off (sh_id_len msg); off = off + 1;
          out = memcpy out off (take (unat (sh_id_len msg)) (sh_id msg));
          off = off + unat (sh_id_len msg);
          out = memcpy out off (sh_ephemeral_pub msg); off = off + WIRE_X25519_PUB_LEN;
          out = memcpy out off (sh_mlkem_ct msg); off = off + WIRE_MLKEM_CT_LEN;
          out = memcpy out off (sh_nonce msg); off = off + WIRE_NONCE_LEN
      in memcpy out off (sh_session_id_echo msg))"

definition transcript_server_hello_unsigned_len :: "byte \<Rightarrow> nat" where
  "transcript_server_hello_unsigned_len id_len =
     (if unat id_len < WIRE_ID_MIN_LEN \<or> unat id_len > WIRE_ID_MAX_LEN then 0
      else server_hello_unsigned_encoded_len id_len)"

definition encode_client_hello ::
  "client_hello_t ptr \<Rightarrow> bytes ptr \<Rightarrow> nat \<Rightarrow> nat ptr \<Rightarrow> int \<times> bytes ptr \<times> nat ptr" where
  "encode_client_hello msg out out_cap out_len =
     (if msg = NULL \<or> out = NULL \<or> out_len = NULL then (-1, out, out_len)
      else
        let m = the msg in
        if unat (ch_id_len m) < WIRE_ID_MIN_LEN \<or> unat (ch_id_len m) > WIRE_ID_MAX_LEN
        then (-1, out, out_len)
        else
          let needed = client_hello_encoded_len (ch_id_len m)
          in if out_cap < needed then (-1, out, out_len)
             else
               let o1 = the out; off = 0;
                   o1 = wire_int_write_u8 o1 off MSG_TYPE_CLIENT_HELLO; off = off + 1;
                   o1 = wire_int_write_u8 o1 off (ch_id_len m); off = off + 1;
                   o1 = memcpy o1 off (take (unat (ch_id_len m)) (ch_id m));
                   off = off + unat (ch_id_len m);
                   o1 = memcpy o1 off (ch_ephemeral_pub m); off = off + WIRE_X25519_PUB_LEN;
                   o1 = memcpy o1 off (ch_mlkem_ek m); off = off + WIRE_MLKEM_EK_LEN;
                   o1 = memcpy o1 off (ch_session_id m); off = off + WIRE_SESSION_ID_LEN;
                   o1 = memcpy o1 off (ch_nonce m); off = off + WIRE_NONCE_LEN
               in (0, Some o1, Some off))"

definition encode_server_hello_unsigned ::
  "server_hello_t ptr \<Rightarrow> bytes ptr \<Rightarrow> nat \<Rightarrow> nat ptr \<Rightarrow> int \<times> bytes ptr \<times> nat ptr" where
  "encode_server_hello_unsigned msg out out_cap out_len =
     (if msg = NULL \<or> out = NULL \<or> out_len = NULL then (-1, out, out_len)
      else
        let m = the msg in
        if unat (sh_id_len m) < WIRE_ID_MIN_LEN \<or> unat (sh_id_len m) > WIRE_ID_MAX_LEN
        then (-1, out, out_len)
        else
          let needed = server_hello_unsigned_encoded_len (sh_id_len m)
          in if out_cap < needed then (-1, out, out_len)
             else (0, Some (write_server_hello_unsigned_unchecked m (the out)), Some needed))"

definition encode_server_hello ::
  "server_hello_t ptr \<Rightarrow> bytes ptr \<Rightarrow> nat \<Rightarrow> nat ptr \<Rightarrow> int \<times> bytes ptr \<times> nat ptr" where
  "encode_server_hello msg out out_cap out_len =
     (if msg = NULL \<or> out = NULL \<or> out_len = NULL then (-1, out, out_len)
      else
        let m = the msg in
        if unat (sh_id_len m) < WIRE_ID_MIN_LEN \<or> unat (sh_id_len m) > WIRE_ID_MAX_LEN
        then (-1, out, out_len)
        else if unat (sh_sig_len m) < 1 \<or> unat (sh_sig_len m) > MLDSA_SIGNATURE_MAX_BYTES
        then (-1, out, out_len)
        else
          let unsigned_len = server_hello_unsigned_encoded_len (sh_id_len m);
              needed = unsigned_len + 2 + unat (sh_sig_len m)
          in if out_cap < needed then (-1, out, out_len)
             else
               let o1 = write_server_hello_unsigned_unchecked m (the out);
                   o1 = wire_int_write_u16 o1 unsigned_len (sh_sig_len m);
                   o1 = memcpy o1 (unsigned_len + 2) (take (unat (sh_sig_len m)) (sh_sig m))
               in (0, Some o1, Some needed))"

definition encode_client_auth ::
  "client_auth_t ptr \<Rightarrow> bytes ptr \<Rightarrow> nat \<Rightarrow> nat ptr \<Rightarrow> int \<times> bytes ptr \<times> nat ptr" where
  "encode_client_auth msg out out_cap out_len =
     (if msg = NULL \<or> out = NULL \<or> out_len = NULL then (-1, out, out_len)
      else
        let m = the msg in
        if unat (ca_sig_len m) < 1 \<or> unat (ca_sig_len m) > MLDSA_SIGNATURE_MAX_BYTES
        then (-1, out, out_len)
        else
          let needed = 1 + WIRE_HANDSHAKE_ID_LEN + 2 + unat (ca_sig_len m)
          in if out_cap < needed then (-1, out, out_len)
             else
               let o1 = the out; off = 0;
                   o1 = wire_int_write_u8 o1 off MSG_TYPE_CLIENT_AUTH; off = off + 1;
                   o1 = memcpy o1 off (ca_handshake_id m); off = off + WIRE_HANDSHAKE_ID_LEN;
                   o1 = wire_int_write_u16 o1 off (ca_sig_len m); off = off + 2;
                   o1 = memcpy o1 off (take (unat (ca_sig_len m)) (ca_sig m));
                   off = off + unat (ca_sig_len m)
               in (0, Some o1, Some off))"

section \<open>Decoders\<close>

definition decode_client_hello ::
  "bytes ptr \<Rightarrow> nat \<Rightarrow> client_hello_t ptr \<Rightarrow> nat ptr \<Rightarrow> int \<times> client_hello_t ptr \<times> nat ptr" where
  "decode_client_hello buf len out consumed =
     (if buf = NULL \<or> out = NULL \<or> consumed = NULL then (-1, out, consumed)
      else
        let b = the buf; m = client_hello_zero; off = 0;
            fail = (-1, Some client_hello_zero, consumed)
        in case wire_int_read_u8 b off (len - off) of
             None \<Rightarrow> fail
           | Some msg_type \<Rightarrow>
             let off = off + 1 in
             if msg_type \<noteq> MSG_TYPE_CLIENT_HELLO then fail
             else case wire_int_read_u8 b off (len - off) of
               None \<Rightarrow> fail
             | Some id_len \<Rightarrow>
               let off = off + 1 in
               if unat id_len < WIRE_ID_MIN_LEN \<or> unat id_len > WIRE_ID_MAX_LEN then fail
               else if len - off < unat id_len then fail
               else
                 let m = m\<lparr>ch_id := memcpy (ch_id m) 0 (bslice b off (unat id_len)),
                           ch_id_len := id_len\<rparr>;
                     off = off + unat id_len
                 in if len - off < WIRE_X25519_PUB_LEN + WIRE_MLKEM_EK_LEN + WIRE_SESSION_ID_LEN +
                         WIRE_NONCE_LEN
                    then fail
                    else
                      let m = m\<lparr>ch_ephemeral_pub := bslice b off WIRE_X25519_PUB_LEN\<rparr>;
                          off = off + WIRE_X25519_PUB_LEN;
                          m = m\<lparr>ch_mlkem_ek := bslice b off WIRE_MLKEM_EK_LEN\<rparr>;
                          off = off + WIRE_MLKEM_EK_LEN;
                          m = m\<lparr>ch_session_id := bslice b off WIRE_SESSION_ID_LEN\<rparr>;
                          off = off + WIRE_SESSION_ID_LEN;
                          m = m\<lparr>ch_nonce := bslice b off WIRE_NONCE_LEN\<rparr>;
                          off = off + WIRE_NONCE_LEN
                      in if off \<noteq> len then fail else (0, Some m, Some off))"

definition decode_server_hello ::
  "bytes ptr \<Rightarrow> nat \<Rightarrow> server_hello_t ptr \<Rightarrow> nat ptr \<Rightarrow> int \<times> server_hello_t ptr \<times> nat ptr" where
  "decode_server_hello buf len out consumed =
     (if buf = NULL \<or> out = NULL \<or> consumed = NULL then (-1, out, consumed)
      else
        let b = the buf; m = server_hello_zero; off = 0;
            fail = (-1, Some server_hello_zero, consumed)
        in case wire_int_read_u8 b off (len - off) of
             None \<Rightarrow> fail
           | Some msg_type \<Rightarrow>
             let off = off + 1 in
             if msg_type \<noteq> MSG_TYPE_SERVER_HELLO then fail
             else case wire_int_read_u8 b off (len - off) of
               None \<Rightarrow> fail
             | Some id_len \<Rightarrow>
               let off = off + 1 in
               if unat id_len < WIRE_ID_MIN_LEN \<or> unat id_len > WIRE_ID_MAX_LEN then fail
               else if len - off < unat id_len then fail
               else
                 let m = m\<lparr>sh_id := memcpy (sh_id m) 0 (bslice b off (unat id_len)),
                           sh_id_len := id_len\<rparr>;
                     off = off + unat id_len
                 in if len - off < WIRE_X25519_PUB_LEN + WIRE_MLKEM_CT_LEN + WIRE_NONCE_LEN +
                         WIRE_SESSION_ID_LEN
                    then fail
                    else
                      let m = m\<lparr>sh_ephemeral_pub := bslice b off WIRE_X25519_PUB_LEN\<rparr>;
                          off = off + WIRE_X25519_PUB_LEN;
                          m = m\<lparr>sh_mlkem_ct := bslice b off WIRE_MLKEM_CT_LEN\<rparr>;
                          off = off + WIRE_MLKEM_CT_LEN;
                          m = m\<lparr>sh_nonce := bslice b off WIRE_NONCE_LEN\<rparr>;
                          off = off + WIRE_NONCE_LEN;
                          m = m\<lparr>sh_session_id_echo := bslice b off WIRE_SESSION_ID_LEN\<rparr>;
                          off = off + WIRE_SESSION_ID_LEN
                      in case wire_int_read_u16 b off (len - off) of
                           None \<Rightarrow> fail
                         | Some sig_len \<Rightarrow>
                           let off = off + 2 in
                           if unat sig_len < 1 \<or> unat sig_len > MLDSA_SIGNATURE_MAX_BYTES then fail
                           else if len - off < unat sig_len then fail
                           else
                             let m = m\<lparr>sh_sig := memcpy (sh_sig m) 0 (bslice b off (unat sig_len)),
                                       sh_sig_len := sig_len\<rparr>;
                                 off = off + unat sig_len
                             in if off \<noteq> len then fail else (0, Some m, Some off))"

definition decode_client_auth ::
  "bytes ptr \<Rightarrow> nat \<Rightarrow> client_auth_t ptr \<Rightarrow> nat ptr \<Rightarrow> int \<times> client_auth_t ptr \<times> nat ptr" where
  "decode_client_auth buf len out consumed =
     (if buf = NULL \<or> out = NULL \<or> consumed = NULL then (-1, out, consumed)
      else
        let b = the buf; m = client_auth_zero; off = 0;
            fail = (-1, Some client_auth_zero, consumed)
        in case wire_int_read_u8 b off (len - off) of
             None \<Rightarrow> fail
           | Some msg_type \<Rightarrow>
             let off = off + 1 in
             if msg_type \<noteq> MSG_TYPE_CLIENT_AUTH then fail
             else if len - off < WIRE_HANDSHAKE_ID_LEN then fail
             else
               let m = m\<lparr>ca_handshake_id := bslice b off WIRE_HANDSHAKE_ID_LEN\<rparr>;
                   off = off + WIRE_HANDSHAKE_ID_LEN
               in case wire_int_read_u16 b off (len - off) of
                    None \<Rightarrow> fail
                  | Some sig_len \<Rightarrow>
                    let off = off + 2 in
                    if unat sig_len < 1 \<or> unat sig_len > MLDSA_SIGNATURE_MAX_BYTES then fail
                    else if len - off < unat sig_len then fail
                    else
                      let m = m\<lparr>ca_sig := memcpy (ca_sig m) 0 (bslice b off (unat sig_len)),
                                ca_sig_len := sig_len\<rparr>;
                          off = off + unat sig_len
                      in if off \<noteq> len then fail else (0, Some m, Some off))"

section \<open>Transcript hashes\<close>

definition TRANSCRIPT_LABEL_SERVER_AUTH :: bytes where
  "TRANSCRIPT_LABEL_SERVER_AUTH = ascii ''mldsa-auth/v2/server-auth''"

definition TRANSCRIPT_LABEL_CLIENT_AUTH :: bytes where
  "TRANSCRIPT_LABEL_CLIENT_AUTH = ascii ''mldsa-auth/v2/client-auth''"

definition TRANSCRIPT_LABEL_HANDSHAKE_ID :: bytes where
  "TRANSCRIPT_LABEL_HANDSHAKE_ID = ascii ''mldsa-auth/v2/handshake-id''"

definition hash_label_and_two_buffers ::
  "sodium \<Rightarrow> bytes \<Rightarrow> bytes \<Rightarrow> nat \<Rightarrow> bytes \<Rightarrow> nat \<Rightarrow> bytes \<Rightarrow> int \<times> bytes" where
  "hash_label_and_two_buffers so label a a_len b b_len out =
     (let (rc, digest) = crypto_hash_sha256 so (label @ [0x00] @ take a_len a @ take b_len b)
      in if rc \<noteq> 0 then (-1, out) else (0, memcpy out 0 digest))"

definition transcript_hash_server_auth ::
  "sodium \<Rightarrow> bytes ptr \<Rightarrow> nat \<Rightarrow> bytes ptr \<Rightarrow> nat \<Rightarrow> bytes ptr \<Rightarrow> int \<times> bytes ptr" where
  "transcript_hash_server_auth so client_hello_bytes ch_len sh_unsigned_bytes sh_unsigned_len out =
     (if client_hello_bytes = NULL \<or> sh_unsigned_bytes = NULL \<or> out = NULL then (-1, out)
      else let (rc, d) = hash_label_and_two_buffers so TRANSCRIPT_LABEL_SERVER_AUTH
                           (the client_hello_bytes) ch_len (the sh_unsigned_bytes) sh_unsigned_len
                           (the out)
           in (rc, Some d))"

definition transcript_hash_client_auth ::
  "sodium \<Rightarrow> bytes ptr \<Rightarrow> nat \<Rightarrow> bytes ptr \<Rightarrow> nat \<Rightarrow> bytes ptr \<Rightarrow> int \<times> bytes ptr" where
  "transcript_hash_client_auth so client_hello_bytes ch_len server_hello_bytes sh_len out =
     (if client_hello_bytes = NULL \<or> server_hello_bytes = NULL \<or> out = NULL then (-1, out)
      else let (rc, d) = hash_label_and_two_buffers so TRANSCRIPT_LABEL_CLIENT_AUTH
                           (the client_hello_bytes) ch_len (the server_hello_bytes) sh_len (the out)
           in (rc, Some d))"

definition transcript_handshake_id ::
  "sodium \<Rightarrow> bytes ptr \<Rightarrow> nat \<Rightarrow> bytes ptr \<Rightarrow> nat \<Rightarrow> bytes ptr \<Rightarrow> int \<times> bytes ptr" where
  "transcript_handshake_id so client_hello_bytes ch_len server_hello_bytes sh_len out =
     (if client_hello_bytes = NULL \<or> server_hello_bytes = NULL \<or> out = NULL then (-1, out)
      else let (rc, digest) = hash_label_and_two_buffers so TRANSCRIPT_LABEL_HANDSHAKE_ID
                           (the client_hello_bytes) ch_len (the server_hello_bytes) sh_len (zeros 32)
           in if rc \<noteq> 0 then (-1, out) else (0, Some (memcpy (the out) 0 (take 16 digest))))"

section \<open>Encodings as byte strings\<close>

definition client_hello_bytes :: "client_hello_t \<Rightarrow> bytes" where
  "client_hello_bytes m =
     [MSG_TYPE_CLIENT_HELLO, ch_id_len m] @ take (unat (ch_id_len m)) (ch_id m) @
     ch_ephemeral_pub m @ ch_mlkem_ek m @ ch_session_id m @ ch_nonce m"

definition server_hello_unsigned_bytes :: "server_hello_t \<Rightarrow> bytes" where
  "server_hello_unsigned_bytes m =
     [MSG_TYPE_SERVER_HELLO, sh_id_len m] @ take (unat (sh_id_len m)) (sh_id m) @
     sh_ephemeral_pub m @ sh_mlkem_ct m @ sh_nonce m @ sh_session_id_echo m"

definition server_hello_bytes :: "server_hello_t \<Rightarrow> bytes" where
  "server_hello_bytes m =
     server_hello_unsigned_bytes m @ store_be 2 (sh_sig_len m) @
     take (unat (sh_sig_len m)) (sh_sig m)"

definition client_auth_bytes :: "client_auth_t \<Rightarrow> bytes" where
  "client_auth_bytes m =
     [MSG_TYPE_CLIENT_AUTH] @ ca_handshake_id m @ store_be 2 (ca_sig_len m) @
     take (unat (ca_sig_len m)) (ca_sig m)"

text \<open>
  The C structs have arrays of fixed length (\<open>_struct\<close>); a message is well formed when also its
  length fields are in range and the unused tail of each array is zero, as a decoder leaves it.
\<close>

definition client_hello_struct :: "client_hello_t \<Rightarrow> bool" where
  "client_hello_struct m \<longleftrightarrow>
     length (ch_id m) = 64 \<and> length (ch_ephemeral_pub m) = 32 \<and> length (ch_mlkem_ek m) = 1184 \<and>
     length (ch_session_id m) = 16 \<and> length (ch_nonce m) = 32"

definition server_hello_struct :: "server_hello_t \<Rightarrow> bool" where
  "server_hello_struct m \<longleftrightarrow>
     length (sh_id m) = 64 \<and> length (sh_ephemeral_pub m) = 32 \<and> length (sh_mlkem_ct m) = 1088 \<and>
     length (sh_nonce m) = 32 \<and> length (sh_session_id_echo m) = 16 \<and> length (sh_sig m) = 3309"

definition client_auth_struct :: "client_auth_t \<Rightarrow> bool" where
  "client_auth_struct m \<longleftrightarrow> length (ca_handshake_id m) = 16 \<and> length (ca_sig m) = 3309"

definition id_len_ok :: "byte \<Rightarrow> bool" where
  "id_len_ok l \<longleftrightarrow> 1 \<le> unat l \<and> unat l \<le> 64"

definition sig_len_ok :: "u16 \<Rightarrow> bool" where
  "sig_len_ok l \<longleftrightarrow> 1 \<le> unat l \<and> unat l \<le> 3309"

definition wf_client_hello :: "client_hello_t \<Rightarrow> bool" where
  "wf_client_hello m \<longleftrightarrow>
     client_hello_struct m \<and> id_len_ok (ch_id_len m) \<and>
     drop (unat (ch_id_len m)) (ch_id m) = zeros (64 - unat (ch_id_len m))"

definition wf_server_hello :: "server_hello_t \<Rightarrow> bool" where
  "wf_server_hello m \<longleftrightarrow>
     server_hello_struct m \<and> id_len_ok (sh_id_len m) \<and> sig_len_ok (sh_sig_len m) \<and>
     drop (unat (sh_id_len m)) (sh_id m) = zeros (64 - unat (sh_id_len m)) \<and>
     drop (unat (sh_sig_len m)) (sh_sig m) = zeros (3309 - unat (sh_sig_len m))"

definition wf_client_auth :: "client_auth_t \<Rightarrow> bool" where
  "wf_client_auth m \<longleftrightarrow>
     client_auth_struct m \<and> sig_len_ok (ca_sig_len m) \<and>
     drop (unat (ca_sig_len m)) (ca_sig m) = zeros (3309 - unat (ca_sig_len m))"

lemmas struct_defs = client_hello_struct_def server_hello_struct_def client_auth_struct_def
lemmas wf_defs = wf_client_hello_def wf_server_hello_def wf_client_auth_def
lemmas len_ok_defs = id_len_ok_def sig_len_ok_def

lemma length_client_hello_bytes [wire_len]:
  "client_hello_struct m \<Longrightarrow> id_len_ok (ch_id_len m) \<Longrightarrow>
   length (client_hello_bytes m) = client_hello_encoded_len (ch_id_len m)"
  by (simp add: client_hello_bytes_def client_hello_encoded_len_def struct_defs len_ok_defs)

lemma length_server_hello_unsigned_bytes [wire_len]:
  "server_hello_struct m \<Longrightarrow> id_len_ok (sh_id_len m) \<Longrightarrow>
   length (server_hello_unsigned_bytes m) = server_hello_unsigned_encoded_len (sh_id_len m)"
  by (simp add: server_hello_unsigned_bytes_def server_hello_unsigned_encoded_len_def
      struct_defs len_ok_defs)

lemma length_server_hello_bytes [wire_len]:
  "server_hello_struct m \<Longrightarrow> id_len_ok (sh_id_len m) \<Longrightarrow> sig_len_ok (sh_sig_len m) \<Longrightarrow>
   length (server_hello_bytes m) =
     server_hello_unsigned_encoded_len (sh_id_len m) + 2 + unat (sh_sig_len m)"
  by (simp add: server_hello_bytes_def wire_len) (simp add: struct_defs len_ok_defs)

lemma length_client_auth_bytes [wire_len]:
  "client_auth_struct m \<Longrightarrow> sig_len_ok (ca_sig_len m) \<Longrightarrow>
   length (client_auth_bytes m) = 19 + unat (ca_sig_len m)"
  by (simp add: client_auth_bytes_def struct_defs len_ok_defs)

section \<open>Encoders write exactly the encoding\<close>

lemma encode_client_hello_ok:
  assumes "client_hello_struct m" "id_len_ok (ch_id_len m)"
    "client_hello_encoded_len (ch_id_len m) \<le> cap" "cap \<le> length out"
  shows "encode_client_hello (Some m) (Some out) cap (Some k) =
         (0, Some (memcpy out 0 (client_hello_bytes m)),
          Some (client_hello_encoded_len (ch_id_len m)))"
  using assms
  by (simp add: encode_client_hello_def Let_def wire_int_write_u8_def memcpy_append
      client_hello_encoded_len_def client_hello_bytes_def struct_defs len_ok_defs)

lemma write_server_hello_unsigned_unchecked_eq:
  assumes "server_hello_struct m" "id_len_ok (sh_id_len m)"
    "server_hello_unsigned_encoded_len (sh_id_len m) \<le> length out"
  shows "write_server_hello_unsigned_unchecked m out = memcpy out 0 (server_hello_unsigned_bytes m)"
  using assms
  by (simp add: write_server_hello_unsigned_unchecked_def Let_def wire_int_write_u8_def memcpy_append
      server_hello_unsigned_encoded_len_def server_hello_unsigned_bytes_def struct_defs len_ok_defs)

lemma encode_server_hello_unsigned_ok:
  assumes "server_hello_struct m" "id_len_ok (sh_id_len m)"
    "server_hello_unsigned_encoded_len (sh_id_len m) \<le> cap" "cap \<le> length out"
  shows "encode_server_hello_unsigned (Some m) (Some out) cap (Some k) =
         (0, Some (memcpy out 0 (server_hello_unsigned_bytes m)),
          Some (server_hello_unsigned_encoded_len (sh_id_len m)))"
  using assms
  by (simp add: encode_server_hello_unsigned_def Let_def write_server_hello_unsigned_unchecked_eq
      len_ok_defs)

lemma encode_server_hello_ok:
  assumes "server_hello_struct m" "id_len_ok (sh_id_len m)" "sig_len_ok (sh_sig_len m)"
    "server_hello_unsigned_encoded_len (sh_id_len m) + 2 + unat (sh_sig_len m) \<le> cap"
    "cap \<le> length out"
  shows "encode_server_hello (Some m) (Some out) cap (Some k) =
         (0, Some (memcpy out 0 (server_hello_bytes m)),
          Some (server_hello_unsigned_encoded_len (sh_id_len m) + 2 + unat (sh_sig_len m)))"
proof -
  let ?u = "server_hello_unsigned_encoded_len (sh_id_len m)"
  have w: "write_server_hello_unsigned_unchecked m out = memcpy out 0 (server_hello_unsigned_bytes m)"
    using assms by (intro write_server_hello_unsigned_unchecked_eq) simp_all
  have lu: "length (server_hello_unsigned_bytes m) = ?u"
    using assms by (simp add: wire_len)
  have "memcpy (wire_int_write_u16 (memcpy out 0 (server_hello_unsigned_bytes m)) ?u (sh_sig_len m))
      (?u + 2) (take (unat (sh_sig_len m)) (sh_sig m)) = memcpy out 0 (server_hello_bytes m)"
    using assms lu by (simp add: write_u16_eq memcpy_append server_hello_bytes_def)
  then show ?thesis
    using assms w by (simp add: encode_server_hello_def Let_def len_ok_defs)
qed

lemma encode_client_auth_ok:
  assumes "client_auth_struct m" "sig_len_ok (ca_sig_len m)"
    "19 + unat (ca_sig_len m) \<le> cap" "cap \<le> length out"
  shows "encode_client_auth (Some m) (Some out) cap (Some k) =
         (0, Some (memcpy out 0 (client_auth_bytes m)), Some (19 + unat (ca_sig_len m)))"
  using assms
  by (simp add: encode_client_auth_def Let_def wire_int_write_u8_def write_u16_eq memcpy_append
      client_auth_bytes_def struct_defs len_ok_defs)

section \<open>Decoders accept exactly the encodings\<close>

definition client_hello_of :: "bytes \<Rightarrow> client_hello_t option" where
  "client_hello_of b =
     (case decode_client_hello (Some b) (length b) (Some client_hello_zero) (Some 0) of
        (rc, m, _) \<Rightarrow> if rc = 0 then m else None)"

definition server_hello_of :: "bytes \<Rightarrow> server_hello_t option" where
  "server_hello_of b =
     (case decode_server_hello (Some b) (length b) (Some server_hello_zero) (Some 0) of
        (rc, m, _) \<Rightarrow> if rc = 0 then m else None)"

definition client_auth_of :: "bytes \<Rightarrow> client_auth_t option" where
  "client_auth_of b =
     (case decode_client_auth (Some b) (length b) (Some client_auth_zero) (Some 0) of
        (rc, m, _) \<Rightarrow> if rc = 0 then m else None)"

lemma pad_memcpy:
  "length xs = n \<Longrightarrow> k \<le> n \<Longrightarrow> drop k xs = zeros (n - k) \<Longrightarrow> memcpy (zeros n) 0 (take k xs) = xs"
  by (simp add: memcpy_zeros_0) (metis append_take_drop_id)

lemma decode_client_hello_bytes:
  assumes "wf_client_hello m"
  shows "decode_client_hello (Some (client_hello_bytes m)) (length (client_hello_bytes m)) (Some x)
           (Some k) = (0, Some m, Some (length (client_hello_bytes m)))"
  using assms
  by (simp add: decode_client_hello_def Let_def wire_int_read_u8_def wf_defs struct_defs len_ok_defs
      client_hello_bytes_def client_hello_zero_def pad_memcpy)

lemma decode_server_hello_bytes:
  assumes "wf_server_hello m"
  shows "decode_server_hello (Some (server_hello_bytes m)) (length (server_hello_bytes m)) (Some x)
           (Some k) = (0, Some m, Some (length (server_hello_bytes m)))"
  using assms
  by (simp add: decode_server_hello_def Let_def wire_int_read_u8_def read_u16_eq wf_defs struct_defs
      len_ok_defs server_hello_bytes_def server_hello_unsigned_bytes_def server_hello_zero_def
      pad_memcpy)

lemma decode_client_auth_bytes:
  assumes "wf_client_auth m"
  shows "decode_client_auth (Some (client_auth_bytes m)) (length (client_auth_bytes m)) (Some x)
           (Some k) = (0, Some m, Some (length (client_auth_bytes m)))"
  using assms
  by (simp add: decode_client_auth_def Let_def wire_int_read_u8_def read_u16_eq wf_defs struct_defs
      len_ok_defs client_auth_bytes_def client_auth_zero_def pad_memcpy)


lemma decode_client_hello_success:
  assumes "decode_client_hello (Some b) (length b) (Some x) (Some k) = (0, m, c)"
  shows "\<exists>msg. m = Some msg \<and> wf_client_hello msg \<and> client_hello_bytes msg = b \<and> c = Some (length b)"
proof -
  let ?n = "unat (b ! 1)"
  let ?m = "\<lparr>ch_id = memcpy (zeros 64) 0 (bslice b 2 ?n), ch_id_len = b ! 1,
      ch_ephemeral_pub = bslice b (2 + ?n) 32, ch_mlkem_ek = bslice b (34 + ?n) 1184,
      ch_session_id = bslice b (1218 + ?n) 16, ch_nonce = bslice b (1234 + ?n) 32\<rparr>"
  have h: "b ! 0 = 1" "1 \<le> ?n" "?n \<le> 64" "length b = ?n + 1266" "m = Some ?m" "c = Some (length b)"
    using assms
    by (auto simp: decode_client_hello_def Let_def wire_int_read_u8_def client_hello_zero_def
        numeral_2_eq_2 split: if_splits)
  then have "wf_client_hello ?m"
    by (simp add: wf_defs struct_defs len_ok_defs memcpy_zeros_0)
  moreover have "client_hello_bytes ?m = b"
    using h Cons2_nth_bslice_tail [of b "?n + 1264"]
    by (simp add: client_hello_bytes_def bslice_join' memcpy_zeros_0)
  ultimately show ?thesis using h by blast
qed


lemma decode_server_hello_success:
  assumes "decode_server_hello (Some b) (length b) (Some x) (Some k) = (0, m, c)"
  shows "\<exists>msg. m = Some msg \<and> wf_server_hello msg \<and> server_hello_bytes msg = b \<and> c = Some (length b)"
proof -
  let ?n = "unat (b ! 1)"
  let ?l = "load_be (bslice b (1170 + ?n) 2) :: u16"
  let ?m = "\<lparr>sh_id = memcpy (zeros 64) 0 (bslice b 2 ?n), sh_id_len = b ! 1,
      sh_ephemeral_pub = bslice b (2 + ?n) 32, sh_mlkem_ct = bslice b (34 + ?n) 1088,
      sh_nonce = bslice b (1122 + ?n) 32, sh_session_id_echo = bslice b (1154 + ?n) 16,
      sh_sig = memcpy (zeros 3309) 0 (bslice b (1172 + ?n) (unat ?l)), sh_sig_len = ?l\<rparr>"
  have len: "1172 + ?n \<le> length b"
    using assms
    by (auto simp: decode_server_hello_def Let_def wire_int_read_u8_def wire_int_read_u16_def
        numeral_2_eq_2 split: if_splits option.splits)
  then have u16: "wire_int_read_u16 b (1170 + ?n) (length b - (1170 + ?n)) = Some ?l"
    by (intro read_u16_eq) simp_all
  have h: "b ! 0 = 2" "1 \<le> ?n" "?n \<le> 64" "1 \<le> unat ?l" "unat ?l \<le> 3309"
    "length b = ?n + unat ?l + 1172" "m = Some ?m" "c = Some (length b)"
    using assms u16
    by (auto simp: decode_server_hello_def Let_def wire_int_read_u8_def server_hello_zero_def
        numeral_2_eq_2 split: if_splits option.splits)
  then have "wf_server_hello ?m"
    by (simp add: wf_defs struct_defs len_ok_defs memcpy_zeros_0)
  moreover have "server_hello_bytes ?m = b"
    using h Cons2_nth_bslice_tail [of b "1170 + (?n + unat ?l)"]
    by (simp add: server_hello_bytes_def server_hello_unsigned_bytes_def bslice_join' memcpy_zeros_0)
  ultimately show ?thesis using h by blast
qed

lemma decode_client_auth_success:
  assumes "decode_client_auth (Some b) (length b) (Some x) (Some k) = (0, m, c)"
  shows "\<exists>msg. m = Some msg \<and> wf_client_auth msg \<and> client_auth_bytes msg = b \<and> c = Some (length b)"
proof -
  let ?l = "load_be (bslice b 17 2) :: u16"
  let ?m = "\<lparr>ca_handshake_id = bslice b 1 16,
      ca_sig = memcpy (zeros 3309) 0 (bslice b 19 (unat ?l)), ca_sig_len = ?l\<rparr>"
  have len: "19 \<le> length b"
    using assms
    by (auto simp: decode_client_auth_def Let_def wire_int_read_u8_def wire_int_read_u16_def
        split: if_splits option.splits)
  then have u16: "wire_int_read_u16 b 17 (length b - 17) = Some ?l"
    by (intro read_u16_eq) simp_all
  have h: "b ! 0 = 3" "1 \<le> unat ?l" "unat ?l \<le> 3309" "length b = unat ?l + 19"
    "m = Some ?m" "c = Some (length b)"
    using assms u16
    by (auto simp: decode_client_auth_def Let_def wire_int_read_u8_def client_auth_zero_def
        split: if_splits option.splits)
  then have "wf_client_auth ?m"
    by (simp add: wf_defs struct_defs len_ok_defs memcpy_zeros_0)
  moreover have "client_auth_bytes ?m = b"
    using h Cons_nth_bslice_tail [of b "18 + unat ?l"]
    by (simp add: client_auth_bytes_def bslice_join' memcpy_zeros_0)
  ultimately show ?thesis using h by blast
qed

interpretation ch: delimited_codec client_hello_bytes client_hello_of wf_client_hello
proof
  show "client_hello_of (client_hello_bytes m) = Some m" if "wf_client_hello m" for m
    using that by (simp add: client_hello_of_def decode_client_hello_bytes)
  show "wf_client_hello m \<and> client_hello_bytes m = b" if "client_hello_of b = Some m" for b m
    using that decode_client_hello_success [of b client_hello_zero 0]
    by (fastforce simp: client_hello_of_def split: prod.splits if_splits)
  show "length (client_hello_bytes m) = length (client_hello_bytes m')"
    if "wf_client_hello m" "wf_client_hello m'" "client_hello_bytes m @ r = client_hello_bytes m' @ r'"
    for m m' r r'
  proof -
    have "ch_id_len m = ch_id_len m'" using that(3) by (simp add: client_hello_bytes_def)
    with that(1,2) show ?thesis by (simp add: wf_defs wire_len)
  qed
qed

interpretation sh: wire_codec server_hello_bytes server_hello_of wf_server_hello
proof
  show "server_hello_of (server_hello_bytes m) = Some m" if "wf_server_hello m" for m
    using that by (simp add: server_hello_of_def decode_server_hello_bytes)
  show "wf_server_hello m \<and> server_hello_bytes m = b" if "server_hello_of b = Some m" for b m
    using that decode_server_hello_success [of b server_hello_zero 0]
    by (fastforce simp: server_hello_of_def split: prod.splits if_splits)
qed

interpretation ca: wire_codec client_auth_bytes client_auth_of wf_client_auth
proof
  show "client_auth_of (client_auth_bytes m) = Some m" if "wf_client_auth m" for m
    using that by (simp add: client_auth_of_def decode_client_auth_bytes)
  show "wf_client_auth m \<and> client_auth_bytes m = b" if "client_auth_of b = Some m" for b m
    using that decode_client_auth_success [of b client_auth_zero 0]
    by (fastforce simp: client_auth_of_def split: prod.splits if_splits)
qed


section \<open>Properties of the wire format\<close>

text \<open>
  C22. Strict decoding. Each decoder succeeds on a buffer if and only if the buffer is the encoding
  of a well-formed message of its type, and then it returns that message and has consumed the whole
  buffer: no trailing bytes, no out-of-range lengths, no foreign message type.
\<close>

theorem decoders_exact:
  "(decode_client_hello (Some b) (length b) (Some x1) (Some k) = (0, Some m1, c) \<longleftrightarrow>
      wf_client_hello m1 \<and> b = client_hello_bytes m1 \<and> c = Some (length b)) \<and>
   (decode_server_hello (Some b) (length b) (Some x2) (Some k) = (0, Some m2, c) \<longleftrightarrow>
      wf_server_hello m2 \<and> b = server_hello_bytes m2 \<and> c = Some (length b)) \<and>
   (decode_client_auth (Some b) (length b) (Some x3) (Some k) = (0, Some m3, c) \<longleftrightarrow>
      wf_client_auth m3 \<and> b = client_auth_bytes m3 \<and> c = Some (length b))"
  using decode_client_hello_success [of b x1 k "Some m1" c] decode_client_hello_bytes [of m1 x1 k]
    decode_server_hello_success [of b x2 k "Some m2" c] decode_server_hello_bytes [of m2 x2 k]
    decode_client_auth_success [of b x3 k "Some m3" c] decode_client_auth_bytes [of m3 x3 k]
  by auto

lemma decode_client_hello_total:
  "(\<exists>m c. decode_client_hello (Some b) len (Some x) (Some k) = (0, Some m, Some c)) \<or>
   decode_client_hello (Some b) len (Some x) (Some k) = (-1, Some client_hello_zero, Some k)"
  by (auto simp: decode_client_hello_def Let_def split: option.splits)

lemma decode_server_hello_total:
  "(\<exists>m c. decode_server_hello (Some b) len (Some x) (Some k) = (0, Some m, Some c)) \<or>
   decode_server_hello (Some b) len (Some x) (Some k) = (-1, Some server_hello_zero, Some k)"
  by (auto simp: decode_server_hello_def Let_def split: option.splits)

lemma decode_client_auth_total:
  "(\<exists>m c. decode_client_auth (Some b) len (Some x) (Some k) = (0, Some m, Some c)) \<or>
   decode_client_auth (Some b) len (Some x) (Some k) = (-1, Some client_auth_zero, Some k)"
  by (auto simp: decode_client_auth_def Let_def split: option.splits)

text \<open>
  A decoder that refuses leaves nothing of the input behind: every call on any buffer either
  succeeds, or returns -1 with the caller's structure all zero and the consumed count unwritten.
\<close>

theorem decoders_fail_closed:
  "((\<exists>m c. decode_client_hello (Some b) len (Some x1) (Some k) = (0, Some m, Some c)) \<or>
     decode_client_hello (Some b) len (Some x1) (Some k) = (-1, Some client_hello_zero, Some k)) \<and>
   ((\<exists>m c. decode_server_hello (Some b) len (Some x2) (Some k) = (0, Some m, Some c)) \<or>
     decode_server_hello (Some b) len (Some x2) (Some k) = (-1, Some server_hello_zero, Some k)) \<and>
   ((\<exists>m c. decode_client_auth (Some b) len (Some x3) (Some k) = (0, Some m, Some c)) \<or>
     decode_client_auth (Some b) len (Some x3) (Some k) = (-1, Some client_auth_zero, Some k))"
  using decode_client_hello_total [of b len x1 k] decode_server_hello_total [of b len x2 k]
    decode_client_auth_total [of b len x3 k]
  by (intro conjI)

lemma encode_server_hello_cases:
  "encode_server_hello (Some m) (Some out) cap (Some k) = (rc, o1, n1) \<Longrightarrow> rc \<noteq> 0 \<Longrightarrow>
   rc = -1 \<and> o1 = Some out \<and> n1 = Some k"
  by (auto simp: encode_server_hello_def Let_def split: if_splits)

lemma encode_server_hello_rc_0:
  "encode_server_hello (Some m) (Some out) cap (Some k) = (0, o1, n1) \<Longrightarrow>
   id_len_ok (sh_id_len m) \<and> sig_len_ok (sh_sig_len m) \<and>
   server_hello_unsigned_encoded_len (sh_id_len m) + 2 + unat (sh_sig_len m) \<le> cap"
  by (auto simp: encode_server_hello_def Let_def len_ok_defs Suc_le_eq split: if_splits)

text \<open>
  The ServerHello encoder validates before it writes. With a buffer of at least the stated
  capacity, the call either refuses and leaves the buffer and the length untouched, or it writes
  exactly the encoding at the start of the buffer, within the capacity, and nothing behind it; it
  refuses exactly when a length field is out of range or the capacity is too small.
\<close>

theorem encode_server_hello_contract:
  assumes "server_hello_struct m" "cap \<le> length out"
    and "encode_server_hello (Some m) (Some out) cap (Some k) = (rc, o1, n1)"
  shows "(rc = 0 \<and> (\<exists>o2. o1 = Some o2 \<and> length o2 = length out \<and>
             take (length (server_hello_bytes m)) o2 = server_hello_bytes m \<and>
             drop (length (server_hello_bytes m)) o2 = drop (length (server_hello_bytes m)) out) \<and>
           n1 = Some (length (server_hello_bytes m)) \<and> length (server_hello_bytes m) \<le> cap) \<or>
         (rc = -1 \<and> o1 = Some out \<and> n1 = Some k \<and>
           (\<not> id_len_ok (sh_id_len m) \<or> \<not> sig_len_ok (sh_sig_len m) \<or>
            cap < server_hello_unsigned_encoded_len (sh_id_len m) + 2 + unat (sh_sig_len m)))"
proof (cases "id_len_ok (sh_id_len m) \<and> sig_len_ok (sh_sig_len m) \<and>
    server_hello_unsigned_encoded_len (sh_id_len m) + 2 + unat (sh_sig_len m) \<le> cap")
  case True
  moreover have "length (server_hello_bytes m) =
      server_hello_unsigned_encoded_len (sh_id_len m) + 2 + unat (sh_sig_len m)"
    using True assms(1) by (simp add: wire_len)
  ultimately show ?thesis
    using assms encode_server_hello_ok [of m cap out k] by auto
next
  case False
  then have "rc \<noteq> 0"
    using assms(3) encode_server_hello_rc_0 by blast
  with assms(3) have "rc = -1 \<and> o1 = Some out \<and> n1 = Some k"
    by (intro encode_server_hello_cases) auto
  with False show ?thesis by auto
qed

definition sample_server_hello :: server_hello_t where
  "sample_server_hello = server_hello_zero\<lparr>sh_id_len := 1, sh_sig_len := 1\<rparr>"

theorem encode_server_hello_contract_witness:
  "\<exists>rc o1 n1. encode_server_hello (Some sample_server_hello) (Some (zeros 5000)) 1 (Some 0) = (rc, o1, n1) \<and>
     rc = -1 \<and> o1 = Some (zeros 5000) \<and> n1 = Some 0"
proof -
  have s: "server_hello_struct sample_server_hello"
    by (simp add: sample_server_hello_def server_hello_zero_def struct_defs)
  obtain rc o1 n1 where e:
    "encode_server_hello (Some sample_server_hello) (Some (zeros 5000)) 1 (Some 0) = (rc, o1, n1)"
    by (metis prod_cases3)
  have "length (server_hello_bytes sample_server_hello) > 1"
    by (simp add: server_hello_bytes_def)
  then show ?thesis
    using encode_server_hello_contract [OF s _ e] e by auto
qed

text \<open>
  What the initiator hashes is what the responder signed. If a received buffer decodes as a
  ServerHello, its prefix of length \<open>transcript_server_hello_unsigned_len\<close> is exactly what
  \<open>encode_server_hello_unsigned\<close> produces for that message, and the prefix is nonempty and proper,
  so the checks behind the decoder in the handshake cannot fail.
\<close>

theorem server_hello_unsigned_prefix:
  assumes "decode_server_hello (Some b) (length b) (Some x) (Some k) = (0, Some m, c)"
    and "length out = SERVER_HELLO_UNSIGNED_MAX_ENCODED_LEN"
  shows "\<exists>o1 n. encode_server_hello_unsigned (Some m) (Some out) (length out) (Some 0) =
           (0, Some o1, Some n) \<and> n = transcript_server_hello_unsigned_len (sh_id_len m) \<and>
           0 < n \<and> n < length b \<and> take n b = take n o1"
proof -
  from decode_server_hello_success [OF assms(1)]
  have wf: "wf_server_hello m" and b: "b = server_hello_bytes m" by auto
  let ?n = "server_hello_unsigned_encoded_len (sh_id_len m)"
  have n: "?n \<le> length out" "0 < ?n"
    using wf assms(2) by (simp_all add: wf_defs server_hello_unsigned_encoded_len_def len_ok_defs)
  have lu: "length (server_hello_unsigned_bytes m) = ?n"
    using wf by (simp add: wf_defs wire_len)
  have "encode_server_hello_unsigned (Some m) (Some out) (length out) (Some 0) =
      (0, Some (memcpy out 0 (server_hello_unsigned_bytes m)), Some ?n)"
    using wf n by (intro encode_server_hello_unsigned_ok) (simp_all add: wf_defs)
  moreover have "?n = transcript_server_hello_unsigned_len (sh_id_len m)"
    using wf by (simp add: transcript_server_hello_unsigned_len_def wf_defs len_ok_defs)
  moreover have "take ?n b = server_hello_unsigned_bytes m" "?n < length b"
    using lu by (simp_all add: b server_hello_bytes_def)
  ultimately show ?thesis using n(2) lu by auto
qed

lemma wf_sample_server_hello: "wf_server_hello sample_server_hello"
  by (simp add: sample_server_hello_def server_hello_zero_def wf_defs struct_defs len_ok_defs)

theorem server_hello_unsigned_prefix_witness:
  "\<exists>o1 n. encode_server_hello_unsigned (Some sample_server_hello) (Some (zeros 1234)) (length (zeros 1234))
       (Some 0) = (0, Some o1, Some n) \<and>
     n = transcript_server_hello_unsigned_len (sh_id_len sample_server_hello) \<and>
     0 < n \<and> n < length (server_hello_bytes sample_server_hello) \<and>
     take n (server_hello_bytes sample_server_hello) = take n o1"
  by (rule server_hello_unsigned_prefix [OF decode_server_hello_bytes [OF wf_sample_server_hello]])
    simp


section \<open>What a transcript hash binds\<close>

text \<open>The string under each hash, and the documented length of a SHA-256 digest.\<close>

definition transcript_input :: "bytes \<Rightarrow> bytes \<Rightarrow> bytes \<Rightarrow> bytes" where
  "transcript_input label a b = label @ [0x00] @ a @ b"

definition sha256_digest_len :: "sodium \<Rightarrow> bool" where
  "sha256_digest_len so \<longleftrightarrow> (\<forall>x. length (snd (crypto_hash_sha256 so x)) = 32)"

definition sha256_collision :: "sodium \<Rightarrow> bytes \<Rightarrow> bytes \<Rightarrow> bool" where
  "sha256_collision so x y \<longleftrightarrow>
     x \<noteq> y \<and> snd (crypto_hash_sha256 so x) = snd (crypto_hash_sha256 so y)"

lemmas label_defs = TRANSCRIPT_LABEL_SERVER_AUTH_def TRANSCRIPT_LABEL_CLIENT_AUTH_def
  TRANSCRIPT_LABEL_HANDSHAKE_ID_def

lemma hash_label_success:
  assumes "sha256_digest_len so" "length out = 32"
    and "hash_label_and_two_buffers so l a (length a) b (length b) out = (0, d)"
  shows "d = snd (crypto_hash_sha256 so (transcript_input l a b))"
  using assms
  by (auto simp: hash_label_and_two_buffers_def sha256_digest_len_def transcript_input_def
      split_beta memcpy_whole split: if_splits)

lemma transcript_hash_server_auth_success:
  assumes "sha256_digest_len so" "length out = 32"
    and "transcript_hash_server_auth so (Some a) (length a) (Some b) (length b) (Some out) = (0, Some d)"
  shows "d = snd (crypto_hash_sha256 so (transcript_input TRANSCRIPT_LABEL_SERVER_AUTH a b))"
  using assms(3)
  by (auto simp: transcript_hash_server_auth_def split: prod.splits
      intro: hash_label_success [OF assms(1,2)])

lemma transcript_hash_client_auth_success:
  assumes "sha256_digest_len so" "length out = 32"
    and "transcript_hash_client_auth so (Some a) (length a) (Some b) (length b) (Some out) = (0, Some d)"
  shows "d = snd (crypto_hash_sha256 so (transcript_input TRANSCRIPT_LABEL_CLIENT_AUTH a b))"
  using assms(3)
  by (auto simp: transcript_hash_client_auth_def split: prod.splits
      intro: hash_label_success [OF assms(1,2)])

lemma transcript_input_inj:
  assumes "wf_client_hello m" "wf_client_hello m'"
    and "transcript_input l (client_hello_bytes m) b = transcript_input l (client_hello_bytes m') b'"
  shows "m = m' \<and> b = b'"
  using assms by (intro ch.enc_append_inj) (simp_all add: transcript_input_def)

lemma transcript_input_labels:
  "transcript_input TRANSCRIPT_LABEL_SERVER_AUTH a b \<noteq> transcript_input TRANSCRIPT_LABEL_CLIENT_AUTH a' b'"
  "transcript_input TRANSCRIPT_LABEL_SERVER_AUTH a b \<noteq> transcript_input TRANSCRIPT_LABEL_HANDSHAKE_ID a' b'"
  "transcript_input TRANSCRIPT_LABEL_CLIENT_AUTH a b \<noteq> transcript_input TRANSCRIPT_LABEL_HANDSHAKE_ID a' b'"
  by (simp_all add: transcript_input_def label_defs ascii_def)




definition sample_client_hello :: client_hello_t where
  "sample_client_hello = client_hello_zero\<lparr>ch_id_len := 1\<rparr>"

lemma wf_sample_client_hello: "wf_client_hello sample_client_hello"
  by (simp add: sample_client_hello_def client_hello_zero_def wf_defs struct_defs len_ok_defs)

lemma sample_sha256: "sha256_digest_len sample_sodium"
  by (simp add: sha256_digest_len_def sample_sodium_def)

lemma sample_hash_client_auth:
  "transcript_hash_client_auth sample_sodium (Some a) (length a) (Some b) (length b) (Some (zeros 32)) =
     (0, Some (snd (crypto_hash_sha256 sample_sodium (transcript_input TRANSCRIPT_LABEL_CLIENT_AUTH a b))))"
  by (simp add: transcript_hash_client_auth_def hash_label_and_two_buffers_def sample_sodium_def
      memcpy_whole transcript_input_def)


text \<open>
  Domain separation. A digest computed for the responder's signature never equals one computed
  for the initiator's signature, unless the two hashed strings are a SHA-256 collision: a signature
  of one role cannot be presented as one of the other.
\<close>

theorem transcript_hash_domain_separation:
  assumes "sha256_digest_len so" "length out = 32" "length out' = 32"
    and "transcript_hash_server_auth so (Some a) (length a) (Some b) (length b) (Some out) = (0, Some d)"
    and "transcript_hash_client_auth so (Some a') (length a') (Some b') (length b') (Some out') = (0, Some d)"
  shows "sha256_collision so (transcript_input TRANSCRIPT_LABEL_SERVER_AUTH a b)
           (transcript_input TRANSCRIPT_LABEL_CLIENT_AUTH a' b')"
  using transcript_hash_server_auth_success [OF assms(1,2,4)]
    transcript_hash_client_auth_success [OF assms(1,3,5)]
  by (simp add: sha256_collision_def transcript_input_labels)

definition constant_sodium :: sodium where
  "constant_sodium = sample_sodium\<lparr>crypto_hash_sha256 := \<lambda>x. (0, zeros 32)\<rparr>"

theorem transcript_hash_domain_separation_witness:
  "sha256_collision constant_sodium (transcript_input TRANSCRIPT_LABEL_SERVER_AUTH [1] [2])
     (transcript_input TRANSCRIPT_LABEL_CLIENT_AUTH [1] [2])"
  by (rule transcript_hash_domain_separation [where out = "zeros 32" and out' = "zeros 32" and d = "zeros 32"])
    (simp_all add: sha256_digest_len_def constant_sodium_def transcript_hash_server_auth_def
      transcript_hash_client_auth_def hash_label_and_two_buffers_def memcpy_whole)

section \<open>The operations as equations\<close>

text \<open>
  For messages with the struct's array sizes and buffers of at least the stated capacity, every
  encoder and decoder is one conditional; the state machine rewrites with these.
\<close>

lemma encode_client_hello_eq:
  assumes "client_hello_struct m" "cap \<le> length out"
  shows "encode_client_hello (Some m) (Some out) cap (Some k) =
    (if id_len_ok (ch_id_len m) \<and> client_hello_encoded_len (ch_id_len m) \<le> cap
     then (0, Some (memcpy out 0 (client_hello_bytes m)), Some (client_hello_encoded_len (ch_id_len m)))
     else (-1, Some out, Some k))"
proof (cases "id_len_ok (ch_id_len m) \<and> client_hello_encoded_len (ch_id_len m) \<le> cap")
  case True
  then show ?thesis using assms by (simp add: encode_client_hello_ok)
next
  case False
  then show ?thesis by (auto simp: encode_client_hello_def Let_def len_ok_defs Suc_le_eq)
qed

lemma encode_server_hello_unsigned_eq:
  assumes "server_hello_struct m" "cap \<le> length out"
  shows "encode_server_hello_unsigned (Some m) (Some out) cap (Some k) =
    (if id_len_ok (sh_id_len m) \<and> server_hello_unsigned_encoded_len (sh_id_len m) \<le> cap
     then (0, Some (memcpy out 0 (server_hello_unsigned_bytes m)),
           Some (server_hello_unsigned_encoded_len (sh_id_len m)))
     else (-1, Some out, Some k))"
proof (cases "id_len_ok (sh_id_len m) \<and> server_hello_unsigned_encoded_len (sh_id_len m) \<le> cap")
  case True
  then show ?thesis using assms by (simp add: encode_server_hello_unsigned_ok)
next
  case False
  then show ?thesis by (auto simp: encode_server_hello_unsigned_def Let_def len_ok_defs Suc_le_eq)
qed

lemma encode_server_hello_eq:
  assumes "server_hello_struct m" "cap \<le> length out"
  shows "encode_server_hello (Some m) (Some out) cap (Some k) =
    (if id_len_ok (sh_id_len m) \<and> sig_len_ok (sh_sig_len m) \<and>
       server_hello_unsigned_encoded_len (sh_id_len m) + 2 + unat (sh_sig_len m) \<le> cap
     then (0, Some (memcpy out 0 (server_hello_bytes m)),
           Some (server_hello_unsigned_encoded_len (sh_id_len m) + 2 + unat (sh_sig_len m)))
     else (-1, Some out, Some k))"
proof (cases "id_len_ok (sh_id_len m) \<and> sig_len_ok (sh_sig_len m) \<and>
    server_hello_unsigned_encoded_len (sh_id_len m) + 2 + unat (sh_sig_len m) \<le> cap")
  case True
  then show ?thesis using assms by (simp add: encode_server_hello_ok)
next
  case False
  then show ?thesis by (auto simp: encode_server_hello_def Let_def len_ok_defs Suc_le_eq)
qed

lemma encode_client_auth_eq:
  assumes "client_auth_struct m" "cap \<le> length out"
  shows "encode_client_auth (Some m) (Some out) cap (Some k) =
    (if sig_len_ok (ca_sig_len m) \<and> 19 + unat (ca_sig_len m) \<le> cap
     then (0, Some (memcpy out 0 (client_auth_bytes m)), Some (19 + unat (ca_sig_len m)))
     else (-1, Some out, Some k))"
proof (cases "sig_len_ok (ca_sig_len m) \<and> 19 + unat (ca_sig_len m) \<le> cap")
  case True
  then show ?thesis using assms by (simp add: encode_client_auth_ok)
next
  case False
  then show ?thesis by (auto simp: encode_client_auth_def Let_def len_ok_defs Suc_le_eq)
qed

lemma decode_client_hello_take:
  "len \<le> length b \<Longrightarrow>
   decode_client_hello (Some b) len (Some x) (Some k) = decode_client_hello (Some (take len b)) len (Some x) (Some k)"
  by (simp add: decode_client_hello_def wire_int_read_u8_def bslice_def drop_take min_def
      cong: if_cong)

lemma decode_client_hello_eq:
  "decode_client_hello (Some b) (length b) (Some x) (Some k) =
    (case client_hello_of b of Some m \<Rightarrow> (0, Some m, Some (length b)) | None \<Rightarrow> (-1, Some client_hello_zero, Some k))"
proof (cases "client_hello_of b")
  case None
  then show ?thesis
    using decode_client_hello_total [of b "length b" x k] decode_client_hello_success [of b x k]
      ch.dec_None_iff [of b] by fastforce
next
  case (Some m)
  then show ?thesis using ch.enc_dec [OF Some] decode_client_hello_bytes [of m x k] by auto
qed

lemma decode_server_hello_eq:
  "decode_server_hello (Some b) (length b) (Some x) (Some k) =
    (case server_hello_of b of Some m \<Rightarrow> (0, Some m, Some (length b)) | None \<Rightarrow> (-1, Some server_hello_zero, Some k))"
proof (cases "server_hello_of b")
  case None
  then show ?thesis
    using decode_server_hello_total [of b "length b" x k] decode_server_hello_success [of b x k]
      sh.dec_None_iff [of b] by fastforce
next
  case (Some m)
  then show ?thesis using sh.enc_dec [OF Some] decode_server_hello_bytes [of m x k] by auto
qed

lemma decode_client_auth_eq:
  "decode_client_auth (Some b) (length b) (Some x) (Some k) =
    (case client_auth_of b of Some m \<Rightarrow> (0, Some m, Some (length b)) | None \<Rightarrow> (-1, Some client_auth_zero, Some k))"
proof (cases "client_auth_of b")
  case None
  then show ?thesis
    using decode_client_auth_total [of b "length b" x k] decode_client_auth_success [of b x k]
      ca.dec_None_iff [of b] by fastforce
next
  case (Some m)
  then show ?thesis using ca.enc_dec [OF Some] decode_client_auth_bytes [of m x k] by auto
qed

definition sha256 :: "sodium \<Rightarrow> bytes \<Rightarrow> bytes \<Rightarrow> bytes \<Rightarrow> bytes" where
  "sha256 so label a b = snd (crypto_hash_sha256 so (transcript_input label a b))"

definition sha256_rc :: "sodium \<Rightarrow> bytes \<Rightarrow> bytes \<Rightarrow> bytes \<Rightarrow> int" where
  "sha256_rc so label a b = fst (crypto_hash_sha256 so (transcript_input label a b))"

lemma length_sha256 [simp]: "sha256_digest_len so \<Longrightarrow> length (sha256 so label a b) = 32"
  by (simp add: sha256_digest_len_def sha256_def)

lemma hash_label_eq:
  "sha256_digest_len so \<Longrightarrow> length out = 32 \<Longrightarrow>
   hash_label_and_two_buffers so label a la b lb out =
     (if sha256_rc so label (take la a) (take lb b) \<noteq> 0 then (-1, out)
      else (0, sha256 so label (take la a) (take lb b)))"
  by (auto simp: hash_label_and_two_buffers_def sha256_digest_len_def sha256_def sha256_rc_def
      transcript_input_def split_beta memcpy_whole)

lemma transcript_hash_server_auth_eq:
  "sha256_digest_len so \<Longrightarrow> length out = 32 \<Longrightarrow>
   transcript_hash_server_auth so (Some a) la (Some b) lb (Some out) =
     (if sha256_rc so TRANSCRIPT_LABEL_SERVER_AUTH (take la a) (take lb b) \<noteq> 0 then (-1, Some out)
      else (0, Some (sha256 so TRANSCRIPT_LABEL_SERVER_AUTH (take la a) (take lb b))))"
  by (simp add: transcript_hash_server_auth_def hash_label_eq)

lemma transcript_hash_client_auth_eq:
  "sha256_digest_len so \<Longrightarrow> length out = 32 \<Longrightarrow>
   transcript_hash_client_auth so (Some a) la (Some b) lb (Some out) =
     (if sha256_rc so TRANSCRIPT_LABEL_CLIENT_AUTH (take la a) (take lb b) \<noteq> 0 then (-1, Some out)
      else (0, Some (sha256 so TRANSCRIPT_LABEL_CLIENT_AUTH (take la a) (take lb b))))"
  by (simp add: transcript_hash_client_auth_def hash_label_eq)

lemma transcript_handshake_id_eq:
  "sha256_digest_len so \<Longrightarrow> length out = 16 \<Longrightarrow>
   transcript_handshake_id so (Some a) la (Some b) lb (Some out) =
     (if sha256_rc so TRANSCRIPT_LABEL_HANDSHAKE_ID (take la a) (take lb b) \<noteq> 0 then (-1, Some out)
      else (0, Some (take 16 (sha256 so TRANSCRIPT_LABEL_HANDSHAKE_ID (take la a) (take lb b)))))"
  by (simp add: transcript_handshake_id_def hash_label_eq memcpy_whole)

end
