(* ===== verification/Tables.thy ===== *)
theory Tables
  imports Prelude "HOL-Library.Multiset"
begin

text \<open>
  Fixed-size arrays that the code scans from index 0. \<open>first_idx\<close> is the scan
  \<open>for (i = 0; i < n; i++) if (P(a[i])) return &a[i]; return NULL;\<close> and the lemmas say what a
  write to one slot does to the occupied part of the table.
\<close>

primrec first_idx :: "('a \<Rightarrow> bool) \<Rightarrow> 'a list \<Rightarrow> nat option" where
  "first_idx P [] = None"
| "first_idx P (x # xs) = (if P x then Some 0 else map_option Suc (first_idx P xs))"

lemma first_idx_None_iff [simp]: "first_idx P xs = None \<longleftrightarrow> (\<forall>x \<in> set xs. \<not> P x)"
  by (induction xs) auto

lemma first_idx_SomeD:
  "first_idx P xs = Some i \<Longrightarrow> i < length xs \<and> P (xs ! i) \<and> (\<forall>j < i. \<not> P (xs ! j))"
proof (induction xs arbitrary: i)
  case (Cons x xs)
  then show ?case by (cases i) (auto simp: nth_Cons split: if_splits nat.splits)
qed simp

lemma first_idx_ex: "x \<in> set xs \<Longrightarrow> P x \<Longrightarrow> \<exists>i. first_idx P xs = Some i"
  by (metis first_idx_None_iff not_None_eq)

lemma first_idx_unique:
  assumes "i < length xs" "P (xs ! i)" "\<And>j. j < length xs \<Longrightarrow> P (xs ! j) \<Longrightarrow> j = i"
  shows "first_idx P xs = Some i"
proof -
  obtain j where "first_idx P xs = Some j"
    using first_idx_ex [of "xs ! i" xs P] assms(1,2) by auto
  with first_idx_SomeD [OF this] assms(3) show ?thesis by blast
qed

lemma first_idx_cong:
  "(\<And>x. x \<in> set xs \<Longrightarrow> P x = Q x) \<Longrightarrow> first_idx P xs = first_idx Q xs"
  by (induction xs) auto

lemma first_idx_replicate [simp]:
  "first_idx P (replicate n x) = (if 0 < n \<and> P x then Some 0 else None)"
  by (induction n) auto

lemma mset_filter_update_new:
  "i < length xs \<Longrightarrow> \<not> P (xs ! i) \<Longrightarrow> P e \<Longrightarrow>
   mset (filter P (xs[i := e])) = add_mset e (mset (filter P xs))"
proof (induction xs arbitrary: i)
  case (Cons x xs)
  then show ?case by (cases i) auto
qed simp

lemma mset_filter_update_drop:
  "i < length xs \<Longrightarrow> P (xs ! i) \<Longrightarrow> \<not> P e \<Longrightarrow>
   add_mset (xs ! i) (mset (filter P (xs[i := e]))) = mset (filter P xs)"
proof (induction xs arbitrary: i)
  case (Cons x xs)
  then show ?case by (cases i) auto
qed simp

lemma mset_add_distinct_map:
  assumes "mset ys = add_mset e (mset xs)"
  shows "distinct (map f ys) \<longleftrightarrow> f e \<notin> f ` set xs \<and> distinct (map f xs)"
proof -
  from assms have "mset (map f ys) = mset (map f (e # xs))" by (simp add: mset_map)
  then have "distinct (map f ys) \<longleftrightarrow> distinct (map f (e # xs))" by (rule mset_eq_imp_distinct_iff)
  then show ?thesis by simp
qed

lemma mset_add_set: "mset ys = add_mset e (mset xs) \<Longrightarrow> set ys = insert e (set xs)"
  by (metis set_mset_add_mset_insert set_mset_mset)

lemma mset_add_length: "mset ys = add_mset e (mset xs) \<Longrightarrow> length ys = Suc (length xs)"
  by (metis size_add_mset size_mset)

lemma map_of_distinct_set:
  assumes "distinct (map f xs)" "distinct (map f ys)" "set ys = insert e (set xs)" "f e \<notin> f ` set xs"
  shows "map_of (map (\<lambda>x. (f x, g x)) ys) = (map_of (map (\<lambda>x. (f x, g x)) xs))(f e \<mapsto> g e)"
proof -
  have comp: "map fst (map (\<lambda>x. (f x, g x)) zs) = map f zs" for zs by simp
  have "map_of (map (\<lambda>x. (f x, g x)) ys) = map_of (map (\<lambda>x. (f x, g x)) (e # xs))"
    using assms by (intro map_of_inject_set [THEN iffD2]) (auto simp: comp comp_def)
  then show ?thesis by simp
qed

section \<open>Tables with a key\<close>

text \<open>
  A table \<open>es\<close> of which the entries with \<open>P\<close> are occupied, each under its own key. \<open>tbl\<close> is the map it
  represents.
\<close>

definition keyed :: "('a \<Rightarrow> bool) \<Rightarrow> ('a \<Rightarrow> 'k) \<Rightarrow> 'a list \<Rightarrow> bool" where
  "keyed P key es \<longleftrightarrow> (\<forall>i < length es. \<forall>j < length es.
     P (es ! i) \<and> P (es ! j) \<and> key (es ! i) = key (es ! j) \<longrightarrow> i = j)"

definition tbl :: "('a \<Rightarrow> bool) \<Rightarrow> ('a \<Rightarrow> 'k) \<Rightarrow> 'a list \<Rightarrow> 'k \<rightharpoonup> 'a" where
  "tbl P key es k = map_option ((!) es) (first_idx (\<lambda>e. P e \<and> key e = k) es)"

lemma keyedD:
  "keyed P key es \<Longrightarrow> i < length es \<Longrightarrow> j < length es \<Longrightarrow> P (es ! i) \<Longrightarrow> P (es ! j) \<Longrightarrow>
   key (es ! i) = key (es ! j) \<Longrightarrow> i = j"
  by (simp add: keyed_def)

lemma tbl_None_iff: "tbl P key es k = None \<longleftrightarrow> (\<forall>e \<in> set es. P e \<longrightarrow> key e \<noteq> k)"
  by (auto simp: tbl_def)

lemma tbl_SomeD:
  "tbl P key es k = Some e \<Longrightarrow> \<exists>i < length es. es ! i = e \<and> P e \<and> key e = k"
  by (auto simp: tbl_def dest!: first_idx_SomeD)

lemma tbl_at: "keyed P key es \<Longrightarrow> i < length es \<Longrightarrow> P (es ! i) \<Longrightarrow> tbl P key es (key (es ! i)) = Some (es ! i)"
  unfolding tbl_def
  by (subst first_idx_unique [of i]) (auto dest: keyedD)

lemma tbl_Some_iff:
  "keyed P key es \<Longrightarrow> tbl P key es k = Some e \<longleftrightarrow> (\<exists>i < length es. es ! i = e \<and> P e \<and> key e = k)"
  by (auto dest: tbl_SomeD tbl_at)

lemma tbl_Some_set:
  "keyed P key es \<Longrightarrow> tbl P key es k = Some e \<longleftrightarrow> e \<in> set es \<and> P e \<and> key e = k"
  by (auto simp: tbl_Some_iff in_set_conv_nth)

lemma map_eqI: "(\<And>k v. m k = Some v \<longleftrightarrow> m' k = Some v) \<Longrightarrow> m = m'"
  by (rule ext) (metis not_None_eq)

lemma tbl_cong:
  assumes "keyed P key es" "keyed P key es'"
    and "\<And>e. P e \<Longrightarrow> key e = l \<Longrightarrow> e \<in> set es \<longleftrightarrow> e \<in> set es'"
  shows "tbl P key es l = tbl P key es' l"
proof -
  have "tbl P key es l = Some v \<longleftrightarrow> tbl P key es' l = Some v" for v
    using assms by (auto simp: tbl_Some_set)
  then show ?thesis by (metis not_None_eq)
qed

lemma nth_update_if: "i < length es \<Longrightarrow> es[i := e] ! j = (if j = i then e else es ! j)"
  by (simp add: nth_list_update)

lemma set_update_other:
  "i < length es \<Longrightarrow> v \<noteq> e \<Longrightarrow> v \<noteq> es ! i \<Longrightarrow> v \<in> set es \<longleftrightarrow> v \<in> set (es[i := e])"
proof (induction es arbitrary: i)
  case (Cons x xs)
  then show ?case by (cases i) auto
qed simp

lemma tbl_update_other:
  assumes "keyed P key es" "keyed P key (es[i := e])" "i < length es"
    and "P e \<Longrightarrow> key e \<noteq> l" "P (es ! i) \<Longrightarrow> key (es ! i) \<noteq> l"
  shows "tbl P key (es[i := e]) l = tbl P key es l"
proof (rule tbl_cong [OF assms(2,1)])
  fix v assume "P v" "key v = l"
  with assms(4,5) have "v \<noteq> e" "v \<noteq> es ! i" by auto
  with assms(3) show "v \<in> set (es[i := e]) \<longleftrightarrow> v \<in> set es" using set_update_other [of i es v e] by blast
qed

lemma keyedI:
  "(\<And>a b. a < length es \<Longrightarrow> b < length es \<Longrightarrow> P (es ! a) \<Longrightarrow> P (es ! b) \<Longrightarrow>
     key (es ! a) = key (es ! b) \<Longrightarrow> a = b) \<Longrightarrow> keyed P key es"
  by (simp add: keyed_def)

lemma tbl_put:
  assumes "keyed P key es" "i < length es" "\<not> P (es ! i)" "P e" "tbl P key es (key e) = None"
  shows "keyed P key (es[i := e]) \<and> tbl P key (es[i := e]) = (tbl P key es)(key e \<mapsto> e)"
proof
  note u = nth_update_if [OF assms(2), of e]
  have new: "j < length es \<Longrightarrow> P (es ! j) \<Longrightarrow> key (es ! j) \<noteq> key e" for j
    using assms(5) by (simp add: tbl_None_iff)
  show k: "keyed P key (es[i := e])"
  proof (rule keyedI)
    fix a b assume "a < length (es[i := e])" "b < length (es[i := e])" "P (es[i := e] ! a)"
      "P (es[i := e] ! b)" "key (es[i := e] ! a) = key (es[i := e] ! b)"
    then show "a = b"
      using keyedD [OF assms(1), of a b] new [of a] new [of b] by (auto simp: u split: if_splits)
  qed
  show "tbl P key (es[i := e]) = (tbl P key es)(key e \<mapsto> e)"
  proof (rule ext)
    fix l
    show "tbl P key (es[i := e]) l = ((tbl P key es)(key e \<mapsto> e)) l"
      using assms(2-4) tbl_at [OF k, of i] tbl_update_other [OF assms(1) k assms(2), of l]
      by (cases "l = key e") simp_all
  qed
qed

lemma tbl_drop:
  assumes "keyed P key es" "i < length es" "P (es ! i)" "\<not> P e"
  shows "keyed P key (es[i := e]) \<and> tbl P key (es[i := e]) = (tbl P key es)(key (es ! i) := None)"
proof
  note u = nth_update_if [OF assms(2), of e]
  show k: "keyed P key (es[i := e])"
  proof (rule keyedI)
    fix a b assume "a < length (es[i := e])" "b < length (es[i := e])" "P (es[i := e] ! a)"
      "P (es[i := e] ! b)" "key (es[i := e] ! a) = key (es[i := e] ! b)"
    then show "a = b"
      using keyedD [OF assms(1), of a b] assms(4) by (auto simp: u split: if_splits)
  qed
  have "j < length es \<Longrightarrow> P (es[i := e] ! j) \<Longrightarrow> key (es[i := e] ! j) \<noteq> key (es ! i)" for j
    using keyedD [OF assms(1) _ assms(2), of j] assms(3,4) by (auto simp: u split: if_splits)
  then have none: "tbl P key (es[i := e]) (key (es ! i)) = None"
    by (auto simp: tbl_None_iff in_set_conv_nth)
  show "tbl P key (es[i := e]) = (tbl P key es)(key (es ! i) := None)"
  proof (rule ext)
    fix l
    show "tbl P key (es[i := e]) l = ((tbl P key es)(key (es ! i) := None)) l"
      using none assms(4) tbl_update_other [OF assms(1) k assms(2), of l]
      by (cases "l = key (es ! i)") simp_all
  qed
qed

lemma tbl_update:
  assumes "keyed P key es" "i < length es" "P (es ! i)" "P e" "key e = key (es ! i)"
  shows "keyed P key (es[i := e]) \<and> tbl P key (es[i := e]) = (tbl P key es)(key e \<mapsto> e)"
proof
  note u = nth_update_if [OF assms(2), of e]
  have same: "j < length es \<Longrightarrow> P (es ! j) \<Longrightarrow> key (es ! j) = key (es ! i) \<Longrightarrow> j = i" for j
    using keyedD [OF assms(1) _ assms(2), of j] assms(3) by simp
  show k: "keyed P key (es[i := e])"
  proof (rule keyedI)
    fix a b assume "a < length (es[i := e])" "b < length (es[i := e])" "P (es[i := e] ! a)"
      "P (es[i := e] ! b)" "key (es[i := e] ! a) = key (es[i := e] ! b)"
    then show "a = b"
      using keyedD [OF assms(1), of a b] same [of a] same [of b]
      by (cases "a = i"; cases "b = i") (simp_all add: u assms(5))
  qed
  show "tbl P key (es[i := e]) = (tbl P key es)(key e \<mapsto> e)"
  proof (rule ext)
    fix l
    show "tbl P key (es[i := e]) l = ((tbl P key es)(key e \<mapsto> e)) l"
      using assms(2-5) tbl_at [OF k, of i] tbl_update_other [OF assms(1) k assms(2), of l]
      by (cases "l = key e") simp_all
  qed
qed

lemma tbl_clear:
  fixes P Q :: "'a \<Rightarrow> bool"
  assumes "keyed P key es" "\<not> P z"
  defines "es' \<equiv> map (\<lambda>e. if P e \<and> Q e then z else e) es"
  shows "keyed P key es' \<and>
    tbl P key es' = (\<lambda>k. case tbl P key es k of None \<Rightarrow> None | Some e \<Rightarrow> if Q e then None else Some e)"
proof
  show k: "keyed P key es'"
  proof (rule keyedI)
    fix a b assume "a < length es'" "b < length es'" "P (es' ! a)" "P (es' ! b)"
      "key (es' ! a) = key (es' ! b)"
    then show "a = b"
      using keyedD [OF assms(1), of a b] assms(2) by (auto simp: es'_def split: if_splits)
  qed
  show "tbl P key es' = (\<lambda>k. case tbl P key es k of None \<Rightarrow> None | Some e \<Rightarrow> if Q e then None else Some e)"
  proof (rule map_eqI)
    fix l v
    have "tbl P key es' l = Some v \<longleftrightarrow> tbl P key es l = Some v \<and> \<not> Q v"
      unfolding tbl_Some_set [OF k] tbl_Some_set [OF assms(1)] using assms(2)
      by (auto simp: es'_def image_iff split: if_splits)
    then show "tbl P key es' l = Some v \<longleftrightarrow>
        (case tbl P key es l of None \<Rightarrow> None | Some e \<Rightarrow> if Q e then None else Some e) = Some v"
      by (auto split: option.splits)
  qed
qed

lemma dom_tbl: "dom (tbl P key es) = key ` {e \<in> set es. P e}"
  using tbl_None_iff [of P key es] by (auto simp: dom_def image_iff)

lemma keyed_card_dom:
  assumes "keyed P key es"
  shows "card (dom (tbl P key es)) = length (filter P es)"
proof -
  have "inj_on (\<lambda>i. key (es ! i)) {i. i < length es \<and> P (es ! i)}"
    using assms by (auto simp: inj_on_def dest: keyedD)
  moreover have "dom (tbl P key es) = (\<lambda>i. key (es ! i)) ` {i. i < length es \<and> P (es ! i)}"
    by (auto simp: dom_tbl in_set_conv_nth image_iff)
  ultimately show ?thesis by (simp add: card_image length_filter_conv_card)
qed

end
