(* ===== verification/Keystore.thy ===== *)
theory Keystore
  imports Transcript Tables
begin

text \<open>
  The store of pinned peer keys: \<open>src/protocol/keystore.c\<close> and \<open>keystore.h\<close>. The 32 entries are a
  list, a free entry has identity length 0 as in the C struct. The abstract view of a store is a
  finite map from identities to public keys; \<open>keystore_add\<close> extends it and never replaces a pin.
\<close>

abbreviation (input) KEYSTORE_MAX_ENTRIES :: nat where "KEYSTORE_MAX_ENTRIES \<equiv> 32"

datatype keystore_status_t =
    KEYSTORE_OK
  | KEYSTORE_OK_ALREADY_PRESENT
  | KEYSTORE_ERR_INVALID_ARG
  | KEYSTORE_ERR_NOT_FOUND
  | KEYSTORE_ERR_KEY_MISMATCH
  | KEYSTORE_ERR_FULL

record keystore_entry_t =
  ks_id :: bytes
  ks_id_len :: byte
  ks_public_key :: bytes

record keystore_t =
  ks_entries :: "keystore_entry_t list"
  ks_count :: nat

definition id_len_valid :: "nat \<Rightarrow> bool" where
  "id_len_valid id_len \<longleftrightarrow> id_len \<ge> WIRE_ID_MIN_LEN \<and> id_len \<le> WIRE_ID_MAX_LEN"

definition entry_matches :: "keystore_entry_t \<Rightarrow> bytes \<Rightarrow> nat \<Rightarrow> bool" where
  "entry_matches e ident id_len =
     (if ks_id_len e = 0 \<or> unat (ks_id_len e) \<noteq> id_len then False
      else take id_len (ks_id e) = take id_len ident)"

definition find_entry :: "keystore_t \<Rightarrow> bytes \<Rightarrow> nat \<Rightarrow> nat option" where
  "find_entry ks ident id_len =
     first_idx (\<lambda>e. entry_matches e ident id_len) (take KEYSTORE_MAX_ENTRIES (ks_entries ks))"

definition keystore_entry_zero :: keystore_entry_t where
  "keystore_entry_zero = \<lparr>ks_id = zeros WIRE_ID_MAX_LEN, ks_id_len = 0,
     ks_public_key = zeros MLDSA_PUBLIC_KEY_BYTES\<rparr>"

definition keystore_zero :: keystore_t where
  "keystore_zero = \<lparr>ks_entries = replicate KEYSTORE_MAX_ENTRIES keystore_entry_zero, ks_count = 0\<rparr>"

definition keystore_init :: "keystore_t ptr \<Rightarrow> keystore_t ptr" where
  "keystore_init ks = (if ks \<noteq> NULL then Some keystore_zero else NULL)"

definition keystore_wipe :: "keystore_t ptr \<Rightarrow> keystore_t ptr" where
  "keystore_wipe ks = (if ks \<noteq> NULL then Some keystore_zero else NULL)"

definition keystore_add ::
  "keystore_t ptr \<Rightarrow> bytes ptr \<Rightarrow> nat \<Rightarrow> bytes ptr \<Rightarrow> keystore_status_t \<times> keystore_t ptr" where
  "keystore_add ksp ident id_len public_key =
     (if ksp = NULL \<or> ident = NULL \<or> public_key = NULL \<or> \<not> id_len_valid id_len
      then (KEYSTORE_ERR_INVALID_ARG, ksp)
      else
        let ks = the ksp in
        (case find_entry ks (the ident) id_len of
           Some i \<Rightarrow>
             if take MLDSA_PUBLIC_KEY_BYTES (ks_public_key (ks_entries ks ! i)) =
                take MLDSA_PUBLIC_KEY_BYTES (the public_key)
             then (KEYSTORE_OK_ALREADY_PRESENT, ksp)
             else (KEYSTORE_ERR_KEY_MISMATCH, ksp)
         | None \<Rightarrow>
             if ks_count ks \<ge> KEYSTORE_MAX_ENTRIES then (KEYSTORE_ERR_FULL, ksp)
             else
               (case first_idx (\<lambda>e. ks_id_len e = 0) (take KEYSTORE_MAX_ENTRIES (ks_entries ks)) of
                  Some i \<Rightarrow>
                    let e = ks_entries ks ! i;
                        e = e\<lparr>ks_id := memcpy (ks_id e) 0 (take id_len (the ident)),
                              ks_id_len := of_nat id_len,
                              ks_public_key :=
                                memcpy (ks_public_key e) 0 (take MLDSA_PUBLIC_KEY_BYTES (the public_key))\<rparr>
                    in (KEYSTORE_OK, Some (ks\<lparr>ks_entries := (ks_entries ks)[i := e],
                                              ks_count := ks_count ks + 1\<rparr>))
                | None \<Rightarrow> (KEYSTORE_ERR_FULL, ksp))))"

definition keystore_lookup ::
  "keystore_t ptr \<Rightarrow> bytes ptr \<Rightarrow> nat \<Rightarrow> bytes ptr ptr \<Rightarrow> keystore_status_t \<times> bytes ptr ptr" where
  "keystore_lookup ksp ident id_len public_key_out =
     (if public_key_out = NULL then (KEYSTORE_ERR_INVALID_ARG, public_key_out)
      else if ksp = NULL \<or> ident = NULL \<or> \<not> id_len_valid id_len
      then (KEYSTORE_ERR_INVALID_ARG, Some NULL)
      else
        let ks = the ksp in
        (case find_entry ks (the ident) id_len of
           Some i \<Rightarrow> (KEYSTORE_OK, Some (Some (ks_public_key (ks_entries ks ! i))))
         | None \<Rightarrow> (KEYSTORE_ERR_NOT_FOUND, Some NULL)))"

definition keystore_count :: "keystore_t ptr \<Rightarrow> nat" where
  "keystore_count ks = (if ks \<noteq> NULL then ks_count (the ks) else 0)"

section \<open>Invariant and abstraction\<close>

definition ks_used :: "keystore_entry_t \<Rightarrow> bool" where
  "ks_used e \<longleftrightarrow> ks_id_len e \<noteq> 0"

definition ks_ident :: "keystore_entry_t \<Rightarrow> bytes" where
  "ks_ident e = take (unat (ks_id_len e)) (ks_id e)"

definition keystore_entry_ok :: "keystore_entry_t \<Rightarrow> bool" where
  "keystore_entry_ok e \<longleftrightarrow> length (ks_id e) = WIRE_ID_MAX_LEN \<and>
     unat (ks_id_len e) \<le> WIRE_ID_MAX_LEN \<and> length (ks_public_key e) = MLDSA_PUBLIC_KEY_BYTES"

definition ks_used_entries :: "keystore_t \<Rightarrow> keystore_entry_t list" where
  "ks_used_entries ks = filter ks_used (ks_entries ks)"

definition keystore_inv :: "keystore_t \<Rightarrow> bool" where
  "keystore_inv ks \<longleftrightarrow> length (ks_entries ks) = KEYSTORE_MAX_ENTRIES \<and>
     (\<forall>e \<in> set (ks_entries ks). keystore_entry_ok e) \<and>
     ks_count ks = length (ks_used_entries ks) \<and>
     distinct (map ks_ident (ks_used_entries ks))"

definition ks_map :: "keystore_t \<Rightarrow> bytes \<rightharpoonup> bytes" where
  "ks_map ks = map_of (map (\<lambda>e. (ks_ident e, ks_public_key e)) (ks_used_entries ks))"

lemmas keystore_defs = keystore_inv_def keystore_entry_ok_def ks_used_entries_def

lemma entry_matches_iff:
  assumes "keystore_entry_ok e" "length ident = id_len"
  shows "entry_matches e ident id_len \<longleftrightarrow> ks_used e \<and> ks_ident e = ident"
  using assms by (auto simp: entry_matches_def ks_used_def ks_ident_def keystore_entry_ok_def)

lemma keystore_inv_zero: "keystore_inv keystore_zero"
  by (simp add: keystore_defs keystore_zero_def keystore_entry_zero_def ks_used_def)

lemma ks_map_zero: "ks_map keystore_zero = Map.empty"
  by (simp add: ks_map_def ks_used_entries_def keystore_zero_def keystore_entry_zero_def ks_used_def)

lemma ks_map_Some_iff:
  assumes "keystore_inv ks"
  shows "ks_map ks i = Some k \<longleftrightarrow>
    (\<exists>e \<in> set (ks_entries ks). ks_used e \<and> ks_ident e = i \<and> ks_public_key e = k)"
proof -
  have "distinct (map fst (map (\<lambda>e. (ks_ident e, ks_public_key e)) (ks_used_entries ks)))"
    using assms by (simp add: keystore_inv_def comp_def)
  then show ?thesis by (auto simp: ks_map_def map_of_eq_Some_iff ks_used_entries_def)
qed

lemma find_entry_map:
  assumes "keystore_inv ks" "id_len_valid (length i)"
  shows "ks_map ks i = map_option (\<lambda>n. ks_public_key (ks_entries ks ! n)) (find_entry ks i (length i))"
proof (cases "find_entry ks i (length i)")
  case None
  then have "\<forall>e \<in> set (ks_entries ks). \<not> (ks_used e \<and> ks_ident e = i)"
    using assms by (auto simp: find_entry_def keystore_inv_def entry_matches_iff)
  then show ?thesis using None ks_map_Some_iff [OF assms(1)] by (metis not_None_eq option.map_disc_iff)
next
  case (Some n)
  then have "n < length (ks_entries ks)" "entry_matches (ks_entries ks ! n) i (length i)"
    using assms(1) first_idx_SomeD [of _ "take 32 (ks_entries ks)" n]
    by (auto simp: find_entry_def keystore_inv_def)
  moreover from this have "keystore_entry_ok (ks_entries ks ! n)"
    using assms(1) by (simp add: keystore_inv_def)
  ultimately have "ks_map ks i = Some (ks_public_key (ks_entries ks ! n))"
    using ks_map_Some_iff [OF assms(1)] by (auto simp: entry_matches_iff)
  with Some show ?thesis by simp
qed

lemma keystore_free_slot:
  assumes "keystore_inv ks" "ks_count ks < 32"
  shows "\<exists>n. first_idx (\<lambda>e. ks_id_len e = 0) (take 32 (ks_entries ks)) = Some n"
proof -
  have "\<exists>e \<in> set (ks_entries ks). \<not> ks_used e"
  proof (rule ccontr)
    assume "\<not> ?thesis"
    then have "ks_used_entries ks = ks_entries ks" by (simp add: ks_used_entries_def)
    with assms show False by (simp add: keystore_inv_def)
  qed
  then show ?thesis
    using assms(1) by (auto simp: keystore_inv_def ks_used_def intro: first_idx_ex)
qed

lemma keystore_put:
  assumes inv: "keystore_inv ks" and i: "ks_map ks i = None" "id_len_valid (length i)"
    and n: "n < length (ks_entries ks)" "ks_id_len (ks_entries ks ! n) = 0"
    and e: "keystore_entry_ok e" "ks_used e" "ks_ident e = i" "ks_public_key e = k"
  shows "keystore_inv (ks\<lparr>ks_entries := (ks_entries ks)[n := e], ks_count := ks_count ks + 1\<rparr>) \<and>
    ks_map (ks\<lparr>ks_entries := (ks_entries ks)[n := e], ks_count := ks_count ks + 1\<rparr>) = (ks_map ks)(i \<mapsto> k)"
proof -
  let ?ys = "filter ks_used ((ks_entries ks)[n := e])"
  have m: "mset ?ys = add_mset e (mset (ks_used_entries ks))"
    unfolding ks_used_entries_def
    using n e by (intro mset_filter_update_new) (simp_all add: ks_used_def)
  have d: "distinct (map ks_ident (ks_used_entries ks))" using inv by (simp add: keystore_inv_def)
  have f: "ks_ident e \<notin> ks_ident ` set (ks_used_entries ks)"
    using i(1) e(3) ks_map_Some_iff [OF inv, of i] by (fastforce simp: ks_used_entries_def)
  have d': "distinct (map ks_ident ?ys)" using f d unfolding mset_add_distinct_map [OF m] by blast
  have "map_of (map (\<lambda>e. (ks_ident e, ks_public_key e)) ?ys) = (ks_map ks)(i \<mapsto> k)"
    using map_of_distinct_set [OF d d' mset_add_set [OF m] f, of ks_public_key] e(3,4)
    by (simp add: ks_map_def)
  moreover have "\<forall>x \<in> set ((ks_entries ks)[n := e]). keystore_entry_ok x"
    using inv e(1) set_update_subset_insert [of "ks_entries ks" n e] by (auto simp: keystore_inv_def)
  ultimately show ?thesis
    using inv d' mset_add_length [OF m] by (simp add: keystore_inv_def ks_map_def ks_used_entries_def)
qed

lemma ks_count_dom:
  assumes "keystore_inv ks"
  shows "ks_count ks = card (dom (ks_map ks))"
proof -
  have "dom (ks_map ks) = set (map ks_ident (ks_used_entries ks))"
    by (auto simp: ks_map_def dom_map_of_conv_image_fst image_iff)
  moreover have "ks_count ks = length (map ks_ident (ks_used_entries ks))"
    "distinct (map ks_ident (ks_used_entries ks))"
    using assms by (simp_all add: keystore_inv_def)
  ultimately show ?thesis by (metis distinct_card)
qed

lemma keystore_entry_write:
  assumes "keystore_entry_ok e" "id_len_valid (length i)" "length k = 1952"
  defines "e' \<equiv> e\<lparr>ks_id := memcpy (ks_id e) 0 i, ks_id_len := of_nat (length i),
      ks_public_key := memcpy (ks_public_key e) 0 k\<rparr>"
  shows "keystore_entry_ok e' \<and> ks_used e' \<and> ks_ident e' = i \<and> ks_public_key e' = k"
proof -
  have l: "0 < length i" "length i \<le> 64" "unat (of_nat (length i) :: byte) = length i"
    using assms(2) by (auto simp: id_len_valid_def)
  then have "(of_nat (length i) :: byte) \<noteq> 0" by (metis less_irrefl unat_0)
  with l assms(1,3) show ?thesis
    by (simp add: e'_def keystore_entry_ok_def ks_used_def ks_ident_def memcpy_whole)
qed

lemma keystore_add_new:
  assumes inv: "keystore_inv ks" and k: "length k = 1952" and i: "id_len_valid (length i)"
    and new: "ks_map ks i = None" and room: "ks_count ks < 32"
  shows "\<exists>s. keystore_add (Some ks) (Some i) (length i) (Some k) = (KEYSTORE_OK, Some s) \<and>
    keystore_inv s \<and> ks_map s = (ks_map ks)(i \<mapsto> k)"
proof -
  obtain n where n: "first_idx (\<lambda>e. ks_id_len e = 0) (take 32 (ks_entries ks)) = Some n"
    using keystore_free_slot [OF inv room] by blast
  with inv have free: "n < length (ks_entries ks)" "ks_id_len (ks_entries ks ! n) = 0"
    using first_idx_SomeD [OF n] by (auto simp: keystore_inv_def)
  then have ok: "keystore_entry_ok (ks_entries ks ! n)" using inv by (simp add: keystore_inv_def)
  have none: "find_entry ks i (length i) = None"
    using find_entry_map [OF inv i] new by simp
  define e where "e = (ks_entries ks ! n)\<lparr>ks_id := memcpy (ks_id (ks_entries ks ! n)) 0 i,
    ks_id_len := of_nat (length i), ks_public_key := memcpy (ks_public_key (ks_entries ks ! n)) 0 k\<rparr>"
  have "keystore_entry_ok e \<and> ks_used e \<and> ks_ident e = i \<and> ks_public_key e = k"
    unfolding e_def by (rule keystore_entry_write [OF ok i k])
  then have "keystore_inv (ks\<lparr>ks_entries := (ks_entries ks)[n := e], ks_count := ks_count ks + 1\<rparr>) \<and>
    ks_map (ks\<lparr>ks_entries := (ks_entries ks)[n := e], ks_count := ks_count ks + 1\<rparr>) = (ks_map ks)(i \<mapsto> k)"
    using keystore_put [OF inv new i free] by blast
  moreover have "keystore_add (Some ks) (Some i) (length i) (Some k) =
      (KEYSTORE_OK, Some (ks\<lparr>ks_entries := (ks_entries ks)[n := e], ks_count := ks_count ks + 1\<rparr>))"
    using none n room i k by (simp add: keystore_add_def Let_def e_def)
  ultimately show ?thesis by blast
qed

lemma keystore_add_old:
  assumes inv: "keystore_inv ks" and k: "length k = 1952" and i: "id_len_valid (length i)"
    and old: "ks_map ks i = Some k'"
  shows "keystore_add (Some ks) (Some i) (length i) (Some k) =
    (if k' = k then KEYSTORE_OK_ALREADY_PRESENT else KEYSTORE_ERR_KEY_MISMATCH, Some ks)"
proof -
  from find_entry_map [OF inv i] old obtain n
    where n: "find_entry ks i (length i) = Some n" "ks_public_key (ks_entries ks ! n) = k'"
    by (cases "find_entry ks i (length i)") auto
  have "length k' = 1952"
    using old ks_map_Some_iff [OF inv] inv by (auto simp: keystore_inv_def keystore_entry_ok_def)
  with n i k show ?thesis by (simp add: keystore_add_def)
qed

lemma keystore_add_full:
  assumes "keystore_inv ks" "id_len_valid (length i)" "ks_map ks i = None" "\<not> ks_count ks < 32"
  shows "keystore_add (Some ks) (Some i) (length i) (Some k) = (KEYSTORE_ERR_FULL, Some ks)"
  using assms find_entry_map [OF assms(1,2)] by (simp add: keystore_add_def)

lemma keystore_add_invalid:
  "\<not> id_len_valid (length i) \<Longrightarrow>
   keystore_add (Some ks) (Some i) (length i) (Some k) = (KEYSTORE_ERR_INVALID_ARG, Some ks)"
  by (simp add: keystore_add_def)

lemmas keystore_add_cases = keystore_add_new keystore_add_old keystore_add_full keystore_add_invalid

section \<open>Refinement of a finite map\<close>

lemma keystore_lookup_spec:
  assumes "keystore_inv ks"
  shows "keystore_lookup (Some ks) (Some i) (length i) (Some x) =
    (if \<not> id_len_valid (length i) then (KEYSTORE_ERR_INVALID_ARG, Some NULL)
     else case ks_map ks i of
            Some k \<Rightarrow> (KEYSTORE_OK, Some (Some k))
          | None \<Rightarrow> (KEYSTORE_ERR_NOT_FOUND, Some NULL))"
  using find_entry_map [OF assms, of i]
  by (auto simp: keystore_lookup_def split: option.splits)

text \<open>
  C20. The key store refines a finite map. On a well-formed store, lookup reports the pinned key (or
  not-found, or an invalid argument). Adding an identity keeps the store well-formed; it extends
  the map if the identity is new and there is room, and in every other case (same key, other key,
  full, bad length) it changes nothing and reports which case it is.
\<close>

theorem keystore_refines_map:
  assumes inv: "keystore_inv ks" and k: "length k = MLDSA_PUBLIC_KEY_BYTES"
  shows "keystore_lookup (Some ks) (Some i) (length i) (Some x) =
      (if \<not> id_len_valid (length i) then (KEYSTORE_ERR_INVALID_ARG, Some NULL)
       else case ks_map ks i of
              Some k \<Rightarrow> (KEYSTORE_OK, Some (Some k))
            | None \<Rightarrow> (KEYSTORE_ERR_NOT_FOUND, Some NULL)) \<and>
    (\<exists>s st. keystore_add (Some ks) (Some i) (length i) (Some k) = (st, Some s) \<and> keystore_inv s \<and>
      (if \<not> id_len_valid (length i) then st = KEYSTORE_ERR_INVALID_ARG \<and> s = ks
       else case ks_map ks i of
              Some k' \<Rightarrow> s = ks \<and>
                st = (if k' = k then KEYSTORE_OK_ALREADY_PRESENT else KEYSTORE_ERR_KEY_MISMATCH)
            | None \<Rightarrow>
                if card (dom (ks_map ks)) < KEYSTORE_MAX_ENTRIES
                then st = KEYSTORE_OK \<and> ks_map s = (ks_map ks)(i \<mapsto> k)
                else st = KEYSTORE_ERR_FULL \<and> s = ks))"
proof (cases "id_len_valid (length i)")
  case True
  then show ?thesis
    using keystore_add_new [OF inv k True] keystore_add_old [OF inv k True]
      keystore_add_full [OF inv True, of k] inv
    by (cases "ks_map ks i"; cases "ks_count ks < 32")
      (auto simp: keystore_lookup_spec [OF inv] ks_count_dom [OF inv])
qed (simp add: keystore_lookup_spec [OF inv] keystore_add_invalid inv)

theorem keystore_refines_map_witness:
  "\<exists>s. keystore_add (Some keystore_zero) (Some [7]) (length [7::byte]) (Some (zeros 1952)) =
     (KEYSTORE_OK, Some s) \<and> ks_map s = [[7] \<mapsto> zeros 1952]"
  using keystore_refines_map [OF keystore_inv_zero, of "zeros 1952" "[7]"]
  by (auto simp: ks_map_zero id_len_valid_def)

section \<open>Pins are permanent\<close>

definition ks_find :: "keystore_t \<Rightarrow> bytes \<Rightarrow> bytes option" where
  "ks_find ks i = the (snd (keystore_lookup (Some ks) (Some i) (length i) (Some NULL)))"

definition ks_pin :: "keystore_t \<Rightarrow> bytes \<Rightarrow> bytes \<Rightarrow> keystore_t" where
  "ks_pin ks i k = the (snd (keystore_add (Some ks) (Some i) (length i) (Some k)))"

lemma ks_find_map:
  "keystore_inv ks \<Longrightarrow> ks_find ks i = (if id_len_valid (length i) then ks_map ks i else None)"
  by (simp add: ks_find_def keystore_lookup_spec split: option.splits)

lemma ks_pin_map:
  assumes "keystore_inv ks" "length k = 1952"
  shows "keystore_inv (ks_pin ks i k) \<and>
    (ks_pin ks i k = ks \<or> ks_map ks i = None \<and> ks_map (ks_pin ks i k) = (ks_map ks)(i \<mapsto> k))"
proof (cases "id_len_valid (length i)")
  case True
  then show ?thesis
    using keystore_add_new [OF assms True] keystore_add_old [OF assms True]
      keystore_add_full [OF assms(1) True, of k] assms(1)
    by (cases "ks_map ks i"; cases "ks_count ks < 32") (auto simp: ks_pin_def)
qed (simp add: keystore_add_invalid assms ks_pin_def)

interpretation ks: pin_store keystore_inv ks_find ks_pin "\<lambda>k. length k = 1952"
proof
  fix s k i j assume inv: "keystore_inv s" and k: "length (k :: bytes) = 1952"
  note pin = ks_pin_map [OF inv k, of i]
  then show "keystore_inv (ks_pin s i k)" by blast
  then show "i \<noteq> j \<Longrightarrow> ks_find (ks_pin s i k) j = ks_find s j"
    and "ks_find (ks_pin s i k) i =
      (case ks_find s i of Some k' \<Rightarrow> Some k' | None \<Rightarrow> ks_find (ks_pin s i k) i)"
    and "ks_find s i = None \<Longrightarrow> ks_find (ks_pin s i k) i \<in> {None, Some k}"
    using pin inv by (auto simp: ks_find_map split: option.splits)
qed

lemma ks_add_all_fold: "ks.add_all s ps = fold (\<lambda>(i, k) s. ks_pin s i k) ps s"
  by (induction ps arbitrary: s) (simp_all add: split_beta)

text \<open>
  Trust on first use. After any sequence of additions a key that was pinned is still the one
  that lookup returns, and a key that lookup returns for an identity was either pinned before or is
  one that was added for exactly that identity.
\<close>

theorem keystore_pins_permanent:
  assumes "keystore_inv ks" "\<forall>p \<in> set ps. length (snd p) = MLDSA_PUBLIC_KEY_BYTES"
  defines "ks' \<equiv> fold (\<lambda>(i, k) s. the (snd (keystore_add (Some s) (Some i) (length i) (Some k)))) ps ks"
  shows "keystore_inv ks' \<and>
    (ks_find ks i = Some k \<longrightarrow> ks_find ks' i = Some k) \<and>
    (ks_find ks' i = Some k \<longrightarrow> ks_find ks i = Some k \<or> (i, k) \<in> set ps)"
proof -
  have "ks' = ks.add_all ks ps" by (simp add: ks'_def ks_add_all_fold ks_pin_def)
  then show ?thesis
    using ks.add_all_inv ks.add_all_kept ks.add_all_origin assms(1,2) by simp
qed

theorem keystore_pins_permanent_witness:
  "ks_find (fold (\<lambda>(i, k) s. the (snd (keystore_add (Some s) (Some i) (length i) (Some k))))
     [([7], replicate 1952 9)] (ks_pin keystore_zero [7] (zeros 1952))) [7] = Some (zeros 1952)"
proof -
  have "ks_count keystore_zero = 0" by (simp add: keystore_zero_def)
  then have p: "keystore_inv (ks_pin keystore_zero [7] (zeros 1952))"
    "ks_find (ks_pin keystore_zero [7] (zeros 1952)) [7] = Some (zeros 1952)"
    using keystore_add_new [OF keystore_inv_zero, of "zeros 1952" "[7]"]
    by (auto simp: ks_pin_def ks_find_map id_len_valid_def ks_map_zero)
  show ?thesis
    using keystore_pins_permanent [OF p(1), of "[([7], replicate 1952 9)]" "[7]" "zeros 1952"] p(2)
    by simp
qed

end
