(* ===== verification/Pending.thy ===== *)
theory Pending
  imports Transcript Tables
begin

text \<open>
  The responder's ledger of pending handshakes: the first part of \<open>src/protocol/handshake.c\<close>
  (\<open>handshake_pending_*\<close>) and its types in \<open>handshake.h\<close>.

  A store holds its inline array (\<open>ps_entries\<close>) and the caller's array (\<open>ps_ext\<close>, borrowed by
  \<open>handshake_pending_store_init_ext\<close>); \<open>ps_slots\<close> says which of the two the slot pointer designates.
  The clock is a callback of the caller: \<open>ps_clock_fn\<close> says whether it is set, and every operation
  takes what the clock answers during the call, in the order of its readings.

  The abstract view of a store is the finite map from handshake identifiers to occupied entries.
  \<open>ledger_check\<close> and the definitions after it say what each operation means on that map, and the
  refinement lemmas show that the array code implements them.
\<close>

abbreviation (input) HANDSHAKE_PENDING_MAX :: nat where "HANDSHAKE_PENDING_MAX \<equiv> 256"
abbreviation (input) HANDSHAKE_PENDING_EXT_MAX :: nat where "HANDSHAKE_PENDING_EXT_MAX \<equiv> 2048"
abbreviation (input) HANDSHAKE_AUTH_FAILURE_LIMIT :: nat where "HANDSHAKE_AUTH_FAILURE_LIMIT \<equiv> 3"
abbreviation (input) HANDSHAKE_TRANSCRIPT_HASH_BYTES :: nat where
  "HANDSHAKE_TRANSCRIPT_HASH_BYTES \<equiv> 32"

datatype pending_slot_state_t =
    PENDING_SLOT_FREE
  | PENDING_SLOT_ACTIVE
  | PENDING_SLOT_CONSUMED
  | PENDING_SLOT_AUTH_LIMITED
  | PENDING_SLOT_EXPIRED

datatype pending_status_t =
    PENDING_OK
  | PENDING_ERR_INVALID_ARG
  | PENDING_ERR_NOT_FOUND
  | PENDING_ERR_EXPIRED
  | PENDING_ERR_CONSUMED
  | PENDING_ERR_AUTH_LIMIT
  | PENDING_ERR_FULL

record handshake_pending_entry_t =
  pe_state :: pending_slot_state_t
  pe_handshake_id :: bytes
  pe_th_client_auth :: bytes
  pe_deadline_ms :: u64
  pe_failure_count :: byte

datatype slots_ptr = SLOTS_NULL | SLOTS_INLINE | SLOTS_EXT

record handshake_pending_store_t =
  ps_entries :: "handshake_pending_entry_t list"
  ps_ext :: "handshake_pending_entry_t list"
  ps_slots :: slots_ptr
  ps_capacity :: nat
  ps_ttl_ms :: u64
  ps_clock_fn :: bool

definition pending_entry_zero :: handshake_pending_entry_t where
  "pending_entry_zero = \<lparr>pe_state = PENDING_SLOT_FREE, pe_handshake_id = zeros WIRE_HANDSHAKE_ID_LEN,
     pe_th_client_auth = zeros HANDSHAKE_TRANSCRIPT_HASH_BYTES, pe_deadline_ms = 0, pe_failure_count = 0\<rparr>"

definition pending_store_zero :: "handshake_pending_entry_t list \<Rightarrow> handshake_pending_store_t" where
  "pending_store_zero ext = \<lparr>ps_entries = replicate HANDSHAKE_PENDING_MAX pending_entry_zero,
     ps_ext = ext, ps_slots = SLOTS_NULL, ps_capacity = 0, ps_ttl_ms = 0, ps_clock_fn = False\<rparr>"

definition slots_of :: "handshake_pending_store_t \<Rightarrow> handshake_pending_entry_t list" where
  "slots_of s = (case ps_slots s of SLOTS_NULL \<Rightarrow> [] | SLOTS_INLINE \<Rightarrow> ps_entries s | SLOTS_EXT \<Rightarrow> ps_ext s)"

definition set_slots ::
  "handshake_pending_store_t \<Rightarrow> handshake_pending_entry_t list \<Rightarrow> handshake_pending_store_t" where
  "set_slots s es = (case ps_slots s of SLOTS_NULL \<Rightarrow> s
     | SLOTS_INLINE \<Rightarrow> s\<lparr>ps_entries := es\<rparr> | SLOTS_EXT \<Rightarrow> s\<lparr>ps_ext := es\<rparr>)"

definition set_slot ::
  "handshake_pending_store_t \<Rightarrow> nat \<Rightarrow> handshake_pending_entry_t \<Rightarrow> handshake_pending_store_t" where
  "set_slot s i e = set_slots s ((slots_of s)[i := e])"

definition default_monotonic_ms :: "(u64 \<times> u64) option \<Rightarrow> u64" where
  "default_monotonic_ms ts =
     (case ts of None \<Rightarrow> UINT64_MAX
      | Some (tv_sec, tv_nsec) \<Rightarrow> tv_sec * 1000 + tv_nsec div 1000000)"

definition handshake_default_clock_ms :: "(u64 \<times> u64) option \<Rightarrow> u64" where
  "handshake_default_clock_ms ts = default_monotonic_ms ts"

definition cap_limit_for :: "slots_ptr \<Rightarrow> nat" where
  "cap_limit_for slots =
     (if slots = SLOTS_INLINE then HANDSHAKE_PENDING_MAX else HANDSHAKE_PENDING_EXT_MAX)"

definition store_usable :: "handshake_pending_store_t ptr \<Rightarrow> bool" where
  "store_usable sp \<longleftrightarrow> sp \<noteq> NULL \<and> ps_slots (the sp) \<noteq> SLOTS_NULL \<and> ps_clock_fn (the sp) \<and>
     ps_capacity (the sp) \<ge> 1 \<and> ps_capacity (the sp) \<le> cap_limit_for (ps_slots (the sp)) \<and>
     ps_ttl_ms (the sp) > 0"

definition entry_expired :: "handshake_pending_entry_t \<Rightarrow> u64 \<Rightarrow> bool" where
  "entry_expired e now \<longleftrightarrow> now \<ge> pe_deadline_ms e"

definition tombstone ::
  "handshake_pending_entry_t \<Rightarrow> pending_slot_state_t \<Rightarrow> handshake_pending_entry_t" where
  "tombstone e st = e\<lparr>pe_state := st, pe_th_client_auth := zeros HANDSHAKE_TRANSCRIPT_HASH_BYTES\<rparr>"

definition free_slot :: "handshake_pending_store_t \<Rightarrow> nat \<Rightarrow> handshake_pending_store_t" where
  "free_slot s i = set_slot s i pending_entry_zero"

primrec find_slot_loop ::
  "handshake_pending_entry_t list \<Rightarrow> bytes \<Rightarrow> nat \<Rightarrow> bool \<Rightarrow> nat \<Rightarrow> bool \<times> nat" where
  "find_slot_loop [] hid i found index = (found, index)"
| "find_slot_loop (e # es) hid i found index =
     (let in_use = pe_state e \<noteq> PENDING_SLOT_FREE;
          equal = take WIRE_HANDSHAKE_ID_LEN (pe_handshake_id e) = take WIRE_HANDSHAKE_ID_LEN hid
      in if in_use \<and> equal \<and> \<not> found then find_slot_loop es hid (i + 1) True i
         else find_slot_loop es hid (i + 1) found index)"

definition find_slot :: "handshake_pending_store_t \<Rightarrow> bytes \<Rightarrow> bool \<times> nat" where
  "find_slot s hid = find_slot_loop (take (ps_capacity s) (slots_of s)) hid 0 False 0"

definition store_init_common ::
  "handshake_pending_store_t ptr \<Rightarrow> slots_ptr \<Rightarrow> handshake_pending_entry_t list \<Rightarrow> nat \<Rightarrow> u64 \<Rightarrow>
   pending_status_t \<times> handshake_pending_store_t ptr" where
  "store_init_common sp slots ext capacity ttl_ms =
     (if sp = NULL then (PENDING_ERR_INVALID_ARG, sp)
      else
        let s = pending_store_zero ext in
        if slots = SLOTS_NULL \<or> capacity < 1 \<or> capacity > cap_limit_for slots \<or> ttl_ms = 0
        then (PENDING_ERR_INVALID_ARG, Some s)
        else
          let s = s\<lparr>ps_slots := slots\<rparr>;
              s = set_slots s (replicate capacity pending_entry_zero @ drop capacity (slots_of s))
          in (PENDING_OK, Some (s\<lparr>ps_capacity := capacity, ps_ttl_ms := ttl_ms, ps_clock_fn := True\<rparr>)))"

definition handshake_pending_store_init ::
  "handshake_pending_store_t ptr \<Rightarrow> nat \<Rightarrow> u64 \<Rightarrow> pending_status_t \<times> handshake_pending_store_t ptr" where
  "handshake_pending_store_init sp capacity ttl_ms =
     (if sp = NULL then (PENDING_ERR_INVALID_ARG, sp)
      else store_init_common sp SLOTS_INLINE [] capacity ttl_ms)"

definition handshake_pending_store_init_ext ::
  "handshake_pending_store_t ptr \<Rightarrow> handshake_pending_entry_t list ptr \<Rightarrow> nat \<Rightarrow> u64 \<Rightarrow>
   pending_status_t \<times> handshake_pending_store_t ptr" where
  "handshake_pending_store_init_ext sp slots capacity ttl_ms =
     (case slots of
        NULL \<Rightarrow> store_init_common sp SLOTS_NULL [] capacity ttl_ms
      | Some ext \<Rightarrow> store_init_common sp SLOTS_EXT ext capacity ttl_ms)"

definition handshake_pending_store_wipe ::
  "handshake_pending_store_t ptr \<Rightarrow> handshake_pending_store_t ptr" where
  "handshake_pending_store_wipe sp =
     (case sp of NULL \<Rightarrow> NULL
      | Some s \<Rightarrow>
        let ext = (if ps_slots s \<noteq> SLOTS_NULL \<and> ps_slots s \<noteq> SLOTS_INLINE
                   then replicate (ps_capacity s) pending_entry_zero @ drop (ps_capacity s) (ps_ext s)
                   else ps_ext s)
        in Some (pending_store_zero ext))"

definition handshake_pending_sweep ::
  "handshake_pending_store_t ptr \<Rightarrow> u64 \<Rightarrow> handshake_pending_store_t ptr" where
  "handshake_pending_sweep sp now =
     (if \<not> store_usable sp then sp
      else
        let s = the sp; cap = ps_capacity s; es = slots_of s
        in Some (set_slots s
             (map (\<lambda>e. if pe_state e \<noteq> PENDING_SLOT_FREE \<and> entry_expired e now
                       then pending_entry_zero else e) (take cap es) @ drop cap es)))"

definition handshake_pending_insert ::
  "handshake_pending_store_t ptr \<Rightarrow> u64 \<Rightarrow> u64 \<Rightarrow> bytes ptr \<Rightarrow> bytes ptr \<Rightarrow>
   pending_status_t \<times> handshake_pending_store_t ptr" where
  "handshake_pending_insert sp now_sweep now handshake_id th_client_auth =
     (if \<not> store_usable sp \<or> handshake_id = NULL \<or> th_client_auth = NULL
      then (PENDING_ERR_INVALID_ARG, sp)
      else
        let sp = handshake_pending_sweep sp now_sweep; s = the sp;
            (found, index) = find_slot s (the handshake_id)
        in if found then (PENDING_ERR_INVALID_ARG, sp)
           else
             let deadline = (if now > UINT64_MAX - ps_ttl_ms s then UINT64_MAX
                             else now + ps_ttl_ms s)
             in (case first_idx (\<lambda>e. pe_state e = PENDING_SLOT_FREE)
                        (take (ps_capacity s) (slots_of s)) of
                   Some i \<Rightarrow>
                     let e = slots_of s ! i;
                         e = e\<lparr>pe_state := PENDING_SLOT_ACTIVE,
                               pe_handshake_id := memcpy (pe_handshake_id e) 0
                                 (take WIRE_HANDSHAKE_ID_LEN (the handshake_id)),
                               pe_th_client_auth := memcpy (pe_th_client_auth e) 0
                                 (take HANDSHAKE_TRANSCRIPT_HASH_BYTES (the th_client_auth)),
                               pe_deadline_ms := deadline, pe_failure_count := 0\<rparr>
                     in (PENDING_OK, Some (set_slot s i e))
                 | None \<Rightarrow> (PENDING_ERR_FULL, sp)))"

definition handshake_pending_get_digest ::
  "handshake_pending_store_t ptr \<Rightarrow> u64 \<Rightarrow> bytes ptr \<Rightarrow> bytes ptr \<Rightarrow>
   pending_status_t \<times> handshake_pending_store_t ptr \<times> bytes ptr" where
  "handshake_pending_get_digest sp now handshake_id th_out =
     (if th_out = NULL then (PENDING_ERR_INVALID_ARG, sp, th_out)
      else
        let zero = memcpy (the th_out) 0 (zeros HANDSHAKE_TRANSCRIPT_HASH_BYTES) in
        if \<not> store_usable sp \<or> handshake_id = NULL then (PENDING_ERR_INVALID_ARG, sp, Some zero)
        else
          let s = the sp; (found, index) = find_slot s (the handshake_id) in
          if \<not> found then (PENDING_ERR_NOT_FOUND, sp, Some zero)
          else
            let e = slots_of s ! index in
            if entry_expired e now then (PENDING_ERR_EXPIRED, Some (free_slot s index), Some zero)
            else if pe_state e = PENDING_SLOT_CONSUMED then (PENDING_ERR_CONSUMED, sp, Some zero)
            else if pe_state e = PENDING_SLOT_AUTH_LIMITED then (PENDING_ERR_AUTH_LIMIT, sp, Some zero)
            else (PENDING_OK, sp,
                  Some (memcpy zero 0 (take HANDSHAKE_TRANSCRIPT_HASH_BYTES (pe_th_client_auth e)))))"

definition handshake_pending_inspect ::
  "handshake_pending_store_t ptr \<Rightarrow> u64 \<Rightarrow> bytes ptr \<Rightarrow> pending_slot_state_t ptr \<Rightarrow> byte ptr \<Rightarrow>
   pending_status_t \<times> pending_slot_state_t ptr \<times> byte ptr" where
  "handshake_pending_inspect sp now handshake_id state_out failure_count_out =
     (if state_out = NULL \<or> failure_count_out = NULL
      then (PENDING_ERR_INVALID_ARG, state_out, failure_count_out)
      else if \<not> store_usable sp \<or> handshake_id = NULL
      then (PENDING_ERR_INVALID_ARG, Some PENDING_SLOT_FREE, Some 0)
      else
        let s = the sp; (found, index) = find_slot s (the handshake_id) in
        if \<not> found then (PENDING_ERR_NOT_FOUND, Some PENDING_SLOT_FREE, Some 0)
        else
          let e = slots_of s ! index; fc = Some (pe_failure_count e) in
          if entry_expired e now then (PENDING_ERR_EXPIRED, Some PENDING_SLOT_EXPIRED, fc)
          else if pe_state e = PENDING_SLOT_CONSUMED
          then (PENDING_ERR_CONSUMED, Some (pe_state e), fc)
          else if pe_state e = PENDING_SLOT_AUTH_LIMITED
          then (PENDING_ERR_AUTH_LIMIT, Some (pe_state e), fc)
          else (PENDING_OK, Some (pe_state e), fc))"

definition handshake_pending_record_failure ::
  "handshake_pending_store_t ptr \<Rightarrow> u64 \<Rightarrow> bytes ptr \<Rightarrow> pending_status_t \<times> handshake_pending_store_t ptr" where
  "handshake_pending_record_failure sp now handshake_id =
     (if \<not> store_usable sp \<or> handshake_id = NULL then (PENDING_ERR_INVALID_ARG, sp)
      else
        let s = the sp; (found, index) = find_slot s (the handshake_id) in
        if \<not> found then (PENDING_ERR_NOT_FOUND, sp)
        else
          let e = slots_of s ! index in
          if entry_expired e now then (PENDING_ERR_EXPIRED, Some (free_slot s index))
          else if pe_state e = PENDING_SLOT_CONSUMED then (PENDING_ERR_CONSUMED, sp)
          else if pe_state e = PENDING_SLOT_AUTH_LIMITED then (PENDING_ERR_AUTH_LIMIT, sp)
          else
            let e = e\<lparr>pe_failure_count := pe_failure_count e + 1\<rparr> in
            if unat (pe_failure_count e) \<ge> HANDSHAKE_AUTH_FAILURE_LIMIT
            then (PENDING_ERR_AUTH_LIMIT, Some (set_slot s index (tombstone e PENDING_SLOT_AUTH_LIMITED)))
            else (PENDING_OK, Some (set_slot s index e)))"

definition handshake_pending_consume_success ::
  "handshake_pending_store_t ptr \<Rightarrow> u64 \<Rightarrow> bytes ptr \<Rightarrow> pending_status_t \<times> handshake_pending_store_t ptr" where
  "handshake_pending_consume_success sp now handshake_id =
     (if \<not> store_usable sp \<or> handshake_id = NULL then (PENDING_ERR_INVALID_ARG, sp)
      else
        let s = the sp; (found, index) = find_slot s (the handshake_id) in
        if \<not> found then (PENDING_ERR_NOT_FOUND, sp)
        else
          let e = slots_of s ! index in
          if entry_expired e now then (PENDING_ERR_EXPIRED, Some (free_slot s index))
          else if pe_state e = PENDING_SLOT_CONSUMED then (PENDING_ERR_CONSUMED, sp)
          else if pe_state e = PENDING_SLOT_AUTH_LIMITED then (PENDING_ERR_AUTH_LIMIT, sp)
          else (PENDING_OK, Some (set_slot s index (tombstone e PENDING_SLOT_CONSUMED))))"

definition handshake_pending_cancel ::
  "handshake_pending_store_t ptr \<Rightarrow> u64 \<Rightarrow> bytes ptr \<Rightarrow> pending_status_t \<times> handshake_pending_store_t ptr" where
  "handshake_pending_cancel sp now handshake_id =
     (if \<not> store_usable sp \<or> handshake_id = NULL then (PENDING_ERR_INVALID_ARG, sp)
      else
        let s = the sp; (found, index) = find_slot s (the handshake_id) in
        if \<not> found then (PENDING_ERR_NOT_FOUND, sp)
        else
          let e = slots_of s ! index in
          if entry_expired e now then (PENDING_ERR_EXPIRED, Some (free_slot s index))
          else if pe_state e = PENDING_SLOT_CONSUMED then (PENDING_ERR_CONSUMED, sp)
          else if pe_state e = PENDING_SLOT_AUTH_LIMITED then (PENDING_ERR_AUTH_LIMIT, sp)
          else (PENDING_OK, Some (free_slot s index)))"

definition handshake_pending_active_count :: "handshake_pending_store_t ptr \<Rightarrow> u64 \<Rightarrow> nat" where
  "handshake_pending_active_count sp now =
     (if \<not> store_usable sp then 0
      else
        let s = the sp
        in length (filter (\<lambda>e. pe_state e = PENDING_SLOT_ACTIVE \<and> \<not> entry_expired e now)
                     (take (ps_capacity s) (slots_of s))))"

section \<open>Invariant and abstraction\<close>

definition pe_in_use :: "handshake_pending_entry_t \<Rightarrow> bool" where
  "pe_in_use e \<longleftrightarrow> pe_state e \<noteq> PENDING_SLOT_FREE"

definition pending_entry_ok :: "handshake_pending_entry_t \<Rightarrow> bool" where
  "pending_entry_ok e \<longleftrightarrow>
     length (pe_handshake_id e) = WIRE_HANDSHAKE_ID_LEN \<and>
     length (pe_th_client_auth e) = HANDSHAKE_TRANSCRIPT_HASH_BYTES \<and>
     pe_state e \<noteq> PENDING_SLOT_EXPIRED \<and>
     (pe_state e = PENDING_SLOT_ACTIVE \<longrightarrow> unat (pe_failure_count e) < HANDSHAKE_AUTH_FAILURE_LIMIT) \<and>
     (pe_state e = PENDING_SLOT_CONSUMED \<or> pe_state e = PENDING_SLOT_AUTH_LIMITED \<longrightarrow>
        pe_th_client_auth e = zeros HANDSHAKE_TRANSCRIPT_HASH_BYTES) \<and>
     (pe_state e = PENDING_SLOT_FREE \<longrightarrow> e = pending_entry_zero)"

definition pend_tab :: "handshake_pending_store_t \<Rightarrow> handshake_pending_entry_t list" where
  "pend_tab s = take (ps_capacity s) (slots_of s)"

definition pending_inv :: "handshake_pending_store_t \<Rightarrow> bool" where
  "pending_inv s \<longleftrightarrow> store_usable (Some s) \<and> length (ps_entries s) = HANDSHAKE_PENDING_MAX \<and>
     ps_capacity s \<le> length (slots_of s) \<and> list_all pending_entry_ok (pend_tab s) \<and>
     keyed pe_in_use pe_handshake_id (pend_tab s)"

type_synonym ledger = "bytes \<rightharpoonup> handshake_pending_entry_t"

definition pend_map :: "handshake_pending_store_t \<Rightarrow> ledger" where
  "pend_map s = tbl pe_in_use pe_handshake_id (pend_tab s)"

lemma pending_entry_zero_ok [simp]: "pending_entry_ok pending_entry_zero" "\<not> pe_in_use pending_entry_zero"
  by (simp_all add: pending_entry_ok_def pending_entry_zero_def pe_in_use_def)

lemma find_slot_loop_eq:
  "find_slot_loop es hid i found index =
     (if found then (True, index)
      else case first_idx (\<lambda>e. pe_in_use e \<and> take 16 (pe_handshake_id e) = take 16 hid) es of
             None \<Rightarrow> (False, index) | Some j \<Rightarrow> (True, i + j))"
proof (induction es arbitrary: i found index)
  case (Cons e es)
  show ?case
    by (cases "first_idx (\<lambda>e. pe_in_use e \<and> take 16 (pe_handshake_id e) = take 16 hid) es")
      (simp_all add: Cons.IH pe_in_use_def del: first_idx_None_iff)
qed simp

lemma find_slot_tab:
  assumes "pending_inv s" "length hid = 16"
  shows "find_slot s hid = (case first_idx (\<lambda>e. pe_in_use e \<and> pe_handshake_id e = hid) (pend_tab s) of
      None \<Rightarrow> (False, 0) | Some j \<Rightarrow> (True, j))"
proof -
  have "first_idx (\<lambda>e. pe_in_use e \<and> take 16 (pe_handshake_id e) = take 16 hid) (pend_tab s) =
      first_idx (\<lambda>e. pe_in_use e \<and> pe_handshake_id e = hid) (pend_tab s)"
    using assms by (intro first_idx_cong) (auto simp: pending_inv_def list_all_iff pending_entry_ok_def)
  then show ?thesis
    by (simp add: find_slot_def find_slot_loop_eq pend_tab_def split: option.split
        del: first_idx_None_iff)
qed

lemma slots_set_slots [simp]: "ps_slots s \<noteq> SLOTS_NULL \<Longrightarrow> slots_of (set_slots s es) = es"
  by (cases "ps_slots s") (simp_all add: slots_of_def set_slots_def)

lemma set_slots_fields [simp]:
  "ps_slots (set_slots s es) = ps_slots s" "ps_capacity (set_slots s es) = ps_capacity s"
  "ps_ttl_ms (set_slots s es) = ps_ttl_ms s" "ps_clock_fn (set_slots s es) = ps_clock_fn s"
  by (simp_all add: set_slots_def split: slots_ptr.splits)

lemma length_entries_set_slots:
  "length es = length (slots_of s) \<Longrightarrow> length (ps_entries (set_slots s es)) = length (ps_entries s)"
  by (simp add: set_slots_def slots_of_def split: slots_ptr.splits)

lemma store_usable_set_slots [simp]: "store_usable (Some (set_slots s es)) = store_usable (Some s)"
  by (simp add: store_usable_def)

lemma pending_inv_slots: "pending_inv s \<Longrightarrow> ps_slots s \<noteq> SLOTS_NULL"
  by (simp add: pending_inv_def store_usable_def)

lemma pending_inv_usable: "pending_inv s \<Longrightarrow> store_usable (Some s)"
  by (simp add: pending_inv_def)

lemma length_pend_tab: "pending_inv s \<Longrightarrow> length (pend_tab s) = ps_capacity s"
  by (simp add: pending_inv_def pend_tab_def)

lemma pend_tab_nth: "pending_inv s \<Longrightarrow> i < ps_capacity s \<Longrightarrow> slots_of s ! i = pend_tab s ! i"
  by (simp add: pend_tab_def)

lemma pend_tab_set_slot:
  "pending_inv s \<Longrightarrow> pend_tab (set_slot s i e) = (pend_tab s)[i := e]"
  by (simp add: pend_tab_def set_slot_def pending_inv_slots take_update_swap)

lemma pending_inv_set_slot:
  assumes "pending_inv s" "i < ps_capacity s" "pending_entry_ok e"
    "keyed pe_in_use pe_handshake_id ((pend_tab s)[i := e])"
  shows "pending_inv (set_slot s i e)"
proof -
  have "list_all pending_entry_ok ((pend_tab s)[i := e])"
    using assms(1,3) set_update_subset_insert [of "pend_tab s" i e]
    by (auto simp: pending_inv_def list_all_iff)
  moreover have "length (slots_of (set_slot s i e)) = length (slots_of s)"
    using assms(1) by (simp add: set_slot_def pending_inv_slots)
  ultimately show ?thesis
    using assms(1,4) pend_tab_set_slot [OF assms(1), of i e]
    by (simp add: pending_inv_def set_slot_def length_entries_set_slots)
qed

lemma pend_map_None:
  "pending_inv s \<Longrightarrow> length hid = 16 \<Longrightarrow> pend_map s hid = None \<Longrightarrow> find_slot s hid = (False, 0)"
  by (simp add: find_slot_tab pend_map_def tbl_def del: first_idx_None_iff)

lemma pend_map_Some:
  assumes "pending_inv s" "length hid = 16" "pend_map s hid = Some e"
  shows "\<exists>j. find_slot s hid = (True, j) \<and> j < ps_capacity s \<and> slots_of s ! j = e \<and> pend_tab s ! j = e \<and>
    pe_in_use e \<and> pe_handshake_id e = hid \<and> pending_entry_ok e"
proof -
  from assms(3) obtain j where
    j: "first_idx (\<lambda>e. pe_in_use e \<and> pe_handshake_id e = hid) (pend_tab s) = Some j" "pend_tab s ! j = e"
    by (auto simp: pend_map_def tbl_def)
  with first_idx_SomeD [OF j(1)] length_pend_tab [OF assms(1)] assms(1) show ?thesis
    by (auto simp: find_slot_tab [OF assms(1,2)] pend_tab_nth pending_inv_def list_all_iff)
qed

lemma pend_lookup:
  assumes "pending_inv s" "length hid = 16"
  obtains (absent) "pend_map s hid = None" "find_slot s hid = (False, 0)"
  | (present) e j where "pend_map s hid = Some e" "find_slot s hid = (True, j)" "j < ps_capacity s"
      "slots_of s ! j = e" "pend_tab s ! j = e" "pe_in_use e" "pe_handshake_id e = hid" "pending_entry_ok e"
  using pend_map_None [OF assms] pend_map_Some [OF assms] by (cases "pend_map s hid") blast+

lemma pending_free:
  assumes "pending_inv s" "j < ps_capacity s" "pe_in_use (pend_tab s ! j)"
  shows "pending_inv (free_slot s j) \<and>
    pend_map (free_slot s j) = (pend_map s)(pe_handshake_id (pend_tab s ! j) := None)"
proof -
  have "keyed pe_in_use pe_handshake_id (pend_tab s)" using assms(1) by (simp add: pending_inv_def)
  from tbl_drop [OF this, of j pending_entry_zero] show ?thesis
    using assms pending_inv_set_slot [OF assms(1,2), of pending_entry_zero]
    by (simp add: free_slot_def pend_map_def pend_tab_set_slot length_pend_tab)
qed

lemma pending_write:
  assumes "pending_inv s" "j < ps_capacity s" "pe_in_use (pend_tab s ! j)"
    and "pending_entry_ok e" "pe_in_use e" "pe_handshake_id e = pe_handshake_id (pend_tab s ! j)"
  shows "pending_inv (set_slot s j e) \<and> pend_map (set_slot s j e) = (pend_map s)(pe_handshake_id e \<mapsto> e)"
proof -
  have "keyed pe_in_use pe_handshake_id (pend_tab s)" using assms(1) by (simp add: pending_inv_def)
  from tbl_update [OF this, of j e] show ?thesis
    using assms pending_inv_set_slot [OF assms(1,2), of e]
    by (simp add: pend_map_def pend_tab_set_slot length_pend_tab)
qed

lemma pending_put:
  assumes "pending_inv s" "j < ps_capacity s" "\<not> pe_in_use (pend_tab s ! j)"
    and "pending_entry_ok e" "pe_in_use e" "pend_map s (pe_handshake_id e) = None"
  shows "pending_inv (set_slot s j e) \<and> pend_map (set_slot s j e) = (pend_map s)(pe_handshake_id e \<mapsto> e)"
proof -
  have "keyed pe_in_use pe_handshake_id (pend_tab s)" using assms(1) by (simp add: pending_inv_def)
  from tbl_put [OF this, of j e] show ?thesis
    using assms pending_inv_set_slot [OF assms(1,2), of e]
    by (simp add: pend_map_def pend_tab_set_slot length_pend_tab)
qed

section \<open>The abstract ledger\<close>

definition ledger_sweep :: "ledger \<Rightarrow> u64 \<Rightarrow> ledger" where
  "ledger_sweep m now =
     (\<lambda>i. case m i of None \<Rightarrow> None | Some e \<Rightarrow> if entry_expired e now then None else Some e)"

definition ledger_check :: "ledger \<Rightarrow> u64 \<Rightarrow> bytes \<Rightarrow> pending_status_t \<times> ledger" where
  "ledger_check m now i =
     (case m i of
        None \<Rightarrow> (PENDING_ERR_NOT_FOUND, m)
      | Some e \<Rightarrow>
          if entry_expired e now then (PENDING_ERR_EXPIRED, m(i := None))
          else if pe_state e = PENDING_SLOT_CONSUMED then (PENDING_ERR_CONSUMED, m)
          else if pe_state e = PENDING_SLOT_AUTH_LIMITED then (PENDING_ERR_AUTH_LIMIT, m)
          else (PENDING_OK, m))"

definition saturating_deadline :: "u64 \<Rightarrow> u64 \<Rightarrow> u64" where
  "saturating_deadline now ttl = of_nat (min (unat now + unat ttl) (2 ^ 64 - 1))"

definition ledger_insert ::
  "nat \<Rightarrow> u64 \<Rightarrow> ledger \<Rightarrow> u64 \<Rightarrow> u64 \<Rightarrow> bytes \<Rightarrow> bytes \<Rightarrow> pending_status_t \<times> ledger" where
  "ledger_insert cap ttl m now_sweep now i th =
     (let m = ledger_sweep m now_sweep
      in if i \<in> dom m then (PENDING_ERR_INVALID_ARG, m)
         else if card (dom m) \<ge> cap then (PENDING_ERR_FULL, m)
         else (PENDING_OK, m(i \<mapsto> \<lparr>pe_state = PENDING_SLOT_ACTIVE, pe_handshake_id = i,
                 pe_th_client_auth = th, pe_deadline_ms = saturating_deadline now ttl,
                 pe_failure_count = 0\<rparr>)))"

definition ledger_record_failure :: "ledger \<Rightarrow> u64 \<Rightarrow> bytes \<Rightarrow> pending_status_t \<times> ledger" where
  "ledger_record_failure m now i =
     (case ledger_check m now i of
        (PENDING_OK, m) \<Rightarrow>
          let e = the (m i); e = e\<lparr>pe_failure_count := pe_failure_count e + 1\<rparr>
          in if pe_failure_count e = 3
             then (PENDING_ERR_AUTH_LIMIT, m(i \<mapsto> tombstone e PENDING_SLOT_AUTH_LIMITED))
             else (PENDING_OK, m(i \<mapsto> e))
      | r \<Rightarrow> r)"

definition ledger_consume :: "ledger \<Rightarrow> u64 \<Rightarrow> bytes \<Rightarrow> pending_status_t \<times> ledger" where
  "ledger_consume m now i =
     (case ledger_check m now i of
        (PENDING_OK, m) \<Rightarrow> (PENDING_OK, m(i \<mapsto> tombstone (the (m i)) PENDING_SLOT_CONSUMED))
      | r \<Rightarrow> r)"

definition ledger_cancel :: "ledger \<Rightarrow> u64 \<Rightarrow> bytes \<Rightarrow> pending_status_t \<times> ledger" where
  "ledger_cancel m now i =
     (case ledger_check m now i of (PENDING_OK, m) \<Rightarrow> (PENDING_OK, m(i := None)) | r \<Rightarrow> r)"

section \<open>The array code implements the abstract ledger\<close>

lemma saturating_deadline_code:
  "(if now > UINT64_MAX - ttl then UINT64_MAX else now + ttl) = saturating_deadline now ttl"
proof -
  have d: "unat (UINT64_MAX - ttl) = 2 ^ 64 - 1 - unat ttl"
    using word_le_nat_alt [of ttl UINT64_MAX] by (simp add: unat_sub)
  have lt: "unat now < 2 ^ 64" "unat ttl < 2 ^ 64"
    using unsigned_less [of now, where ?'a = nat] unsigned_less [of ttl, where ?'a = nat] by simp_all
  show ?thesis
  proof (cases "now > UINT64_MAX - ttl")
    case True
    then have "2 ^ 64 - 1 \<le> unat now + unat ttl" using d lt by (simp add: word_less_nat_alt)
    then have "min (unat now + unat ttl) (2 ^ 64 - 1) = 2 ^ 64 - 1" by (rule min_absorb2)
    then show ?thesis using True by (simp add: saturating_deadline_def)
  next
    case False
    then have "unat now + unat ttl \<le> 2 ^ 64 - 1" using d lt by (simp add: word_less_nat_alt)
    then have "min (unat now + unat ttl) (2 ^ 64 - 1) = unat now + unat ttl" by (rule min_absorb1)
    then show ?thesis using False by (simp add: saturating_deadline_def)
  qed
qed

lemma sweep_refines:
  assumes "pending_inv s"
  shows "\<exists>s'. handshake_pending_sweep (Some s) now = Some s' \<and> pending_inv s' \<and>
    pend_map s' = ledger_sweep (pend_map s) now \<and> ps_capacity s' = ps_capacity s \<and> ps_ttl_ms s' = ps_ttl_ms s"
proof -
  let ?f = "\<lambda>e. if pe_in_use e \<and> entry_expired e now then pending_entry_zero else e"
  let ?s = "set_slots s (map ?f (pend_tab s) @ drop (ps_capacity s) (slots_of s))"
  have k: "keyed pe_in_use pe_handshake_id (pend_tab s)" using assms by (simp add: pending_inv_def)
  have tab: "pend_tab ?s = map ?f (pend_tab s)"
    using assms by (simp add: pend_tab_def pending_inv_slots pending_inv_def min_def)
  have len: "length (map ?f (pend_tab s) @ drop (ps_capacity s) (slots_of s)) = length (slots_of s)"
    using assms by (simp add: length_pend_tab pending_inv_def)
  have "list_all pending_entry_ok (map ?f (pend_tab s))"
    using assms by (auto simp: pending_inv_def list_all_iff)
  then have "pending_inv ?s"
    using assms tab len tbl_clear [OF k, of pending_entry_zero "\<lambda>e. entry_expired e now"]
    by (simp add: pending_inv_def length_entries_set_slots pending_inv_slots store_usable_def)
  moreover have "pend_map ?s = ledger_sweep (pend_map s) now"
    using tbl_clear [OF k, of pending_entry_zero "\<lambda>e. entry_expired e now"]
    by (simp add: pend_map_def tab ledger_sweep_def)
  moreover have "handshake_pending_sweep (Some s) now = Some ?s"
    using assms by (simp add: handshake_pending_sweep_def pending_inv_usable pe_in_use_def pend_tab_def
        Let_def)
  ultimately show ?thesis by simp
qed

lemmas ledger_defs = ledger_check_def ledger_record_failure_def ledger_consume_def ledger_cancel_def

lemma get_digest_refines:
  assumes "pending_inv s" "length hid = 16" "length out = 32"
  shows "\<exists>s'. handshake_pending_get_digest (Some s) now (Some hid) (Some out) =
      (fst (ledger_check (pend_map s) now hid), Some s',
       Some (if fst (ledger_check (pend_map s) now hid) = PENDING_OK
             then pe_th_client_auth (the (pend_map s hid)) else zeros 32)) \<and>
    pending_inv s' \<and> pend_map s' = snd (ledger_check (pend_map s) now hid)"
  using assms(1,2)
proof (cases rule: pend_lookup)
  case absent
  with assms show ?thesis
    by (simp add: handshake_pending_get_digest_def ledger_check_def pending_inv_usable memcpy_whole)
next
  case (present e j)
  with assms pending_free [OF assms(1) present(3)] show ?thesis
    by (simp add: handshake_pending_get_digest_def ledger_check_def pending_inv_usable memcpy_whole
        pending_entry_ok_def)
qed

lemma tombstone_ok:
  "pending_entry_ok e \<Longrightarrow> st = PENDING_SLOT_CONSUMED \<or> st = PENDING_SLOT_AUTH_LIMITED \<Longrightarrow>
   pending_entry_ok (tombstone e st) \<and> pe_in_use (tombstone e st) \<and>
   pe_handshake_id (tombstone e st) = pe_handshake_id e"
  by (auto simp: pending_entry_ok_def tombstone_def pe_in_use_def)

lemma consume_refines:
  assumes "pending_inv s" "length hid = 16"
  shows "\<exists>s'. handshake_pending_consume_success (Some s) now (Some hid) =
      (fst (ledger_consume (pend_map s) now hid), Some s') \<and>
    pending_inv s' \<and> pend_map s' = snd (ledger_consume (pend_map s) now hid)"
  using assms
proof (cases rule: pend_lookup)
  case absent
  with assms show ?thesis
    by (simp add: handshake_pending_consume_success_def ledger_defs pending_inv_usable)
next
  case (present e j)
  with assms pending_free [OF assms(1) present(3)] tombstone_ok [OF present(8)]
    pending_write [OF assms(1) present(3), of "tombstone e PENDING_SLOT_CONSUMED"]
  show ?thesis
    by (simp add: handshake_pending_consume_success_def ledger_defs pending_inv_usable)
qed

lemma cancel_refines:
  assumes "pending_inv s" "length hid = 16"
  shows "\<exists>s'. handshake_pending_cancel (Some s) now (Some hid) =
      (fst (ledger_cancel (pend_map s) now hid), Some s') \<and>
    pending_inv s' \<and> pend_map s' = snd (ledger_cancel (pend_map s) now hid)"
  using assms
proof (cases rule: pend_lookup)
  case absent
  with assms show ?thesis
    by (simp add: handshake_pending_cancel_def ledger_defs pending_inv_usable)
next
  case (present e j)
  with assms pending_free [OF assms(1) present(3)] show ?thesis
    by (simp add: handshake_pending_cancel_def ledger_defs pending_inv_usable)
qed

lemma failure_count_step:
  assumes "unat (c :: byte) < 3"
  shows "unat (c + 1) = unat c + 1" "3 \<le> unat (c + 1) \<longleftrightarrow> c + 1 = 3" "c + 1 \<noteq> 3 \<Longrightarrow> unat (c + 1) < 3"
proof -
  show u: "unat (c + 1) = unat c + 1"
    using assms by (simp add: unat_word_ariths)
  have "3 \<le> unat (c + 1) \<longleftrightarrow> unat (c + 1) = unat (3 :: byte)" using assms u by auto
  then show i: "3 \<le> unat (c + 1) \<longleftrightarrow> c + 1 = 3" by (metis unsigned_word_eqI)
  then show "c + 1 \<noteq> 3 \<Longrightarrow> unat (c + 1) < 3" by auto
qed

lemma record_failure_refines:
  assumes "pending_inv s" "length hid = 16"
  shows "\<exists>s'. handshake_pending_record_failure (Some s) now (Some hid) =
      (fst (ledger_record_failure (pend_map s) now hid), Some s') \<and>
    pending_inv s' \<and> pend_map s' = snd (ledger_record_failure (pend_map s) now hid)"
  using assms
proof (cases rule: pend_lookup)
  case absent
  with assms show ?thesis
    by (simp add: handshake_pending_record_failure_def ledger_defs pending_inv_usable)
next
  case (present e j)
  define e' where "e' = e\<lparr>pe_failure_count := pe_failure_count e + 1\<rparr>"
  have live: "pe_state e = PENDING_SLOT_ACTIVE" "unat (pe_failure_count e) < 3"
    if "pe_state e \<noteq> PENDING_SLOT_CONSUMED" "pe_state e \<noteq> PENDING_SLOT_AUTH_LIMITED"
    using present(6,8) that by (cases "pe_state e"; simp add: pending_entry_ok_def pe_in_use_def)+
  show ?thesis
  proof (cases "pe_state e = PENDING_SLOT_CONSUMED \<or> pe_state e = PENDING_SLOT_AUTH_LIMITED \<or> entry_expired e now")
    case True
    with present assms pending_free [OF assms(1) present(3)] show ?thesis
      by (auto simp: handshake_pending_record_failure_def ledger_defs pending_inv_usable)
  next
    case False
    note fc = failure_count_step [OF live(2)]
    have "pending_entry_ok (tombstone e' PENDING_SLOT_AUTH_LIMITED)"
      "pe_failure_count e' \<noteq> 3 \<Longrightarrow> pending_entry_ok e'" "pe_in_use e'" "pe_handshake_id e' = hid"
      using False live fc present(7,8)
      by (auto simp: e'_def pending_entry_ok_def tombstone_def pe_in_use_def)
    moreover have "handshake_pending_record_failure (Some s) now (Some hid) =
        (if pe_failure_count e' = 3
         then (PENDING_ERR_AUTH_LIMIT, Some (set_slot s j (tombstone e' PENDING_SLOT_AUTH_LIMITED)))
         else (PENDING_OK, Some (set_slot s j e')))"
      using False fc(2) live present assms
      by (simp add: handshake_pending_record_failure_def pending_inv_usable Let_def e'_def)
    moreover have "ledger_record_failure (pend_map s) now hid =
        (if pe_failure_count e' = 3
         then (PENDING_ERR_AUTH_LIMIT, (pend_map s)(hid \<mapsto> tombstone e' PENDING_SLOT_AUTH_LIMITED))
         else (PENDING_OK, (pend_map s)(hid \<mapsto> e')))"
      using False live present by (simp add: ledger_defs Let_def e'_def)
    ultimately show ?thesis
      using present pending_write [OF assms(1) present(3), of e']
        pending_write [OF assms(1) present(3), of "tombstone e' PENDING_SLOT_AUTH_LIMITED"]
      by (simp add: tombstone_def pe_in_use_def)
  qed
qed

lemma pend_map_card:
  assumes "pending_inv s"
  shows "card (dom (pend_map s)) \<ge> ps_capacity s \<longleftrightarrow>
    first_idx (\<lambda>e. pe_state e = PENDING_SLOT_FREE) (pend_tab s) = None"
proof -
  have "card (dom (pend_map s)) = length (filter pe_in_use (pend_tab s))"
    using assms by (simp add: pend_map_def pending_inv_def keyed_card_dom)
  moreover have "length (filter pe_in_use (pend_tab s)) \<ge> length (pend_tab s) \<longleftrightarrow>
      (\<forall>e \<in> set (pend_tab s). pe_in_use e)"
    using length_filter_less [of _ "pend_tab s" pe_in_use] filter_True [of "pend_tab s" pe_in_use]
    by (metis leD le_refl)
  ultimately show ?thesis using length_pend_tab [OF assms] by (simp add: pe_in_use_def)
qed

lemma insert_refines:
  assumes "pending_inv s" "length hid = 16" "length th = 32"
  shows "\<exists>s'. handshake_pending_insert (Some s) now_sweep now (Some hid) (Some th) =
      (fst (ledger_insert (ps_capacity s) (ps_ttl_ms s) (pend_map s) now_sweep now hid th), Some s') \<and>
    pending_inv s' \<and>
    pend_map s' = snd (ledger_insert (ps_capacity s) (ps_ttl_ms s) (pend_map s) now_sweep now hid th)"
proof -
  obtain s1 where s1: "handshake_pending_sweep (Some s) now_sweep = Some s1" "pending_inv s1"
    "pend_map s1 = ledger_sweep (pend_map s) now_sweep" "ps_capacity s1 = ps_capacity s"
    "ps_ttl_ms s1 = ps_ttl_ms s"
    using sweep_refines [OF assms(1)] by blast
  have code: "handshake_pending_insert (Some s) now_sweep now (Some hid) (Some th) =
      (let (found, index) = find_slot s1 hid
       in if found then (PENDING_ERR_INVALID_ARG, Some s1)
          else case first_idx (\<lambda>e. pe_state e = PENDING_SLOT_FREE) (pend_tab s1) of
                 Some i \<Rightarrow> (PENDING_OK, Some (set_slot s1 i ((slots_of s1 ! i)\<lparr>pe_state := PENDING_SLOT_ACTIVE,
                   pe_handshake_id := memcpy (pe_handshake_id (slots_of s1 ! i)) 0 hid,
                   pe_th_client_auth := memcpy (pe_th_client_auth (slots_of s1 ! i)) 0 th,
                   pe_deadline_ms := saturating_deadline now (ps_ttl_ms s), pe_failure_count := 0\<rparr>)))
               | None \<Rightarrow> (PENDING_ERR_FULL, Some s1))"
    unfolding handshake_pending_insert_def saturating_deadline_code Let_def s1(1,5) pend_tab_def
      option.sel assms(2,3) [THEN eq_imp_le, THEN take_all]
    using assms(1) by (simp add: pending_inv_usable)
  from s1(2) assms(2) show ?thesis
  proof (cases rule: pend_lookup)
    case (present e j)
    with s1 assms(1) show ?thesis
      by (simp add: code ledger_insert_def Let_def dom_def)
  next
    case absent
    show ?thesis
    proof (cases "first_idx (\<lambda>e. pe_state e = PENDING_SLOT_FREE) (pend_tab s1)")
      case None
      with absent s1 assms pend_map_card [OF s1(2)] show ?thesis
        by (simp add: code ledger_insert_def Let_def dom_def del: first_idx_None_iff)
    next
      case (Some j)
      let ?e = "\<lparr>pe_state = PENDING_SLOT_ACTIVE, pe_handshake_id = hid, pe_th_client_auth = th,
        pe_deadline_ms = saturating_deadline now (ps_ttl_ms s), pe_failure_count = 0\<rparr>"
      have j: "j < ps_capacity s1" "pe_state (pend_tab s1 ! j) = PENDING_SLOT_FREE"
        using first_idx_SomeD [OF Some] s1(2) by (simp_all add: length_pend_tab)
      have "pending_entry_ok (pend_tab s1 ! j)"
        using s1(2) j(1) length_pend_tab [OF s1(2)] by (simp add: pending_inv_def list_all_length)
      with j have z: "slots_of s1 ! j = pending_entry_zero"
        using pend_tab_nth [OF s1(2) j(1)] by (simp add: pending_entry_ok_def)
      have "pending_inv (set_slot s1 j ?e) \<and> pend_map (set_slot s1 j ?e) = (pend_map s1)(hid \<mapsto> ?e)"
        using pending_put [OF s1(2) j(1), of ?e] j(2) absent assms(2,3)
        by (simp add: pe_in_use_def pending_entry_ok_def)
      moreover have "handshake_pending_insert (Some s) now_sweep now (Some hid) (Some th) =
          (PENDING_OK, Some (set_slot s1 j ?e))"
        using Some s1 absent z assms
        by (simp add: code pending_entry_zero_def memcpy_whole)
      moreover have "ledger_insert (ps_capacity s) (ps_ttl_ms s) (pend_map s) now_sweep now hid th =
          (PENDING_OK, (pend_map s1)(hid \<mapsto> ?e))"
        using pend_map_card [OF s1(2)] Some absent s1
        by (simp add: ledger_insert_def Let_def dom_def del: first_idx_None_iff)
      ultimately show ?thesis by simp
    qed
  qed
qed

section \<open>Sequences of calls\<close>

datatype pending_op =
    OP_SWEEP u64
  | OP_INSERT u64 u64 bytes bytes
  | OP_GET_DIGEST u64 bytes
  | OP_RECORD_FAILURE u64 bytes
  | OP_CONSUME u64 bytes
  | OP_CANCEL u64 bytes

text \<open>
  One call on a store. The read-only calls \<open>handshake_pending_inspect\<close> and
  \<open>handshake_pending_active_count\<close> return no store and are left out of the sequences.
\<close>

fun pending_exec :: "handshake_pending_store_t \<Rightarrow> pending_op \<Rightarrow> pending_status_t \<times> handshake_pending_store_t" where
  "pending_exec s (OP_SWEEP now) = (PENDING_OK, the (handshake_pending_sweep (Some s) now))"
| "pending_exec s (OP_INSERT now_sweep now hid th) =
     apsnd the (handshake_pending_insert (Some s) now_sweep now (Some hid) (Some th))"
| "pending_exec s (OP_GET_DIGEST now hid) =
     (let (st, s', _) = handshake_pending_get_digest (Some s) now (Some hid) (Some (zeros 32))
      in (st, the s'))"
| "pending_exec s (OP_RECORD_FAILURE now hid) =
     apsnd the (handshake_pending_record_failure (Some s) now (Some hid))"
| "pending_exec s (OP_CONSUME now hid) =
     apsnd the (handshake_pending_consume_success (Some s) now (Some hid))"
| "pending_exec s (OP_CANCEL now hid) = apsnd the (handshake_pending_cancel (Some s) now (Some hid))"

fun pending_op_ok :: "pending_op \<Rightarrow> bool" where
  "pending_op_ok (OP_SWEEP now) = True"
| "pending_op_ok (OP_INSERT now_sweep now hid th) = (length hid = 16 \<and> length th = 32)"
| "pending_op_ok (OP_GET_DIGEST now hid) = (length hid = 16)"
| "pending_op_ok (OP_RECORD_FAILURE now hid) = (length hid = 16)"
| "pending_op_ok (OP_CONSUME now hid) = (length hid = 16)"
| "pending_op_ok (OP_CANCEL now hid) = (length hid = 16)"

fun ledger_exec :: "nat \<Rightarrow> u64 \<Rightarrow> ledger \<Rightarrow> pending_op \<Rightarrow> pending_status_t \<times> ledger" where
  "ledger_exec cap ttl m (OP_SWEEP now) = (PENDING_OK, ledger_sweep m now)"
| "ledger_exec cap ttl m (OP_INSERT now_sweep now hid th) = ledger_insert cap ttl m now_sweep now hid th"
| "ledger_exec cap ttl m (OP_GET_DIGEST now hid) = ledger_check m now hid"
| "ledger_exec cap ttl m (OP_RECORD_FAILURE now hid) = ledger_record_failure m now hid"
| "ledger_exec cap ttl m (OP_CONSUME now hid) = ledger_consume m now hid"
| "ledger_exec cap ttl m (OP_CANCEL now hid) = ledger_cancel m now hid"

lemma pending_exec_refines:
  assumes "pending_inv s" "pending_op_ok a"
  shows "\<exists>s'. pending_exec s a = (fst (ledger_exec (ps_capacity s) (ps_ttl_ms s) (pend_map s) a), s') \<and>
    pending_inv s' \<and> pend_map s' = snd (ledger_exec (ps_capacity s) (ps_ttl_ms s) (pend_map s) a)"
proof (cases a)
  case (OP_SWEEP now)
  then show ?thesis using sweep_refines [OF assms(1), of now] by auto
next
  case (OP_INSERT now_sweep now hid th)
  with assms(2) show ?thesis using insert_refines [OF assms(1), of hid th now_sweep now] by auto
next
  case (OP_GET_DIGEST now hid)
  with assms(2) show ?thesis using get_digest_refines [OF assms(1), of hid "zeros 32" now] by auto
next
  case (OP_RECORD_FAILURE now hid)
  with assms(2) show ?thesis using record_failure_refines [OF assms(1), of hid now] by auto
next
  case (OP_CONSUME now hid)
  with assms(2) show ?thesis using consume_refines [OF assms(1), of hid now] by auto
next
  case (OP_CANCEL now hid)
  with assms(2) show ?thesis using cancel_refines [OF assms(1), of hid now] by auto
qed

lemma pending_init_ok:
  assumes "handshake_pending_store_init (Some x) cap ttl = (PENDING_OK, Some s)"
  shows "pending_inv s \<and> pend_map s = Map.empty"
proof -
  from assms have cap: "1 \<le> cap" "cap \<le> 256" "0 < ttl"
    and s: "s = (pending_store_zero [])\<lparr>ps_slots := SLOTS_INLINE, ps_capacity := cap, ps_ttl_ms := ttl,
      ps_clock_fn := True\<rparr>"
    by (auto simp: handshake_pending_store_init_def store_init_common_def Let_def cap_limit_for_def
        set_slots_def slots_of_def pending_store_zero_def word_gt_0 replicate_add [symmetric]
        split: if_splits)
  have tab: "pend_tab s = replicate cap pending_entry_zero"
    using cap by (simp add: s pend_tab_def slots_of_def pending_store_zero_def min_def)
  have "keyed pe_in_use pe_handshake_id (pend_tab s)" "list_all pending_entry_ok (pend_tab s)"
    by (simp_all add: tab keyed_def list_all_length)
  moreover have "pend_map s = Map.empty"
    by (rule ext) (simp add: pend_map_def tbl_None_iff tab)
  moreover have "store_usable (Some s)" "length (ps_entries s) = 256" "cap \<le> length (slots_of s)"
    "ps_capacity s = cap"
    using cap by (simp_all add: s store_usable_def cap_limit_for_def pending_store_zero_def slots_of_def)
  ultimately show ?thesis by (simp add: pending_inv_def)
qed

lemma pending_wipe_clears:
  assumes "ps_slots s = SLOTS_EXT" "handshake_pending_store_wipe (Some s) = Some s'"
    "ps_capacity s \<le> length (ps_ext s)"
  shows "\<not> store_usable (Some s') \<and> take (ps_capacity s) (ps_ext s') = replicate (ps_capacity s) pending_entry_zero"
  using assms by (auto simp: handshake_pending_store_wipe_def store_usable_def pending_store_zero_def)

text \<open>
  C18. The array implements the ledger. On a well-formed store, every call (sweep, insert, digest
  lookup, failure, commit, cancellation) keeps the store well-formed, answers what the abstract
  ledger answers, and leaves the map that the abstract ledger leaves. A successful initialisation
  gives a well-formed empty store.
\<close>

theorem pending_store_refines_ledger:
  "(handshake_pending_store_init (Some x) cap ttl = (PENDING_OK, Some s0) \<longrightarrow>
      pending_inv s0 \<and> pend_map s0 = Map.empty) \<and>
   (pending_inv s \<and> pending_op_ok a \<longrightarrow>
      (let (st, s') = pending_exec s a
       in pending_inv s' \<and>
          ledger_exec (ps_capacity s) (ps_ttl_ms s) (pend_map s) a = (st, pend_map s')))"
  using pending_init_ok pending_exec_refines [of s a] by (auto simp: Let_def prod_eq_iff)

lemma pending_init_sample:
  "\<exists>s. handshake_pending_store_init (Some (pending_store_zero [])) 4 1000 = (PENDING_OK, Some s)"
  by (simp add: handshake_pending_store_init_def store_init_common_def cap_limit_for_def Let_def)

theorem pending_store_refines_ledger_witness:
  "\<exists>s. handshake_pending_store_init (Some (pending_store_zero [])) 4 1000 = (PENDING_OK, Some s) \<and>
     pend_map s = Map.empty \<and>
     (let (st, s') = pending_exec s (OP_CONSUME 5 (zeros 16))
      in pending_inv s' \<and> st = PENDING_ERR_NOT_FOUND \<and> pend_map s' = Map.empty)"
proof -
  obtain s where s: "handshake_pending_store_init (Some (pending_store_zero [])) 4 1000 = (PENDING_OK, Some s)"
    using pending_init_sample by blast
  then have e: "pending_inv s" "pend_map s = Map.empty"
    using pending_store_refines_ledger by blast+
  then show ?thesis
    using s pending_store_refines_ledger [of "pending_store_zero []" 4 1000 s s "OP_CONSUME 5 (zeros 16)"]
    by (auto simp: ledger_consume_def ledger_check_def simp del: pending_exec.simps)
qed

section \<open>Single use\<close>

definition ledger_ok :: "ledger \<Rightarrow> bool" where
  "ledger_ok m \<longleftrightarrow> (\<forall>i e. m i = Some e \<longrightarrow> pending_entry_ok e \<and> pe_in_use e \<and> pe_handshake_id e = i)"

lemma pending_inv_ledger_ok: "pending_inv s \<Longrightarrow> ledger_ok (pend_map s)"
  by (auto simp: ledger_ok_def pend_map_def pending_inv_def tbl_Some_set list_all_iff)

fun inserted :: "bytes \<Rightarrow> pending_op \<Rightarrow> pending_status_t \<Rightarrow> nat" where
  "inserted i (OP_INSERT now_sweep now hid th) st = (if hid = i \<and> st = PENDING_OK then 1 else 0)"
| "inserted i _ st = 0"

fun committed :: "bytes \<Rightarrow> pending_op \<Rightarrow> pending_status_t \<Rightarrow> nat" where
  "committed i (OP_CONSUME now hid) st = (if hid = i \<and> st = PENDING_OK then 1 else 0)"
| "committed i _ st = 0"

fun tolerated :: "bytes \<Rightarrow> pending_op \<Rightarrow> pending_status_t \<Rightarrow> nat" where
  "tolerated i (OP_RECORD_FAILURE now hid) st = (if hid = i \<and> st = PENDING_OK then 1 else 0)"
| "tolerated i _ st = 0"

definition commit_credit :: "bytes \<Rightarrow> ledger \<Rightarrow> nat" where
  "commit_credit i m = (case m i of Some e \<Rightarrow> if pe_state e = PENDING_SLOT_ACTIVE then 1 else 0 | None \<Rightarrow> 0)"

definition failure_credit :: "bytes \<Rightarrow> ledger \<Rightarrow> nat" where
  "failure_credit i m = (case m i of
     Some e \<Rightarrow> if pe_state e = PENDING_SLOT_ACTIVE then 2 - unat (pe_failure_count e) else 0 | None \<Rightarrow> 0)"

lemma ledger_check_OK:
  assumes "ledger_ok m" "ledger_check m now i = (PENDING_OK, m')"
  shows "\<exists>e. m i = Some e \<and> m' = m \<and> pe_state e = PENDING_SLOT_ACTIVE \<and> unat (pe_failure_count e) < 3 \<and>
    \<not> entry_expired e now"
proof -
  from assms(2) obtain e where e: "m i = Some e" "m' = m" "\<not> entry_expired e now"
    "pe_state e \<noteq> PENDING_SLOT_CONSUMED" "pe_state e \<noteq> PENDING_SLOT_AUTH_LIMITED"
    by (auto simp: ledger_check_def split: option.splits if_splits)
  with assms(1) show ?thesis
    by (cases "pe_state e") (auto simp: ledger_ok_def pending_entry_ok_def pe_in_use_def)
qed

lemma ledger_check_not_OK:
  "ledger_check m now i = (st, m') \<Longrightarrow> m' = m \<or> m' = m(i := None)"
  by (auto simp: ledger_check_def split: option.splits if_splits)

lemma ledger_sweep_cases: "ledger_sweep m now i = m i \<or> ledger_sweep m now i = None"
  by (simp add: ledger_sweep_def split: option.splits)

lemma credit_mono:
  "m' i = m i \<or> m' i = None \<Longrightarrow> commit_credit i m' \<le> commit_credit i m \<and> failure_credit i m' \<le> failure_credit i m"
  by (auto simp: commit_credit_def failure_credit_def)

lemma ledger_check_credit:
  assumes "ledger_check m now j = (st, m')"
  shows "commit_credit i m' \<le> commit_credit i m" "failure_credit i m' \<le> failure_credit i m"
  using ledger_check_not_OK [OF assms] credit_mono [of m' i m] by (auto split: if_splits)

lemma ledger_insert_credit:
  assumes "ledger_insert cap ttl m now_sweep now j th = (st, m')"
  shows "commit_credit i m' \<le> commit_credit i m + inserted i (OP_INSERT now_sweep now j th) st"
    "failure_credit i m' \<le> failure_credit i m + 2 * inserted i (OP_INSERT now_sweep now j th) st"
proof -
  have sw: "commit_credit i (ledger_sweep m now_sweep) \<le> commit_credit i m"
    "failure_credit i (ledger_sweep m now_sweep) \<le> failure_credit i m"
    using ledger_sweep_cases [of m now_sweep i] credit_mono [of "ledger_sweep m now_sweep" i m] by auto
  show "commit_credit i m' \<le> commit_credit i m + inserted i (OP_INSERT now_sweep now j th) st"
    "failure_credit i m' \<le> failure_credit i m + 2 * inserted i (OP_INSERT now_sweep now j th) st"
    using assms sw by (auto simp: ledger_insert_def Let_def commit_credit_def failure_credit_def split: if_splits)
qed

lemma ledger_consume_credit:
  assumes "ledger_ok m" "ledger_consume m now j = (st, m')"
  shows "commit_credit i m' + committed i (OP_CONSUME now j) st \<le> commit_credit i m"
    "failure_credit i m' \<le> failure_credit i m"
proof -
  obtain st1 m1 where c: "ledger_check m now j = (st1, m1)" by force
  have "commit_credit i m' + committed i (OP_CONSUME now j) st \<le> commit_credit i m \<and>
    failure_credit i m' \<le> failure_credit i m"
  proof (cases "st1 = PENDING_OK")
    case True
    then show ?thesis
      using assms c ledger_check_OK [of m now j m1]
      by (auto simp: ledger_consume_def commit_credit_def failure_credit_def tombstone_def)
  next
    case False
    then have "st = st1" "m' = m1" using assms(2) c by (auto simp: ledger_consume_def split: pending_status_t.splits)
    with False ledger_check_credit [OF c, of i] show ?thesis by simp
  qed
  then show "commit_credit i m' + committed i (OP_CONSUME now j) st \<le> commit_credit i m"
    "failure_credit i m' \<le> failure_credit i m" by blast+
qed

lemma ledger_record_failure_credit:
  assumes "ledger_ok m" "ledger_record_failure m now j = (st, m')"
  shows "commit_credit i m' \<le> commit_credit i m"
    "failure_credit i m' + tolerated i (OP_RECORD_FAILURE now j) st \<le> failure_credit i m"
proof -
  obtain st1 m1 where c: "ledger_check m now j = (st1, m1)" by force
  have "commit_credit i m' \<le> commit_credit i m \<and>
    failure_credit i m' + tolerated i (OP_RECORD_FAILURE now j) st \<le> failure_credit i m"
  proof (cases "st1 = PENDING_OK")
    case True
    then obtain e where e: "m j = Some e" "m1 = m" "pe_state e = PENDING_SLOT_ACTIVE" "unat (pe_failure_count e) < 3"
      using assms(1) c ledger_check_OK [of m now j m1] by blast
    with True c assms(2) failure_count_step [OF e(4)] show ?thesis
      by (auto simp: ledger_record_failure_def Let_def commit_credit_def failure_credit_def tombstone_def
          split: if_splits)
  next
    case False
    then have "st = st1" "m' = m1"
      using assms(2) c by (auto simp: ledger_record_failure_def split: pending_status_t.splits)
    with False ledger_check_credit [OF c, of i] show ?thesis by simp
  qed
  then show "commit_credit i m' \<le> commit_credit i m"
    "failure_credit i m' + tolerated i (OP_RECORD_FAILURE now j) st \<le> failure_credit i m" by blast+
qed

lemma ledger_cancel_credit:
  assumes "ledger_cancel m now j = (st, m')"
  shows "commit_credit i m' \<le> commit_credit i m" "failure_credit i m' \<le> failure_credit i m"
proof -
  have "m' = m \<or> m' = m(j := None)"
    using assms ledger_check_not_OK
    by (auto simp: ledger_cancel_def ledger_check_def split: option.splits if_splits)
  then show "commit_credit i m' \<le> commit_credit i m" "failure_credit i m' \<le> failure_credit i m"
    using credit_mono [of m' i m] by (auto split: if_splits)
qed

lemma ledger_exec_credit:
  assumes "ledger_ok m" "ledger_exec cap ttl m a = (st, m')"
  shows "commit_credit i m' + committed i a st \<le> commit_credit i m + inserted i a st"
    "failure_credit i m' + tolerated i a st \<le> failure_credit i m + 2 * inserted i a st"
proof (atomize (full), cases a)
  case (OP_SWEEP now)
  then show "commit_credit i m' + committed i a st \<le> commit_credit i m + inserted i a st \<and>
    failure_credit i m' + tolerated i a st \<le> failure_credit i m + 2 * inserted i a st"
    using assms(2) ledger_sweep_cases [of m now i] credit_mono [of m' i m] by auto
next
  case (OP_INSERT now_sweep now hid th)
  with assms(2) show "commit_credit i m' + committed i a st \<le> commit_credit i m + inserted i a st \<and>
    failure_credit i m' + tolerated i a st \<le> failure_credit i m + 2 * inserted i a st"
    using ledger_insert_credit [of cap ttl m now_sweep now hid th st m' i] by simp
next
  case (OP_GET_DIGEST now hid)
  with assms(2) show "commit_credit i m' + committed i a st \<le> commit_credit i m + inserted i a st \<and>
    failure_credit i m' + tolerated i a st \<le> failure_credit i m + 2 * inserted i a st"
    using ledger_check_credit [of m now hid st m' i] by simp
next
  case (OP_RECORD_FAILURE now hid)
  with assms show "commit_credit i m' + committed i a st \<le> commit_credit i m + inserted i a st \<and>
    failure_credit i m' + tolerated i a st \<le> failure_credit i m + 2 * inserted i a st"
    using ledger_record_failure_credit [of m now hid st m' i] by simp
next
  case (OP_CONSUME now hid)
  with assms show "commit_credit i m' + committed i a st \<le> commit_credit i m + inserted i a st \<and>
    failure_credit i m' + tolerated i a st \<le> failure_credit i m + 2 * inserted i a st"
    using ledger_consume_credit [of m now hid st m' i] by simp
next
  case (OP_CANCEL now hid)
  with assms(2) show "commit_credit i m' + committed i a st \<le> commit_credit i m + inserted i a st \<and>
    failure_credit i m' + tolerated i a st \<le> failure_credit i m + 2 * inserted i a st"
    using ledger_cancel_credit [of m now hid st m' i] by simp
qed

interpretation commits: credit_machine pending_exec pending_inv "\<lambda>_. pending_op_ok"
  "\<lambda>s. commit_credit i (pend_map s)" "inserted i" "committed i" for i
proof
  fix s a r s' assume s: "pending_inv s" "pending_op_ok a" "pending_exec s a = (r, s')"
  with pending_exec_refines [OF s(1,2)] show "pending_inv s'" by auto
  from s pending_exec_refines [OF s(1,2)]
  have "ledger_exec (ps_capacity s) (ps_ttl_ms s) (pend_map s) a = (r, pend_map s')"
    by (auto simp: prod_eq_iff)
  with ledger_exec_credit(1) [OF pending_inv_ledger_ok [OF s(1)]]
  show "commit_credit i (pend_map s') + committed i a r \<le> commit_credit i (pend_map s) + inserted i a r"
    by blast
qed

interpretation failures: credit_machine pending_exec pending_inv "\<lambda>_. pending_op_ok"
  "\<lambda>s. failure_credit i (pend_map s)" "\<lambda>a r. 2 * inserted i a r" "tolerated i" for i
proof
  fix s a r s' assume s: "pending_inv s" "pending_op_ok a" "pending_exec s a = (r, s')"
  then show "pending_inv s'" by (rule commits.exec_inv)
  from s pending_exec_refines [OF s(1,2)]
  have "ledger_exec (ps_capacity s) (ps_ttl_ms s) (pend_map s) a = (r, pend_map s')"
    by (auto simp: prod_eq_iff)
  with ledger_exec_credit(2) [OF pending_inv_ledger_ok [OF s(1)]]
  show "failure_credit i (pend_map s') + tolerated i a r \<le> failure_credit i (pend_map s) + 2 * inserted i a r"
    by blast
qed

text \<open>
  C10. Single use and bounded guessing, over any sequence of calls and any clock. Starting from an
  initialised store, the calls of \<open>handshake_pending_consume_success\<close> that succeed for an identifier
  are at most as many as its successful insertions, and the failures that were tolerated are at most
  two per insertion: the third failure closes the entry.
\<close>

theorem pending_single_use:
  assumes "handshake_pending_store_init (Some x) cap ttl = (PENDING_OK, Some s)"
    and "list_all pending_op_ok as" "run_ops pending_exec s as = (tr, s')"
  shows "(\<Sum>(a, r)\<leftarrow>tr. committed i a r) \<le> (\<Sum>(a, r)\<leftarrow>tr. inserted i a r) \<and>
    (\<Sum>(a, r)\<leftarrow>tr. tolerated i a r) \<le> 2 * (\<Sum>(a, r)\<leftarrow>tr. inserted i a r)"
proof -
  have inv: "pending_inv s" and e: "pend_map s = Map.empty"
    using pending_init_ok [OF assms(1)] by simp_all
  have "(\<Sum>(a, r)\<leftarrow>tr. 2 * inserted i a r) = 2 * (\<Sum>(a, r)\<leftarrow>tr. inserted i a r)"
    by (induction tr) auto
  then show ?thesis
    using commits.run_credit [OF inv _ assms(3), of i] failures.run_credit [OF inv _ assms(3), of i] assms(2)
    by (simp add: e commit_credit_def failure_credit_def)
qed

theorem pending_single_use_witness:
  "\<exists>s tr s'. handshake_pending_store_init (Some (pending_store_zero [])) 4 1000 = (PENDING_OK, Some s) \<and>
     run_ops pending_exec s [OP_INSERT 0 0 (zeros 16) (zeros 32), OP_CONSUME 1 (zeros 16),
       OP_CONSUME 2 (zeros 16)] = (tr, s') \<and>
     (\<Sum>(a, r)\<leftarrow>tr. committed (zeros 16) a r) \<le> (\<Sum>(a, r)\<leftarrow>tr. inserted (zeros 16) a r) \<and>
     (\<Sum>(a, r)\<leftarrow>tr. tolerated (zeros 16) a r) \<le> 2 * (\<Sum>(a, r)\<leftarrow>tr. inserted (zeros 16) a r)"
proof -
  let ?as = "[OP_INSERT 0 0 (zeros 16) (zeros 32), OP_CONSUME 1 (zeros 16), OP_CONSUME 2 (zeros 16)]"
  obtain s where s: "handshake_pending_store_init (Some (pending_store_zero [])) 4 1000 = (PENDING_OK, Some s)"
    using pending_init_sample by blast
  obtain tr s' where r: "run_ops pending_exec s ?as = (tr, s')" by force
  have "list_all pending_op_ok ?as" by simp
  from pending_single_use [OF s this r] s r show ?thesis by blast
qed

section \<open>Expiry\<close>

fun op_times :: "pending_op \<Rightarrow> u64 set" where
  "op_times (OP_SWEEP now) = {now}"
| "op_times (OP_INSERT now_sweep now hid th) = {now_sweep}"
| "op_times (OP_GET_DIGEST now hid) = {now}"
| "op_times (OP_RECORD_FAILURE now hid) = {now}"
| "op_times (OP_CONSUME now hid) = {now}"
| "op_times (OP_CANCEL now hid) = {now}"

fun is_cancel_of :: "bytes \<Rightarrow> pending_op \<Rightarrow> bool" where
  "is_cancel_of i (OP_CANCEL now hid) = (hid = i)"
| "is_cancel_of i _ = False"

definition same_deadline :: "handshake_pending_entry_t \<Rightarrow> ledger \<Rightarrow> bool" where
  "same_deadline e m \<longleftrightarrow> (\<exists>e'. m (pe_handshake_id e) = Some e' \<and> pe_deadline_ms e' = pe_deadline_ms e \<and>
     (pe_state e \<noteq> PENDING_SLOT_ACTIVE \<longrightarrow> e' = e))"

lemma ledger_check_live:
  "m i = Some e \<Longrightarrow> \<not> entry_expired e now \<Longrightarrow> ledger_check m now j = (st, m') \<Longrightarrow> m' i = Some e"
  by (auto simp: ledger_check_def split: option.splits if_splits)

lemma ledger_write_live:
  assumes "ledger_ok m" "m i = Some e" "pe_handshake_id e = i" "\<not> entry_expired e now"
  shows "ledger_consume m now j = (st, m') \<Longrightarrow> same_deadline e m'"
    "ledger_record_failure m now j = (st, m') \<Longrightarrow> same_deadline e m'"
    "j \<noteq> i \<Longrightarrow> ledger_cancel m now j = (st, m') \<Longrightarrow> same_deadline e m'"
proof -
  obtain st1 m1 where c: "ledger_check m now j = (st1, m1)" by force
  have live: "m1 i = Some e" by (rule ledger_check_live [OF assms(2,4) c])
  have act: "i = j \<Longrightarrow> st1 = PENDING_OK \<Longrightarrow> pe_state e = PENDING_SLOT_ACTIVE"
    using ledger_check_OK [OF assms(1)] c assms(2) by fastforce
  show "ledger_consume m now j = (st, m') \<Longrightarrow> same_deadline e m'"
    "ledger_record_failure m now j = (st, m') \<Longrightarrow> same_deadline e m'"
    "j \<noteq> i \<Longrightarrow> ledger_cancel m now j = (st, m') \<Longrightarrow> same_deadline e m'"
    using c live act assms(3)
    by (cases st1; auto simp: ledger_consume_def ledger_record_failure_def ledger_cancel_def Let_def
        same_deadline_def tombstone_def split: if_splits)+
qed

lemma ledger_exec_live:
  assumes "ledger_ok m" "m i = Some e" "\<forall>t \<in> op_times a. t < pe_deadline_ms e" "\<not> is_cancel_of i a"
    and "ledger_exec cap ttl m a = (st, m')"
  shows "same_deadline e m'"
proof -
  have i: "pe_handshake_id e = i" using assms(1,2) by (simp add: ledger_ok_def)
  have live: "t \<in> op_times a \<Longrightarrow> \<not> entry_expired e t" for t
    using assms(3) by (auto simp: entry_expired_def)
  note w = ledger_write_live [OF assms(1,2) i]
  show ?thesis
  proof (cases a)
    case (OP_SWEEP now)
    with live assms show ?thesis by (auto simp: same_deadline_def i ledger_sweep_def)
  next
    case (OP_INSERT now_sweep now hid th)
    have "ledger_sweep m now_sweep i = Some e"
      using OP_INSERT live assms(2) by (simp add: ledger_sweep_def)
    with OP_INSERT assms(5) show ?thesis
      by (auto simp: same_deadline_def i ledger_insert_def Let_def dom_def split: if_splits)
  next
    case (OP_GET_DIGEST now hid)
    with live assms(2,5) ledger_check_live [of m i e now hid st m'] show ?thesis
      by (simp add: same_deadline_def i)
  qed (use w live assms(4,5) in auto)
qed

text \<open>
  C19. Expiry is the only way out. While the clock has not reached the deadline of an entry, no call
  except a cancellation of that same identifier removes the entry or moves its deadline: a full
  store never evicts it, failures do not extend it, and a committed or closed entry stays exactly as
  it is, so that a replay keeps being refused.
\<close>

theorem pending_live_entry_kept:
  assumes "pending_inv s" "pending_op_ok a" "pend_map s i = Some e"
    and "\<forall>t \<in> op_times a. t < pe_deadline_ms e" "\<not> is_cancel_of i a"
    and "pending_exec s a = (st, s')"
  shows "\<exists>e'. pend_map s' i = Some e' \<and> pe_deadline_ms e' = pe_deadline_ms e \<and>
    (pe_state e \<noteq> PENDING_SLOT_ACTIVE \<longrightarrow> e' = e)"
proof -
  have "ledger_exec (ps_capacity s) (ps_ttl_ms s) (pend_map s) a = (st, pend_map s')"
    using pending_exec_refines [OF assms(1,2)] assms(6) by (auto simp: prod_eq_iff)
  from ledger_exec_live [OF pending_inv_ledger_ok [OF assms(1)] assms(3-5) this]
  show ?thesis
    using pending_inv_ledger_ok [OF assms(1)] assms(3) by (simp add: same_deadline_def ledger_ok_def)
qed

lemma pending_sample_insert:
  "\<exists>s e. pending_inv s \<and> pend_map s (zeros 16) = Some e \<and> pe_deadline_ms e = 1000"
proof -
  obtain s where s: "handshake_pending_store_init (Some (pending_store_zero [])) 4 1000 = (PENDING_OK, Some s)"
    using pending_init_sample by blast
  then have e: "pending_inv s" "pend_map s = Map.empty" "ps_capacity s = 4" "ps_ttl_ms s = 1000"
    using pending_init_ok [OF s] s
    by (auto simp: handshake_pending_store_init_def store_init_common_def Let_def split: if_splits)
  have "saturating_deadline 0 1000 = 1000" by (simp add: saturating_deadline_def)
  with insert_refines [OF e(1), of "zeros 16" "zeros 32" 0 0] e show ?thesis
    by (auto simp: ledger_insert_def ledger_sweep_def Let_def)
qed

theorem pending_live_entry_kept_witness:
  "\<exists>s e st s' e'. pend_map s (zeros 16) = Some e \<and> pending_exec s (OP_CONSUME 5 (zeros 16)) = (st, s') \<and>
     pend_map s' (zeros 16) = Some e' \<and> pe_deadline_ms e' = 1000"
proof -
  obtain s e where s: "pending_inv s" "pend_map s (zeros 16) = Some e" "pe_deadline_ms e = 1000"
    using pending_sample_insert by blast
  obtain st s' where x: "pending_exec s (OP_CONSUME 5 (zeros 16)) = (st, s')" by force
  have "\<forall>t \<in> op_times (OP_CONSUME 5 (zeros 16)). t < pe_deadline_ms e" using s(3) by simp
  then show ?thesis
    using pending_live_entry_kept [OF s(1) _ s(2) _ _ x] s x by fastforce
qed

lemma inspect_refines:
  assumes "pending_inv s" "length hid = 16"
  shows "fst (handshake_pending_inspect (Some s) now (Some hid) (Some x) (Some y)) =
    fst (ledger_check (pend_map s) now hid)"
  using assms
proof (cases rule: pend_lookup)
  case absent
  with assms show ?thesis
    by (simp add: handshake_pending_inspect_def ledger_check_def pending_inv_usable)
next
  case (present e j)
  with assms show ?thesis
    by (simp add: handshake_pending_inspect_def ledger_check_def pending_inv_usable Let_def)
qed

lemma unreadable_clock: "entry_expired e (default_monotonic_ms None)"
  by (simp add: entry_expired_def default_monotonic_ms_def)

text \<open>
  The clock fails closed. With the value the default clock reports when it cannot be read, no
  lookup, failure, commit or cancellation succeeds, and the entry is gone afterwards; and a deadline
  is the exact sum of time and lifetime cut off at the largest 64-bit value, never a wrapped one.
\<close>

theorem pending_clock_fails_closed:
  assumes "pending_inv s" "length i = WIRE_HANDSHAKE_ID_LEN"
    and "a \<in> {OP_GET_DIGEST now i, OP_RECORD_FAILURE now i, OP_CONSUME now i, OP_CANCEL now i}"
    and "now = handshake_default_clock_ms None" "pending_exec s a = (st, s')"
  shows "(st = PENDING_ERR_NOT_FOUND \<or> st = PENDING_ERR_EXPIRED) \<and> pend_map s' i = None \<and>
    unat (saturating_deadline t ttl) = min (unat t + unat ttl) (unat UINT64_MAX)"
proof -
  have ok: "pending_op_ok a" using assms(2,3) by auto
  have "ledger_exec (ps_capacity s) (ps_ttl_ms s) (pend_map s) a = (st, pend_map s')"
    using pending_exec_refines [OF assms(1) ok] assms(5) by (auto simp: prod_eq_iff)
  then have "(st = PENDING_ERR_NOT_FOUND \<or> st = PENDING_ERR_EXPIRED) \<and> pend_map s' i = None"
    using assms(3,4) unreadable_clock
    by (cases "pend_map s i")
      (auto simp: ledger_defs handshake_default_clock_ms_def dest!: sym [of _ "pend_map s'"])
  moreover have "unat (saturating_deadline t ttl) = min (unat t + unat ttl) (unat UINT64_MAX)"
    by (simp add: saturating_deadline_def unat_of_nat)
  ultimately show ?thesis by blast
qed

theorem pending_clock_fails_closed_witness:
  "\<exists>s st s'. pend_map s (zeros 16) \<noteq> None \<and>
     pending_exec s (OP_CONSUME (handshake_default_clock_ms None) (zeros 16)) = (st, s') \<and>
     (st = PENDING_ERR_NOT_FOUND \<or> st = PENDING_ERR_EXPIRED) \<and> pend_map s' (zeros 16) = None \<and>
     unat (saturating_deadline 7 (- 3)) = min (unat (7 :: u64) + unat (- 3 :: u64)) (unat UINT64_MAX)"
proof -
  obtain s e where s: "pending_inv s" "pend_map s (zeros 16) = Some e"
    using pending_sample_insert by blast
  obtain st s' where x: "pending_exec s (OP_CONSUME (handshake_default_clock_ms None) (zeros 16)) = (st, s')"
    by force
  show ?thesis
    using pending_clock_fails_closed [OF s(1) _ _ refl x, of "zeros 16" 7 "- 3"] s(2) x by auto
qed

text \<open>
  Inspection agrees with use. \<open>handshake_pending_inspect\<close> reports the status that a digest lookup
  at the same clock reading would return, an entry past its deadline included, and it returns no
  changed store; a lookup that does not succeed hands out an all-zero digest.
\<close>

theorem pending_inspect_agrees:
  assumes "pending_inv s" "length i = WIRE_HANDSHAKE_ID_LEN" "length out = HANDSHAKE_TRANSCRIPT_HASH_BYTES"
    and "handshake_pending_get_digest (Some s) now (Some i) (Some out) = (st, s', d)"
  shows "fst (handshake_pending_inspect (Some s) now (Some i) (Some x) (Some y)) = st \<and>
    (if st = PENDING_OK
     then \<exists>e. pend_map s i = Some e \<and> pe_state e = PENDING_SLOT_ACTIVE \<and> now < pe_deadline_ms e \<and>
       d = Some (pe_th_client_auth e)
     else d = Some (zeros HANDSHAKE_TRANSCRIPT_HASH_BYTES))"
proof -
  obtain m' where c: "ledger_check (pend_map s) now i = (st, m')"
    using get_digest_refines [OF assms(1-3), of now] assms(4) by (metis fst_conv prod.exhaust_sel prod.sel(1))
  then show ?thesis
    using get_digest_refines [OF assms(1-3), of now] assms(4)
      ledger_check_OK [OF pending_inv_ledger_ok [OF assms(1)], of now i m']
    by (auto simp: inspect_refines [OF assms(1,2)] entry_expired_def)
qed

theorem pending_inspect_agrees_witness:
  "\<exists>s d s'. handshake_pending_get_digest (Some s) 2000 (Some (zeros 16)) (Some (zeros 32)) =
       (PENDING_ERR_EXPIRED, s', d) \<and>
     fst (handshake_pending_inspect (Some s) 2000 (Some (zeros 16)) (Some PENDING_SLOT_FREE) (Some 0)) =
       PENDING_ERR_EXPIRED \<and> d = Some (zeros 32)"
proof -
  obtain s e where s: "pending_inv s" "pend_map s (zeros 16) = Some e" "pe_deadline_ms e = 1000"
    using pending_sample_insert by blast
  then have "fst (ledger_check (pend_map s) 2000 (zeros 16)) = PENDING_ERR_EXPIRED"
    by (simp add: ledger_check_def entry_expired_def)
  with get_digest_refines [OF s(1), of "zeros 16" "zeros 32" 2000] obtain s' d where
    g: "handshake_pending_get_digest (Some s) 2000 (Some (zeros 16)) (Some (zeros 32)) =
      (PENDING_ERR_EXPIRED, s', d)" by auto
  show ?thesis using pending_inspect_agrees [OF s(1) _ _ g, of PENDING_SLOT_FREE 0] g by auto
qed

end
