(* ===== verification/Handshake.thy ===== *)
theory Handshake
  imports Keystore Pending
begin

text \<open>
  The handshake contexts: the second part of \<open>src/protocol/handshake.c\<close> and its types in
  \<open>handshake.h\<close>, one definition per function.

  The context record has the fields of the C struct. What a context borrows is held by value (the
  local identity key, the key store, the pinned peer key, a caller's lookup callback), since the
  callers must keep it unchanged for the life of the context; the pending ledger does change, so it
  is passed to each call that uses it and returned, and \<open>hc_pending\<close> only says that the pointer is
  set. A role of zero, which \<open>memset\<close> leaves, is its own constructor. Allocation results, random
  bytes, coins and clock readings come from the environment \<open>e\<close>, one index per program point.
\<close>

abbreviation (input) SESSION_KEYS_LEN :: nat where "SESSION_KEYS_LEN \<equiv> 64"
abbreviation (input) C2S_OFFSET :: nat where "C2S_OFFSET \<equiv> 0"
abbreviation (input) S2C_OFFSET :: nat where "S2C_OFFSET \<equiv> 32"
abbreviation (input) HANDSHAKE_DIR_C2S :: byte where "HANDSHAKE_DIR_C2S \<equiv> KEX_DIR_C2S"
abbreviation (input) HANDSHAKE_DIR_S2C :: byte where "HANDSHAKE_DIR_S2C \<equiv> KEX_DIR_S2C"

datatype handshake_role_t = ROLE_ZERO | HANDSHAKE_ROLE_INITIATOR | HANDSHAKE_ROLE_RESPONDER

datatype handshake_state_t =
    HANDSHAKE_STATE_NEW
  | HANDSHAKE_STATE_CLIENT_HELLO_CREATED
  | HANDSHAKE_STATE_SERVER_HELLO_VERIFIED
  | HANDSHAKE_STATE_CLIENT_AUTH_CREATED
  | HANDSHAKE_STATE_CLIENT_HELLO_ACCEPTED
  | HANDSHAKE_STATE_SERVER_HELLO_CREATED
  | HANDSHAKE_STATE_CLIENT_AUTH_VERIFIED
  | HANDSHAKE_STATE_ESTABLISHED
  | HANDSHAKE_STATE_FAILED

datatype handshake_status_t =
    HANDSHAKE_OK
  | HANDSHAKE_ERR_INVALID_ARG
  | HANDSHAKE_ERR_UNEXPECTED_STATE
  | HANDSHAKE_ERR_MALFORMED
  | HANDSHAKE_ERR_UNKNOWN_IDENTITY
  | HANDSHAKE_ERR_IDENTITY_KEY_MISMATCH
  | HANDSHAKE_ERR_PEER_IDENTITY_MISMATCH
  | HANDSHAKE_ERR_SESSION_ID_MISMATCH
  | HANDSHAKE_ERR_HANDSHAKE_ID_MISMATCH
  | HANDSHAKE_ERR_REPLAY
  | HANDSHAKE_ERR_EXPIRED
  | HANDSHAKE_ERR_SIGNATURE
  | HANDSHAKE_ERR_AUTH_FAILURE_LIMIT
  | HANDSHAKE_ERR_KEX
  | HANDSHAKE_ERR_RESOURCE_EXHAUSTED
  | HANDSHAKE_ERR_INTERNAL

record handshake_ctx_t =
  hc_role :: handshake_role_t
  hc_state :: handshake_state_t
  hc_local_id :: bytes
  hc_local_id_len :: byte
  hc_local_keypair :: "mldsa_keypair_t ptr"
  hc_keystore :: "keystore_t ptr"
  hc_lookup_fn :: "(bytes \<Rightarrow> nat \<Rightarrow> bytes ptr) ptr"
  hc_pending :: bool
  hc_peer_id :: bytes
  hc_peer_id_len :: byte
  hc_peer_pk :: "bytes ptr"
  hc_session_id :: bytes
  hc_ch_bytes :: bytes
  hc_ch_len :: nat
  hc_peer_eph_pub :: bytes
  hc_handshake_id :: bytes
  hc_th_client_auth :: bytes
  hc_eph :: kex_keypair_t
  hc_kem :: mlkem_keypair_t
  hc_peer_mlkem_ct :: bytes
  hc_ss_kem :: "bytes ptr"
  hc_session_keys :: "bytes ptr"
  hc_keys_committed :: bool

definition handshake_ctx_zero :: handshake_ctx_t where
  "handshake_ctx_zero = \<lparr>
     hc_role = ROLE_ZERO, hc_state = HANDSHAKE_STATE_NEW,
     hc_local_id = zeros WIRE_ID_MAX_LEN, hc_local_id_len = 0, hc_local_keypair = NULL,
     hc_keystore = NULL, hc_lookup_fn = NULL, hc_pending = False,
     hc_peer_id = zeros WIRE_ID_MAX_LEN, hc_peer_id_len = 0, hc_peer_pk = NULL,
     hc_session_id = zeros WIRE_SESSION_ID_LEN,
     hc_ch_bytes = zeros CLIENT_HELLO_MAX_ENCODED_LEN, hc_ch_len = 0,
     hc_peer_eph_pub = zeros KEX_PUBLIC_KEY_BYTES, hc_handshake_id = zeros WIRE_HANDSHAKE_ID_LEN,
     hc_th_client_auth = zeros HANDSHAKE_TRANSCRIPT_HASH_BYTES,
     hc_eph = kex_keypair_zero, hc_kem = mlkem_keypair_zero,
     hc_peer_mlkem_ct = zeros WIRE_MLKEM_CT_LEN, hc_ss_kem = NULL, hc_session_keys = NULL,
     hc_keys_committed = False\<rparr>"

section \<open>Context helpers\<close>

definition check_call ::
  "handshake_ctx_t ptr \<Rightarrow> handshake_role_t \<Rightarrow> handshake_state_t \<Rightarrow> handshake_status_t" where
  "check_call ctx role state =
     (if ctx = NULL then HANDSHAKE_ERR_INVALID_ARG
      else if hc_role (the ctx) \<noteq> role \<or> hc_state (the ctx) \<noteq> state
      then HANDSHAKE_ERR_UNEXPECTED_STATE
      else HANDSHAKE_OK)"

definition wipe_failed :: "handshake_ctx_t \<Rightarrow> handshake_ctx_t" where
  "wipe_failed c = c\<lparr>
     hc_eph := the (kex_keypair_free (Some (hc_eph c))),
     hc_kem := the (mlkem_keypair_free (Some (hc_kem c))),
     hc_ss_kem := NULL,
     hc_session_keys := secure_mem_wipe (hc_session_keys c) SESSION_KEYS_LEN,
     hc_keys_committed := False,
     hc_ch_bytes := zeros CLIENT_HELLO_MAX_ENCODED_LEN,
     hc_ch_len := 0,
     hc_th_client_auth := zeros HANDSHAKE_TRANSCRIPT_HASH_BYTES,
     hc_handshake_id := zeros WIRE_HANDSHAKE_ID_LEN,
     hc_peer_eph_pub := zeros KEX_PUBLIC_KEY_BYTES,
     hc_peer_mlkem_ct := zeros WIRE_MLKEM_CT_LEN,
     hc_state := HANDSHAKE_STATE_FAILED\<rparr>"

definition fail_ctx :: "handshake_ctx_t \<Rightarrow> handshake_status_t \<Rightarrow> handshake_status_t \<times> handshake_ctx_t ptr" where
  "fail_ctx c why = (why, Some (wipe_failed c))"

fun map_pending_failure :: "pending_status_t \<Rightarrow> handshake_status_t" where
  "map_pending_failure PENDING_ERR_EXPIRED = HANDSHAKE_ERR_EXPIRED"
| "map_pending_failure PENDING_ERR_NOT_FOUND = HANDSHAKE_ERR_EXPIRED"
| "map_pending_failure PENDING_ERR_CONSUMED = HANDSHAKE_ERR_REPLAY"
| "map_pending_failure PENDING_ERR_AUTH_LIMIT = HANDSHAKE_ERR_AUTH_FAILURE_LIMIT"
| "map_pending_failure _ = HANDSHAKE_ERR_INTERNAL"

text \<open>
  The two derivations write to the two halves of the output buffer; each pointer \<open>out + offset\<close> is
  the rest of the buffer from there.
\<close>

definition derive_traffic_keys ::
  "sodium \<Rightarrow> bytes \<Rightarrow> bytes \<Rightarrow> bytes \<Rightarrow> bytes \<Rightarrow> bytes \<Rightarrow> nat \<Rightarrow> bytes \<Rightarrow> nat \<Rightarrow> bytes \<Rightarrow> int \<times> bytes" where
  "derive_traffic_keys so out ss_x ss_k session_id initiator_id initiator_id_len
       responder_id responder_id_len th_client_auth =
     (let (rc, k) = kex_derive_session_key_v2 so (Some (bslice out C2S_OFFSET KEX_SESSION_KEY_BYTES))
            (Some ss_x) (Some ss_k) (Some session_id) WIRE_SESSION_ID_LEN
            (Some initiator_id) initiator_id_len (Some responder_id) responder_id_len
            (Some th_client_auth) HANDSHAKE_DIR_C2S;
          out = memcpy out C2S_OFFSET (the k)
      in if rc \<noteq> 0 then (-1, out)
         else
           let (rc, k) = kex_derive_session_key_v2 so (Some (bslice out S2C_OFFSET KEX_SESSION_KEY_BYTES))
                 (Some ss_x) (Some ss_k) (Some session_id) WIRE_SESSION_ID_LEN
                 (Some initiator_id) initiator_id_len (Some responder_id) responder_id_len
                 (Some th_client_auth) HANDSHAKE_DIR_S2C;
               out = memcpy out S2C_OFFSET (the k)
           in if rc \<noteq> 0 then (-1, out) else (0, out))"

definition resolve_peer_pk :: "handshake_ctx_t \<Rightarrow> bytes \<Rightarrow> nat \<Rightarrow> bytes ptr" where
  "resolve_peer_pk c ident id_len =
     (case hc_lookup_fn c of
        Some lookup_fn \<Rightarrow> lookup_fn ident id_len
      | NULL \<Rightarrow>
          if hc_keystore c = NULL then NULL
          else
            let (st, pk) = keystore_lookup (hc_keystore c) (Some ident) id_len (Some NULL)
            in if st \<noteq> KEYSTORE_OK then NULL else the pk)"

definition init_common ::
  "env \<Rightarrow> handshake_role_t \<Rightarrow> bytes \<Rightarrow> nat \<Rightarrow> mldsa_keypair_t ptr \<Rightarrow> keystore_t ptr \<Rightarrow>
   (bytes \<Rightarrow> nat \<Rightarrow> bytes ptr) ptr \<Rightarrow> handshake_status_t \<times> handshake_ctx_t" where
  "init_common e role local_id local_id_len local_keypair keystore lookup_fn =
     (let c = handshake_ctx_zero\<lparr>hc_state := HANDSHAKE_STATE_FAILED\<rparr>
      in case secure_mem_alloc e 0 SESSION_KEYS_LEN of
           NULL \<Rightarrow> (HANDSHAKE_ERR_RESOURCE_EXHAUSTED, c)
         | Some keys \<Rightarrow>
             (HANDSHAKE_OK, c\<lparr>
                hc_session_keys := secure_mem_wipe (Some keys) SESSION_KEYS_LEN,
                hc_role := role,
                hc_local_id := memcpy (hc_local_id c) 0 (take local_id_len local_id),
                hc_local_id_len := of_nat local_id_len,
                hc_local_keypair := local_keypair,
                hc_keystore := keystore,
                hc_lookup_fn := lookup_fn,
                hc_state := HANDSHAKE_STATE_NEW\<rparr>))"

section \<open>Initialization and teardown\<close>

definition handshake_initiator_init ::
  "env \<Rightarrow> handshake_ctx_t ptr \<Rightarrow> bytes ptr \<Rightarrow> nat \<Rightarrow> mldsa_keypair_t ptr \<Rightarrow> keystore_t ptr \<Rightarrow>
   bytes ptr \<Rightarrow> nat \<Rightarrow> handshake_status_t \<times> handshake_ctx_t ptr" where
  "handshake_initiator_init e ctx local_id local_id_len local_keypair keystore peer_id peer_id_len =
     (if ctx = NULL then (HANDSHAKE_ERR_INVALID_ARG, NULL)
      else if local_id = NULL \<or> \<not> id_len_valid local_id_len \<or> local_keypair = NULL \<or>
        mldsa_secret_key (the local_keypair) = NULL \<or> keystore = NULL \<or> peer_id = NULL \<or>
        \<not> id_len_valid peer_id_len
      then (HANDSHAKE_ERR_INVALID_ARG, Some (handshake_ctx_zero\<lparr>hc_state := HANDSHAKE_STATE_FAILED\<rparr>))
      else
        let (st, c) = init_common e HANDSHAKE_ROLE_INITIATOR (the local_id) local_id_len
              local_keypair keystore NULL
        in if st \<noteq> HANDSHAKE_OK then (st, Some c)
           else (HANDSHAKE_OK, Some (c\<lparr>
                  hc_peer_id := memcpy (hc_peer_id c) 0 (take peer_id_len (the peer_id)),
                  hc_peer_id_len := of_nat peer_id_len\<rparr>)))"

definition responder_init_impl ::
  "env \<Rightarrow> handshake_ctx_t ptr \<Rightarrow> bytes ptr \<Rightarrow> nat \<Rightarrow> mldsa_keypair_t ptr \<Rightarrow> keystore_t ptr \<Rightarrow>
   (bytes \<Rightarrow> nat \<Rightarrow> bytes ptr) ptr \<Rightarrow> handshake_pending_store_t ptr \<Rightarrow>
   handshake_status_t \<times> handshake_ctx_t ptr" where
  "responder_init_impl e ctx local_id local_id_len local_keypair keystore lookup_fn pending =
     (if ctx = NULL then (HANDSHAKE_ERR_INVALID_ARG, NULL)
      else
        let one_resolver =
              ((case keystore of NULL \<Rightarrow> False | Some _ \<Rightarrow> True) \<noteq>
               (case lookup_fn of NULL \<Rightarrow> False | Some _ \<Rightarrow> True))
        in if local_id = NULL \<or> \<not> id_len_valid local_id_len \<or> local_keypair = NULL \<or>
             mldsa_secret_key (the local_keypair) = NULL \<or> \<not> one_resolver \<or> \<not> store_usable pending
           then (HANDSHAKE_ERR_INVALID_ARG, Some (handshake_ctx_zero\<lparr>hc_state := HANDSHAKE_STATE_FAILED\<rparr>))
           else
             let (st, c) = init_common e HANDSHAKE_ROLE_RESPONDER (the local_id) local_id_len
                   local_keypair keystore lookup_fn
             in if st \<noteq> HANDSHAKE_OK then (st, Some c)
                else (HANDSHAKE_OK, Some (c\<lparr>hc_pending := True\<rparr>)))"

definition handshake_responder_init ::
  "env \<Rightarrow> handshake_ctx_t ptr \<Rightarrow> bytes ptr \<Rightarrow> nat \<Rightarrow> mldsa_keypair_t ptr \<Rightarrow> keystore_t ptr \<Rightarrow>
   handshake_pending_store_t ptr \<Rightarrow> handshake_status_t \<times> handshake_ctx_t ptr" where
  "handshake_responder_init e ctx local_id local_id_len local_keypair keystore pending =
     responder_init_impl e ctx local_id local_id_len local_keypair keystore NULL pending"

definition handshake_responder_init_ext ::
  "env \<Rightarrow> handshake_ctx_t ptr \<Rightarrow> bytes ptr \<Rightarrow> nat \<Rightarrow> mldsa_keypair_t ptr \<Rightarrow>
   (bytes \<Rightarrow> nat \<Rightarrow> bytes ptr) ptr \<Rightarrow> handshake_pending_store_t ptr \<Rightarrow>
   handshake_status_t \<times> handshake_ctx_t ptr" where
  "handshake_responder_init_ext e ctx local_id local_id_len local_keypair lookup_fn pending =
     responder_init_impl e ctx local_id local_id_len local_keypair NULL lookup_fn pending"

definition handshake_ctx_wipe ::
  "env \<Rightarrow> handshake_ctx_t ptr \<Rightarrow> handshake_pending_store_t ptr \<Rightarrow>
   handshake_ctx_t ptr \<times> handshake_pending_store_t ptr" where
  "handshake_ctx_wipe e ctx pending =
     (case ctx of NULL \<Rightarrow> (NULL, pending)
      | Some c \<Rightarrow>
        let pending =
              (if hc_role c = HANDSHAKE_ROLE_RESPONDER \<and> hc_state c = HANDSHAKE_STATE_SERVER_HELLO_CREATED \<and>
                  hc_pending c
               then snd (handshake_pending_cancel pending (clock_ms e 0) (Some (hc_handshake_id c)))
               else pending)
        in (Some (handshake_ctx_zero\<lparr>hc_state := HANDSHAKE_STATE_FAILED\<rparr>), pending))"

definition handshake_get_state :: "handshake_ctx_t ptr \<Rightarrow> handshake_state_t" where
  "handshake_get_state ctx = (case ctx of NULL \<Rightarrow> HANDSHAKE_STATE_FAILED | Some c \<Rightarrow> hc_state c)"

definition handshake_get_role ::
  "handshake_ctx_t ptr \<Rightarrow> handshake_role_t ptr \<Rightarrow> handshake_status_t \<times> handshake_role_t ptr" where
  "handshake_get_role ctx role_out =
     (case ctx of NULL \<Rightarrow> (HANDSHAKE_ERR_INVALID_ARG, role_out)
      | Some c \<Rightarrow>
        if role_out = NULL then (HANDSHAKE_ERR_INVALID_ARG, role_out)
        else if hc_role c \<noteq> HANDSHAKE_ROLE_INITIATOR \<and> hc_role c \<noteq> HANDSHAKE_ROLE_RESPONDER
        then (HANDSHAKE_ERR_UNEXPECTED_STATE, role_out)
        else (HANDSHAKE_OK, Some (hc_role c)))"

definition handshake_get_handshake_id ::
  "handshake_ctx_t ptr \<Rightarrow> bytes ptr \<Rightarrow> handshake_status_t \<times> bytes ptr" where
  "handshake_get_handshake_id ctx handshake_id_out =
     (case handshake_id_out of NULL \<Rightarrow> (HANDSHAKE_ERR_INVALID_ARG, NULL)
      | Some out \<Rightarrow>
        let out = memcpy out 0 (zeros WIRE_HANDSHAKE_ID_LEN)
        in (case ctx of NULL \<Rightarrow> (HANDSHAKE_ERR_INVALID_ARG, Some out)
            | Some c \<Rightarrow>
              if hc_state c \<noteq> HANDSHAKE_STATE_ESTABLISHED \<or> \<not> hc_keys_committed c
              then (HANDSHAKE_ERR_UNEXPECTED_STATE, Some out)
              else (HANDSHAKE_OK, Some (memcpy out 0 (take WIRE_HANDSHAKE_ID_LEN (hc_handshake_id c))))))"

section \<open>Initiator\<close>

definition handshake_initiator_create_client_hello ::
  "crypto \<Rightarrow> env \<Rightarrow> handshake_ctx_t ptr \<Rightarrow> bytes ptr \<Rightarrow> nat \<Rightarrow> nat ptr \<Rightarrow>
   (handshake_status_t \<times> handshake_ctx_t ptr) \<times> bytes ptr \<times> nat ptr" where
  "handshake_initiator_create_client_hello cr e ctx out out_cap out_len =
     (let st = check_call ctx HANDSHAKE_ROLE_INITIATOR HANDSHAKE_STATE_NEW in
      if st \<noteq> HANDSHAKE_OK then ((st, ctx), out, out_len)
      else if out = NULL \<or> out_len = NULL then ((HANDSHAKE_ERR_INVALID_ARG, ctx), out, out_len)
      else
        let c = the ctx; ch = client_hello_zero;
            (rc, kp) = kex_keypair_generate (sodium cr) e 0 (Some (hc_eph c));
            c = c\<lparr>hc_eph := the kp\<rparr>
        in if rc \<noteq> 0 then (fail_ctx c HANDSHAKE_ERR_INTERNAL, out, out_len)
        else
        let (rc, kp) = mlkem_keypair_generate (liboqs cr) e 1 (Some (hc_kem c));
            c = c\<lparr>hc_kem := the kp\<rparr>
        in if rc \<noteq> 0 then (fail_ctx c HANDSHAKE_ERR_INTERNAL, out, out_len)
        else
        let ch = ch\<lparr>
              ch_id := memcpy (ch_id ch) 0 (take (unat (hc_local_id_len c)) (hc_local_id c)),
              ch_id_len := hc_local_id_len c,
              ch_ephemeral_pub := memcpy (ch_ephemeral_pub ch) 0
                (take KEX_PUBLIC_KEY_BYTES (kex_public_key (hc_eph c))),
              ch_mlkem_ek := memcpy (ch_mlkem_ek ch) 0
                (take WIRE_MLKEM_EK_LEN (mlkem_public_key (hc_kem c))),
              ch_session_id := memcpy (ch_session_id ch) 0 (randombytes_buf e 2 WIRE_SESSION_ID_LEN),
              ch_nonce := memcpy (ch_nonce ch) 0 (randombytes_buf e 3 WIRE_NONCE_LEN)\<rparr>;
            (rc, b, n) = encode_client_hello (Some ch) (Some (hc_ch_bytes c))
              CLIENT_HELLO_MAX_ENCODED_LEN (Some 0);
            c = c\<lparr>hc_ch_bytes := the b\<rparr>; ch_len = the n
        in if rc \<noteq> 0 then (fail_ctx c HANDSHAKE_ERR_INTERNAL, out, out_len)
        else if out_cap < ch_len
        then ((HANDSHAKE_ERR_INVALID_ARG, Some (c\<lparr>
                 hc_eph := the (kex_keypair_free (Some (hc_eph c))),
                 hc_kem := the (mlkem_keypair_free (Some (hc_kem c))),
                 hc_ch_bytes := zeros CLIENT_HELLO_MAX_ENCODED_LEN\<rparr>)), out, out_len)
        else
          ((HANDSHAKE_OK, Some (c\<lparr>
              hc_session_id := memcpy (hc_session_id c) 0 (take WIRE_SESSION_ID_LEN (ch_session_id ch)),
              hc_ch_len := ch_len,
              hc_state := HANDSHAKE_STATE_CLIENT_HELLO_CREATED\<rparr>)),
           Some (memcpy (the out) 0 (take ch_len (hc_ch_bytes c))), Some ch_len))"

definition handshake_initiator_verify_server_hello ::
  "crypto \<Rightarrow> env \<Rightarrow> handshake_ctx_t ptr \<Rightarrow> bytes ptr \<Rightarrow> nat \<Rightarrow> handshake_status_t \<times> handshake_ctx_t ptr" where
  "handshake_initiator_verify_server_hello cr e ctx sh sh_len =
     (let st = check_call ctx HANDSHAKE_ROLE_INITIATOR HANDSHAKE_STATE_CLIENT_HELLO_CREATED in
      if st \<noteq> HANDSHAKE_OK then (st, ctx)
      else if sh = NULL then (HANDSHAKE_ERR_INVALID_ARG, ctx)
      else
        let c = the ctx;
            (rc, msgp, consumed) = decode_server_hello sh sh_len (Some server_hello_zero) (Some 0);
            msg = the msgp
        in if rc \<noteq> 0 then fail_ctx c HANDSHAKE_ERR_MALFORMED
        else if sh_id_len msg \<noteq> hc_peer_id_len c \<or>
          take (unat (hc_peer_id_len c)) (sh_id msg) \<noteq> take (unat (hc_peer_id_len c)) (hc_peer_id c)
        then fail_ctx c HANDSHAKE_ERR_PEER_IDENTITY_MISMATCH
        else
        let c = c\<lparr>hc_peer_pk := resolve_peer_pk c (sh_id msg) (unat (sh_id_len msg))\<rparr>
        in if hc_peer_pk c = NULL then fail_ctx c HANDSHAKE_ERR_UNKNOWN_IDENTITY
        else if take WIRE_SESSION_ID_LEN (sh_session_id_echo msg) \<noteq> take WIRE_SESSION_ID_LEN (hc_session_id c)
        then fail_ctx c HANDSHAKE_ERR_SESSION_ID_MISMATCH
        else
        let unsigned_len = transcript_server_hello_unsigned_len (sh_id_len msg)
        in if unsigned_len = 0 \<or> unsigned_len \<ge> sh_len then fail_ctx c HANDSHAKE_ERR_INTERNAL
        else
        let (rc, th_server_auth) = transcript_hash_server_auth (sodium cr) (Some (hc_ch_bytes c))
              (hc_ch_len c) sh unsigned_len (Some (zeros HANDSHAKE_TRANSCRIPT_HASH_BYTES))
        in if rc \<noteq> 0 then fail_ctx c HANDSHAKE_ERR_INTERNAL
        else if mldsa_verify (liboqs cr) th_server_auth HANDSHAKE_TRANSCRIPT_HASH_BYTES
            (Some (sh_sig msg)) (unat (sh_sig_len msg)) (hc_peer_pk c) \<noteq> 0
        then fail_ctx c HANDSHAKE_ERR_SIGNATURE
        else
        (case secure_mem_alloc e 0 KEX_SHARED_SECRET_BYTES of
           NULL \<Rightarrow> fail_ctx c HANDSHAKE_ERR_RESOURCE_EXHAUSTED
         | Some probe \<Rightarrow>
           let (kex_rc, _) = kex_shared_secret (sodium cr) (Some probe) (Some (hc_eph c))
                 (Some (sh_ephemeral_pub msg))
           in if kex_rc \<noteq> 0 then fail_ctx c HANDSHAKE_ERR_KEX
           else
           let c = c\<lparr>
                 hc_peer_eph_pub := memcpy (hc_peer_eph_pub c) 0 (take KEX_PUBLIC_KEY_BYTES (sh_ephemeral_pub msg)),
                 hc_peer_mlkem_ct := memcpy (hc_peer_mlkem_ct c) 0 (take WIRE_MLKEM_CT_LEN (sh_mlkem_ct msg))\<rparr>;
               (rc, th) = transcript_hash_client_auth (sodium cr) (Some (hc_ch_bytes c)) (hc_ch_len c)
                 sh sh_len (Some (hc_th_client_auth c));
               c = c\<lparr>hc_th_client_auth := the th\<rparr>
           in if rc \<noteq> 0 then fail_ctx c HANDSHAKE_ERR_INTERNAL
           else
           let (rc, hid) = transcript_handshake_id (sodium cr) (Some (hc_ch_bytes c)) (hc_ch_len c)
                 sh sh_len (Some (hc_handshake_id c));
               c = c\<lparr>hc_handshake_id := the hid\<rparr>
           in if rc \<noteq> 0 then fail_ctx c HANDSHAKE_ERR_INTERNAL
           else (HANDSHAKE_OK, Some (c\<lparr>
                   hc_ch_bytes := zeros CLIENT_HELLO_MAX_ENCODED_LEN, hc_ch_len := 0,
                   hc_state := HANDSHAKE_STATE_SERVER_HELLO_VERIFIED\<rparr>))))"

definition handshake_initiator_create_client_auth ::
  "crypto \<Rightarrow> env \<Rightarrow> handshake_ctx_t ptr \<Rightarrow> bytes ptr \<Rightarrow> nat \<Rightarrow> nat ptr \<Rightarrow>
   (handshake_status_t \<times> handshake_ctx_t ptr) \<times> bytes ptr \<times> nat ptr" where
  "handshake_initiator_create_client_auth cr e ctx out out_cap out_len =
     (let st = check_call ctx HANDSHAKE_ROLE_INITIATOR HANDSHAKE_STATE_SERVER_HELLO_VERIFIED in
      if st \<noteq> HANDSHAKE_OK then ((st, ctx), out, out_len)
      else if out = NULL \<or> out_len = NULL then ((HANDSHAKE_ERR_INVALID_ARG, ctx), out, out_len)
      else
        let c = the ctx; ca = client_auth_zero;
            ca = ca\<lparr>ca_handshake_id := memcpy (ca_handshake_id ca) 0
              (take WIRE_HANDSHAKE_ID_LEN (hc_handshake_id c))\<rparr>;
            (rc, sig, sl) = mldsa_sign (liboqs cr) e 0 (Some (ca_sig ca)) (Some 0)
              (Some (hc_th_client_auth c)) HANDSHAKE_TRANSCRIPT_HASH_BYTES (hc_local_keypair c);
            sig_len = the sl
        in if rc \<noteq> 0 \<or> sig_len = 0 \<or> sig_len > MLDSA_SIGNATURE_MAX_BYTES
        then (fail_ctx c HANDSHAKE_ERR_INTERNAL, out, out_len)
        else
        let ca = ca\<lparr>ca_sig := the sig, ca_sig_len := of_nat sig_len\<rparr>;
            (rc, b, n) = encode_client_auth (Some ca) (Some (zeros CLIENT_AUTH_MAX_ENCODED_LEN))
              CLIENT_AUTH_MAX_ENCODED_LEN (Some 0);
            len = the n
        in if rc \<noteq> 0 then (fail_ctx c HANDSHAKE_ERR_INTERNAL, out, out_len)
        else if out_cap < len then ((HANDSHAKE_ERR_INVALID_ARG, Some c), out, out_len)
        else ((HANDSHAKE_OK, Some (c\<lparr>hc_state := HANDSHAKE_STATE_CLIENT_AUTH_CREATED\<rparr>)),
              Some (memcpy (the out) 0 (take len (the b))), Some len))"

definition handshake_initiator_finish ::
  "crypto \<Rightarrow> env \<Rightarrow> handshake_ctx_t ptr \<Rightarrow> handshake_status_t \<times> handshake_ctx_t ptr" where
  "handshake_initiator_finish cr e ctx =
     (let st = check_call ctx HANDSHAKE_ROLE_INITIATOR HANDSHAKE_STATE_CLIENT_AUTH_CREATED in
      if st \<noteq> HANDSHAKE_OK then (st, ctx)
      else
        let c = the ctx in
        (case secure_mem_alloc e 0 KEX_SHARED_SECRET_BYTES of
           NULL \<Rightarrow> fail_ctx c HANDSHAKE_ERR_RESOURCE_EXHAUSTED
         | Some shared \<Rightarrow>
           let (rc, shared) = kex_shared_secret (sodium cr) (Some shared) (Some (hc_eph c))
                 (Some (hc_peer_eph_pub c))
           in if rc \<noteq> 0 then fail_ctx c HANDSHAKE_ERR_KEX
           else
        (case secure_mem_alloc e 1 MLKEM_SHARED_SECRET_BYTES of
           NULL \<Rightarrow> fail_ctx c HANDSHAKE_ERR_RESOURCE_EXHAUSTED
         | Some ss_kem \<Rightarrow>
           let (rc, ss_kem) = mlkem_decaps (liboqs cr) (Some ss_kem) (Some (hc_peer_mlkem_ct c))
                 (Some (hc_kem c))
           in if rc \<noteq> 0 then fail_ctx c HANDSHAKE_ERR_INTERNAL
           else
        (case secure_mem_alloc e 2 SESSION_KEYS_LEN of
           NULL \<Rightarrow> fail_ctx c HANDSHAKE_ERR_RESOURCE_EXHAUSTED
         | Some keys \<Rightarrow>
           let (rc, keys) = derive_traffic_keys (sodium cr) keys (the shared) (the ss_kem)
                 (hc_session_id c) (hc_local_id c) (unat (hc_local_id_len c))
                 (hc_peer_id c) (unat (hc_peer_id_len c)) (hc_th_client_auth c)
           in if rc \<noteq> 0 then fail_ctx c HANDSHAKE_ERR_INTERNAL
           else (HANDSHAKE_OK, Some (c\<lparr>
                  hc_session_keys := Some (memcpy (the (hc_session_keys c)) 0 (take SESSION_KEYS_LEN keys)),
                  hc_keys_committed := True,
                  hc_eph := the (kex_keypair_free (Some (hc_eph c))),
                  hc_kem := the (mlkem_keypair_free (Some (hc_kem c))),
                  hc_th_client_auth := zeros HANDSHAKE_TRANSCRIPT_HASH_BYTES,
                  hc_peer_eph_pub := zeros KEX_PUBLIC_KEY_BYTES,
                  hc_peer_mlkem_ct := zeros WIRE_MLKEM_CT_LEN,
                  hc_state := HANDSHAKE_STATE_ESTABLISHED\<rparr>))))))"

section \<open>Responder\<close>

definition handshake_responder_accept_client_hello ::
  "handshake_ctx_t ptr \<Rightarrow> bytes ptr \<Rightarrow> nat \<Rightarrow> handshake_status_t \<times> handshake_ctx_t ptr" where
  "handshake_responder_accept_client_hello ctx ch ch_len =
     (let st = check_call ctx HANDSHAKE_ROLE_RESPONDER HANDSHAKE_STATE_NEW in
      if st \<noteq> HANDSHAKE_OK then (st, ctx)
      else if ch = NULL then (HANDSHAKE_ERR_INVALID_ARG, ctx)
      else
        let c = the ctx;
            (rc, msgp, consumed) = decode_client_hello ch ch_len (Some client_hello_zero) (Some 0);
            msg = the msgp
        in if rc \<noteq> 0 \<or> ch_len > CLIENT_HELLO_MAX_ENCODED_LEN then fail_ctx c HANDSHAKE_ERR_MALFORMED
        else
        let c = c\<lparr>hc_peer_pk := resolve_peer_pk c (ch_id msg) (unat (ch_id_len msg))\<rparr>
        in if hc_peer_pk c = NULL then fail_ctx c HANDSHAKE_ERR_UNKNOWN_IDENTITY
        else (HANDSHAKE_OK, Some (c\<lparr>
               hc_peer_id := memcpy (hc_peer_id c) 0 (take (unat (ch_id_len msg)) (ch_id msg)),
               hc_peer_id_len := ch_id_len msg,
               hc_session_id := memcpy (hc_session_id c) 0 (take WIRE_SESSION_ID_LEN (ch_session_id msg)),
               hc_peer_eph_pub := memcpy (hc_peer_eph_pub c) 0 (take KEX_PUBLIC_KEY_BYTES (ch_ephemeral_pub msg)),
               hc_ch_bytes := memcpy (hc_ch_bytes c) 0 (take ch_len (the ch)),
               hc_ch_len := ch_len,
               hc_state := HANDSHAKE_STATE_CLIENT_HELLO_ACCEPTED\<rparr>)))"

definition handshake_responder_create_server_hello ::
  "crypto \<Rightarrow> env \<Rightarrow> handshake_ctx_t ptr \<Rightarrow> handshake_pending_store_t ptr \<Rightarrow> bytes ptr \<Rightarrow> nat \<Rightarrow> nat ptr \<Rightarrow>
   (handshake_status_t \<times> handshake_ctx_t ptr) \<times> handshake_pending_store_t ptr \<times> bytes ptr \<times> nat ptr" where
  "handshake_responder_create_server_hello cr e ctx pending out out_cap out_len =
     (let st = check_call ctx HANDSHAKE_ROLE_RESPONDER HANDSHAKE_STATE_CLIENT_HELLO_ACCEPTED in
      if st \<noteq> HANDSHAKE_OK then ((st, ctx), pending, out, out_len)
      else if out = NULL \<or> out_len = NULL then ((HANDSHAKE_ERR_INVALID_ARG, ctx), pending, out, out_len)
      else
        let c = the ctx; sh = server_hello_zero;
            (rc, kp) = kex_keypair_generate (sodium cr) e 0 (Some (hc_eph c));
            c = c\<lparr>hc_eph := the kp\<rparr>
        in if rc \<noteq> 0 then (fail_ctx c HANDSHAKE_ERR_INTERNAL, pending, out, out_len)
        else
        let sh = sh\<lparr>
              sh_id := memcpy (sh_id sh) 0 (take (unat (hc_local_id_len c)) (hc_local_id c)),
              sh_id_len := hc_local_id_len c,
              sh_ephemeral_pub := memcpy (sh_ephemeral_pub sh) 0
                (take KEX_PUBLIC_KEY_BYTES (kex_public_key (hc_eph c))),
              sh_nonce := memcpy (sh_nonce sh) 0 (randombytes_buf e 1 WIRE_NONCE_LEN),
              sh_session_id_echo := memcpy (sh_session_id_echo sh) 0
                (take WIRE_SESSION_ID_LEN (hc_session_id c))\<rparr>;
            (rc, chp, consumed) = decode_client_hello (Some (hc_ch_bytes c)) (hc_ch_len c)
              (Some client_hello_zero) (Some 0);
            ch = the chp
        in if rc \<noteq> 0 then (fail_ctx c HANDSHAKE_ERR_INTERNAL, pending, out, out_len)
        else
        let c = c\<lparr>hc_ss_kem := secure_mem_alloc e 2 MLKEM_SHARED_SECRET_BYTES\<rparr>
        in if hc_ss_kem c = NULL
        then (fail_ctx c HANDSHAKE_ERR_RESOURCE_EXHAUSTED, pending, out, out_len)
        else
        let (rc, ct, ss) = mlkem_encaps (liboqs cr) e 3 (Some (sh_mlkem_ct sh)) (hc_ss_kem c)
              (Some (ch_mlkem_ek ch));
            sh = sh\<lparr>sh_mlkem_ct := the ct\<rparr>; c = c\<lparr>hc_ss_kem := ss\<rparr>
        in if rc \<noteq> 0 then (fail_ctx c HANDSHAKE_ERR_KEX, pending, out, out_len)
        else
        let (rc, ub, un) = encode_server_hello_unsigned (Some sh)
              (Some (zeros SERVER_HELLO_UNSIGNED_MAX_ENCODED_LEN))
              SERVER_HELLO_UNSIGNED_MAX_ENCODED_LEN (Some 0);
            sh_unsigned = the ub; unsigned_len = the un
        in if rc \<noteq> 0 then (fail_ctx c HANDSHAKE_ERR_INTERNAL, pending, out, out_len)
        else
        let (rc, th_server_auth) = transcript_hash_server_auth (sodium cr) (Some (hc_ch_bytes c))
              (hc_ch_len c) (Some sh_unsigned) unsigned_len (Some (zeros HANDSHAKE_TRANSCRIPT_HASH_BYTES))
        in if rc \<noteq> 0 then (fail_ctx c HANDSHAKE_ERR_INTERNAL, pending, out, out_len)
        else
        let (rc, sig, sl) = mldsa_sign (liboqs cr) e 4 (Some (sh_sig sh)) (Some 0)
              th_server_auth HANDSHAKE_TRANSCRIPT_HASH_BYTES (hc_local_keypair c);
            sig_len = the sl
        in if rc \<noteq> 0 \<or> sig_len = 0 \<or> sig_len > MLDSA_SIGNATURE_MAX_BYTES
        then (fail_ctx c HANDSHAKE_ERR_INTERNAL, pending, out, out_len)
        else
        let sh = sh\<lparr>sh_sig := the sig, sh_sig_len := of_nat sig_len\<rparr>;
            (rc, fb, fn) = encode_server_hello (Some sh) (Some (zeros SERVER_HELLO_MAX_ENCODED_LEN))
              SERVER_HELLO_MAX_ENCODED_LEN (Some 0);
            sh_full = the fb; full_len = the fn
        in if rc \<noteq> 0 then (fail_ctx c HANDSHAKE_ERR_INTERNAL, pending, out, out_len)
        else if full_len \<le> unsigned_len \<or> take unsigned_len sh_full \<noteq> take unsigned_len sh_unsigned
        then (fail_ctx c HANDSHAKE_ERR_INTERNAL, pending, out, out_len)
        else if out_cap < full_len
        then ((HANDSHAKE_ERR_INVALID_ARG, Some (c\<lparr>
                 hc_eph := the (kex_keypair_free (Some (hc_eph c))), hc_ss_kem := NULL\<rparr>)),
              pending, out, out_len)
        else
        let (rc, th) = transcript_hash_client_auth (sodium cr) (Some (hc_ch_bytes c)) (hc_ch_len c)
              (Some sh_full) full_len (Some (zeros HANDSHAKE_TRANSCRIPT_HASH_BYTES))
        in if rc \<noteq> 0 then (fail_ctx c HANDSHAKE_ERR_INTERNAL, pending, out, out_len)
        else
        let (rc, hid) = transcript_handshake_id (sodium cr) (Some (hc_ch_bytes c)) (hc_ch_len c)
              (Some sh_full) full_len (Some (zeros WIRE_HANDSHAKE_ID_LEN))
        in if rc \<noteq> 0 then (fail_ctx c HANDSHAKE_ERR_INTERNAL, pending, out, out_len)
        else
        let (ps, pending) = handshake_pending_insert pending (clock_ms e 0) (clock_ms e 1) hid th
        in if ps \<noteq> PENDING_OK
        then (fail_ctx c (if ps = PENDING_ERR_FULL then HANDSHAKE_ERR_RESOURCE_EXHAUSTED
                          else HANDSHAKE_ERR_INTERNAL), pending, out, out_len)
        else
          ((HANDSHAKE_OK, Some (c\<lparr>
              hc_handshake_id := memcpy (hc_handshake_id c) 0 (take WIRE_HANDSHAKE_ID_LEN (the hid)),
              hc_ch_bytes := zeros CLIENT_HELLO_MAX_ENCODED_LEN, hc_ch_len := 0,
              hc_state := HANDSHAKE_STATE_SERVER_HELLO_CREATED\<rparr>)),
           pending, Some (memcpy (the out) 0 (take full_len sh_full)), Some full_len))"

definition handshake_responder_verify_client_auth ::
  "crypto \<Rightarrow> env \<Rightarrow> handshake_ctx_t ptr \<Rightarrow> handshake_pending_store_t ptr \<Rightarrow> bytes ptr \<Rightarrow> nat \<Rightarrow>
   (handshake_status_t \<times> handshake_ctx_t ptr) \<times> handshake_pending_store_t ptr" where
  "handshake_responder_verify_client_auth cr e ctx pending ca ca_len =
     (let st = check_call ctx HANDSHAKE_ROLE_RESPONDER HANDSHAKE_STATE_SERVER_HELLO_CREATED in
      if st \<noteq> HANDSHAKE_OK then ((st, ctx), pending)
      else if ca = NULL then ((HANDSHAKE_ERR_INVALID_ARG, ctx), pending)
      else
        let c = the ctx;
            (rc, msgp, consumed) = decode_client_auth ca ca_len (Some client_auth_zero) (Some 0);
            msg = the msgp
        in if rc \<noteq> 0 then ((HANDSHAKE_ERR_MALFORMED, ctx), pending)
        else if take WIRE_HANDSHAKE_ID_LEN (ca_handshake_id msg) \<noteq> take WIRE_HANDSHAKE_ID_LEN (hc_handshake_id c)
        then ((HANDSHAKE_ERR_HANDSHAKE_ID_MISMATCH, ctx), pending)
        else
        let (ps, pending, digest) = handshake_pending_get_digest pending (clock_ms e 0)
              (Some (hc_handshake_id c)) (Some (zeros HANDSHAKE_TRANSCRIPT_HASH_BYTES))
        in if ps \<noteq> PENDING_OK then (fail_ctx c (map_pending_failure ps), pending)
        else if mldsa_verify (liboqs cr) digest HANDSHAKE_TRANSCRIPT_HASH_BYTES
            (Some (ca_sig msg)) (unat (ca_sig_len msg)) (hc_peer_pk c) \<noteq> 0
        then
          let (ps, pending) = handshake_pending_record_failure pending (clock_ms e 1) (Some (hc_handshake_id c))
          in if ps = PENDING_OK then ((HANDSHAKE_ERR_SIGNATURE, ctx), pending)
             else (fail_ctx c (map_pending_failure ps), pending)
        else
        let cancel_and_fail = (\<lambda>result. (fail_ctx c result,
              snd (handshake_pending_cancel pending (clock_ms e 2) (Some (hc_handshake_id c)))))
        in (case secure_mem_alloc e 0 KEX_SHARED_SECRET_BYTES of
           NULL \<Rightarrow> cancel_and_fail HANDSHAKE_ERR_RESOURCE_EXHAUSTED
         | Some shared \<Rightarrow>
           let (rc, shared) = kex_shared_secret (sodium cr) (Some shared) (Some (hc_eph c))
                 (Some (hc_peer_eph_pub c))
           in if rc \<noteq> 0 then cancel_and_fail HANDSHAKE_ERR_KEX
           else if hc_ss_kem c = NULL then cancel_and_fail HANDSHAKE_ERR_INTERNAL
           else
        (case secure_mem_alloc e 1 SESSION_KEYS_LEN of
           NULL \<Rightarrow> cancel_and_fail HANDSHAKE_ERR_RESOURCE_EXHAUSTED
         | Some keys \<Rightarrow>
           let (rc, keys) = derive_traffic_keys (sodium cr) keys (the shared) (the (hc_ss_kem c))
                 (hc_session_id c) (hc_peer_id c) (unat (hc_peer_id_len c))
                 (hc_local_id c) (unat (hc_local_id_len c)) (the digest)
           in if rc \<noteq> 0 then cancel_and_fail HANDSHAKE_ERR_INTERNAL
           else
           let (ps, pending) = handshake_pending_consume_success pending (clock_ms e 3) (Some (hc_handshake_id c))
           in if ps \<noteq> PENDING_OK then (fail_ctx c (map_pending_failure ps), pending)
           else ((HANDSHAKE_OK, Some (c\<lparr>
                    hc_session_keys := Some (memcpy (the (hc_session_keys c)) 0 (take SESSION_KEYS_LEN keys)),
                    hc_keys_committed := True,
                    hc_ss_kem := NULL,
                    hc_state := HANDSHAKE_STATE_CLIENT_AUTH_VERIFIED\<rparr>)), pending))))"

definition handshake_responder_finish :: "handshake_ctx_t ptr \<Rightarrow> handshake_status_t \<times> handshake_ctx_t ptr" where
  "handshake_responder_finish ctx =
     (let st = check_call ctx HANDSHAKE_ROLE_RESPONDER HANDSHAKE_STATE_CLIENT_AUTH_VERIFIED in
      if st \<noteq> HANDSHAKE_OK then (st, ctx)
      else
        let c = the ctx
        in (HANDSHAKE_OK, Some (c\<lparr>
              hc_eph := the (kex_keypair_free (Some (hc_eph c))),
              hc_peer_eph_pub := zeros KEX_PUBLIC_KEY_BYTES,
              hc_state := HANDSHAKE_STATE_ESTABLISHED\<rparr>)))"

section \<open>Keys\<close>

text \<open>The borrowed pointer \<open>session_keys + offset\<close> is the 32 bytes it designates.\<close>

definition key_at :: "handshake_ctx_t ptr \<Rightarrow> nat \<Rightarrow> bytes ptr ptr \<Rightarrow> handshake_status_t \<times> bytes ptr ptr" where
  "key_at ctx offset key_out =
     (if key_out = NULL then (HANDSHAKE_ERR_INVALID_ARG, NULL)
      else
        (case ctx of NULL \<Rightarrow> (HANDSHAKE_ERR_INVALID_ARG, Some NULL)
         | Some c \<Rightarrow>
           if hc_state c \<noteq> HANDSHAKE_STATE_ESTABLISHED \<or> \<not> hc_keys_committed c \<or> hc_session_keys c = NULL
           then (HANDSHAKE_ERR_UNEXPECTED_STATE, Some NULL)
           else (HANDSHAKE_OK, Some (Some (bslice (the (hc_session_keys c)) offset KEX_SESSION_KEY_BYTES)))))"

definition handshake_session_key_c2s :: "handshake_ctx_t ptr \<Rightarrow> bytes ptr ptr \<Rightarrow> handshake_status_t \<times> bytes ptr ptr" where
  "handshake_session_key_c2s ctx key_out = key_at ctx C2S_OFFSET key_out"

definition handshake_session_key_s2c :: "handshake_ctx_t ptr \<Rightarrow> bytes ptr ptr \<Rightarrow> handshake_status_t \<times> bytes ptr ptr" where
  "handshake_session_key_s2c ctx key_out = key_at ctx S2C_OFFSET key_out"

definition handshake_is_peer_confirmed :: "handshake_ctx_t ptr \<Rightarrow> bool" where
  "handshake_is_peer_confirmed ctx \<longleftrightarrow>
     (case ctx of NULL \<Rightarrow> False
      | Some c \<Rightarrow> hc_role c = HANDSHAKE_ROLE_RESPONDER \<and> hc_state c = HANDSHAKE_STATE_ESTABLISHED \<and>
          hc_keys_committed c)"

section \<open>What the outside promises\<close>

text \<open>
  The documented sizes: allocations and random buffers have the length asked for, and the outputs
  of libsodium and liboqs have their published lengths. Nothing here is about secrecy.
\<close>

definition env_ok :: "env \<Rightarrow> bool" where
  "env_ok e \<longleftrightarrow> (\<forall>k n b. sodium_malloc e k n = Some b \<longrightarrow> length b = n) \<and>
     (\<forall>k n. length (randombytes_buf e k n) = n)"

definition crypto_sizes :: "crypto \<Rightarrow> bool" where
  "crypto_sizes cr \<longleftrightarrow> sha256_digest_len (sodium cr) \<and>
     (\<forall>sk. length (snd (crypto_scalarmult_base (sodium cr) sk)) = 32) \<and>
     (\<forall>sk pk. length (snd (crypto_scalarmult (sodium cr) sk pk)) = 32) \<and>
     (\<forall>n info prk. length (snd (hkdf_sha256_expand (sodium cr) n info prk)) = n) \<and>
     (\<forall>coins m sk. length (snd (OQS_SIG_sign (liboqs cr) coins m sk)) \<le> 3309) \<and>
     (\<forall>coins. length (fst (snd (OQS_KEM_keypair (liboqs cr) coins))) = 1184) \<and>
     (\<forall>coins ek. length (fst (snd (OQS_KEM_encaps (liboqs cr) coins ek))) = 1088 \<and>
        length (snd (snd (OQS_KEM_encaps (liboqs cr) coins ek))) = 32) \<and>
     (\<forall>ct dk. length (snd (OQS_KEM_decaps (liboqs cr) ct dk)) = 32)"

section \<open>The context invariant\<close>

definition ctx_struct :: "handshake_ctx_t \<Rightarrow> bool" where
  "ctx_struct c \<longleftrightarrow>
     length (hc_local_id c) = WIRE_ID_MAX_LEN \<and> unat (hc_local_id_len c) \<le> WIRE_ID_MAX_LEN \<and>
     length (hc_peer_id c) = WIRE_ID_MAX_LEN \<and> unat (hc_peer_id_len c) \<le> WIRE_ID_MAX_LEN \<and>
     length (hc_session_id c) = WIRE_SESSION_ID_LEN \<and>
     length (hc_ch_bytes c) = CLIENT_HELLO_MAX_ENCODED_LEN \<and> hc_ch_len c \<le> CLIENT_HELLO_MAX_ENCODED_LEN \<and>
     length (hc_peer_eph_pub c) = KEX_PUBLIC_KEY_BYTES \<and>
     length (hc_handshake_id c) = WIRE_HANDSHAKE_ID_LEN \<and>
     length (hc_th_client_auth c) = HANDSHAKE_TRANSCRIPT_HASH_BYTES \<and>
     length (hc_peer_mlkem_ct c) = WIRE_MLKEM_CT_LEN \<and>
     (case hc_session_keys c of NULL \<Rightarrow> True | Some k \<Rightarrow> length k = SESSION_KEYS_LEN)"

definition no_ephemeral_secret :: "handshake_ctx_t \<Rightarrow> bool" where
  "no_ephemeral_secret c \<longleftrightarrow> kex_private_key (hc_eph c) = NULL \<and> mlkem_secret_key (hc_kem c) = NULL \<and>
     hc_ss_kem c = NULL"

definition no_traffic_key :: "handshake_ctx_t \<Rightarrow> bool" where
  "no_traffic_key c \<longleftrightarrow> \<not> hc_keys_committed c \<and>
     (hc_session_keys c = NULL \<or> hc_session_keys c = Some (zeros SESSION_KEYS_LEN))"

definition initiator_states :: "handshake_state_t set" where
  "initiator_states = {HANDSHAKE_STATE_CLIENT_HELLO_CREATED, HANDSHAKE_STATE_SERVER_HELLO_VERIFIED,
     HANDSHAKE_STATE_CLIENT_AUTH_CREATED}"

definition responder_states :: "handshake_state_t set" where
  "responder_states = {HANDSHAKE_STATE_CLIENT_HELLO_ACCEPTED, HANDSHAKE_STATE_SERVER_HELLO_CREATED,
     HANDSHAKE_STATE_CLIENT_AUTH_VERIFIED}"

definition ctx_phase :: "handshake_ctx_t \<Rightarrow> bool" where
  "ctx_phase c \<longleftrightarrow>
     (hc_state c \<in> initiator_states \<longrightarrow> hc_role c = HANDSHAKE_ROLE_INITIATOR) \<and>
     (hc_state c \<in> responder_states \<longrightarrow> hc_role c = HANDSHAKE_ROLE_RESPONDER) \<and>
     (hc_role c = HANDSHAKE_ROLE_INITIATOR \<longrightarrow> hc_ss_kem c = NULL) \<and>
     (hc_role c = HANDSHAKE_ROLE_RESPONDER \<longrightarrow> mlkem_secret_key (hc_kem c) = NULL) \<and>
     (hc_state c \<in> {HANDSHAKE_STATE_CLIENT_AUTH_VERIFIED, HANDSHAKE_STATE_ESTABLISHED} \<longrightarrow>
        hc_keys_committed c \<and> hc_session_keys c \<noteq> NULL \<and> hc_ss_kem c = NULL) \<and>
     (hc_state c \<notin> {HANDSHAKE_STATE_CLIENT_AUTH_VERIFIED, HANDSHAKE_STATE_ESTABLISHED} \<longrightarrow> no_traffic_key c) \<and>
     (hc_state c \<in> {HANDSHAKE_STATE_ESTABLISHED, HANDSHAKE_STATE_FAILED} \<longrightarrow> no_ephemeral_secret c) \<and>
     (hc_state c \<noteq> HANDSHAKE_STATE_FAILED \<longrightarrow> hc_session_keys c \<noteq> NULL)"

definition handshake_inv :: "handshake_ctx_t \<Rightarrow> bool" where
  "handshake_inv c \<longleftrightarrow> ctx_struct c \<and> ctx_phase c"

lemmas ctx_phase_defs = ctx_phase_def no_ephemeral_secret_def no_traffic_key_def initiator_states_def
  responder_states_def
lemmas handshake_inv_defs = handshake_inv_def ctx_struct_def ctx_phase_defs

lemma keypair_zero_secret [simp]: "kex_private_key kex_keypair_zero = NULL"
  "mlkem_secret_key mlkem_keypair_zero = NULL"
  by (simp_all add: kex_keypair_zero_def mlkem_keypair_zero_def)

lemma ctx_zero_inv: "handshake_inv (handshake_ctx_zero\<lparr>hc_state := HANDSHAKE_STATE_FAILED\<rparr>)"
  by (simp add: handshake_inv_defs handshake_ctx_zero_def kex_keypair_zero_def mlkem_keypair_zero_def)

text \<open>Failing a context needs only that its arrays have their sizes.\<close>

lemma wipe_failed_inv: "ctx_struct c \<Longrightarrow> handshake_inv (wipe_failed c)"
  by (auto simp: handshake_inv_defs wipe_failed_def secure_mem_wipe_def memcpy_whole split: option.splits)

lemma wipe_failed_state [simp]: "hc_state (wipe_failed c) = HANDSHAKE_STATE_FAILED"
  "hc_role (wipe_failed c) = hc_role c"
  by (simp_all add: wipe_failed_def)

subsection \<open>Each call keeps the invariant\<close>

lemma check_call_OK [simp]:
  "check_call ctx r st = HANDSHAKE_OK \<longleftrightarrow> (\<exists>c. ctx = Some c \<and> hc_role c = r \<and> hc_state c = st)"
  by (cases ctx) (auto simp: check_call_def)

lemma inv_struct: "handshake_inv c \<Longrightarrow> ctx_struct c"
  by (simp add: handshake_inv_def)

text \<open>
  What a call may do to a context, whatever the environment answers. Success is possible only in
  the one role and state the call is for and leads to its one target state; misuse keeps the state;
  every other error leaves the context as it was or failed.
\<close>

definition outcome ::
  "handshake_role_t \<Rightarrow> handshake_state_t \<Rightarrow> handshake_state_t \<Rightarrow> handshake_ctx_t \<Rightarrow> handshake_status_t \<Rightarrow>
   handshake_ctx_t ptr \<Rightarrow> bool" where
  "outcome role from to c st ctx' \<longleftrightarrow>
     (\<exists>c'. ctx' = Some c' \<and> handshake_inv c' \<and> hc_role c' = hc_role c \<and>
       (if st = HANDSHAKE_OK then hc_role c = role \<and> hc_state c = from \<and> hc_state c' = to
        else if st = HANDSHAKE_ERR_INVALID_ARG \<or> st = HANDSHAKE_ERR_UNEXPECTED_STATE
        then hc_state c' = hc_state c
        else c' = c \<or> hc_state c' = HANDSHAKE_STATE_FAILED))"

lemma outcome_same: "handshake_inv c \<Longrightarrow> st \<noteq> HANDSHAKE_OK \<Longrightarrow> outcome role from to c st (Some c)"
  by (simp add: outcome_def)

lemma outcome_fail:
  "ctx_struct c0 \<Longrightarrow> hc_role c0 = hc_role c \<Longrightarrow>
   st \<notin> {HANDSHAKE_OK, HANDSHAKE_ERR_INVALID_ARG, HANDSHAKE_ERR_UNEXPECTED_STATE} \<Longrightarrow>
   outcome role from to c st (Some (wipe_failed c0))"
  by (simp add: outcome_def wipe_failed_inv)

lemma check_call_refuses:
  "check_call (Some c) role from \<noteq> HANDSHAKE_OK \<Longrightarrow>
   check_call (Some c) role from = HANDSHAKE_ERR_UNEXPECTED_STATE"
  by (auto simp: check_call_def)

lemma outcome_ok:
  "ctx_struct c' \<Longrightarrow> ctx_phase c' \<Longrightarrow> hc_role c' = hc_role c \<Longrightarrow> hc_role c = role \<Longrightarrow> hc_state c = from \<Longrightarrow>
   hc_state c' = to \<Longrightarrow> outcome role from to c HANDSHAKE_OK (Some c')"
  by (simp add: outcome_def handshake_inv_def)

lemma outcome_misuse:
  "ctx_struct c' \<Longrightarrow> ctx_phase c' \<Longrightarrow> hc_role c' = hc_role c \<Longrightarrow> hc_state c' = hc_state c \<Longrightarrow>
   outcome role from to c HANDSHAKE_ERR_INVALID_ARG (Some c')"
  by (simp add: outcome_def handshake_inv_def)

lemmas outcome_intros = outcome_ok outcome_misuse outcome_same outcome_fail

text \<open>The same for the pair a call returns.\<close>

definition outcome_of ::
  "handshake_role_t \<Rightarrow> handshake_state_t \<Rightarrow> handshake_state_t \<Rightarrow> handshake_ctx_t \<Rightarrow>
   handshake_status_t \<times> handshake_ctx_t ptr \<Rightarrow> bool" where
  "outcome_of role from to c r \<longleftrightarrow> outcome role from to c (fst r) (snd r)"

lemma outcome_of_fail:
  "ctx_struct c0 \<Longrightarrow> hc_role c0 = hc_role c \<Longrightarrow>
   st \<notin> {HANDSHAKE_OK, HANDSHAKE_ERR_INVALID_ARG, HANDSHAKE_ERR_UNEXPECTED_STATE} \<Longrightarrow>
   outcome_of role from to c (fail_ctx c0 st)"
  by (simp add: outcome_of_def fail_ctx_def outcome_fail)

lemma outcome_of_pair: "outcome role from to c st ctx' \<Longrightarrow> outcome_of role from to c (st, ctx')"
  by (simp add: outcome_of_def)

lemma outcome_of_refused:
  "handshake_inv c \<Longrightarrow> check_call (Some c) role from \<noteq> HANDSHAKE_OK \<Longrightarrow>
   outcome_of role from to c (check_call (Some c) role from, Some c)"
  by (simp add: outcome_of_def outcome_same del: check_call_OK)

lemma struct_update [simp]:
  "ctx_struct (c\<lparr>hc_eph := x\<rparr>) = ctx_struct c" "ctx_struct (c\<lparr>hc_kem := y\<rparr>) = ctx_struct c"
  "ctx_struct (c\<lparr>hc_peer_pk := z\<rparr>) = ctx_struct c" "ctx_struct (c\<lparr>hc_ss_kem := w\<rparr>) = ctx_struct c"
  "ctx_struct (c\<lparr>hc_state := st\<rparr>) = ctx_struct c" "ctx_struct (c\<lparr>hc_keys_committed := kc\<rparr>) = ctx_struct c"
  by (simp_all add: ctx_struct_def)

lemma struct_update_array [simp]:
  "ctx_struct c \<Longrightarrow> length b = 1330 \<Longrightarrow> ctx_struct (c\<lparr>hc_ch_bytes := b\<rparr>)"
  "ctx_struct c \<Longrightarrow> n \<le> 1330 \<Longrightarrow> ctx_struct (c\<lparr>hc_ch_len := n\<rparr>)"
  "ctx_struct c \<Longrightarrow> length b = 16 \<Longrightarrow> ctx_struct (c\<lparr>hc_session_id := b\<rparr>)"
  "ctx_struct c \<Longrightarrow> length b = 64 \<Longrightarrow> ctx_struct (c\<lparr>hc_peer_id := b\<rparr>)"
  "ctx_struct c \<Longrightarrow> unat l \<le> 64 \<Longrightarrow> ctx_struct (c\<lparr>hc_peer_id_len := l\<rparr>)"
  "ctx_struct c \<Longrightarrow> length b = 32 \<Longrightarrow> ctx_struct (c\<lparr>hc_peer_eph_pub := b\<rparr>)"
  "ctx_struct c \<Longrightarrow> length b = 16 \<Longrightarrow> ctx_struct (c\<lparr>hc_handshake_id := b\<rparr>)"
  "ctx_struct c \<Longrightarrow> length b = 32 \<Longrightarrow> ctx_struct (c\<lparr>hc_th_client_auth := b\<rparr>)"
  "ctx_struct c \<Longrightarrow> length b = 1088 \<Longrightarrow> ctx_struct (c\<lparr>hc_peer_mlkem_ct := b\<rparr>)"
  "ctx_struct c \<Longrightarrow> length b = 64 \<Longrightarrow> ctx_struct (c\<lparr>hc_session_keys := Some b\<rparr>)"
  by (simp_all add: ctx_struct_def)

lemma ctx_struct_lens:
  assumes "ctx_struct c"
  shows "length (hc_local_id c) = 64" "unat (hc_local_id_len c) \<le> 64" "length (hc_peer_id c) = 64"
    "unat (hc_peer_id_len c) \<le> 64" "length (hc_session_id c) = 16" "length (hc_ch_bytes c) = 1330"
    "hc_ch_len c \<le> 1330" "length (hc_peer_eph_pub c) = 32" "length (hc_handshake_id c) = 16"
    "length (hc_th_client_auth c) = 32" "length (hc_peer_mlkem_ct c) = 1088"
    "hc_session_keys c = Some k \<Longrightarrow> length k = 64"
  using assms by (simp_all add: ctx_struct_def)

lemma kex_keypair_generate_shape:
  assumes "crypto_sizes cr"
  shows "\<exists>rc kp. kex_keypair_generate (sodium cr) e k (Some x) = (rc, Some kp) \<and>
    length (kex_public_key kp) = 32 \<and> (rc \<noteq> 0 \<longrightarrow> kp = kex_keypair_zero)"
  using assms by (auto simp: kex_keypair_generate_def kex_keypair_zero_def crypto_sizes_def split_beta Let_def
      split: option.splits)

lemma mlkem_keypair_generate_shape:
  assumes "crypto_sizes cr"
  shows "\<exists>rc kp. mlkem_keypair_generate (liboqs cr) e k (Some x) = (rc, Some kp) \<and>
    length (mlkem_public_key kp) = 1184 \<and> (rc \<noteq> 0 \<longrightarrow> kp = mlkem_keypair_zero)"
  using assms by (auto simp: mlkem_keypair_generate_def mlkem_keypair_zero_def crypto_sizes_def split_beta Let_def
      split: option.splits)

lemma client_hello_zero_lens [simp]:
  "length (ch_id client_hello_zero) = 64" "length (ch_ephemeral_pub client_hello_zero) = 32"
  "length (ch_mlkem_ek client_hello_zero) = 1184" "length (ch_session_id client_hello_zero) = 16"
  "length (ch_nonce client_hello_zero) = 32"
  by (simp_all add: client_hello_zero_def)

lemma client_hello_encoded_len_max: "id_len_ok l \<Longrightarrow> client_hello_encoded_len l \<le> 1330"
  by (simp add: client_hello_encoded_len_def id_len_ok_def)

lemma create_client_hello_outcome:
  assumes inv: "handshake_inv c" and "env_ok e" "crypto_sizes cr"
    and call: "handshake_initiator_create_client_hello cr e (Some c) (Some out) cap (Some n) = ((st, ctx'), out', n')"
  shows "outcome HANDSHAKE_ROLE_INITIATOR HANDSHAKE_STATE_NEW HANDSHAKE_STATE_CLIENT_HELLO_CREATED c st ctx'"
proof (cases "check_call (Some c) HANDSHAKE_ROLE_INITIATOR HANDSHAKE_STATE_NEW = HANDSHAKE_OK")
  case False
  then have "ctx' = Some c" "st = HANDSHAKE_ERR_UNEXPECTED_STATE"
    using call check_call_refuses [OF False]
    by (simp_all add: handshake_initiator_create_client_hello_def del: check_call_OK)
  with inv show ?thesis by (simp add: outcome_same)
next
  case True
  then have c: "hc_role c = HANDSHAKE_ROLE_INITIATOR" "hc_state c = HANDSHAKE_STATE_NEW" by auto
  obtain rc1 kp where k1: "kex_keypair_generate (sodium cr) e 0 (Some (hc_eph c)) = (rc1, Some kp)"
    "length (kex_public_key kp) = 32"
    using kex_keypair_generate_shape [OF assms(3)] by blast
  obtain rc2 kem where k2: "mlkem_keypair_generate (liboqs cr) e 1 (Some (hc_kem c)) = (rc2, Some kem)"
    "length (mlkem_public_key kem) = 1184"
    using mlkem_keypair_generate_shape [OF assms(3)] by blast
  note st = inv_struct [OF inv] and lens = ctx_struct_lens [OF inv_struct [OF inv]]
  have phase: "ctx_phase c" using inv by (simp add: handshake_inv_def)
  have rnd: "length (randombytes_buf e k m) = m" for k m using assms(2) by (simp add: env_ok_def)
  define ch where "ch = client_hello_zero\<lparr>
      ch_id := memcpy (ch_id client_hello_zero) 0 (take (unat (hc_local_id_len c)) (hc_local_id c)),
      ch_id_len := hc_local_id_len c,
      ch_ephemeral_pub := memcpy (ch_ephemeral_pub client_hello_zero) 0 (take 32 (kex_public_key kp)),
      ch_mlkem_ek := memcpy (ch_mlkem_ek client_hello_zero) 0 (take 1184 (mlkem_public_key kem)),
      ch_session_id := memcpy (ch_session_id client_hello_zero) 0 (randombytes_buf e 2 16),
      ch_nonce := memcpy (ch_nonce client_hello_zero) 0 (randombytes_buf e 3 32)\<rparr>"
  have ch: "client_hello_struct ch" "ch_id_len ch = hc_local_id_len c"
    using lens k1 k2 rnd by (simp_all add: ch_def client_hello_struct_def)
  have len: "id_len_ok (hc_local_id_len c) \<Longrightarrow>
      length (client_hello_bytes ch) = client_hello_encoded_len (hc_local_id_len c)"
    using length_client_hello_bytes [of ch] ch by simp
  show ?thesis
    using call True c k1(1) k2(1) lens ch len client_hello_encoded_len_max [of "hc_local_id_len c"] st phase
    unfolding handshake_initiator_create_client_hello_def Let_def
    by (auto simp: encode_client_hello_eq fail_ctx_def ctx_phase_defs simp flip: ch_def
        split: if_splits intro!: outcome_intros)
qed

lemma server_hello_of_lens:
  assumes "server_hello_of b = Some m"
  shows "length (sh_ephemeral_pub m) = 32" "length (sh_mlkem_ct m) = 1088" "length (sh_session_id_echo m) = 16"
    "length (sh_id m) = 64" "id_len_ok (sh_id_len m)"
  using sh.enc_dec [OF assms] by (simp_all add: wf_defs struct_defs)

lemma client_hello_of_lens:
  assumes "client_hello_of b = Some m"
  shows "length (ch_ephemeral_pub m) = 32" "length (ch_mlkem_ek m) = 1184" "length (ch_session_id m) = 16"
    "length (ch_id m) = 64" "id_len_ok (ch_id_len m)" "length b \<le> 1330"
  using ch.enc_dec [OF assms] client_hello_encoded_len_max [of "ch_id_len m"]
  by (auto simp: wf_defs struct_defs wire_len)

lemma verify_server_hello_outcome:
  assumes inv: "handshake_inv c" and "crypto_sizes cr"
  shows "outcome_of HANDSHAKE_ROLE_INITIATOR HANDSHAKE_STATE_CLIENT_HELLO_CREATED
    HANDSHAKE_STATE_SERVER_HELLO_VERIFIED c
    (handshake_initiator_verify_server_hello cr e (Some c) (Some b) (length b))"
proof (cases "check_call (Some c) HANDSHAKE_ROLE_INITIATOR HANDSHAKE_STATE_CLIENT_HELLO_CREATED = HANDSHAKE_OK")
  case False
  with inv show ?thesis
    by (simp add: handshake_initiator_verify_server_hello_def outcome_of_refused del: check_call_OK)
next
  case True
  then have c: "hc_role c = HANDSHAKE_ROLE_INITIATOR" "hc_state c = HANDSHAKE_STATE_CLIENT_HELLO_CREATED" by auto
  note st = inv_struct [OF inv] and lens = ctx_struct_lens [OF inv_struct [OF inv]]
  have phase: "ctx_phase c" using inv by (simp add: handshake_inv_def)
  have sha: "sha256_digest_len (sodium cr)" using assms(2) by (simp add: crypto_sizes_def)
  show ?thesis
  proof (cases "server_hello_of b")
    case None
    with c st show ?thesis
      by (simp add: handshake_initiator_verify_server_hello_def decode_server_hello_eq Let_def outcome_of_fail)
  next
    case (Some m)
    note ml = server_hello_of_lens [OF Some]
    show ?thesis
      unfolding handshake_initiator_verify_server_hello_def Let_def
      using c st phase lens ml sha Some
      by (intro alongD [where Q = "outcome_of _ _ _ _"] along_intros)
        (auto simp: along_def decode_server_hello_eq transcript_hash_server_auth_eq ctx_phase_defs
          transcript_hash_client_auth_eq transcript_handshake_id_eq
          split: if_splits intro!: outcome_of_pair outcome_of_fail outcome_intros)
  qed
qed

lemma create_client_auth_outcome:
  assumes inv: "handshake_inv c"
  shows "outcome_of HANDSHAKE_ROLE_INITIATOR HANDSHAKE_STATE_SERVER_HELLO_VERIFIED
    HANDSHAKE_STATE_CLIENT_AUTH_CREATED c
    (fst (handshake_initiator_create_client_auth cr e (Some c) (Some out) cap (Some n)))"
proof (cases "check_call (Some c) HANDSHAKE_ROLE_INITIATOR HANDSHAKE_STATE_SERVER_HELLO_VERIFIED = HANDSHAKE_OK")
  case False
  with inv show ?thesis
    by (simp add: handshake_initiator_create_client_auth_def outcome_of_refused del: check_call_OK)
next
  case True
  then have c: "hc_role c = HANDSHAKE_ROLE_INITIATOR" "hc_state c = HANDSHAKE_STATE_SERVER_HELLO_VERIFIED" by auto
  show ?thesis
    unfolding handshake_initiator_create_client_auth_def Let_def if_distrib [of fst] prod.case_distrib [of fst] fst_conv
    using c inv_struct [OF inv] inv
    by (intro alongD [where Q = "outcome_of _ _ _ _"] along_intros)
      (auto simp: along_def handshake_inv_def ctx_phase_defs split: if_splits intro!: outcome_of_pair outcome_of_fail outcome_intros)
qed

lemma kex_derive_length:
  assumes "crypto_sizes cr" "length k = 32"
  shows "\<exists>rc k1. kex_derive_session_key_v2 (sodium cr) (Some k) ss_x ss_k sid sl a al b bl th d = (rc, Some k1) \<and>
    length k1 = 32"
  using assms
  by (auto simp: kex_derive_session_key_v2_def kex_hkdf_sha256_def crypto_sizes_def Let_def split_beta memcpy_whole)

lemma derive_traffic_keys_length:
  assumes "crypto_sizes cr" "length out = 64"
  shows "length (snd (derive_traffic_keys (sodium cr) out ss_x ss_k sid a al b bl th)) = 64"
proof -
  obtain rc k1 where k1: "kex_derive_session_key_v2 (sodium cr) (Some (bslice out 0 32)) (Some ss_x) (Some ss_k)
      (Some sid) 16 (Some a) al (Some b) bl (Some th) 0x43 = (rc, Some k1)" "length k1 = 32"
    using kex_derive_length [OF assms(1), of "bslice out 0 32"] assms(2) by fastforce
  obtain rc' k2 where k2: "kex_derive_session_key_v2 (sodium cr) (Some (bslice (memcpy out 0 k1) 32 32)) (Some ss_x)
      (Some ss_k) (Some sid) 16 (Some a) al (Some b) bl (Some th) 0x53 = (rc', Some k2)" "length k2 = 32"
    using kex_derive_length [OF assms(1), of "bslice (memcpy out 0 k1) 32 32"] assms(2) k1(2) by fastforce
  show ?thesis using assms(2) k1 k2 by (simp add: derive_traffic_keys_def Let_def)
qed

lemma initiator_finish_outcome:
  assumes inv: "handshake_inv c" and "env_ok e" "crypto_sizes cr"
  shows "outcome_of HANDSHAKE_ROLE_INITIATOR HANDSHAKE_STATE_CLIENT_AUTH_CREATED HANDSHAKE_STATE_ESTABLISHED c
    (handshake_initiator_finish cr e (Some c))"
proof (cases "check_call (Some c) HANDSHAKE_ROLE_INITIATOR HANDSHAKE_STATE_CLIENT_AUTH_CREATED = HANDSHAKE_OK")
  case False
  with inv show ?thesis
    by (simp add: handshake_initiator_finish_def outcome_of_refused del: check_call_OK)
next
  case True
  then have c: "hc_role c = HANDSHAKE_ROLE_INITIATOR" "hc_state c = HANDSHAKE_STATE_CLIENT_AUTH_CREATED" by auto
  have phase: "ctx_phase c" using inv by (simp add: handshake_inv_def)
  then obtain sk where sk: "hc_session_keys c = Some sk" using c by (auto simp: ctx_phase_defs)
  note lens = ctx_struct_lens [OF inv_struct [OF inv]]
  have keys: "length keys' = 64"
    if "secure_mem_alloc e 2 64 = Some keys" "derive_traffic_keys (sodium cr) keys ss_x ss_k sid a al b bl th = (rc, keys')"
    for keys ss_x ss_k sid a al b bl th rc keys'
    using that assms(2) derive_traffic_keys_length [OF assms(3), of keys ss_x ss_k sid a al b bl th]
    by (simp add: secure_mem_alloc_def env_ok_def split: if_splits)
  show ?thesis
    unfolding handshake_initiator_finish_def Let_def
    using c inv_struct [OF inv] phase sk lens keys
    by (intro alongD [where Q = "outcome_of _ _ _ _"] along_intros)
      (auto simp: along_def ctx_phase_defs split: if_splits intro!: outcome_of_pair outcome_of_fail outcome_intros)
qed

lemma accept_client_hello_outcome:
  assumes inv: "handshake_inv c"
  shows "outcome_of HANDSHAKE_ROLE_RESPONDER HANDSHAKE_STATE_NEW HANDSHAKE_STATE_CLIENT_HELLO_ACCEPTED c
    (handshake_responder_accept_client_hello (Some c) (Some b) (length b))"
proof (cases "check_call (Some c) HANDSHAKE_ROLE_RESPONDER HANDSHAKE_STATE_NEW = HANDSHAKE_OK")
  case False
  with inv show ?thesis
    by (simp add: handshake_responder_accept_client_hello_def outcome_of_refused del: check_call_OK)
next
  case True
  then have c: "hc_role c = HANDSHAKE_ROLE_RESPONDER" "hc_state c = HANDSHAKE_STATE_NEW" by auto
  note st = inv_struct [OF inv] and lens = ctx_struct_lens [OF inv_struct [OF inv]]
  have phase: "ctx_phase c" using inv by (simp add: handshake_inv_def)
  show ?thesis
  proof (cases "client_hello_of b")
    case None
    with c st show ?thesis
      by (simp add: handshake_responder_accept_client_hello_def decode_client_hello_eq Let_def outcome_of_fail)
  next
    case (Some m)
    note ml = client_hello_of_lens [OF Some]
    show ?thesis
      unfolding handshake_responder_accept_client_hello_def Let_def
      using c st phase lens ml Some
      by (intro alongD [where Q = "outcome_of _ _ _ _"] along_intros)
        (auto simp: along_def decode_client_hello_eq ctx_phase_defs id_len_ok_def
          split: if_splits intro!: outcome_of_pair outcome_of_fail outcome_intros)
  qed
qed

lemma responder_finish_outcome:
  assumes inv: "handshake_inv c"
  shows "outcome_of HANDSHAKE_ROLE_RESPONDER HANDSHAKE_STATE_CLIENT_AUTH_VERIFIED HANDSHAKE_STATE_ESTABLISHED c
    (handshake_responder_finish (Some c))"
proof (cases "check_call (Some c) HANDSHAKE_ROLE_RESPONDER HANDSHAKE_STATE_CLIENT_AUTH_VERIFIED = HANDSHAKE_OK")
  case False
  with inv show ?thesis
    by (simp add: handshake_responder_finish_def outcome_of_refused del: check_call_OK)
next
  case True
  with inv inv_struct [OF inv] show ?thesis
    unfolding handshake_responder_finish_def Let_def
    by (auto simp: handshake_inv_def ctx_phase_defs intro!: outcome_of_pair outcome_of_fail outcome_intros)
qed


definition some_pending :: "handshake_pending_store_t ptr \<Rightarrow> bool" where
  "some_pending p \<longleftrightarrow> (\<exists>s. p = Some s \<and> pending_inv s)"

lemma some_pending_Some [simp]: "some_pending (Some s) = pending_inv s"
  by (simp add: some_pending_def)

lemma insert_some_pending:
  assumes "handshake_pending_insert (Some s) t1 t2 (Some hid) (Some th) = (ps, p)"
    and "pending_inv s" "length hid = 16" "length th = 32"
  shows "some_pending p"
  using insert_refines [OF assms(2-4), of t1 t2] assms(1) by auto

lemma get_digest_some_pending:
  assumes "handshake_pending_get_digest (Some s) t (Some hid) (Some (zeros 32)) = (ps, p, d)"
    and "pending_inv s" "length hid = 16"
  shows "some_pending p"
  using get_digest_refines [OF assms(2,3), of "zeros 32" t] assms(1) by auto

lemma ledger_some_pending:
  assumes "some_pending q" "length hid = 16"
  shows "some_pending (snd (handshake_pending_record_failure q t (Some hid)))"
    "some_pending (snd (handshake_pending_consume_success q t (Some hid)))"
    "some_pending (snd (handshake_pending_cancel q t (Some hid)))"
proof -
  obtain s where s: "q = Some s" "pending_inv s" using assms(1) by (auto simp: some_pending_def)
  with record_failure_refines [OF s(2) assms(2), of t] consume_refines [OF s(2) assms(2), of t]
    cancel_refines [OF s(2) assms(2), of t]
  show "some_pending (snd (handshake_pending_record_failure q t (Some hid)))"
    "some_pending (snd (handshake_pending_consume_success q t (Some hid)))"
    "some_pending (snd (handshake_pending_cancel q t (Some hid)))" by auto
qed

lemma insert_hashes_some_pending:
  assumes "handshake_pending_insert (Some s) t1 t2 hid th = (ps, p)"
    and "transcript_hash_client_auth so (Some a) la (Some b) lb (Some (zeros 32)) = (r1, th)" "\<not> r1 \<noteq> 0"
    and "transcript_handshake_id so (Some a) la (Some b) lb (Some (zeros 16)) = (r2, hid)" "\<not> r2 \<noteq> 0"
    and "sha256_digest_len so" "pending_inv s"
  shows "some_pending p"
  using assms by (auto simp: transcript_hash_client_auth_eq transcript_handshake_id_eq
      split: if_splits dest: insert_some_pending)

definition paired_outcome ::
  "handshake_state_t \<Rightarrow> handshake_state_t \<Rightarrow> handshake_ctx_t \<Rightarrow>
   (handshake_status_t \<times> handshake_ctx_t ptr) \<times> handshake_pending_store_t ptr \<Rightarrow> bool" where
  "paired_outcome from to c r \<longleftrightarrow>
     outcome_of HANDSHAKE_ROLE_RESPONDER from to c (fst r) \<and> some_pending (snd r)"

lemma paired_fail:
  "ctx_struct c0 \<Longrightarrow> hc_role c0 = hc_role c \<Longrightarrow>
   st \<notin> {HANDSHAKE_OK, HANDSHAKE_ERR_INVALID_ARG, HANDSHAKE_ERR_UNEXPECTED_STATE} \<Longrightarrow> some_pending p \<Longrightarrow>
   along (\<lambda>(r, p, _). paired_outcome from to c (r, p)) (fail_ctx c0 st, p, x)"
  by (simp add: along_def paired_outcome_def outcome_of_fail)

lemma paired_pair:
  "outcome HANDSHAKE_ROLE_RESPONDER from to c st ctx' \<Longrightarrow> some_pending p \<Longrightarrow>
   along (\<lambda>(r, p, _). paired_outcome from to c (r, p)) ((st, ctx'), p, x)"
  by (simp add: along_def paired_outcome_def outcome_of_def)

lemma create_server_hello_outcome:
  assumes inv: "handshake_inv c" and "crypto_sizes cr" "pending_inv ps"
  shows "along (\<lambda>(r, p, _). paired_outcome HANDSHAKE_STATE_CLIENT_HELLO_ACCEPTED
      HANDSHAKE_STATE_SERVER_HELLO_CREATED c (r, p))
    (handshake_responder_create_server_hello cr e (Some c) (Some ps) (Some out) cap (Some n))"
proof (cases "check_call (Some c) HANDSHAKE_ROLE_RESPONDER HANDSHAKE_STATE_CLIENT_HELLO_ACCEPTED = HANDSHAKE_OK")
  case False
  with inv assms(3) show ?thesis
    by (simp add: handshake_responder_create_server_hello_def paired_outcome_def outcome_of_refused along_def
        del: check_call_OK)
next
  case True
  then have c: "hc_role c = HANDSHAKE_ROLE_RESPONDER" "hc_state c = HANDSHAKE_STATE_CLIENT_HELLO_ACCEPTED" by auto
  note st = inv_struct [OF inv] and lens = ctx_struct_lens [OF inv_struct [OF inv]]
  have phase: "ctx_phase c" using inv by (simp add: handshake_inv_def)
  then have ph: "\<not> hc_keys_committed c" "hc_session_keys c = Some (zeros 64)" "mlkem_secret_key (hc_kem c) = NULL"
    using c by (auto simp: ctx_phase_defs)
  have sha: "sha256_digest_len (sodium cr)" using assms(2) by (simp add: crypto_sizes_def)
  show ?thesis
    unfolding handshake_responder_create_server_hello_def Let_def
    apply (intro along_intros paired_fail paired_pair)
    apply (simp_all (no_asm) add: c st assms(3))
    subgoal by (rule outcome_same [OF inv])
    subgoal by (rule outcome_same [OF inv]) simp
    subgoal by (intro outcome_misuse) (simp_all (no_asm) add: ctx_phase_defs ph c st)
    subgoal by (rule insert_hashes_some_pending [OF _ _ _ _ _ sha assms(3)])
    subgoal by (intro outcome_ok) (simp_all (no_asm) add: ctx_phase_defs ph c st lens)
    subgoal by (rule insert_hashes_some_pending [OF _ _ _ _ _ sha assms(3)])
    done
qed

lemma ledger_some_pendingD:
  "handshake_pending_record_failure q t (Some hid) = (ps, p) \<Longrightarrow> some_pending q \<Longrightarrow> length hid = 16 \<Longrightarrow> some_pending p"
  "handshake_pending_consume_success q t (Some hid) = (ps, p) \<Longrightarrow> some_pending q \<Longrightarrow> length hid = 16 \<Longrightarrow> some_pending p"
  using ledger_some_pending(1,2) [of q hid t] by simp_all

lemma paired_pair2:
  "outcome HANDSHAKE_ROLE_RESPONDER from to c st ctx' \<Longrightarrow> some_pending p \<Longrightarrow>
   along (paired_outcome from to c) ((st, ctx'), p)"
  by (simp add: along_def paired_outcome_def outcome_of_def)

lemma paired_fail2:
  "ctx_struct c0 \<Longrightarrow> hc_role c0 = hc_role c \<Longrightarrow>
   st \<notin> {HANDSHAKE_OK, HANDSHAKE_ERR_INVALID_ARG, HANDSHAKE_ERR_UNEXPECTED_STATE} \<Longrightarrow> some_pending p \<Longrightarrow>
   along (paired_outcome from to c) (fail_ctx c0 st, p)"
  by (simp add: along_def paired_outcome_def outcome_of_fail)

lemma map_pending_failure_terminal:
  "map_pending_failure p \<notin> {HANDSHAKE_OK, HANDSHAKE_ERR_INVALID_ARG, HANDSHAKE_ERR_UNEXPECTED_STATE}"
  "map_pending_failure p \<noteq> HANDSHAKE_OK" "map_pending_failure p \<noteq> HANDSHAKE_ERR_INVALID_ARG"
  "map_pending_failure p \<noteq> HANDSHAKE_ERR_UNEXPECTED_STATE"
  by (cases p; simp)+

lemma verify_client_auth_outcome:
  assumes inv: "handshake_inv c" and "env_ok e" "crypto_sizes cr" "pending_inv ps"
  shows "along (paired_outcome HANDSHAKE_STATE_SERVER_HELLO_CREATED HANDSHAKE_STATE_CLIENT_AUTH_VERIFIED c)
    (handshake_responder_verify_client_auth cr e (Some c) (Some ps) (Some b) (length b))"
proof (cases "check_call (Some c) HANDSHAKE_ROLE_RESPONDER HANDSHAKE_STATE_SERVER_HELLO_CREATED = HANDSHAKE_OK")
  case False
  with inv assms(4) show ?thesis
    by (simp add: handshake_responder_verify_client_auth_def paired_outcome_def outcome_of_refused along_def
        del: check_call_OK)
next
  case True
  then have c: "hc_role c = HANDSHAKE_ROLE_RESPONDER" "hc_state c = HANDSHAKE_STATE_SERVER_HELLO_CREATED" by auto
  note st = inv_struct [OF inv] and lens = ctx_struct_lens [OF inv_struct [OF inv]]
  have phase: "ctx_phase c" using inv by (simp add: handshake_inv_def)
  then have ph: "\<not> hc_keys_committed c" "hc_session_keys c = Some (zeros 64)" "mlkem_secret_key (hc_kem c) = NULL"
    using c by (auto simp: ctx_phase_defs)
  have keys: "length keys' = 64"
    if "derive_traffic_keys (sodium cr) keys ss_x ss_k sid a al b bl th = (rc, keys')" "secure_mem_alloc e 1 64 = Some keys"
    for keys ss_x ss_k sid a al b bl th rc keys'
    using that assms(2) derive_traffic_keys_length [OF assms(3), of keys ss_x ss_k sid a al b bl th]
    by (simp add: secure_mem_alloc_def env_ok_def split: if_splits)
  show ?thesis
    unfolding handshake_responder_verify_client_auth_def Let_def
    using c st phase ph lens assms(4) inv
    by (intro along_intros paired_fail2 paired_pair2)
      (auto simp: map_pending_failure_terminal ctx_phase_defs ledger_some_pending(3) intro!: outcome_intros
        dest: get_digest_some_pending ledger_some_pendingD keys)
qed


end
