(* ===== verification/Handshake_Safety.thy ===== *)
theory Handshake_Safety
  imports Handshake
begin

text \<open>
  What the handshake state machine guarantees, whatever the peer sends and whatever the environment
  answers: which transitions exist, when keys exist, what a completed check means, and that the
  state never moves backwards. Other users of the same ledger may act between two calls.
\<close>

section \<open>What success of a check means\<close>

lemma verify_server_hello_success:
  assumes "crypto_sizes cr" "ctx_struct c"
    and "handshake_initiator_verify_server_hello cr e (Some c) (Some b) (length b) = (HANDSHAKE_OK, Some c')"
  shows "\<exists>m pk. server_hello_of b = Some m \<and>
    sh_id_len m = hc_peer_id_len c \<and> take (unat (sh_id_len m)) (sh_id m) = take (unat (sh_id_len m)) (hc_peer_id c) \<and>
    resolve_peer_pk c (sh_id m) (unat (sh_id_len m)) = Some pk \<and> sh_session_id_echo m = hc_session_id c \<and>
    mldsa_verify (liboqs cr)
      (Some (sha256 (sodium cr) TRANSCRIPT_LABEL_SERVER_AUTH (take (hc_ch_len c) (hc_ch_bytes c))
        (server_hello_unsigned_bytes m))) 32 (Some (sh_sig m)) (unat (sh_sig_len m)) (Some pk) = 0 \<and>
    c' = c\<lparr>hc_peer_pk := Some pk, hc_peer_eph_pub := sh_ephemeral_pub m, hc_peer_mlkem_ct := sh_mlkem_ct m,
      hc_th_client_auth := sha256 (sodium cr) TRANSCRIPT_LABEL_CLIENT_AUTH (take (hc_ch_len c) (hc_ch_bytes c)) b,
      hc_handshake_id := take 16 (sha256 (sodium cr) TRANSCRIPT_LABEL_HANDSHAKE_ID (take (hc_ch_len c) (hc_ch_bytes c)) b),
      hc_ch_bytes := zeros 1330, hc_ch_len := 0, hc_state := HANDSHAKE_STATE_SERVER_HELLO_VERIFIED\<rparr>"
proof -
  note lens = ctx_struct_lens [OF assms(2)]
  have sha: "sha256_digest_len (sodium cr)" using assms(1) by (simp add: crypto_sizes_def)
  from assms(3) obtain m where m: "server_hello_of b = Some m"
    by (cases "server_hello_of b")
      (auto simp: handshake_initiator_verify_server_hello_def decode_server_hello_eq fail_ctx_def Let_def check_call_def
        split: if_splits)
  note ml = server_hello_of_lens [OF m]
  have u: "take (transcript_server_hello_unsigned_len (sh_id_len m)) b = server_hello_unsigned_bytes m"
    using sh.enc_dec [OF m] length_server_hello_unsigned_bytes [of m]
    by (auto simp: server_hello_bytes_def transcript_server_hello_unsigned_len_def wf_defs len_ok_defs)
  show ?thesis
    using assms(3) m ml lens sha u
    unfolding handshake_initiator_verify_server_hello_def Let_def
    by (auto simp: decode_server_hello_eq fail_ctx_def transcript_hash_server_auth_eq memcpy_whole
        transcript_hash_client_auth_eq transcript_handshake_id_eq
        split: if_splits option.splits prod.splits)
qed

lemma client_auth_of_lens:
  assumes "client_auth_of b = Some m"
  shows "length (ca_handshake_id m) = 16" "sig_len_ok (ca_sig_len m)" "length (ca_sig m) = 3309"
  using ca.enc_dec [OF assms] by (simp_all add: wf_defs struct_defs)

text \<open>
  The responder's check on a context that waits for ClientAuth, with the ledger calls replaced by
  what they mean: \<open>lc\<close> is the ledger's answer to the digest lookup.
\<close>

lemma get_digest_cases:
  assumes "pending_inv ps" "length hid = 16"
  obtains (ok) en ps1 where "handshake_pending_get_digest (Some ps) t (Some hid) (Some (zeros 32)) =
        (PENDING_OK, Some ps1, Some (pe_th_client_auth en))"
      "pend_map ps hid = Some en" "pe_state en = PENDING_SLOT_ACTIVE" "t < pe_deadline_ms en"
      "pending_inv ps1" "pend_map ps1 = pend_map ps" "length (pe_th_client_auth en) = 32"
  | (bad) st ps1 where "handshake_pending_get_digest (Some ps) t (Some hid) (Some (zeros 32)) = (st, Some ps1, Some (zeros 32))"
      "st \<noteq> PENDING_OK" "pending_inv ps1"
proof -
  obtain st m where lc: "ledger_check (pend_map ps) t hid = (st, m)" by force
  obtain ps1 where g: "handshake_pending_get_digest (Some ps) t (Some hid) (Some (zeros 32)) =
      (st, Some ps1, Some (if st = PENDING_OK then pe_th_client_auth (the (pend_map ps hid)) else zeros 32))"
    "pending_inv ps1" "pend_map ps1 = m"
    using get_digest_refines [OF assms, of "zeros 32" t] lc by auto
  note lok = pending_inv_ledger_ok [OF assms(1)]
  show thesis
  proof (cases "st = PENDING_OK")
    case True
    then obtain en where en: "pend_map ps hid = Some en" "m = pend_map ps" "pe_state en = PENDING_SLOT_ACTIVE"
      "\<not> entry_expired en t"
      using ledger_check_OK [OF lok, of t hid m] lc by auto
    moreover have "length (pe_th_client_auth en) = 32"
      using en(1) lok by (simp add: ledger_ok_def pending_entry_ok_def)
    ultimately show thesis using g True by (intro ok [of ps1 en]) (auto simp: entry_expired_def)
  next
    case False
    with g show thesis by (intro bad [of st ps1]) auto
  qed
qed

lemma consume_success:
  assumes "handshake_pending_consume_success (Some ps) t (Some hid) = (PENDING_OK, p)" "pending_inv ps" "length hid = 16"
    "pend_map ps hid = Some en"
  shows "\<exists>ps'. p = Some ps' \<and> pending_inv ps' \<and>
    pend_map ps' = (pend_map ps)(hid \<mapsto> tombstone en PENDING_SLOT_CONSUMED)"
proof -
  obtain st m where lc: "ledger_check (pend_map ps) t hid = (st, m)" by force
  have c: "ledger_consume (pend_map ps) t hid =
      (if st = PENDING_OK then (PENDING_OK, m(hid \<mapsto> tombstone (the (m hid)) PENDING_SLOT_CONSUMED)) else (st, m))"
    by (cases st) (simp_all add: ledger_consume_def lc)
  have "m = pend_map ps" if "st = PENDING_OK"
    using lc that ledger_check_OK [OF pending_inv_ledger_ok [OF assms(2)], of t hid m] by auto
  with consume_refines [OF assms(2,3), of t] assms(1,4) show ?thesis
    by (auto simp: c split: if_splits)
qed

lemma verify_client_auth_success:
  assumes "ctx_struct c" "pending_inv ps"
    and "handshake_responder_verify_client_auth cr e (Some c) (Some ps) (Some b) (length b) = ((HANDSHAKE_OK, Some c'), p)"
  shows "\<exists>m en x ss_x ss_k buf keys ps'. client_auth_of b = Some m \<and> ca_handshake_id m = hc_handshake_id c \<and>
    pend_map ps (hc_handshake_id c) = Some en \<and> pe_state en = PENDING_SLOT_ACTIVE \<and>
    mldsa_verify (liboqs cr) (Some (pe_th_client_auth en)) 32 (Some (ca_sig m)) (unat (ca_sig_len m)) (hc_peer_pk c) = 0 \<and>
    secure_mem_alloc e 0 32 = Some x \<and>
    kex_shared_secret (sodium cr) (Some x) (Some (hc_eph c)) (Some (hc_peer_eph_pub c)) = (0, ss_x) \<and>
    hc_ss_kem c = Some ss_k \<and> secure_mem_alloc e 1 64 = Some buf \<and>
    derive_traffic_keys (sodium cr) buf (the ss_x) ss_k (hc_session_id c) (hc_peer_id c) (unat (hc_peer_id_len c))
      (hc_local_id c) (unat (hc_local_id_len c)) (pe_th_client_auth en) = (0, keys) \<and>
    p = Some ps' \<and> pending_inv ps' \<and>
    pend_map ps' = (pend_map ps)(hc_handshake_id c \<mapsto> tombstone en PENDING_SLOT_CONSUMED) \<and>
    c' = c\<lparr>hc_session_keys := Some (memcpy (the (hc_session_keys c)) 0 (take 64 keys)), hc_keys_committed := True,
      hc_ss_kem := NULL, hc_state := HANDSHAKE_STATE_CLIENT_AUTH_VERIFIED\<rparr>"
proof -
  note lens = ctx_struct_lens [OF assms(1)]
  obtain m where m: "client_auth_of b = Some m"
    using assms(3) by (cases "client_auth_of b")
      (auto simp: handshake_responder_verify_client_auth_def decode_client_auth_eq Let_def check_call_def split: if_splits)
  note ml = client_auth_of_lens [OF m]
  from assms(2) lens(9) show ?thesis
  proof (cases rule: get_digest_cases [where t = "clock_ms e 0"])
    case (bad st ps1)
    then show ?thesis using assms(3) m map_pending_failure_terminal(2) [of st]
      by (auto simp: handshake_responder_verify_client_auth_def decode_client_auth_eq Let_def check_call_def fail_ctx_def
          split: if_splits)
  next
    case (ok en ps1)
    have en1: "pend_map ps1 (hc_handshake_id c) = Some en" using ok by simp
    show ?thesis
      using assms(3) m ml lens ok map_pending_failure_terminal(2)
      unfolding handshake_responder_verify_client_auth_def Let_def
      by (auto simp: decode_client_auth_eq fail_ctx_def split: if_splits option.splits prod.splits
          dest!: consume_success [OF _ ok(5) lens(9) en1])
  qed
qed

lemma record_failure_tolerated:
  assumes "handshake_pending_record_failure (Some ps) t (Some hid) = (PENDING_OK, p)" "pending_inv ps" "length hid = 16"
    "pend_map ps hid = Some en"
  shows "\<exists>ps'. p = Some ps' \<and> pending_inv ps' \<and> unat (pe_failure_count en) < 2 \<and>
    pend_map ps' = (pend_map ps)(hid \<mapsto> en\<lparr>pe_failure_count := pe_failure_count en + 1\<rparr>)"
proof -
  obtain st m where lc: "ledger_check (pend_map ps) t hid = (st, m)" by force
  have f: "ledger_record_failure (pend_map ps) t hid =
      (if st = PENDING_OK
       then let e = (the (m hid))\<lparr>pe_failure_count := pe_failure_count (the (m hid)) + 1\<rparr>
            in if pe_failure_count e = 3
               then (PENDING_ERR_AUTH_LIMIT, m(hid \<mapsto> tombstone e PENDING_SLOT_AUTH_LIMITED))
               else (PENDING_OK, m(hid \<mapsto> e))
       else (st, m))"
    by (cases st) (simp_all add: ledger_record_failure_def lc Let_def)
  note r = record_failure_refines [OF assms(2,3), of t]
  have st: "st = PENDING_OK" using r assms(1) by (auto simp: f split: if_splits)
  then have m: "m = pend_map ps" "unat (pe_failure_count en) < 3"
    using lc assms(4) ledger_check_OK [OF pending_inv_ledger_ok [OF assms(2)], of t hid m] by auto
  have "pe_failure_count en + 1 \<noteq> 3" using r assms(1,4) by (auto simp: f st m Let_def split: if_splits)
  then have "unat (pe_failure_count en) < 2" using failure_count_step [OF m(2)] by auto
  with r assms(1,4) show ?thesis by (auto simp: f st m Let_def split: if_splits)
qed

lemma verify_client_auth_retryable:
  assumes "ctx_struct c" "pending_inv ps"
    and "handshake_responder_verify_client_auth cr e (Some c) (Some ps) (Some b) (length b) = ((st, Some c'), p)"
    and "st \<in> {HANDSHAKE_ERR_MALFORMED, HANDSHAKE_ERR_HANDSHAKE_ID_MISMATCH, HANDSHAKE_ERR_SIGNATURE}"
  shows "c' = c \<and> (if st = HANDSHAKE_ERR_SIGNATURE
    then \<exists>en ps'. pend_map ps (hc_handshake_id c) = Some en \<and> unat (pe_failure_count en) < 2 \<and>
      p = Some ps' \<and> pending_inv ps' \<and>
      pend_map ps' = (pend_map ps)(hc_handshake_id c \<mapsto> en\<lparr>pe_failure_count := pe_failure_count en + 1\<rparr>)
    else p = Some ps)"
proof -
  note lens = ctx_struct_lens [OF assms(1)]
  have mpf: "map_pending_failure x \<notin> {HANDSHAKE_ERR_MALFORMED, HANDSHAKE_ERR_HANDSHAKE_ID_MISMATCH, HANDSHAKE_ERR_SIGNATURE}"
    for x by (cases x) simp_all
  from assms(2) lens(9) show ?thesis
  proof (cases rule: get_digest_cases [where t = "clock_ms e 0"])
    case (bad st1 ps1)
    then show ?thesis using assms(3,4) mpf [of st1]
      by (auto simp: handshake_responder_verify_client_auth_def decode_client_auth_eq Let_def check_call_def fail_ctx_def
          split: if_splits option.splits)
  next
    case (ok en ps1)
    have en1: "pend_map ps1 (hc_handshake_id c) = Some en" using ok by simp
    show ?thesis
      using assms(3,4) lens ok mpf
      unfolding handshake_responder_verify_client_auth_def Let_def
      by (auto simp: decode_client_auth_eq fail_ctx_def check_call_def split: if_splits option.splits prod.splits
          dest: record_failure_tolerated)
  qed
qed

section \<open>The state machine\<close>

text \<open>
  The calls on a context, with the capacity of the output buffer or the received bytes. Each one
  has one role, one state it is for and one state it leads to.
\<close>

datatype handshake_call =
    CREATE_CLIENT_HELLO nat
  | VERIFY_SERVER_HELLO bytes
  | CREATE_CLIENT_AUTH nat
  | INITIATOR_FINISH
  | ACCEPT_CLIENT_HELLO bytes
  | CREATE_SERVER_HELLO nat
  | VERIFY_CLIENT_AUTH bytes
  | RESPONDER_FINISH

fun call_edge :: "handshake_call \<Rightarrow> handshake_role_t \<times> handshake_state_t \<times> handshake_state_t" where
  "call_edge (CREATE_CLIENT_HELLO cap) =
     (HANDSHAKE_ROLE_INITIATOR, HANDSHAKE_STATE_NEW, HANDSHAKE_STATE_CLIENT_HELLO_CREATED)"
| "call_edge (VERIFY_SERVER_HELLO b) =
     (HANDSHAKE_ROLE_INITIATOR, HANDSHAKE_STATE_CLIENT_HELLO_CREATED, HANDSHAKE_STATE_SERVER_HELLO_VERIFIED)"
| "call_edge (CREATE_CLIENT_AUTH cap) =
     (HANDSHAKE_ROLE_INITIATOR, HANDSHAKE_STATE_SERVER_HELLO_VERIFIED, HANDSHAKE_STATE_CLIENT_AUTH_CREATED)"
| "call_edge INITIATOR_FINISH =
     (HANDSHAKE_ROLE_INITIATOR, HANDSHAKE_STATE_CLIENT_AUTH_CREATED, HANDSHAKE_STATE_ESTABLISHED)"
| "call_edge (ACCEPT_CLIENT_HELLO b) =
     (HANDSHAKE_ROLE_RESPONDER, HANDSHAKE_STATE_NEW, HANDSHAKE_STATE_CLIENT_HELLO_ACCEPTED)"
| "call_edge (CREATE_SERVER_HELLO cap) =
     (HANDSHAKE_ROLE_RESPONDER, HANDSHAKE_STATE_CLIENT_HELLO_ACCEPTED, HANDSHAKE_STATE_SERVER_HELLO_CREATED)"
| "call_edge (VERIFY_CLIENT_AUTH b) =
     (HANDSHAKE_ROLE_RESPONDER, HANDSHAKE_STATE_SERVER_HELLO_CREATED, HANDSHAKE_STATE_CLIENT_AUTH_VERIFIED)"
| "call_edge RESPONDER_FINISH =
     (HANDSHAKE_ROLE_RESPONDER, HANDSHAKE_STATE_CLIENT_AUTH_VERIFIED, HANDSHAKE_STATE_ESTABLISHED)"

fun handshake_exec ::
  "crypto \<Rightarrow> env \<Rightarrow> handshake_ctx_t ptr \<Rightarrow> handshake_pending_store_t ptr \<Rightarrow> handshake_call \<Rightarrow>
   (handshake_status_t \<times> handshake_ctx_t ptr) \<times> handshake_pending_store_t ptr" where
  "handshake_exec cr e ctx p (CREATE_CLIENT_HELLO cap) =
     (fst (handshake_initiator_create_client_hello cr e ctx (Some (zeros cap)) cap (Some 0)), p)"
| "handshake_exec cr e ctx p (VERIFY_SERVER_HELLO b) =
     (handshake_initiator_verify_server_hello cr e ctx (Some b) (length b), p)"
| "handshake_exec cr e ctx p (CREATE_CLIENT_AUTH cap) =
     (fst (handshake_initiator_create_client_auth cr e ctx (Some (zeros cap)) cap (Some 0)), p)"
| "handshake_exec cr e ctx p INITIATOR_FINISH = (handshake_initiator_finish cr e ctx, p)"
| "handshake_exec cr e ctx p (ACCEPT_CLIENT_HELLO b) =
     (handshake_responder_accept_client_hello ctx (Some b) (length b), p)"
| "handshake_exec cr e ctx p (CREATE_SERVER_HELLO cap) =
     (let (r, p', _) = handshake_responder_create_server_hello cr e ctx p (Some (zeros cap)) cap (Some 0)
      in (r, p'))"
| "handshake_exec cr e ctx p (VERIFY_CLIENT_AUTH b) =
     handshake_responder_verify_client_auth cr e ctx p (Some b) (length b)"
| "handshake_exec cr e ctx p RESPONDER_FINISH = (handshake_responder_finish ctx, p)"

lemma handshake_exec_outcome:
  assumes "handshake_inv c" "pending_inv ps" "env_ok e" "crypto_sizes cr" "call_edge call = (role, from, to)"
  shows "outcome_of role from to c (fst (handshake_exec cr e (Some c) (Some ps) call)) \<and>
    some_pending (snd (handshake_exec cr e (Some c) (Some ps) call))"
proof (cases call)
  case (CREATE_CLIENT_HELLO cap)
  obtain st ctx' o' n' where
    "handshake_initiator_create_client_hello cr e (Some c) (Some (zeros cap)) cap (Some 0) = ((st, ctx'), o', n')"
    by (metis prod.exhaust)
  with create_client_hello_outcome [OF assms(1,3,4) this] CREATE_CLIENT_HELLO assms(2,5) show ?thesis
    by (auto simp: outcome_of_def)
next
  case (VERIFY_SERVER_HELLO b)
  then show ?thesis using verify_server_hello_outcome [OF assms(1,4)] assms(2,5) by auto
next
  case (CREATE_CLIENT_AUTH cap)
  then show ?thesis using create_client_auth_outcome [OF assms(1)] assms(2,5) by auto
next
  case INITIATOR_FINISH
  then show ?thesis using initiator_finish_outcome [OF assms(1,3,4)] assms(2,5) by auto
next
  case (ACCEPT_CLIENT_HELLO b)
  then show ?thesis using accept_client_hello_outcome [OF assms(1)] assms(2,5) by auto
next
  case (CREATE_SERVER_HELLO cap)
  then show ?thesis
    using alongD [OF create_server_hello_outcome [OF assms(1,4,2), of e "zeros cap" cap 0]] assms(5)
    by (auto simp: paired_outcome_def split: prod.splits)
next
  case (VERIFY_CLIENT_AUTH b)
  then show ?thesis
    using alongD [OF verify_client_auth_outcome [OF assms(1,3,4,2), of b]] assms(5)
    by (auto simp: paired_outcome_def)
next
  case RESPONDER_FINISH
  then show ?thesis using responder_finish_outcome [OF assms(1)] assms(2,5) by auto
qed

lemma handshake_exec_refused:
  assumes "call_edge call = (role, from, to)" "hc_role c \<noteq> role \<or> hc_state c \<noteq> from"
  shows "handshake_exec cr e (Some c) p call = ((HANDSHAKE_ERR_UNEXPECTED_STATE, Some c), p)"
proof -
  have "check_call (Some c) role from = HANDSHAKE_ERR_UNEXPECTED_STATE"
    using assms(2) by (simp add: check_call_def)
  then show ?thesis using assms(1)
    by (cases call) (simp_all add: handshake_initiator_create_client_hello_def
        handshake_initiator_verify_server_hello_def handshake_initiator_create_client_auth_def
        handshake_initiator_finish_def handshake_responder_accept_client_hello_def
        handshake_responder_create_server_hello_def handshake_responder_verify_client_auth_def
        handshake_responder_finish_def)
qed

lemma init_common_inv:
  assumes "env_ok e" "role \<in> {HANDSHAKE_ROLE_INITIATOR, HANDSHAKE_ROLE_RESPONDER}" "id_len_valid n"
    and "init_common e role ident n kp ks lf = (st, c)"
  shows "handshake_inv c \<and> (st = HANDSHAKE_OK \<longrightarrow> hc_role c = role \<and> hc_state c = HANDSHAKE_STATE_NEW)"
proof (cases "secure_mem_alloc e 0 64")
  case None
  with assms(4) ctx_zero_inv show ?thesis by (auto simp: init_common_def)
next
  case (Some k)
  then have "length k = 64" using assms(1) by (simp add: secure_mem_alloc_def env_ok_def)
  moreover have "unat (of_nat n :: byte) = n" "n \<le> 64" using assms(3) by (simp_all add: id_len_valid_def)
  ultimately show ?thesis
    using assms(2,4) Some
    by (auto simp: init_common_def handshake_inv_defs handshake_ctx_zero_def secure_mem_wipe_def memcpy_whole)
qed

lemma initiator_init_inv:
  assumes "env_ok e" "handshake_initiator_init e (Some x) lid ll kp ks pid pl = (st, Some c)"
  shows "handshake_inv c"
proof -
  have "handshake_inv c0 \<Longrightarrow> hc_state c0 = HANDSHAKE_STATE_NEW \<Longrightarrow> hc_role c0 = HANDSHAKE_ROLE_INITIATOR \<Longrightarrow>
      id_len_valid pl \<Longrightarrow>
      handshake_inv (c0\<lparr>hc_peer_id := memcpy (hc_peer_id c0) 0 (take pl b), hc_peer_id_len := of_nat pl\<rparr>)" for c0 b
    using ctx_struct_lens [of c0]
    by (auto simp: handshake_inv_def ctx_phase_defs id_len_valid_def)
  with assms init_common_inv [OF assms(1), of HANDSHAKE_ROLE_INITIATOR ll] ctx_zero_inv show ?thesis
    by (auto simp: handshake_initiator_init_def split: if_splits prod.splits)
qed

lemma responder_init_inv:
  assumes "env_ok e" "responder_init_impl e (Some x) lid ll kp ks lf p = (st, Some c)"
  shows "handshake_inv c"
proof -
  have "handshake_inv c0 \<Longrightarrow> handshake_inv (c0\<lparr>hc_pending := True\<rparr>)" for c0
    by (auto simp: handshake_inv_defs)
  with assms init_common_inv [OF assms(1), of HANDSHAKE_ROLE_RESPONDER ll] ctx_zero_inv show ?thesis
    by (auto simp: responder_init_impl_def Let_def split: if_splits prod.splits)
qed

section \<open>Samples\<close>

text \<open>A concrete environment and fresh contexts, to evaluate the statements on.\<close>

lemma sample_env_ok: "env_ok sample_env"
  by (simp add: env_ok_def sample_env_def)

lemma sample_crypto_sizes: "crypto_sizes sample_crypto"
  by (simp add: crypto_sizes_def sample_crypto_def sample_sodium_def sample_oqs_def sha256_digest_len_def min_def)

definition sample_initiator :: handshake_ctx_t where
  "sample_initiator = the (snd (handshake_initiator_init sample_env (Some handshake_ctx_zero) (Some [1]) 1
     (Some \<lparr>mldsa_public_key = zeros 1952, mldsa_secret_key = Some (zeros 4032)\<rparr>) (Some keystore_zero) (Some [2]) 1))"

lemma sample_initiator_init:
  "handshake_initiator_init sample_env (Some handshake_ctx_zero) (Some [1]) 1
     (Some \<lparr>mldsa_public_key = zeros 1952, mldsa_secret_key = Some (zeros 4032)\<rparr>) (Some keystore_zero) (Some [2]) 1 =
   (HANDSHAKE_OK, Some sample_initiator)"
  by (simp add: sample_initiator_def handshake_initiator_init_def init_common_def id_len_valid_def sample_env_def
      secure_mem_alloc_def Let_def)

lemma sample_initiator_inv: "handshake_inv sample_initiator"
  by (rule initiator_init_inv [OF sample_env_ok sample_initiator_init])

lemma sample_initiator_state:
  "hc_state sample_initiator = HANDSHAKE_STATE_NEW" "hc_role sample_initiator = HANDSHAKE_ROLE_INITIATOR"
  by (simp_all add: sample_initiator_def handshake_initiator_init_def init_common_def id_len_valid_def sample_env_def
      secure_mem_alloc_def Let_def)

section \<open>Properties\<close>


lemma sample_pending: "\<exists>ps. pending_inv ps"
  using pending_sample_insert by blast

lemma sample_create_client_hello:
  "\<exists>c'. fst (handshake_exec sample_crypto sample_env (Some sample_initiator) p (CREATE_CLIENT_HELLO 2000)) =
     (HANDSHAKE_OK, Some c')"
proof -
  let ?c = sample_initiator
  note lens = ctx_struct_lens [OF inv_struct [OF sample_initiator_inv]]
  have l: "hc_local_id_len ?c = 1"
    by (simp add: sample_initiator_def handshake_initiator_init_def init_common_def id_len_valid_def sample_env_def
      secure_mem_alloc_def Let_def)
  have k1: "kex_keypair_generate (sodium sample_crypto) sample_env 0 (Some (hc_eph ?c)) =
      (0, Some \<lparr>kex_public_key = fit 32 [0], kex_private_key = Some (fit 32 [0])\<rparr>)"
    by (simp add: kex_keypair_generate_def sample_defs secure_mem_alloc_def Let_def)
  have k2: "mlkem_keypair_generate (liboqs sample_crypto) sample_env 1 (Some (hc_kem ?c)) =
      (0, Some \<lparr>mlkem_public_key = fit 1184 [1], mlkem_secret_key = Some (fit 2400 [1])\<rparr>)"
    by (simp add: mlkem_keypair_generate_def kem_new_checked_def sample_defs secure_mem_alloc_def Let_def)
  have r: "length (randombytes_buf sample_env k n) = n" for k n using sample_env_ok by (simp add: env_ok_def)
  show ?thesis
    using sample_initiator_state lens
    by (simp add: handshake_initiator_create_client_hello_def check_call_def k1 [simplified] k2 [simplified] r l encode_client_hello_eq
        client_hello_struct_def id_len_ok_def client_hello_encoded_len_def Let_def)
qed


text \<open>
  C15. A call in the wrong role or state is refused without any effect: the status says so, and the
  context and the ledger are the ones passed in. In particular an established or failed context
  accepts no call at all.
\<close>

theorem handshake_wrong_call_refused:
  assumes "call_edge call = (role, from, to)" "hc_role c \<noteq> role \<or> hc_state c \<noteq> from"
  shows "handshake_exec cr e (Some c) p call = ((HANDSHAKE_ERR_UNEXPECTED_STATE, Some c), p)"
  by (rule handshake_exec_refused [OF assms])

theorem handshake_wrong_call_refused_witness:
  "handshake_exec sample_crypto sample_env (Some sample_initiator) NULL (VERIFY_SERVER_HELLO [2]) =
     ((HANDSHAKE_ERR_UNEXPECTED_STATE, Some sample_initiator), NULL)"
  by (rule handshake_wrong_call_refused [OF call_edge.simps(2)]) (simp add: sample_initiator_state)

section \<open>Reachable contexts\<close>

text \<open>
  Everything the owner of a context can do: initialise it in either role, call it in any
  environment, and wipe it. Between two calls other contexts may use the ledger, so any well-formed
  ledger may be found at the next call.
\<close>

inductive handshake_reach :: "crypto \<Rightarrow> handshake_ctx_t \<Rightarrow> handshake_pending_store_t \<Rightarrow> bool" for cr where
  initiator: "env_ok e \<Longrightarrow> pending_inv ps \<Longrightarrow>
    handshake_initiator_init e (Some x) lid ll kp ks pid pl = (st, Some c) \<Longrightarrow> handshake_reach cr c ps"
| responder: "env_ok e \<Longrightarrow> pending_inv ps \<Longrightarrow>
    handshake_responder_init e (Some x) lid ll kp ks (Some ps) = (st, Some c) \<Longrightarrow> handshake_reach cr c ps"
| responder_ext: "env_ok e \<Longrightarrow> pending_inv ps \<Longrightarrow>
    handshake_responder_init_ext e (Some x) lid ll kp lf (Some ps) = (st, Some c) \<Longrightarrow> handshake_reach cr c ps"
| call: "handshake_reach cr c ps \<Longrightarrow> env_ok e \<Longrightarrow>
    handshake_exec cr e (Some c) (Some ps) a = ((st, Some c'), Some ps') \<Longrightarrow> handshake_reach cr c' ps'"
| wipe: "handshake_reach cr c ps \<Longrightarrow>
    handshake_ctx_wipe e (Some c) (Some ps) = (Some c', Some ps') \<Longrightarrow> handshake_reach cr c' ps'"
| others: "handshake_reach cr c ps \<Longrightarrow> pending_inv ps' \<Longrightarrow> handshake_reach cr c ps'"

lemma handshake_reach_inv:
  assumes "handshake_reach cr c ps" "crypto_sizes cr"
  shows "handshake_inv c \<and> pending_inv ps"
  using assms(1)
proof (induction rule: handshake_reach.induct)
  case (initiator e ps x lid ll kp ks pid pl st c)
  then show ?case using initiator_init_inv by blast
next
  case (responder e ps x lid ll kp ks st c)
  then show ?case using responder_init_inv by (auto simp: handshake_responder_init_def)
next
  case (responder_ext e ps x lid ll kp lf st c)
  then show ?case using responder_init_inv by (auto simp: handshake_responder_init_ext_def)
next
  case (call c ps e a st c' ps')
  obtain role s0 s1 where "call_edge a = (role, s0, s1)" by (metis prod.exhaust)
  with call handshake_exec_outcome [of c ps e cr a] assms(2) show ?case
    by (auto simp: outcome_of_def outcome_def)
next
  case (wipe c ps e c' ps')
  then have "length (hc_handshake_id c) = 16" using ctx_struct_lens(9) inv_struct by blast
  with wipe ledger_some_pending(3) [of "Some ps" "hc_handshake_id c"] ctx_zero_inv show ?case
    by (auto simp: handshake_ctx_wipe_def Let_def split: if_splits) (metis some_pending_Some)+
qed simp_all

text \<open>
  C12. Keys exist only for a completed handshake. In every reachable state, the key accessors succeed
  exactly in the established state; before the commit the key buffer is zero; an established or
  failed context holds no ephemeral secret; and only an established responder counts its peer as
  confirmed.
\<close>

theorem handshake_keys_only_established:
  assumes "handshake_reach cr c ps" "crypto_sizes cr"
  shows "(fst (handshake_session_key_c2s (Some c) (Some x)) = HANDSHAKE_OK \<longleftrightarrow> hc_state c = HANDSHAKE_STATE_ESTABLISHED) \<and>
    (fst (handshake_session_key_s2c (Some c) (Some x)) = HANDSHAKE_OK \<longleftrightarrow> hc_state c = HANDSHAKE_STATE_ESTABLISHED) \<and>
    (hc_state c \<notin> {HANDSHAKE_STATE_CLIENT_AUTH_VERIFIED, HANDSHAKE_STATE_ESTABLISHED} \<longrightarrow> no_traffic_key c) \<and>
    (hc_state c \<in> {HANDSHAKE_STATE_ESTABLISHED, HANDSHAKE_STATE_FAILED} \<longrightarrow> no_ephemeral_secret c) \<and>
    (handshake_is_peer_confirmed (Some c) \<longleftrightarrow>
      hc_role c = HANDSHAKE_ROLE_RESPONDER \<and> hc_state c = HANDSHAKE_STATE_ESTABLISHED)"
proof -
  have "ctx_phase c" using handshake_reach_inv [OF assms] by (simp add: handshake_inv_def)
  then show ?thesis
    by (auto simp: ctx_phase_def handshake_session_key_c2s_def handshake_session_key_s2c_def key_at_def
        handshake_is_peer_confirmed_def)
qed

theorem handshake_keys_only_established_witness:
  "\<exists>ps. handshake_reach sample_crypto sample_initiator ps \<and>
     fst (handshake_session_key_c2s (Some sample_initiator) (Some NULL)) \<noteq> HANDSHAKE_OK \<and> no_traffic_key sample_initiator"
proof -
  obtain ps where ps: "pending_inv ps" using sample_pending by blast
  have r: "handshake_reach sample_crypto sample_initiator ps"
    by (rule handshake_reach.initiator [OF sample_env_ok ps sample_initiator_init])
  show ?thesis
    using handshake_keys_only_established [OF r sample_crypto_sizes, of NULL] r by (auto simp: sample_initiator_state)
qed

section \<open>Progress\<close>

text \<open>The states in the order of the C enumeration.\<close>

primrec state_rank :: "handshake_state_t \<Rightarrow> nat" where
  "state_rank HANDSHAKE_STATE_NEW = 0"
| "state_rank HANDSHAKE_STATE_CLIENT_HELLO_CREATED = 1"
| "state_rank HANDSHAKE_STATE_SERVER_HELLO_VERIFIED = 2"
| "state_rank HANDSHAKE_STATE_CLIENT_AUTH_CREATED = 3"
| "state_rank HANDSHAKE_STATE_CLIENT_HELLO_ACCEPTED = 4"
| "state_rank HANDSHAKE_STATE_SERVER_HELLO_CREATED = 5"
| "state_rank HANDSHAKE_STATE_CLIENT_AUTH_VERIFIED = 6"
| "state_rank HANDSHAKE_STATE_ESTABLISHED = 7"
| "state_rank HANDSHAKE_STATE_FAILED = 8"

lemma state_rank_inj: "state_rank a = state_rank b \<Longrightarrow> a = b"
  by (cases a; cases b) simp_all

instantiation handshake_state_t :: linorder
begin

definition less_eq_handshake_state_t :: "handshake_state_t \<Rightarrow> handshake_state_t \<Rightarrow> bool" where
  "less_eq_handshake_state_t a b \<longleftrightarrow> state_rank a \<le> state_rank b"

definition less_handshake_state_t :: "handshake_state_t \<Rightarrow> handshake_state_t \<Rightarrow> bool" where
  "less_handshake_state_t a b \<longleftrightarrow> state_rank a < state_rank b"

instance
  by standard (auto simp: less_eq_handshake_state_t_def less_handshake_state_t_def dest: state_rank_inj)

end

inductive handshake_step ::
  "crypto \<Rightarrow> handshake_ctx_t \<times> handshake_pending_store_t \<Rightarrow> handshake_ctx_t \<times> handshake_pending_store_t \<Rightarrow> bool"
  for cr where
  call: "env_ok e \<Longrightarrow> handshake_exec cr e (Some c) (Some ps) a = ((st, Some c'), Some ps') \<Longrightarrow>
    handshake_step cr (c, ps) (c', ps')"
| others: "pending_inv ps' \<Longrightarrow> handshake_step cr (c, ps) (c, ps')"

inductive_cases handshake_stepE [elim!]: "handshake_step cr (c, ps) s'"

lemma handshake_step_mono:
  assumes "handshake_step cr (c, ps) (c', ps')" "handshake_inv c" "pending_inv ps" "crypto_sizes cr"
  shows "handshake_inv c' \<and> pending_inv ps' \<and> hc_state c \<le> hc_state c'"
  using assms(1)
proof (rule handshake_stepE)
  fix e a st c1 ps1
  assume s: "(c', ps') = (c1, ps1)" and e: "env_ok e"
    and x: "handshake_exec cr e (Some c) (Some ps) a = ((st, Some c1), Some ps1)"
  obtain role s0 s1 where a: "call_edge a = (role, s0, s1)" by (metis prod.exhaust)
  have "s0 \<le> s1" using a by (cases a) (auto simp: less_eq_handshake_state_t_def)
  moreover have "s \<le> HANDSHAKE_STATE_FAILED" for s
    by (cases s) (simp_all add: less_eq_handshake_state_t_def)
  ultimately show ?thesis
    using handshake_exec_outcome [OF assms(2,3) e assms(4) a] x s
    by (auto simp: outcome_of_def outcome_def split: if_splits)
next
  fix ps1 assume "(c', ps') = (c, ps1)" "pending_inv ps1"
  with assms(2) show ?thesis by simp
qed

text \<open>
  C13. The handshake only moves forward. Along any sequence of calls in any environments, with other
  users of the ledger in between, the state of a context never decreases in the order new, ...,
  established, failed.
\<close>

theorem handshake_progress:
  assumes "(handshake_step cr)\<^sup>*\<^sup>* (c, ps) (c', ps')" "handshake_inv c" "pending_inv ps" "crypto_sizes cr"
  shows "handshake_inv c' \<and> pending_inv ps' \<and> hc_state c \<le> hc_state c'"
  using assms(1)
proof (induction rule: rtranclp_induct2)
  case refl
  with assms show ?case by simp
next
  case (step c1 ps1 c2 ps2)
  then show ?case using handshake_step_mono [of cr c1 ps1 c2 ps2] assms(4) by auto
qed

theorem handshake_progress_witness:
  "\<exists>ps ps' c'. pending_inv ps \<and> (handshake_step sample_crypto)\<^sup>*\<^sup>* (sample_initiator, ps) (c', ps') \<and>
     hc_state c' \<noteq> HANDSHAKE_STATE_NEW \<and> hc_state sample_initiator \<le> hc_state c'"
proof -
  obtain ps where ps: "pending_inv ps" using sample_pending by blast
  obtain c' where x: "handshake_exec sample_crypto sample_env (Some sample_initiator) (Some ps)
      (CREATE_CLIENT_HELLO 2000) = ((HANDSHAKE_OK, Some c'), Some ps)"
    using sample_create_client_hello [of "Some ps"] by auto
  then have s: "(handshake_step sample_crypto)\<^sup>*\<^sup>* (sample_initiator, ps) (c', ps)"
    by (intro r_into_rtranclp handshake_step.call [OF sample_env_ok])
  have "hc_state c' = HANDSHAKE_STATE_CLIENT_HELLO_CREATED"
    using handshake_exec_outcome [OF sample_initiator_inv ps sample_env_ok sample_crypto_sizes call_edge.simps(1)] x
    by (metis fst_conv outcome_def outcome_of_def option.inject snd_conv)
  with handshake_progress [OF s sample_initiator_inv ps sample_crypto_sizes] s ps show ?thesis
    by (intro exI [of _ ps] exI [of _ c']) simp
qed

end
