(* ===== verification/Handshake_Run.thy ===== *)
theory Handshake_Run
  imports Handshake_Safety
begin

text \<open>
  The honest run: two contexts that exchange their messages unchanged both reach the established
  state with the same keys and the same handshake identifier. The cryptographic libraries enter
  through their documented correctness only (\<open>crypto_correct\<close>, \<open>sig_pair\<close>).

  The step lemmas give, for each call in a live environment, the exact message and the exact context
  after it.
\<close>

section \<open>Correctness of the libraries\<close>

text \<open>
  Calls on well-formed inputs succeed, the two sides of X25519 meet, and decapsulation inverts
  encapsulation. A signing pair is one whose signatures verify.
\<close>

definition crypto_correct :: "crypto \<Rightarrow> bool" where
  "crypto_correct cr \<longleftrightarrow> crypto_sizes cr \<and>
     (\<forall>x. fst (crypto_hash_sha256 (sodium cr) x) = 0) \<and>
     (\<forall>sk. fst (crypto_scalarmult_base (sodium cr) sk) = 0) \<and>
     (\<forall>a b. length a = 32 \<longrightarrow> length b = 32 \<longrightarrow>
        fst (crypto_scalarmult (sodium cr) a (snd (crypto_scalarmult_base (sodium cr) b))) = 0 \<and>
        snd (crypto_scalarmult (sodium cr) a (snd (crypto_scalarmult_base (sodium cr) b))) =
        snd (crypto_scalarmult (sodium cr) b (snd (crypto_scalarmult_base (sodium cr) a)))) \<and>
     (\<forall>salt ikm. fst (hkdf_sha256_extract (sodium cr) salt ikm) = 0) \<and>
     (\<forall>n info prk. fst (hkdf_sha256_expand (sodium cr) n info prk) = 0) \<and>
     OQS_SIG_new (liboqs cr) = Some \<lparr>length_public_key = MLDSA_PUBLIC_KEY_BYTES,
       length_secret_key = MLDSA_SECRET_KEY_BYTES, length_signature = MLDSA_SIGNATURE_MAX_BYTES\<rparr> \<and>
     OQS_KEM_new (liboqs cr) = Some \<lparr>kem_length_public_key = MLKEM_PUBLIC_KEY_BYTES,
       kem_length_secret_key = MLKEM_SECRET_KEY_BYTES, kem_length_ciphertext = MLKEM_CIPHERTEXT_BYTES,
       kem_length_shared_secret = MLKEM_SHARED_SECRET_BYTES\<rparr> \<and>
     (\<forall>coins. fst (OQS_KEM_keypair (liboqs cr) coins) = 0) \<and>
     (\<forall>coins ek. length ek = MLKEM_PUBLIC_KEY_BYTES \<longrightarrow> fst (OQS_KEM_encaps (liboqs cr) coins ek) = 0) \<and>
     (\<forall>coins coins'.
        let (_, ek, dk) = OQS_KEM_keypair (liboqs cr) coins; (_, ct, ss) = OQS_KEM_encaps (liboqs cr) coins' ek
        in OQS_KEM_decaps (liboqs cr) ct dk = (0, ss))"

definition sig_pair :: "oqs \<Rightarrow> bytes \<Rightarrow> bytes \<Rightarrow> bool" where
  "sig_pair oq pk sk \<longleftrightarrow> length pk = MLDSA_PUBLIC_KEY_BYTES \<and>
     (\<forall>coins m. fst (OQS_SIG_sign oq coins m sk) = 0 \<and> snd (OQS_SIG_sign oq coins m sk) \<noteq> [] \<and>
        OQS_SIG_verify oq m (snd (OQS_SIG_sign oq coins m sk)) pk = 0)"

definition env_live :: "env \<Rightarrow> bool" where
  "env_live e \<longleftrightarrow> env_ok e \<and> (\<forall>k n. sodium_malloc e k n \<noteq> NULL)"

lemma crypto_correct_sizes: "crypto_correct cr \<Longrightarrow> crypto_sizes cr"
  by (simp add: crypto_correct_def)

lemma env_live_alloc: "env_live e \<Longrightarrow> 0 < n \<Longrightarrow> \<exists>b. secure_mem_alloc e k n = Some b \<and> length b = n"
  by (fastforce simp: env_live_def env_ok_def secure_mem_alloc_def)

lemma env_live_rand: "env_live e \<Longrightarrow> length (randombytes_buf e k n) = n"
  by (simp add: env_live_def env_ok_def)

section \<open>Keys and messages of an honest party\<close>

definition eph_keypair :: "sodium \<Rightarrow> env \<Rightarrow> nat \<Rightarrow> kex_keypair_t" where
  "eph_keypair so e k = \<lparr>kex_public_key = snd (crypto_scalarmult_base so (randombytes_buf e k 32)),
     kex_private_key = Some (randombytes_buf e k 32)\<rparr>"

definition kem_keypair :: "oqs \<Rightarrow> env \<Rightarrow> nat \<Rightarrow> mlkem_keypair_t" where
  "kem_keypair oq e k = \<lparr>mlkem_public_key = fst (snd (OQS_KEM_keypair oq (oqs_coins e k))),
     mlkem_secret_key = Some (snd (snd (OQS_KEM_keypair oq (oqs_coins e k))))\<rparr>"

lemma kex_keypair_generate_live:
  assumes "crypto_correct cr" "env_live e"
  shows "kex_keypair_generate (sodium cr) e k (Some x) = (0, Some (eph_keypair (sodium cr) e k))"
    "length (kex_public_key (eph_keypair (sodium cr) e k)) = 32"
proof -
  obtain b where b: "secure_mem_alloc e k 32 = Some b" using env_live_alloc [OF assms(2), of 32 k] by auto
  show "kex_keypair_generate (sodium cr) e k (Some x) = (0, Some (eph_keypair (sodium cr) e k))"
    using assms(1) b by (simp add: kex_keypair_generate_def eph_keypair_def crypto_correct_def Let_def split_beta)
  show "length (kex_public_key (eph_keypair (sodium cr) e k)) = 32"
    using assms(1) by (simp add: eph_keypair_def crypto_correct_def crypto_sizes_def)
qed

lemma mlkem_keypair_generate_live:
  assumes "crypto_correct cr" "env_live e"
  shows "mlkem_keypair_generate (liboqs cr) e k (Some x) = (0, Some (kem_keypair (liboqs cr) e k))"
    "length (mlkem_public_key (kem_keypair (liboqs cr) e k)) = 1184"
proof -
  obtain b where b: "secure_mem_alloc e k 2400 = Some b" using env_live_alloc [OF assms(2), of 2400 k] by auto
  show "mlkem_keypair_generate (liboqs cr) e k (Some x) = (0, Some (kem_keypair (liboqs cr) e k))"
    using assms(1) b
    by (simp add: mlkem_keypair_generate_def kem_keypair_def kem_new_checked_def crypto_correct_def Let_def split_beta)
  show "length (mlkem_public_key (kem_keypair (liboqs cr) e k)) = 1184"
    using assms(1) by (simp add: kem_keypair_def crypto_correct_def crypto_sizes_def)
qed

definition honest_client_hello :: "crypto \<Rightarrow> env \<Rightarrow> handshake_ctx_t \<Rightarrow> client_hello_t" where
  "honest_client_hello cr e c = \<lparr>
     ch_id = memcpy (zeros 64) 0 (take (unat (hc_local_id_len c)) (hc_local_id c)),
     ch_id_len = hc_local_id_len c,
     ch_ephemeral_pub = kex_public_key (eph_keypair (sodium cr) e 0),
     ch_mlkem_ek = mlkem_public_key (kem_keypair (liboqs cr) e 1),
     ch_session_id = randombytes_buf e 2 16,
     ch_nonce = randombytes_buf e 3 32\<rparr>"

lemma wf_honest_client_hello:
  assumes "crypto_correct cr" "env_live e" "ctx_struct c" "id_len_ok (hc_local_id_len c)"
  shows "wf_client_hello (honest_client_hello cr e c)"
  using assms kex_keypair_generate_live(2) [OF assms(1,2)] mlkem_keypair_generate_live(2) [OF assms(1,2)]
    env_live_rand [OF assms(2)] ctx_struct_lens(1,2) [OF assms(3)]
  by (simp add: wf_client_hello_def client_hello_struct_def honest_client_hello_def)

lemma hello_zero_fields:
  "ch_id client_hello_zero = zeros 64" "ch_ephemeral_pub client_hello_zero = zeros 32"
  "ch_mlkem_ek client_hello_zero = zeros 1184" "ch_session_id client_hello_zero = zeros 16"
  "ch_nonce client_hello_zero = zeros 32"
  "sh_id server_hello_zero = zeros 64" "sh_ephemeral_pub server_hello_zero = zeros 32"
  "sh_mlkem_ct server_hello_zero = zeros 1088" "sh_nonce server_hello_zero = zeros 32"
  "sh_session_id_echo server_hello_zero = zeros 16" "sh_sig server_hello_zero = zeros 3309"
  "ca_handshake_id client_auth_zero = zeros 16" "ca_sig client_auth_zero = zeros 3309"
  by (simp_all add: client_hello_zero_def server_hello_zero_def client_auth_zero_def)

section \<open>Each step in a live environment\<close>

lemma live_create_client_hello:
  fixes c :: handshake_ctx_t and cr :: crypto and e :: env
  defines "m \<equiv> honest_client_hello cr e c"
  assumes cr: "crypto_correct cr" and e: "env_live e" and c: "ctx_struct c" "hc_role c = HANDSHAKE_ROLE_INITIATOR"
      "hc_state c = HANDSHAKE_STATE_NEW" "id_len_ok (hc_local_id_len c)"
    and cap: "length (client_hello_bytes m) \<le> cap"
  shows "handshake_initiator_create_client_hello cr e (Some c) (Some out) cap (Some k) =
    ((HANDSHAKE_OK, Some (c\<lparr>hc_eph := eph_keypair (sodium cr) e 0, hc_kem := kem_keypair (liboqs cr) e 1,
        hc_ch_bytes := memcpy (hc_ch_bytes c) 0 (client_hello_bytes m), hc_session_id := ch_session_id m,
        hc_ch_len := length (client_hello_bytes m), hc_state := HANDSHAKE_STATE_CLIENT_HELLO_CREATED\<rparr>)),
     Some (memcpy out 0 (client_hello_bytes m)), Some (length (client_hello_bytes m)))"
proof -
  note k1 = kex_keypair_generate_live [OF cr e] and k2 = mlkem_keypair_generate_live [OF cr e]
  note lens = ctx_struct_lens [OF c(1)]
  note wf = wf_honest_client_hello [OF cr e c(1,4)]
  have len: "length (client_hello_bytes m) = client_hello_encoded_len (hc_local_id_len c)"
    using wf length_client_hello_bytes [of m]
    by (simp add: wf_client_hello_def m_def honest_client_hello_def)
  have le: "client_hello_encoded_len (hc_local_id_len c) \<le> 1330"
    using lens(2) by (simp add: client_hello_encoded_len_def)
  have m: "client_hello_zero\<lparr>ch_id := memcpy (zeros 64) 0 (take (unat (hc_local_id_len c)) (hc_local_id c)),
      ch_id_len := hc_local_id_len c, ch_ephemeral_pub := kex_public_key (eph_keypair (sodium cr) e 0),
      ch_mlkem_ek := mlkem_public_key (kem_keypair (liboqs cr) e 1), ch_session_id := randombytes_buf e 2 16,
      ch_nonce := randombytes_buf e 3 32\<rparr> = m"
    by (simp add: m_def honest_client_hello_def client_hello_zero_def)
  have sid: "ch_session_id m = randombytes_buf e 2 16" "ch_id_len m = hc_local_id_len c"
    by (simp_all add: m_def honest_client_hello_def)
  have struct: "client_hello_struct m" using wf by (simp add: wf_client_hello_def m_def)
  show ?thesis
    using c cap lens le env_live_rand [OF e]
    by (simp add: handshake_initiator_create_client_hello_def check_call_def k1 k2 Let_def memcpy_whole m hello_zero_fields
        encode_client_hello_eq [OF struct] sid len del: One_nat_def)
qed

lemma live_accept_client_hello:
  assumes "ctx_struct c" "hc_role c = HANDSHAKE_ROLE_RESPONDER" "hc_state c = HANDSHAKE_STATE_NEW"
    and m: "client_hello_of b = Some m" and pk: "resolve_peer_pk c (ch_id m) (unat (ch_id_len m)) = Some pk"
  shows "handshake_responder_accept_client_hello (Some c) (Some b) (length b) =
    (HANDSHAKE_OK, Some (c\<lparr>hc_peer_pk := Some pk,
       hc_peer_id := memcpy (hc_peer_id c) 0 (take (unat (ch_id_len m)) (ch_id m)), hc_peer_id_len := ch_id_len m,
       hc_session_id := ch_session_id m, hc_peer_eph_pub := ch_ephemeral_pub m,
       hc_ch_bytes := memcpy (hc_ch_bytes c) 0 b, hc_ch_len := length b,
       hc_state := HANDSHAKE_STATE_CLIENT_HELLO_ACCEPTED\<rparr>))"
proof -
  have wf: "wf_client_hello m" "client_hello_bytes m = b" using ch.enc_dec [OF m] by simp_all
  then have "length b \<le> 1330"
    using length_client_hello_bytes [of m]
    by (auto simp: wf_client_hello_def client_hello_encoded_len_def id_len_ok_def)
  then show ?thesis
    using assms wf(1) ctx_struct_lens [OF assms(1)]
    by (simp add: handshake_responder_accept_client_hello_def check_call_def decode_client_hello_eq Let_def
        wf_client_hello_def client_hello_struct_def memcpy_whole)
qed

text \<open>ServerHello before and after signing.\<close>

definition honest_sh_fields :: "crypto \<Rightarrow> env \<Rightarrow> handshake_ctx_t \<Rightarrow> bytes \<Rightarrow> server_hello_t" where
  "honest_sh_fields cr e c ek = server_hello_zero\<lparr>
     sh_id := memcpy (zeros 64) 0 (take (unat (hc_local_id_len c)) (hc_local_id c)),
     sh_id_len := hc_local_id_len c,
     sh_ephemeral_pub := kex_public_key (eph_keypair (sodium cr) e 0),
     sh_nonce := randombytes_buf e 1 32,
     sh_session_id_echo := hc_session_id c,
     sh_mlkem_ct := fst (snd (OQS_KEM_encaps (liboqs cr) (oqs_coins e 3) ek))\<rparr>"

definition honest_sh_sig :: "crypto \<Rightarrow> env \<Rightarrow> handshake_ctx_t \<Rightarrow> bytes \<Rightarrow> bytes \<Rightarrow> bytes" where
  "honest_sh_sig cr e c ek sk = snd (OQS_SIG_sign (liboqs cr) (oqs_coins e 4)
     (sha256 (sodium cr) TRANSCRIPT_LABEL_SERVER_AUTH (take (hc_ch_len c) (hc_ch_bytes c))
       (server_hello_unsigned_bytes (honest_sh_fields cr e c ek))) sk)"

definition honest_server_hello :: "crypto \<Rightarrow> env \<Rightarrow> handshake_ctx_t \<Rightarrow> bytes \<Rightarrow> bytes \<Rightarrow> server_hello_t" where
  "honest_server_hello cr e c ek sk = (honest_sh_fields cr e c ek)\<lparr>
     sh_sig := memcpy (zeros 3309) 0 (honest_sh_sig cr e c ek sk),
     sh_sig_len := of_nat (length (honest_sh_sig cr e c ek sk))\<rparr>"

lemma sig_pair_len:
  assumes "sig_pair (liboqs cr) pk sk" "crypto_sizes cr"
  shows "1 \<le> length (snd (OQS_SIG_sign (liboqs cr) coins x sk))" "length (snd (OQS_SIG_sign (liboqs cr) coins x sk)) \<le> 3309"
  using assms by (simp_all add: sig_pair_def crypto_sizes_def Suc_le_eq)

lemma unat_sig_len: "n \<le> 3309 \<Longrightarrow> unat (of_nat n :: u16) = n"
  by (simp add: unat_of_nat take_bit_nat_eq_self)

lemma wf_honest_server_hello:
  assumes "crypto_correct cr" "env_live e" "ctx_struct c" "id_len_ok (hc_local_id_len c)" "sig_pair (liboqs cr) pk sk"
  shows "server_hello_struct (honest_sh_fields cr e c ek)" "wf_server_hello (honest_server_hello cr e c ek sk)"
    "server_hello_unsigned_bytes (honest_server_hello cr e c ek sk) =
     server_hello_unsigned_bytes (honest_sh_fields cr e c ek)"
    "take (unat (sh_sig_len (honest_server_hello cr e c ek sk))) (sh_sig (honest_server_hello cr e c ek sk)) =
     honest_sh_sig cr e c ek sk"
proof -
  have cs: "crypto_sizes cr" using assms(1) by (rule crypto_correct_sizes)
  note k1 = kex_keypair_generate_live(2) [OF assms(1,2)] and lens = ctx_struct_lens [OF assms(3)]
  have sl: "1 \<le> length (honest_sh_sig cr e c ek sk)" "length (honest_sh_sig cr e c ek sk) \<le> 3309"
    unfolding honest_sh_sig_def by (rule sig_pair_len [OF assms(5) cs])+
  have ct: "length (fst (snd (OQS_KEM_encaps (liboqs cr) x ek))) = 1088" for x
    using cs by (simp add: crypto_sizes_def)
  show s: "server_hello_struct (honest_sh_fields cr e c ek)"
    using k1 lens ct env_live_rand [OF assms(2)]
    by (simp add: honest_sh_fields_def server_hello_struct_def hello_zero_fields del: One_nat_def)
  show "wf_server_hello (honest_server_hello cr e c ek sk)"
    using s sl lens assms(4)
    by (simp add: wf_server_hello_def honest_server_hello_def server_hello_struct_def sig_len_ok_def unat_sig_len)
      (simp add: honest_sh_fields_def)
  show "server_hello_unsigned_bytes (honest_server_hello cr e c ek sk) =
     server_hello_unsigned_bytes (honest_sh_fields cr e c ek)"
    by (simp add: server_hello_unsigned_bytes_def honest_server_hello_def)
  show "take (unat (sh_sig_len (honest_server_hello cr e c ek sk))) (sh_sig (honest_server_hello cr e c ek sk)) =
     honest_sh_sig cr e c ek sk"
    using sl by (simp add: honest_server_hello_def unat_sig_len)
qed

lemma mldsa_sign_live:
  assumes "crypto_correct cr" "sig_pair (liboqs cr) pk sk" "mldsa_secret_key kp = Some sk" "length x = 32"
  shows "mldsa_sign (liboqs cr) e k (Some out) (Some n) (Some x) 32 (Some kp) =
    (0, Some (memcpy out 0 (snd (OQS_SIG_sign (liboqs cr) (oqs_coins e k) x sk))),
     Some (length (snd (OQS_SIG_sign (liboqs cr) (oqs_coins e k) x sk))))"
  using assms by (simp add: mldsa_sign_def crypto_correct_def sig_pair_def Let_def split_beta)

lemma mlkem_encaps_live:
  assumes "crypto_correct cr" "length ek = 1184"
  shows "mlkem_encaps (liboqs cr) e k (Some ct) (Some ss) (Some ek) =
    (0, Some (fst (snd (OQS_KEM_encaps (liboqs cr) (oqs_coins e k) ek))),
     Some (snd (snd (OQS_KEM_encaps (liboqs cr) (oqs_coins e k) ek))))"
  using assms by (simp add: mlkem_encaps_def kem_new_checked_def crypto_correct_def Let_def split_beta)

lemma sha256_rc_live: "crypto_correct cr \<Longrightarrow> sha256_rc (sodium cr) l a b = 0"
  by (simp add: crypto_correct_def sha256_rc_def)

lemma sha256_len_live: "crypto_correct cr \<Longrightarrow> sha256_digest_len (sodium cr)"
  by (simp add: crypto_correct_def crypto_sizes_def)

lemma live_insert:
  assumes "pending_inv ps" "length hid = 16" "length th = 32" "hid \<notin> dom (pend_map ps)"
    "card (dom (pend_map ps)) < ps_capacity ps"
  shows "\<exists>ps'. handshake_pending_insert (Some ps) now_sweep now (Some hid) (Some th) = (PENDING_OK, Some ps') \<and>
    pending_inv ps' \<and> pend_map ps' hid = Some \<lparr>pe_state = PENDING_SLOT_ACTIVE, pe_handshake_id = hid,
      pe_th_client_auth = th, pe_deadline_ms = saturating_deadline now (ps_ttl_ms ps), pe_failure_count = 0\<rparr>"
proof -
  let ?sw = "ledger_sweep (pend_map ps) now_sweep"
  have sub: "dom ?sw \<subseteq> dom (pend_map ps)"
    by (auto simp: ledger_sweep_def split: option.splits if_splits)
  have "finite (dom (pend_map ps))" by (simp add: pend_map_def dom_tbl)
  then have "card (dom ?sw) \<le> card (dom (pend_map ps))" by (rule card_mono [OF _ sub])
  with assms sub have "fst (ledger_insert (ps_capacity ps) (ps_ttl_ms ps) (pend_map ps) now_sweep now hid th) = PENDING_OK"
    "snd (ledger_insert (ps_capacity ps) (ps_ttl_ms ps) (pend_map ps) now_sweep now hid th) hid =
     Some \<lparr>pe_state = PENDING_SLOT_ACTIVE, pe_handshake_id = hid, pe_th_client_auth = th,
       pe_deadline_ms = saturating_deadline now (ps_ttl_ms ps), pe_failure_count = 0\<rparr>"
    by (auto simp: ledger_insert_def Let_def)
  with insert_refines [OF assms(1-3), of now_sweep now] show ?thesis by auto
qed

lemma live_create_server_hello:
  fixes c :: handshake_ctx_t and cr :: crypto and e :: env and b sk :: bytes and mch :: client_hello_t
  defines "m \<equiv> honest_server_hello cr e c (ch_mlkem_ek mch) sk"
  defines "th \<equiv> sha256 (sodium cr) TRANSCRIPT_LABEL_CLIENT_AUTH b (server_hello_bytes m)"
    and "hid \<equiv> take 16 (sha256 (sodium cr) TRANSCRIPT_LABEL_HANDSHAKE_ID b (server_hello_bytes m))"
  assumes cr: "crypto_correct cr" and e: "env_live e" and c: "ctx_struct c" "hc_role c = HANDSHAKE_ROLE_RESPONDER"
      "hc_state c = HANDSHAKE_STATE_CLIENT_HELLO_ACCEPTED" "id_len_ok (hc_local_id_len c)"
    and b: "take (hc_ch_len c) (hc_ch_bytes c) = b" "client_hello_of b = Some mch"
    and kp: "hc_local_keypair c = Some kp" "mldsa_secret_key kp = Some sk" "sig_pair (liboqs cr) pk sk"
    and cap: "length (server_hello_bytes m) \<le> cap"
    and ps: "pending_inv ps" "hid \<notin> dom (pend_map ps)" "card (dom (pend_map ps)) < ps_capacity ps"
  shows "\<exists>ps'. handshake_responder_create_server_hello cr e (Some c) (Some ps) (Some out) cap (Some k) =
    ((HANDSHAKE_OK, Some (c\<lparr>hc_eph := eph_keypair (sodium cr) e 0,
        hc_ss_kem := Some (snd (snd (OQS_KEM_encaps (liboqs cr) (oqs_coins e 3) (ch_mlkem_ek mch)))),
        hc_handshake_id := hid, hc_ch_bytes := zeros 1330, hc_ch_len := 0,
        hc_state := HANDSHAKE_STATE_SERVER_HELLO_CREATED\<rparr>)),
     Some ps', Some (memcpy out 0 (server_hello_bytes m)), Some (length (server_hello_bytes m))) \<and>
    pending_inv ps' \<and> pend_map ps' hid = Some \<lparr>pe_state = PENDING_SLOT_ACTIVE, pe_handshake_id = hid,
      pe_th_client_auth = th, pe_deadline_ms = saturating_deadline (clock_ms e 1) (ps_ttl_ms ps), pe_failure_count = 0\<rparr>"
proof -
  let ?ek = "ch_mlkem_ek mch" and ?f = "honest_sh_fields cr e c (ch_mlkem_ek mch)"
    and ?sig = "honest_sh_sig cr e c (ch_mlkem_ek mch) sk"
  note cs = crypto_correct_sizes [OF cr]
  note k1 = kex_keypair_generate_live [OF cr e]
  note lens = ctx_struct_lens [OF c(1)]
  note wf = wf_honest_server_hello [OF cr e c(1,4) kp(3), of ?ek]
  note sha = sha256_len_live [OF cr] sha256_rc_live [OF cr]
  have mch: "wf_client_hello mch" "client_hello_bytes mch = b" using ch.enc_dec [OF b(2)] by simp_all
  have lb: "hc_ch_len c = length b" using b(1) lens(6,7) by auto
  have dec: "decode_client_hello (Some (hc_ch_bytes c)) (hc_ch_len c) (Some client_hello_zero) (Some 0) =
      (0, Some mch, Some (length b))"
    using lens(6,7) b decode_client_hello_eq [of b client_hello_zero 0]
    by (subst decode_client_hello_take) (simp_all add: lb)
  have ek: "length ?ek = 1184" using mch(1) by (simp add: wf_client_hello_def client_hello_struct_def)
  obtain ss where ss: "secure_mem_alloc e 2 32 = Some ss" using env_live_alloc [OF e, of 32 2] by auto
  have f: "server_hello_zero\<lparr>sh_id := memcpy (zeros 64) 0 (take (unat (hc_local_id_len c)) (hc_local_id c)),
      sh_id_len := hc_local_id_len c, sh_ephemeral_pub := kex_public_key (eph_keypair (sodium cr) e 0),
      sh_nonce := randombytes_buf e 1 32, sh_session_id_echo := hc_session_id c,
      sh_mlkem_ct := fst (snd (OQS_KEM_encaps (liboqs cr) (oqs_coins e 3) ?ek))\<rparr> = ?f"
    by (simp add: honest_sh_fields_def)
  have fl: "sh_id_len ?f = hc_local_id_len c" "sh_sig ?f = zeros 3309"
    "?f\<lparr>sh_sig := memcpy (zeros 3309) 0 ?sig, sh_sig_len := of_nat (length ?sig)\<rparr> = m"
    by (simp_all add: honest_sh_fields_def hello_zero_fields m_def honest_server_hello_def)
  have ml: "sh_id_len m = hc_local_id_len c" "sh_sig_len m = of_nat (length ?sig)"
    by (simp_all add: m_def honest_server_hello_def fl(1))
  have ms: "server_hello_struct m" "sig_len_ok (of_nat (length ?sig) :: u16)"
    using wf(2) ml by (simp_all add: wf_server_hello_def m_def)
  have sl: "?sig \<noteq> []" "length ?sig \<le> 3309"
    using sig_pair_len [OF kp(3) cs] by (auto simp: honest_sh_sig_def Suc_le_eq)
  let ?u = "server_hello_unsigned_encoded_len (hc_local_id_len c)"
  have ul: "length (server_hello_unsigned_bytes ?f) = ?u" "?u \<le> 1234"
    "length (server_hello_bytes m) = ?u + 2 + length ?sig"
    using length_server_hello_unsigned_bytes [OF wf(1)] length_server_hello_bytes [OF ms(1)] c(4) lens(2) ms(2) sl
    by (simp_all add: fl ml unat_sig_len server_hello_unsigned_encoded_len_def)
  have pre: "take ?u (server_hello_bytes m) = server_hello_unsigned_bytes ?f"
    using wf(3) ul(1) by (simp add: server_hello_bytes_def m_def)
  have sgn: "mldsa_sign (liboqs cr) e 4 (Some (zeros 3309)) (Some 0)
      (Some (sha256 (sodium cr) TRANSCRIPT_LABEL_SERVER_AUTH b (server_hello_unsigned_bytes ?f))) 32 (Some kp) =
      (0, Some (memcpy (zeros 3309) 0 ?sig), Some (length ?sig))"
    by (subst mldsa_sign_live [OF cr kp(3,2)]) (simp_all add: sha honest_sh_sig_def b(1))
  obtain ps' where ps': "handshake_pending_insert (Some ps) (clock_ms e 0) (clock_ms e 1) (Some hid) (Some th) = (PENDING_OK, Some ps')"
    "pending_inv ps'" "pend_map ps' hid = Some \<lparr>pe_state = PENDING_SLOT_ACTIVE, pe_handshake_id = hid,
      pe_th_client_auth = th, pe_deadline_ms = saturating_deadline (clock_ms e 1) (ps_ttl_ms ps), pe_failure_count = 0\<rparr>"
    using live_insert [OF ps(1) _ _ ps(2,3), of th] by (auto simp: hid_def th_def sha)
  let ?S = "server_hello_bytes m" and ?U = "server_hello_unsigned_bytes ?f"
  have encu: "encode_server_hello_unsigned (Some ?f) (Some (zeros 1234)) 1234 (Some 0) =
      (0, Some (memcpy (zeros 1234) 0 ?U), Some (length ?U))"
    using encode_server_hello_unsigned_eq [OF wf(1), of 1234 "zeros 1234" 0] c(4) ul(1,2) by (simp add: fl)
  have enc: "encode_server_hello (Some m) (Some (zeros 4545)) 4545 (Some 0) =
      (0, Some (memcpy (zeros 4545) 0 ?S), Some (length ?S))"
    using encode_server_hello_eq [OF ms(1), of 4545 "zeros 4545" 0] c(4) ul(2,3) ms(2) sl(2)
    by (simp add: ml unat_sig_len)
  have pre: "take (length ?U) (memcpy (zeros 4545) 0 ?S) = ?U" "\<not> length ?S \<le> length ?U"
    using pre ul by (simp_all add: memcpy_0)
  have th: "transcript_hash_client_auth (sodium cr) (Some (hc_ch_bytes c)) (hc_ch_len c)
      (Some (memcpy (zeros 4545) 0 ?S)) (length ?S) (Some (zeros 32)) = (0, Some th)"
    "transcript_handshake_id (sodium cr) (Some (hc_ch_bytes c)) (hc_ch_len c)
      (Some (memcpy (zeros 4545) 0 ?S)) (length ?S) (Some (zeros 16)) = (0, Some hid)"
    "transcript_hash_server_auth (sodium cr) (Some (hc_ch_bytes c)) (hc_ch_len c)
      (Some (memcpy (zeros 1234) 0 ?U)) (length ?U) (Some (zeros 32)) =
      (0, Some (sha256 (sodium cr) TRANSCRIPT_LABEL_SERVER_AUTH b ?U))"
    by (simp_all add: transcript_hash_client_auth_eq transcript_handshake_id_eq transcript_hash_server_auth_eq
        sha b(1) th_def hid_def)
  have rnd: "memcpy (zeros 32) 0 (randombytes_buf e 1 32) = randombytes_buf e 1 32"
    "memcpy (zeros 32) 0 (kex_public_key (eph_keypair (sodium cr) e 0)) = kex_public_key (eph_keypair (sodium cr) e 0)"
    using env_live_rand [OF e] k1(2) by (simp_all del: One_nat_def)
  have hid: "length hid = 16" by (simp add: hid_def sha)
  show ?thesis
    using c(2,3) cap lens(5,9) sl hid k1(2)
    by (intro exI [of _ ps'] conjI ps'(2,3))
      (simp add: handshake_responder_create_server_hello_def check_call_def k1(1) Let_def hello_zero_fields rnd
        dec ss mlkem_encaps_live [OF cr ek] kp(1) f fl(2,3) encu sgn enc pre th ps'(1) del: One_nat_def)
qed

lemma live_verify_server_hello:
  assumes cr: "crypto_correct cr" and e: "env_live e" and c: "ctx_struct c" "hc_role c = HANDSHAKE_ROLE_INITIATOR"
      "hc_state c = HANDSHAKE_STATE_CLIENT_HELLO_CREATED" "kex_private_key (hc_eph c) = Some sk"
    and m: "server_hello_of b = Some m" "sh_id_len m = hc_peer_id_len c"
      "take (unat (hc_peer_id_len c)) (sh_id m) = take (unat (hc_peer_id_len c)) (hc_peer_id c)"
      "sh_session_id_echo m = hc_session_id c"
    and pk: "resolve_peer_pk c (sh_id m) (unat (hc_peer_id_len c)) = Some pk"
    and sig: "mldsa_verify (liboqs cr)
      (Some (sha256 (sodium cr) TRANSCRIPT_LABEL_SERVER_AUTH (take (hc_ch_len c) (hc_ch_bytes c))
        (server_hello_unsigned_bytes m))) 32 (Some (sh_sig m)) (unat (sh_sig_len m)) (Some pk) = 0"
    and dh: "fst (crypto_scalarmult (sodium cr) sk (sh_ephemeral_pub m)) = 0"
  shows "handshake_initiator_verify_server_hello cr e (Some c) (Some b) (length b) =
    (HANDSHAKE_OK, Some (c\<lparr>hc_peer_pk := Some pk, hc_peer_eph_pub := sh_ephemeral_pub m, hc_peer_mlkem_ct := sh_mlkem_ct m,
      hc_th_client_auth := sha256 (sodium cr) TRANSCRIPT_LABEL_CLIENT_AUTH (take (hc_ch_len c) (hc_ch_bytes c)) b,
      hc_handshake_id := take 16 (sha256 (sodium cr) TRANSCRIPT_LABEL_HANDSHAKE_ID (take (hc_ch_len c) (hc_ch_bytes c)) b),
      hc_ch_bytes := zeros 1330, hc_ch_len := 0, hc_state := HANDSHAKE_STATE_SERVER_HELLO_VERIFIED\<rparr>))"
proof -
  note lens = ctx_struct_lens [OF c(1)] and sha = sha256_len_live [OF cr] sha256_rc_live [OF cr]
  note ml = server_hello_of_lens [OF m(1)]
  let ?u = "transcript_server_hello_unsigned_len (hc_peer_id_len c)"
  have wf: "wf_server_hello m" "server_hello_bytes m = b" using sh.enc_dec [OF m(1)] by simp_all
  have ul: "?u = length (server_hello_unsigned_bytes m)"
    using length_server_hello_unsigned_bytes [of m] wf(1)
    by (simp add: transcript_server_hello_unsigned_len_def wf_defs len_ok_defs Suc_le_eq m(2))
  have u: "take ?u b = server_hello_unsigned_bytes m" "0 < ?u" "?u < length b"
    unfolding ul wf(2) [symmetric]
    by (simp_all add: server_hello_bytes_def) (simp add: server_hello_unsigned_bytes_def)
  obtain x where x: "secure_mem_alloc e 0 32 = Some x" using env_live_alloc [OF e, of 32 0] by auto
  obtain y where y: "kex_shared_secret (sodium cr) (Some x) (Some (hc_eph c)) (Some (sh_ephemeral_pub m)) = (0, y)"
    using c(4) dh by (simp add: kex_shared_secret_def split_beta)
  show ?thesis
    using c(2,3) lens(5-11) ml u(2,3)
    by (simp add: handshake_initiator_verify_server_hello_def check_call_def decode_server_hello_eq Let_def m pk sig u(1) x y
        transcript_hash_server_auth_eq transcript_hash_client_auth_eq transcript_handshake_id_eq sha memcpy_whole)
qed

definition honest_ca_sig :: "crypto \<Rightarrow> env \<Rightarrow> handshake_ctx_t \<Rightarrow> bytes \<Rightarrow> bytes" where
  "honest_ca_sig cr e c sk = snd (OQS_SIG_sign (liboqs cr) (oqs_coins e 0) (hc_th_client_auth c) sk)"

definition honest_client_auth :: "crypto \<Rightarrow> env \<Rightarrow> handshake_ctx_t \<Rightarrow> bytes \<Rightarrow> client_auth_t" where
  "honest_client_auth cr e c sk = \<lparr>ca_handshake_id = hc_handshake_id c,
     ca_sig = memcpy (zeros 3309) 0 (honest_ca_sig cr e c sk), ca_sig_len = of_nat (length (honest_ca_sig cr e c sk))\<rparr>"

lemma wf_honest_client_auth:
  assumes "crypto_correct cr" "ctx_struct c" "sig_pair (liboqs cr) pk sk"
  shows "wf_client_auth (honest_client_auth cr e c sk)"
    "take (unat (ca_sig_len (honest_client_auth cr e c sk))) (ca_sig (honest_client_auth cr e c sk)) = honest_ca_sig cr e c sk"
proof -
  have "1 \<le> length (honest_ca_sig cr e c sk)" "length (honest_ca_sig cr e c sk) \<le> 3309"
    unfolding honest_ca_sig_def by (rule sig_pair_len [OF assms(3) crypto_correct_sizes [OF assms(1)]])+
  then show "wf_client_auth (honest_client_auth cr e c sk)"
    "take (unat (ca_sig_len (honest_client_auth cr e c sk))) (ca_sig (honest_client_auth cr e c sk)) = honest_ca_sig cr e c sk"
    using ctx_struct_lens(9) [OF assms(2)]
    by (simp_all add: wf_client_auth_def client_auth_struct_def honest_client_auth_def unat_sig_len sig_len_ok_def)
qed

lemma live_create_client_auth:
  fixes c :: handshake_ctx_t and cr :: crypto and e :: env and sk :: bytes
  defines "m \<equiv> honest_client_auth cr e c sk"
  assumes cr: "crypto_correct cr" and c: "ctx_struct c" "hc_role c = HANDSHAKE_ROLE_INITIATOR"
      "hc_state c = HANDSHAKE_STATE_SERVER_HELLO_VERIFIED"
    and kp: "hc_local_keypair c = Some kp" "mldsa_secret_key kp = Some sk" "sig_pair (liboqs cr) pk sk"
    and cap: "length (client_auth_bytes m) \<le> cap"
  shows "handshake_initiator_create_client_auth cr e (Some c) (Some out) cap (Some k) =
    ((HANDSHAKE_OK, Some (c\<lparr>hc_state := HANDSHAKE_STATE_CLIENT_AUTH_CREATED\<rparr>)),
     Some (memcpy out 0 (client_auth_bytes m)), Some (length (client_auth_bytes m)))"
proof -
  note lens = ctx_struct_lens [OF c(1)] and wf = wf_honest_client_auth [OF cr c(1) kp(3), of e]
  let ?sig = "honest_ca_sig cr e c sk"
  have sl: "?sig \<noteq> []" "length ?sig \<le> 3309"
    using sig_pair_len [OF kp(3) crypto_correct_sizes [OF cr]] by (auto simp: honest_ca_sig_def Suc_le_eq)
  have m: "client_auth_zero\<lparr>ca_handshake_id := hc_handshake_id c, ca_sig := memcpy (zeros 3309) 0 ?sig,
      ca_sig_len := of_nat (length ?sig)\<rparr> = m" "ca_sig_len m = of_nat (length ?sig)"
    by (simp_all add: m_def honest_client_auth_def client_auth_zero_def)
  have ms: "client_auth_struct m" "sig_len_ok (of_nat (length ?sig) :: u16)"
    using wf(1) m(2) by (simp_all add: wf_client_auth_def m_def)
  have ml: "length (client_auth_bytes m) = 19 + length ?sig"
    using length_client_auth_bytes [OF ms(1)] ms(2) sl by (simp add: m unat_sig_len)
  have sgn: "mldsa_sign (liboqs cr) e 0 (Some (zeros 3309)) (Some 0) (Some (hc_th_client_auth c)) 32 (Some kp) =
      (0, Some (memcpy (zeros 3309) 0 ?sig), Some (length ?sig))"
    by (subst mldsa_sign_live [OF cr kp(3,2)]) (simp_all add: lens honest_ca_sig_def)
  have enc: "encode_client_auth (Some m) (Some (zeros 3328)) 3328 (Some 0) =
      (0, Some (memcpy (zeros 3328) 0 (client_auth_bytes m)), Some (length (client_auth_bytes m)))"
    using ms sl by (subst encode_client_auth_eq) (simp_all add: m ml unat_sig_len)
  show ?thesis
    using c kp(1) cap lens(9) sl
    by (simp add: handshake_initiator_create_client_auth_def check_call_def hello_zero_fields Let_def sgn m(1) enc)
qed

section \<open>The traffic keys of both sides\<close>

text \<open>
  The 64 bytes both sides derive, as a function of the two shared secrets, the session identifier,
  the two identities and the transcript digest.
\<close>

definition traffic_key :: "sodium \<Rightarrow> bytes \<Rightarrow> bytes \<Rightarrow> bytes \<Rightarrow> bytes \<Rightarrow> bytes \<Rightarrow> bytes \<Rightarrow> byte \<Rightarrow> bytes" where
  "traffic_key so ss_x ss_k sid a b th d =
     snd (hkdf_sha256_expand so 32 (kdf_info a b th d) (snd (hkdf_sha256_extract so sid (ss_x @ ss_k))))"

definition traffic_keys :: "sodium \<Rightarrow> bytes \<Rightarrow> bytes \<Rightarrow> bytes \<Rightarrow> bytes \<Rightarrow> bytes \<Rightarrow> bytes \<Rightarrow> bytes" where
  "traffic_keys so ss_x ss_k sid a b th =
     traffic_key so ss_x ss_k sid a b th KEX_DIR_C2S @ traffic_key so ss_x ss_k sid a b th KEX_DIR_S2C"

lemma length_traffic_key: "crypto_correct cr \<Longrightarrow> length (traffic_key (sodium cr) x k sid a b th d) = 32"
  by (simp add: traffic_key_def crypto_correct_def crypto_sizes_def)

lemma kex_derive_take:
  "al \<le> length A \<Longrightarrow> bl \<le> length B \<Longrightarrow>
   kex_derive_session_key_v2 so key x k sid n (Some A) al (Some B) bl th d =
   kex_derive_session_key_v2 so key x k sid n (Some (take al A)) (length (take al A)) (Some (take bl B)) (length (take bl B)) th d"
  by (simp add: kex_derive_session_key_v2_def kex_build_kdf_info_v2_def Let_def)

lemma kex_derive_live:
  assumes "crypto_correct cr" "length x = 32" "length k = 32" "length sid = 16" "length th = 32" "length key = 32"
    "1 \<le> al" "al \<le> 64" "length A = 64" "1 \<le> bl" "bl \<le> 64" "length B = 64" "d = KEX_DIR_C2S \<or> d = KEX_DIR_S2C"
  shows "kex_derive_session_key_v2 (sodium cr) (Some key) (Some x) (Some k) (Some sid) 16 (Some A) al (Some B) bl (Some th) d =
    (0, Some (traffic_key (sodium cr) x k sid (take al A) (take bl B) th d))"
proof -
  have "kdf_args_ok (take al A) (take bl B) th d" using assms by (simp add: kdf_args_ok_def)
  moreover have "hkdf_session_key (sodium cr) x k sid i =
      Some (snd (hkdf_sha256_expand (sodium cr) 32 i (snd (hkdf_sha256_extract (sodium cr) sid (x @ k)))))" for i
    using assms(1) by (simp add: hkdf_session_key_def crypto_correct_def crypto_sizes_def split_beta)
  moreover have "length (traffic_key (sodium cr) x k sid (take al A) (take bl B) th d) = 32"
    by (rule length_traffic_key [OF assms(1)])
  ultimately show ?thesis
    using assms by (subst kex_derive_take) (simp_all add: kex_derive_session_key_v2_eq traffic_key_def del: length_take)
qed

lemma derive_traffic_keys_live:
  assumes "crypto_correct cr" "length x = 32" "length k = 32" "length sid = 16" "length th = 32" "length out = 64"
    "1 \<le> al" "al \<le> 64" "length A = 64" "1 \<le> bl" "bl \<le> 64" "length B = 64"
  shows "derive_traffic_keys (sodium cr) out x k sid A al B bl th =
    (0, traffic_keys (sodium cr) x k sid (take al A) (take bl B) th)"
proof -
  let ?k = "traffic_key (sodium cr) x k sid (take al A) (take bl B) th"
  have l: "length (?k d) = 32" for d by (rule length_traffic_key [OF assms(1)])
  have "memcpy (memcpy out 0 (?k KEX_DIR_C2S)) 32 (?k KEX_DIR_S2C) = ?k KEX_DIR_C2S @ ?k KEX_DIR_S2C"
    using l assms(6) by (simp add: memcpy_append)
  then show ?thesis
    using assms l by (simp add: derive_traffic_keys_def Let_def kex_derive_live traffic_keys_def)
qed

lemma kex_shared_live:
  assumes "kex_private_key kp = Some sk" "fst (crypto_scalarmult (sodium cr) sk pk) = 0" "crypto_sizes cr" "length x = 32"
  shows "kex_shared_secret (sodium cr) (Some x) (Some kp) (Some pk) = (0, Some (snd (crypto_scalarmult (sodium cr) sk pk)))"
  using assms by (simp add: kex_shared_secret_def crypto_sizes_def split_beta memcpy_whole)

lemma mlkem_decaps_live:
  assumes "crypto_correct cr" "mlkem_secret_key kp = Some dk" "OQS_KEM_decaps (liboqs cr) ct dk = (0, ss)"
  shows "mlkem_decaps (liboqs cr) (Some x) (Some ct) (Some kp) = (0, Some ss)"
  using assms by (simp add: mlkem_decaps_def kem_new_checked_def crypto_correct_def Let_def)

lemma live_initiator_finish:
  assumes cr: "crypto_correct cr" and e: "env_live e" and c: "handshake_inv c" "hc_role c = HANDSHAKE_ROLE_INITIATOR"
      "hc_state c = HANDSHAKE_STATE_CLIENT_AUTH_CREATED" "id_len_ok (hc_local_id_len c)" "id_len_ok (hc_peer_id_len c)"
    and k: "kex_private_key (hc_eph c) = Some sk" "fst (crypto_scalarmult (sodium cr) sk (hc_peer_eph_pub c)) = 0"
      "mlkem_secret_key (hc_kem c) = Some dk" "OQS_KEM_decaps (liboqs cr) (hc_peer_mlkem_ct c) dk = (0, ss)"
  shows "handshake_initiator_finish cr e (Some c) = (HANDSHAKE_OK, Some (c\<lparr>
    hc_session_keys := Some (traffic_keys (sodium cr) (snd (crypto_scalarmult (sodium cr) sk (hc_peer_eph_pub c))) ss
      (hc_session_id c) (take (unat (hc_local_id_len c)) (hc_local_id c))
      (take (unat (hc_peer_id_len c)) (hc_peer_id c)) (hc_th_client_auth c)),
    hc_keys_committed := True, hc_eph := kex_keypair_zero, hc_kem := mlkem_keypair_zero,
    hc_th_client_auth := zeros 32, hc_peer_eph_pub := zeros 32, hc_peer_mlkem_ct := zeros 1088,
    hc_state := HANDSHAKE_STATE_ESTABLISHED\<rparr>))"
proof -
  note cs = crypto_correct_sizes [OF cr] and lens = ctx_struct_lens [OF inv_struct [OF c(1)]]
  obtain x y z where xyz: "secure_mem_alloc e 0 32 = Some x" "length x = 32" "secure_mem_alloc e 1 32 = Some y"
    "secure_mem_alloc e 2 64 = Some z" "length z = 64"
    using env_live_alloc [OF e, of 32 0] env_live_alloc [OF e, of 32 1] env_live_alloc [OF e, of 64 2] by auto
  obtain buf where buf: "hc_session_keys c = Some buf" "length buf = 64"
    using c(1,3) lens(12) by (auto simp: handshake_inv_def ctx_phase_def)
  have "length ss = 32" using cs k(4) by (metis crypto_sizes_def snd_conv)
  moreover have "length (snd (crypto_scalarmult (sodium cr) sk p)) = 32" for p using cs by (simp add: crypto_sizes_def)
  ultimately have d: "derive_traffic_keys (sodium cr) z (snd (crypto_scalarmult (sodium cr) sk (hc_peer_eph_pub c))) ss
      (hc_session_id c) (hc_local_id c) (unat (hc_local_id_len c)) (hc_peer_id c) (unat (hc_peer_id_len c))
      (hc_th_client_auth c) = (0, traffic_keys (sodium cr) (snd (crypto_scalarmult (sodium cr) sk (hc_peer_eph_pub c))) ss
      (hc_session_id c) (take (unat (hc_local_id_len c)) (hc_local_id c))
      (take (unat (hc_peer_id_len c)) (hc_peer_id c)) (hc_th_client_auth c))"
    using c(4,5) lens xyz(5) by (intro derive_traffic_keys_live [OF cr]) (simp_all add: id_len_ok_def)
  have tl: "length (traffic_keys (sodium cr) x' k' s a b t) = 64" for x' k' s a b t
    by (simp add: traffic_keys_def length_traffic_key [OF cr])
  show ?thesis
    using c(2,3) buf xyz(1,3,4)
    by (simp add: handshake_initiator_finish_def check_call_def Let_def kex_shared_live [OF k(1,2) cs xyz(2)]
        mlkem_decaps_live [OF cr k(3,4)] d tl memcpy_whole)
qed

lemma ledger_check_active:
  "m i = Some en \<Longrightarrow> pe_state en = PENDING_SLOT_ACTIVE \<Longrightarrow> now < pe_deadline_ms en \<Longrightarrow>
   ledger_check m now i = (PENDING_OK, m)"
  by (simp add: ledger_check_def entry_expired_def)

lemma get_digest_live:
  assumes "pending_inv ps" "length hid = 16" "pend_map ps hid = Some en" "pe_state en = PENDING_SLOT_ACTIVE"
    "now < pe_deadline_ms en"
  shows "\<exists>ps1. handshake_pending_get_digest (Some ps) now (Some hid) (Some (zeros 32)) =
      (PENDING_OK, Some ps1, Some (pe_th_client_auth en)) \<and> pending_inv ps1 \<and> pend_map ps1 = pend_map ps"
  using get_digest_refines [OF assms(1,2), of "zeros 32" now] ledger_check_active [of "pend_map ps" hid en now] assms(3-5) by auto

lemma consume_live:
  assumes "pending_inv ps" "length hid = 16" "pend_map ps hid = Some en" "pe_state en = PENDING_SLOT_ACTIVE"
    "now < pe_deadline_ms en"
  shows "\<exists>ps1. handshake_pending_consume_success (Some ps) now (Some hid) = (PENDING_OK, Some ps1) \<and>
      pending_inv ps1 \<and> pend_map ps1 = (pend_map ps)(hid \<mapsto> tombstone en PENDING_SLOT_CONSUMED)"
  using consume_refines [OF assms(1,2), of now] ledger_check_active [of "pend_map ps" hid en now] assms(3-5)
  by (auto simp: ledger_consume_def)

lemma live_verify_client_auth:
  assumes cr: "crypto_correct cr" and e: "env_live e" and c: "handshake_inv c" "hc_role c = HANDSHAKE_ROLE_RESPONDER"
      "hc_state c = HANDSHAKE_STATE_SERVER_HELLO_CREATED" "id_len_ok (hc_local_id_len c)" "id_len_ok (hc_peer_id_len c)"
    and k: "kex_private_key (hc_eph c) = Some sk" "fst (crypto_scalarmult (sodium cr) sk (hc_peer_eph_pub c)) = 0"
      "hc_ss_kem c = Some ss" "length ss = 32"
    and m: "client_auth_of b = Some m" "ca_handshake_id m = hc_handshake_id c"
    and ps: "pending_inv ps" "pend_map ps (hc_handshake_id c) = Some en" "pe_state en = PENDING_SLOT_ACTIVE"
      "clock_ms e 0 < pe_deadline_ms en" "clock_ms e 3 < pe_deadline_ms en"
    and sig: "mldsa_verify (liboqs cr) (Some (pe_th_client_auth en)) 32 (Some (ca_sig m)) (unat (ca_sig_len m)) (hc_peer_pk c) = 0"
  shows "\<exists>ps'. handshake_responder_verify_client_auth cr e (Some c) (Some ps) (Some b) (length b) =
    ((HANDSHAKE_OK, Some (c\<lparr>
      hc_session_keys := Some (traffic_keys (sodium cr) (snd (crypto_scalarmult (sodium cr) sk (hc_peer_eph_pub c))) ss
        (hc_session_id c) (take (unat (hc_peer_id_len c)) (hc_peer_id c))
        (take (unat (hc_local_id_len c)) (hc_local_id c)) (pe_th_client_auth en)),
      hc_keys_committed := True, hc_ss_kem := NULL, hc_state := HANDSHAKE_STATE_CLIENT_AUTH_VERIFIED\<rparr>)), Some ps') \<and>
    pending_inv ps' \<and> pend_map ps' = (pend_map ps)(hc_handshake_id c \<mapsto> tombstone en PENDING_SLOT_CONSUMED)"
proof -
  note cs = crypto_correct_sizes [OF cr] and lens = ctx_struct_lens [OF inv_struct [OF c(1)]]
  obtain x z where xz: "secure_mem_alloc e 0 32 = Some x" "length x = 32" "secure_mem_alloc e 1 64 = Some z" "length z = 64"
    using env_live_alloc [OF e, of 32 0] env_live_alloc [OF e, of 64 1] by auto
  obtain buf where buf: "hc_session_keys c = Some buf" "length buf = 64"
    using c(1,3) lens(12) by (auto simp: handshake_inv_def ctx_phase_def)
  obtain p1 where p1: "handshake_pending_get_digest (Some ps) (clock_ms e 0) (Some (hc_handshake_id c)) (Some (zeros 32)) =
      (PENDING_OK, Some p1, Some (pe_th_client_auth en))" "pending_inv p1" "pend_map p1 = pend_map ps"
    using get_digest_live [OF ps(1) lens(9) ps(2-4)] by blast
  obtain p2 where p2: "handshake_pending_consume_success (Some p1) (clock_ms e 3) (Some (hc_handshake_id c)) = (PENDING_OK, Some p2)"
    "pending_inv p2" "pend_map p2 = (pend_map ps)(hc_handshake_id c \<mapsto> tombstone en PENDING_SLOT_CONSUMED)"
    using consume_live [OF p1(2) lens(9)] ps(2,3,5) p1(3) by auto
  have "length (pe_th_client_auth en) = 32"
    using pending_inv_ledger_ok [OF ps(1)] ps(2) by (simp add: ledger_ok_def pending_entry_ok_def)
  moreover have "length (snd (crypto_scalarmult (sodium cr) sk p)) = 32" for p using cs by (simp add: crypto_sizes_def)
  ultimately have d: "derive_traffic_keys (sodium cr) z (snd (crypto_scalarmult (sodium cr) sk (hc_peer_eph_pub c))) ss
      (hc_session_id c) (hc_peer_id c) (unat (hc_peer_id_len c)) (hc_local_id c) (unat (hc_local_id_len c))
      (pe_th_client_auth en) = (0, traffic_keys (sodium cr) (snd (crypto_scalarmult (sodium cr) sk (hc_peer_eph_pub c))) ss
      (hc_session_id c) (take (unat (hc_peer_id_len c)) (hc_peer_id c))
      (take (unat (hc_local_id_len c)) (hc_local_id c)) (pe_th_client_auth en))"
    using c(4,5) lens xz(4) k(4) by (intro derive_traffic_keys_live [OF cr]) (simp_all add: id_len_ok_def)
  have tl: "length (traffic_keys (sodium cr) x' k' s a b t) = 64" for x' k' s a b t
    by (simp add: traffic_keys_def length_traffic_key [OF cr])
  show ?thesis
    using c(2,3) buf xz(1,3) lens(9) k(3)
    by (intro exI [of _ p2] conjI p2(2,3))
      (simp add: handshake_responder_verify_client_auth_def check_call_def decode_client_auth_eq Let_def m p1(1) p2(1) sig
        kex_shared_live [OF k(1,2) cs xz(2)] d tl memcpy_whole)
qed

section \<open>The run\<close>

text \<open>
  The eight calls in the order the two programs make them, each message handed over unchanged. The
  first phase is the two hellos, the second the client's proof and the two commits. The result is
  \<open>None\<close> as soon as a call does not return \<open>HANDSHAKE_OK\<close>.
\<close>

definition hello_phase ::
  "crypto \<Rightarrow> env \<Rightarrow> env \<Rightarrow> env \<Rightarrow> handshake_ctx_t \<Rightarrow> handshake_ctx_t \<Rightarrow> handshake_pending_store_t \<Rightarrow>
   (handshake_ctx_t \<times> handshake_ctx_t \<times> handshake_pending_store_t) option" where
  "hello_phase cr e1 e2 e3 A B ps =
     (let ((st, A), ch, n) = handshake_initiator_create_client_hello cr e1 (Some A) (Some (zeros 1330)) 1330 (Some 0)
      in if st \<noteq> HANDSHAKE_OK then None else
      let (st, B) = handshake_responder_accept_client_hello (Some B) (Some (take (the n) (the ch))) (the n)
      in if st \<noteq> HANDSHAKE_OK then None else
      let ((st, B), ps, sh, n) =
        handshake_responder_create_server_hello cr e2 B (Some ps) (Some (zeros 4545)) 4545 (Some 0)
      in if st \<noteq> HANDSHAKE_OK then None else
      let (st, A) = handshake_initiator_verify_server_hello cr e3 A (Some (take (the n) (the sh))) (the n)
      in if st \<noteq> HANDSHAKE_OK then None else Some (the A, the B, the ps))"

definition auth_phase ::
  "crypto \<Rightarrow> env \<Rightarrow> env \<Rightarrow> env \<Rightarrow> handshake_ctx_t \<Rightarrow> handshake_ctx_t \<Rightarrow> handshake_pending_store_t \<Rightarrow>
   (handshake_ctx_t \<times> handshake_ctx_t \<times> handshake_pending_store_t) option" where
  "auth_phase cr e4 e5 e6 A B ps =
     (let ((st, A), ca, n) = handshake_initiator_create_client_auth cr e4 (Some A) (Some (zeros 3328)) 3328 (Some 0)
      in if st \<noteq> HANDSHAKE_OK then None else
      let (st, A) = handshake_initiator_finish cr e5 A
      in if st \<noteq> HANDSHAKE_OK then None else
      let ((st, B), ps) =
        handshake_responder_verify_client_auth cr e6 (Some B) (Some ps) (Some (take (the n) (the ca))) (the n)
      in if st \<noteq> HANDSHAKE_OK then None else
      let (st, B) = handshake_responder_finish B
      in if st \<noteq> HANDSHAKE_OK then None else Some (the A, the B, the ps))"

text \<open>Two fresh contexts set up to talk to each other.\<close>

definition wire_id :: "handshake_ctx_t \<Rightarrow> bytes" where
  "wire_id c = memcpy (zeros 64) 0 (take (unat (hc_local_id_len c)) (hc_local_id c))"

definition local_sk :: "handshake_ctx_t \<Rightarrow> bytes" where
  "local_sk c = the (mldsa_secret_key (the (hc_local_keypair c)))"

definition has_identity :: "crypto \<Rightarrow> handshake_ctx_t \<Rightarrow> bytes \<Rightarrow> bool" where
  "has_identity cr c pk \<longleftrightarrow> id_len_ok (hc_local_id_len c) \<and> sig_pair (liboqs cr) pk (local_sk c) \<and>
     (\<exists>kp sk. hc_local_keypair c = Some kp \<and> mldsa_secret_key kp = Some sk)"

definition fresh_peers :: "crypto \<Rightarrow> handshake_ctx_t \<Rightarrow> handshake_ctx_t \<Rightarrow> bool" where
  "fresh_peers cr A B \<longleftrightarrow>
     handshake_inv A \<and> hc_role A = HANDSHAKE_ROLE_INITIATOR \<and> hc_state A = HANDSHAKE_STATE_NEW \<and>
     handshake_inv B \<and> hc_role B = HANDSHAKE_ROLE_RESPONDER \<and> hc_state B = HANDSHAKE_STATE_NEW \<and>
     hc_peer_id_len A = hc_local_id_len B \<and>
     take (unat (hc_local_id_len B)) (hc_peer_id A) = take (unat (hc_local_id_len B)) (hc_local_id B) \<and>
     (\<exists>pkA pkB. has_identity cr A pkA \<and> has_identity cr B pkB \<and>
       resolve_peer_pk A (wire_id B) (unat (hc_local_id_len B)) = Some pkB \<and>
       resolve_peer_pk B (wire_id A) (unat (hc_local_id_len A)) = Some pkA)"

text \<open>What the first phase leaves behind: each side holds its half of the same exchange.\<close>

definition hello_done ::
  "crypto \<Rightarrow> env \<Rightarrow> env \<Rightarrow> handshake_ctx_t \<Rightarrow> handshake_ctx_t \<Rightarrow> handshake_ctx_t \<Rightarrow> handshake_ctx_t \<Rightarrow>
   handshake_pending_store_t \<Rightarrow> handshake_pending_store_t \<Rightarrow> bool" where
  "hello_done cr e1 e2 A B A2 B2 ps ps1 \<longleftrightarrow>
     handshake_inv A2 \<and> hc_role A2 = HANDSHAKE_ROLE_INITIATOR \<and> hc_state A2 = HANDSHAKE_STATE_SERVER_HELLO_VERIFIED \<and>
     handshake_inv B2 \<and> hc_role B2 = HANDSHAKE_ROLE_RESPONDER \<and> hc_state B2 = HANDSHAKE_STATE_SERVER_HELLO_CREATED \<and>
     hc_eph A2 = eph_keypair (sodium cr) e1 0 \<and> hc_kem A2 = kem_keypair (liboqs cr) e1 1 \<and>
     hc_peer_eph_pub A2 = kex_public_key (eph_keypair (sodium cr) e2 0) \<and>
     hc_peer_mlkem_ct A2 = fst (snd (OQS_KEM_encaps (liboqs cr) (oqs_coins e2 3) (mlkem_public_key (kem_keypair (liboqs cr) e1 1)))) \<and>
     hc_eph B2 = eph_keypair (sodium cr) e2 0 \<and> hc_peer_eph_pub B2 = kex_public_key (eph_keypair (sodium cr) e1 0) \<and>
     hc_ss_kem B2 = Some (snd (snd (OQS_KEM_encaps (liboqs cr) (oqs_coins e2 3) (mlkem_public_key (kem_keypair (liboqs cr) e1 1))))) \<and>
     hc_session_id A2 = hc_session_id B2 \<and> hc_handshake_id A2 = hc_handshake_id B2 \<and>
     hc_local_id A2 = hc_local_id A \<and> hc_local_id_len A2 = hc_local_id_len A \<and>
     hc_peer_id A2 = hc_peer_id A \<and> hc_peer_id_len A2 = hc_peer_id_len A \<and>
     hc_local_keypair A2 = hc_local_keypair A \<and>
     hc_local_id B2 = hc_local_id B \<and> hc_local_id_len B2 = hc_local_id_len B \<and>
     take (unat (hc_local_id_len A)) (hc_peer_id B2) = take (unat (hc_local_id_len A)) (hc_local_id A) \<and>
     hc_peer_id_len B2 = hc_local_id_len A \<and>
     hc_peer_pk B2 = resolve_peer_pk B (wire_id A) (unat (hc_local_id_len A)) \<and>
     pending_inv ps1 \<and> pend_map ps1 (hc_handshake_id B2) = Some \<lparr>pe_state = PENDING_SLOT_ACTIVE,
       pe_handshake_id = hc_handshake_id B2, pe_th_client_auth = hc_th_client_auth A2,
       pe_deadline_ms = saturating_deadline (clock_ms e2 1) (ps_ttl_ms ps), pe_failure_count = 0\<rparr>"

text \<open>The identifier the exchange gets, from the two messages.\<close>

definition hello_ctx :: "handshake_ctx_t \<Rightarrow> client_hello_t \<Rightarrow> bytes ptr \<Rightarrow> handshake_ctx_t" where
  "hello_ctx B m pk = B\<lparr>hc_peer_pk := pk,
     hc_peer_id := memcpy (hc_peer_id B) 0 (take (unat (ch_id_len m)) (ch_id m)), hc_peer_id_len := ch_id_len m,
     hc_session_id := ch_session_id m, hc_peer_eph_pub := ch_ephemeral_pub m,
     hc_ch_bytes := memcpy (hc_ch_bytes B) 0 (client_hello_bytes m), hc_ch_len := length (client_hello_bytes m),
     hc_state := HANDSHAKE_STATE_CLIENT_HELLO_ACCEPTED\<rparr>"

definition run_server_hello :: "crypto \<Rightarrow> env \<Rightarrow> env \<Rightarrow> handshake_ctx_t \<Rightarrow> handshake_ctx_t \<Rightarrow> server_hello_t" where
  "run_server_hello cr e1 e2 A B =
     (let m = honest_client_hello cr e1 A
      in honest_server_hello cr e2 (hello_ctx B m (resolve_peer_pk B (wire_id A) (unat (hc_local_id_len A))))
           (ch_mlkem_ek m) (local_sk B))"

definition run_handshake_id :: "crypto \<Rightarrow> env \<Rightarrow> env \<Rightarrow> handshake_ctx_t \<Rightarrow> handshake_ctx_t \<Rightarrow> bytes" where
  "run_handshake_id cr e1 e2 A B = take 16 (sha256 (sodium cr) TRANSCRIPT_LABEL_HANDSHAKE_ID
     (client_hello_bytes (honest_client_hello cr e1 A)) (server_hello_bytes (run_server_hello cr e1 e2 A B)))"

lemma outcome_ok_inv:
  "outcome role s0 s1 c HANDSHAKE_OK (Some c') \<Longrightarrow> handshake_inv c' \<and> hc_role c' = role \<and> hc_state c' = s1"
  by (auto simp: outcome_def)

lemma wf_server_hello_len: "wf_server_hello m \<Longrightarrow> length (server_hello_bytes m) \<le> 4545"
  using length_server_hello_bytes [of m]
  by (simp add: wf_defs len_ok_defs server_hello_unsigned_encoded_len_def)

lemma wf_client_hello_len: "wf_client_hello m \<Longrightarrow> length (client_hello_bytes m) \<le> 1330"
  using length_client_hello_bytes [of m] by (simp add: wf_defs len_ok_defs client_hello_encoded_len_def)

lemma wf_client_auth_len: "wf_client_auth m \<Longrightarrow> length (client_auth_bytes m) \<le> 3328"
  using length_client_auth_bytes [of m] by (simp add: wf_defs len_ok_defs)

lemma sig_pair_verify:
  assumes "crypto_correct cr" "sig_pair (liboqs cr) pk sk" "take n sig = snd (OQS_SIG_sign (liboqs cr) coins x sk)" "length x = 32"
  shows "mldsa_verify (liboqs cr) (Some x) 32 (Some sig) n (Some pk) = 0"
  using assms by (simp add: mldsa_verify_def crypto_correct_def sig_pair_def)

lemma hello_first:
  assumes cr: "crypto_correct cr" and e: "env_live e1" and AB: "fresh_peers cr A B"
  defines "m \<equiv> honest_client_hello cr e1 A"
  defines "A1 \<equiv> A\<lparr>hc_eph := eph_keypair (sodium cr) e1 0, hc_kem := kem_keypair (liboqs cr) e1 1,
        hc_ch_bytes := memcpy (hc_ch_bytes A) 0 (client_hello_bytes m), hc_session_id := ch_session_id m,
        hc_ch_len := length (client_hello_bytes m), hc_state := HANDSHAKE_STATE_CLIENT_HELLO_CREATED\<rparr>"
    and "B1 \<equiv> hello_ctx B m (resolve_peer_pk B (wire_id A) (unat (hc_local_id_len A)))"
  shows "handshake_initiator_create_client_hello cr e1 (Some A) (Some (zeros 1330)) 1330 (Some 0) =
      ((HANDSHAKE_OK, Some A1), Some (memcpy (zeros 1330) 0 (client_hello_bytes m)), Some (length (client_hello_bytes m)))"
    "handshake_inv A1" "handshake_responder_accept_client_hello (Some B) (Some (client_hello_bytes m)) (length (client_hello_bytes m)) =
      (HANDSHAKE_OK, Some B1)" "handshake_inv B1" "wf_client_hello m" "length (client_hello_bytes m) \<le> 1330"
proof -
  obtain pkA where A: "ctx_struct A" "handshake_inv A" "hc_role A = HANDSHAKE_ROLE_INITIATOR" "hc_state A = HANDSHAKE_STATE_NEW"
      "id_len_ok (hc_local_id_len A)"
    and B: "ctx_struct B" "handshake_inv B" "hc_role B = HANDSHAKE_ROLE_RESPONDER" "hc_state B = HANDSHAKE_STATE_NEW"
    and pk: "resolve_peer_pk B (wire_id A) (unat (hc_local_id_len A)) = Some pkA"
    using AB by (auto simp: fresh_peers_def has_identity_def dest: inv_struct)
  show wf: "wf_client_hello m" unfolding m_def by (rule wf_honest_client_hello [OF cr e A(1,5)])
  show le: "length (client_hello_bytes m) \<le> 1330" by (rule wf_client_hello_len [OF wf])
  show 1: "handshake_initiator_create_client_hello cr e1 (Some A) (Some (zeros 1330)) 1330 (Some 0) =
      ((HANDSHAKE_OK, Some A1), Some (memcpy (zeros 1330) 0 (client_hello_bytes m)), Some (length (client_hello_bytes m)))"
    using live_create_client_hello [OF cr e A(1,3-5), folded m_def, OF le] by (simp add: A1_def)
  show "handshake_inv A1"
    using create_client_hello_outcome [OF A(2) _ crypto_correct_sizes [OF cr] 1] e
    by (auto simp: env_live_def dest: outcome_ok_inv)
  have mf: "ch_id m = wire_id A" "ch_id_len m = hc_local_id_len A" by (simp_all add: m_def honest_client_hello_def wire_id_def)
  show 2: "handshake_responder_accept_client_hello (Some B) (Some (client_hello_bytes m)) (length (client_hello_bytes m)) =
      (HANDSHAKE_OK, Some B1)"
    using live_accept_client_hello [OF B(1,3,4) ch.dec_enc [OF wf], of pkA] pk by (simp add: B1_def hello_ctx_def mf)
  show "handshake_inv B1"
    using accept_client_hello_outcome [OF B(2), of "client_hello_bytes m"] outcome_ok_inv
    by (fastforce simp: 2 outcome_of_def)
qed

lemma hello_second:
  assumes cr: "crypto_correct cr" and e1: "env_live e1" and e2: "env_live e2" and AB: "fresh_peers cr A B"
    and ps: "pending_inv ps" "run_handshake_id cr e1 e2 A B \<notin> dom (pend_map ps)" "card (dom (pend_map ps)) < ps_capacity ps"
  defines "m \<equiv> honest_client_hello cr e1 A" and "m2 \<equiv> run_server_hello cr e1 e2 A B"
  defines "B1 \<equiv> hello_ctx B m (resolve_peer_pk B (wire_id A) (unat (hc_local_id_len A)))"
    and "hid \<equiv> run_handshake_id cr e1 e2 A B"
  defines "B2 \<equiv> B1\<lparr>hc_eph := eph_keypair (sodium cr) e2 0,
        hc_ss_kem := Some (snd (snd (OQS_KEM_encaps (liboqs cr) (oqs_coins e2 3) (ch_mlkem_ek m)))),
        hc_handshake_id := hid, hc_ch_bytes := zeros 1330, hc_ch_len := 0,
        hc_state := HANDSHAKE_STATE_SERVER_HELLO_CREATED\<rparr>"
  shows "\<exists>ps1. handshake_responder_create_server_hello cr e2 (Some B1) (Some ps) (Some (zeros 4545)) 4545 (Some 0) =
      ((HANDSHAKE_OK, Some B2), Some ps1, Some (memcpy (zeros 4545) 0 (server_hello_bytes m2)), Some (length (server_hello_bytes m2))) \<and>
      pending_inv ps1 \<and> pend_map ps1 hid = Some \<lparr>pe_state = PENDING_SLOT_ACTIVE, pe_handshake_id = hid,
        pe_th_client_auth = sha256 (sodium cr) TRANSCRIPT_LABEL_CLIENT_AUTH (client_hello_bytes m) (server_hello_bytes m2),
        pe_deadline_ms = saturating_deadline (clock_ms e2 1) (ps_ttl_ms ps), pe_failure_count = 0\<rparr>"
    "handshake_inv B2" "wf_server_hello m2" "length (server_hello_bytes m2) \<le> 4545"
proof -
  note first = hello_first [OF cr e1 AB, folded m_def, folded B1_def]
  obtain kp pkB where B: "hc_local_keypair B = Some kp" "mldsa_secret_key kp = Some (local_sk B)"
      "sig_pair (liboqs cr) pkB (local_sk B)" "id_len_ok (hc_local_id_len B)" "hc_role B = HANDSHAKE_ROLE_RESPONDER"
    using AB by (auto simp: fresh_peers_def has_identity_def local_sk_def)
  have B1: "ctx_struct B1" "hc_local_keypair B1 = Some kp" "id_len_ok (hc_local_id_len B1)"
    "hc_role B1 = HANDSHAKE_ROLE_RESPONDER" "hc_state B1 = HANDSHAKE_STATE_CLIENT_HELLO_ACCEPTED"
    "take (hc_ch_len B1) (hc_ch_bytes B1) = client_hello_bytes m"
    using first(4) B by (simp_all add: inv_struct) (simp_all add: B1_def hello_ctx_def)
  have m2: "m2 = honest_server_hello cr e2 B1 (ch_mlkem_ek m) (local_sk B)"
    by (simp add: m2_def run_server_hello_def m_def B1_def Let_def)
  have hid: "take 16 (sha256 (sodium cr) TRANSCRIPT_LABEL_HANDSHAKE_ID (client_hello_bytes m) (server_hello_bytes m2)) = hid"
    by (simp add: hid_def run_handshake_id_def m_def m2_def)
  show wf: "wf_server_hello m2" unfolding m2 by (rule wf_honest_server_hello(2) [OF cr e2 B1(1,3) B(3)])
  show le: "length (server_hello_bytes m2) \<le> 4545" by (rule wf_server_hello_len [OF wf])
  show ex: "\<exists>ps1. handshake_responder_create_server_hello cr e2 (Some B1) (Some ps) (Some (zeros 4545)) 4545 (Some 0) =
      ((HANDSHAKE_OK, Some B2), Some ps1, Some (memcpy (zeros 4545) 0 (server_hello_bytes m2)), Some (length (server_hello_bytes m2))) \<and>
      pending_inv ps1 \<and> pend_map ps1 hid = Some \<lparr>pe_state = PENDING_SLOT_ACTIVE, pe_handshake_id = hid,
        pe_th_client_auth = sha256 (sodium cr) TRANSCRIPT_LABEL_CLIENT_AUTH (client_hello_bytes m) (server_hello_bytes m2),
        pe_deadline_ms = saturating_deadline (clock_ms e2 1) (ps_ttl_ms ps), pe_failure_count = 0\<rparr>"
    using live_create_server_hello [OF cr e2 B1(1,4,5,3,6) ch.dec_enc [OF first(5)] B1(2) B(2,3), folded m2, of 4545 ps "zeros 4545" 0]
      le ps [folded hid_def] by (simp add: hid B2_def)
  then show "handshake_inv B2"
    using create_server_hello_outcome [OF first(4) crypto_correct_sizes [OF cr] ps(1), of e2 "zeros 4545" 4545 0]
    by (auto simp: along_def paired_outcome_def outcome_of_def dest: outcome_ok_inv)
qed

lemma dh_agree:
  assumes "crypto_correct cr" "env_live e" "env_live e'"
  shows "fst (crypto_scalarmult (sodium cr) (randombytes_buf e 0 32) (kex_public_key (eph_keypair (sodium cr) e' 0))) = 0"
    "snd (crypto_scalarmult (sodium cr) (randombytes_buf e 0 32) (kex_public_key (eph_keypair (sodium cr) e' 0))) =
     snd (crypto_scalarmult (sodium cr) (randombytes_buf e' 0 32) (kex_public_key (eph_keypair (sodium cr) e 0)))"
  using assms env_live_rand [OF assms(2), of 0 32] env_live_rand [OF assms(3), of 0 32]
  unfolding crypto_correct_def eph_keypair_def by auto

lemma eph_private: "kex_private_key (eph_keypair so e k) = Some (randombytes_buf e k 32)"
  by (simp add: eph_keypair_def)

lemma resolve_peer_pk_cong:
  "hc_lookup_fn c = hc_lookup_fn d \<Longrightarrow> hc_keystore c = hc_keystore d \<Longrightarrow> resolve_peer_pk c = resolve_peer_pk d"
  by (intro ext) (simp only: resolve_peer_pk_def)

lemma hello_phase_live:
  assumes cr: "crypto_correct cr" and e: "env_live e1" "env_live e2" "env_live e3" and AB: "fresh_peers cr A B"
    and ps: "pending_inv ps" "run_handshake_id cr e1 e2 A B \<notin> dom (pend_map ps)" "card (dom (pend_map ps)) < ps_capacity ps"
  shows "\<exists>A2 B2 ps1 A1 sh. hello_phase cr e1 e2 e3 A B ps = Some (A2, B2, ps1) \<and> hello_done cr e1 e2 A B A2 B2 ps ps1 \<and>
    handshake_inv A1 \<and> handshake_initiator_verify_server_hello cr e3 (Some A1) (Some sh) (length sh) = (HANDSHAKE_OK, Some A2)"
proof -
  define m where "m = honest_client_hello cr e1 A"
  define m2 where "m2 = run_server_hello cr e1 e2 A B"
  define B1 where "B1 = hello_ctx B m (resolve_peer_pk B (wire_id A) (unat (hc_local_id_len A)))"
  define A1 where "A1 = A\<lparr>hc_eph := eph_keypair (sodium cr) e1 0, hc_kem := kem_keypair (liboqs cr) e1 1,
        hc_ch_bytes := memcpy (hc_ch_bytes A) 0 (client_hello_bytes m), hc_session_id := ch_session_id m,
        hc_ch_len := length (client_hello_bytes m), hc_state := HANDSHAKE_STATE_CLIENT_HELLO_CREATED\<rparr>"
  note first = hello_first [OF cr e(1) AB, folded m_def, folded A1_def B1_def]
  define B2 where "B2 = B1\<lparr>hc_eph := eph_keypair (sodium cr) e2 0,
        hc_ss_kem := Some (snd (snd (OQS_KEM_encaps (liboqs cr) (oqs_coins e2 3) (ch_mlkem_ek m)))),
        hc_handshake_id := run_handshake_id cr e1 e2 A B, hc_ch_bytes := zeros 1330, hc_ch_len := 0,
        hc_state := HANDSHAKE_STATE_SERVER_HELLO_CREATED\<rparr>"
  note second = hello_second [OF cr e(1,2) AB ps, folded m_def m2_def, folded B1_def, folded B2_def]
  obtain pkB where P: "hc_peer_id_len A = hc_local_id_len B" "hc_role A = HANDSHAKE_ROLE_INITIATOR"
      "take (unat (hc_local_id_len B)) (hc_peer_id A) = take (unat (hc_local_id_len B)) (hc_local_id B)"
      "sig_pair (liboqs cr) pkB (local_sk B)" "id_len_ok (hc_local_id_len B)"
      "resolve_peer_pk A (wire_id B) (unat (hc_local_id_len B)) = Some pkB" "ctx_struct A" "ctx_struct B"
    using AB by (auto simp: fresh_peers_def has_identity_def dest: inv_struct)
  have B1: "hc_local_id B1 = hc_local_id B" "hc_local_id_len B1 = hc_local_id_len B" "hc_session_id B1 = ch_session_id m"
    "take (hc_ch_len B1) (hc_ch_bytes B1) = client_hello_bytes m"
    by (simp_all add: B1_def hello_ctx_def)
  have m2': "m2 = honest_server_hello cr e2 B1 (ch_mlkem_ek m) (local_sk B)"
    by (simp add: m2_def run_server_hello_def m_def B1_def Let_def)
  note wf2 = wf_honest_server_hello [OF cr e(2) inv_struct [OF first(4)] _ P(4), unfolded B1(2), OF P(5), of "ch_mlkem_ek m", folded m2']
  have m2f: "sh_id m2 = wire_id B" "sh_id_len m2 = hc_local_id_len B" "sh_session_id_echo m2 = ch_session_id m"
    "sh_ephemeral_pub m2 = kex_public_key (eph_keypair (sodium cr) e2 0)"
    "sh_mlkem_ct m2 = fst (snd (OQS_KEM_encaps (liboqs cr) (oqs_coins e2 3) (ch_mlkem_ek m)))"
    by (simp_all add: m2' honest_server_hello_def honest_sh_fields_def wire_id_def B1)
  have A1: "hc_session_id A1 = ch_session_id m" "take (hc_ch_len A1) (hc_ch_bytes A1) = client_hello_bytes m"
    "hc_peer_id A1 = hc_peer_id A" "hc_peer_id_len A1 = hc_local_id_len B" "hc_role A1 = HANDSHAKE_ROLE_INITIATOR"
    "hc_state A1 = HANDSHAKE_STATE_CLIENT_HELLO_CREATED" "hc_eph A1 = eph_keypair (sodium cr) e1 0"
    using P by (simp_all add: A1_def)
  have res: "resolve_peer_pk A1 = resolve_peer_pk A" by (rule resolve_peer_pk_cong) (simp_all add: A1_def)
  have hid: "run_handshake_id cr e1 e2 A B =
      take 16 (sha256 (sodium cr) TRANSCRIPT_LABEL_HANDSHAKE_ID (client_hello_bytes m) (server_hello_bytes m2))"
    by (simp add: run_handshake_id_def m_def m2_def)
  have sig: "mldsa_verify (liboqs cr) (Some (sha256 (sodium cr) TRANSCRIPT_LABEL_SERVER_AUTH (client_hello_bytes m)
      (server_hello_unsigned_bytes m2))) 32 (Some (sh_sig m2)) (unat (sh_sig_len m2)) (Some pkB) = 0"
    using wf2(3,4) by (intro sig_pair_verify [OF cr P(4)]) (simp_all add: honest_sh_sig_def B1 sha256_len_live [OF cr])
  have idB: "take (unat (hc_local_id_len B)) (wire_id B) = take (unat (hc_local_id_len B)) (hc_local_id B)"
    using ctx_struct_lens(1,2) [OF P(8)] by (simp add: wire_id_def)
  have v: "handshake_initiator_verify_server_hello cr e3 (Some A1) (Some (server_hello_bytes m2)) (length (server_hello_bytes m2)) =
    (HANDSHAKE_OK, Some (A1\<lparr>hc_peer_pk := Some pkB, hc_peer_eph_pub := sh_ephemeral_pub m2, hc_peer_mlkem_ct := sh_mlkem_ct m2,
      hc_th_client_auth := sha256 (sodium cr) TRANSCRIPT_LABEL_CLIENT_AUTH (client_hello_bytes m) (server_hello_bytes m2),
      hc_handshake_id := run_handshake_id cr e1 e2 A B,
      hc_ch_bytes := zeros 1330, hc_ch_len := 0, hc_state := HANDSHAKE_STATE_SERVER_HELLO_VERIFIED\<rparr>))"
    (is "_ = (_, Some ?A2)")
    using live_verify_server_hello [OF cr e(3) inv_struct [OF first(2)] A1(5,6), of "randombytes_buf e1 0 32"
        "server_hello_bytes m2" m2 pkB] sh.dec_enc [OF second(3)] P sig idB dh_agree(1) [OF cr e(1,2)]
    by (simp add: A1 res m2f eph_private hid)
  have inv: "handshake_inv ?A2"
    using verify_server_hello_outcome [OF first(2) crypto_correct_sizes [OF cr], of e3 "server_hello_bytes m2"]
    by (auto simp: v outcome_of_def dest: outcome_ok_inv)
  obtain ps1 where s: "handshake_responder_create_server_hello cr e2 (Some B1) (Some ps) (Some (zeros 4545)) 4545 (Some 0) =
      ((HANDSHAKE_OK, Some B2), Some ps1, Some (memcpy (zeros 4545) 0 (server_hello_bytes m2)), Some (length (server_hello_bytes m2)))"
    and p1: "pending_inv ps1" "pend_map ps1 (run_handshake_id cr e1 e2 A B) = Some \<lparr>pe_state = PENDING_SLOT_ACTIVE,
        pe_handshake_id = run_handshake_id cr e1 e2 A B,
        pe_th_client_auth = sha256 (sodium cr) TRANSCRIPT_LABEL_CLIENT_AUTH (client_hello_bytes m) (server_hello_bytes m2),
        pe_deadline_ms = saturating_deadline (clock_ms e2 1) (ps_ttl_ms ps), pe_failure_count = 0\<rparr>"
    using second(1) by blast
  have run: "hello_phase cr e1 e2 e3 A B ps = Some (?A2, B2, ps1)"
    by (simp add: hello_phase_def first(1,3) s v)
  have mf: "ch_id m = wire_id A" "ch_id_len m = hc_local_id_len A" "ch_mlkem_ek m = mlkem_public_key (kem_keypair (liboqs cr) e1 1)"
    "ch_ephemeral_pub m = kex_public_key (eph_keypair (sodium cr) e1 0)"
    by (simp_all add: m_def honest_client_hello_def wire_id_def)
  have "hc_role B = HANDSHAKE_ROLE_RESPONDER" using AB by (simp add: fresh_peers_def)
  moreover have "take (unat (hc_local_id_len A)) (hc_peer_id B2) = take (unat (hc_local_id_len A)) (hc_local_id A)"
    using ctx_struct_lens(1,2) [OF P(7)] by (simp add: B2_def B1_def hello_ctx_def mf wire_id_def)
  moreover have "hc_role B2 = hc_role B" "hc_state B2 = HANDSHAKE_STATE_SERVER_HELLO_CREATED"
    "hc_eph B2 = eph_keypair (sodium cr) e2 0" "hc_peer_eph_pub B2 = ch_ephemeral_pub m" "hc_session_id B2 = ch_session_id m"
    "hc_ss_kem B2 = Some (snd (snd (OQS_KEM_encaps (liboqs cr) (oqs_coins e2 3) (ch_mlkem_ek m))))"
    "hc_handshake_id B2 = run_handshake_id cr e1 e2 A B" "hc_local_id B2 = hc_local_id B"
    "hc_local_id_len B2 = hc_local_id_len B" "hc_peer_id_len B2 = ch_id_len m"
    "hc_peer_pk B2 = resolve_peer_pk B (wire_id A) (unat (hc_local_id_len A))"
    by (simp_all add: B2_def B1_def hello_ctx_def)
  moreover have "hc_kem A1 = kem_keypair (liboqs cr) e1 1" "hc_local_id A1 = hc_local_id A"
    "hc_local_id_len A1 = hc_local_id_len A" "hc_local_keypair A1 = hc_local_keypair A"
    by (simp_all add: A1_def)
  ultimately have "hello_done cr e1 e2 A B ?A2 B2 ps ps1"
    unfolding hello_done_def
    using second(2) inv p1 P(1)
    by (simp add: m2f mf A1 del: One_nat_def)
  with run first(2) v show ?thesis by blast
qed

lemma kem_agree:
  assumes "crypto_correct cr"
  shows "OQS_KEM_decaps (liboqs cr)
      (fst (snd (OQS_KEM_encaps (liboqs cr) coins (mlkem_public_key (kem_keypair (liboqs cr) e k)))))
      (snd (snd (OQS_KEM_keypair (liboqs cr) (oqs_coins e k)))) =
    (0, snd (snd (OQS_KEM_encaps (liboqs cr) coins (mlkem_public_key (kem_keypair (liboqs cr) e k)))))"
  using assms by (simp add: crypto_correct_def kem_keypair_def Let_def split_beta)

lemma auth_steps_inv:
  assumes "handshake_inv A" "handshake_inv B" "env_ok e5" "env_ok e6" "crypto_sizes cr" "pending_inv ps"
    and "handshake_initiator_finish cr e5 (Some A) = (HANDSHAKE_OK, Some A')"
    and "handshake_responder_verify_client_auth cr e6 (Some B) (Some ps) (Some b) (length b) = ((HANDSHAKE_OK, Some B1), Some ps')"
    and "handshake_responder_finish (Some B1) = (HANDSHAKE_OK, Some B')"
  shows "handshake_inv A' \<and> hc_role A' = HANDSHAKE_ROLE_INITIATOR \<and> handshake_inv B'"
proof -
  have "handshake_inv B1"
    using verify_client_auth_outcome [OF assms(2,4,5,6), of b] assms(8)
    by (auto simp: along_def paired_outcome_def outcome_of_def dest: outcome_ok_inv)
  with responder_finish_outcome assms(9) have "handshake_inv B'" by (fastforce simp: outcome_of_def dest: outcome_ok_inv)
  with initiator_finish_outcome [OF assms(1,3,5)] assms(7) show ?thesis by (auto simp: outcome_of_def dest: outcome_ok_inv)
qed

lemma auth_phase_live:
  assumes cr: "crypto_correct cr" and e: "env_live e1" "env_live e2" "env_live e5" "env_live e6"
    and AB: "fresh_peers cr A B" and hd: "hello_done cr e1 e2 A B A2 B2 ps ps1"
    and clk: "clock_ms e6 0 < saturating_deadline (clock_ms e2 1) (ps_ttl_ms ps)"
      "clock_ms e6 3 < saturating_deadline (clock_ms e2 1) (ps_ttl_ms ps)"
  shows "\<exists>A' B' ps' keys ca B3. auth_phase cr e4 e5 e6 A2 B2 ps1 = Some (A', B', ps') \<and>
    handshake_responder_verify_client_auth cr e6 (Some B2) (Some ps1) (Some ca) (length ca) = ((HANDSHAKE_OK, Some B3), Some ps') \<and>
    hc_state A' = HANDSHAKE_STATE_ESTABLISHED \<and> hc_keys_committed A' \<and> hc_session_keys A' = Some keys \<and>
    hc_state B' = HANDSHAKE_STATE_ESTABLISHED \<and> hc_keys_committed B' \<and> hc_session_keys B' = Some keys \<and>
    hc_handshake_id A' = hc_handshake_id B2 \<and> hc_handshake_id B' = hc_handshake_id B2 \<and>
    hc_role B' = HANDSHAKE_ROLE_RESPONDER \<and>
    map_option pe_state (pend_map ps' (hc_handshake_id B2)) = Some PENDING_SLOT_CONSUMED \<and>
    handshake_inv A' \<and> hc_role A' = HANDSHAKE_ROLE_INITIATOR \<and> handshake_inv B'"
proof -
  note h = hd [unfolded hello_done_def]
  obtain kp pkA where A: "hc_local_keypair A = Some kp" "mldsa_secret_key kp = Some (local_sk A)"
      "sig_pair (liboqs cr) pkA (local_sk A)" "id_len_ok (hc_local_id_len A)" "id_len_ok (hc_local_id_len B)"
      "hc_peer_id_len A = hc_local_id_len B"
      "take (unat (hc_local_id_len B)) (hc_peer_id A) = take (unat (hc_local_id_len B)) (hc_local_id B)"
      "resolve_peer_pk B (wire_id A) (unat (hc_local_id_len A)) = Some pkA"
    using AB by (auto simp: fresh_peers_def has_identity_def local_sk_def)
  have A2: "handshake_inv A2" "hc_role A2 = HANDSHAKE_ROLE_INITIATOR" "hc_state A2 = HANDSHAKE_STATE_SERVER_HELLO_VERIFIED"
    "hc_local_keypair A2 = Some kp" using h A(1) by simp_all
  define m where "m = honest_client_auth cr e4 A2 (local_sk A)"
  note wf = wf_honest_client_auth [OF cr inv_struct [OF A2(1)] A(3), of e4, folded m_def]
  let ?A3 = "A2\<lparr>hc_state := HANDSHAKE_STATE_CLIENT_AUTH_CREATED\<rparr>"
  have s4: "handshake_initiator_create_client_auth cr e4 (Some A2) (Some (zeros 3328)) 3328 (Some 0) =
      ((HANDSHAKE_OK, Some ?A3), Some (memcpy (zeros 3328) 0 (client_auth_bytes m)), Some (length (client_auth_bytes m)))"
    using live_create_client_auth [OF cr inv_struct [OF A2(1)] A2(2-4) A(2,3), of e4 3328] wf_client_auth_len [OF wf(1)]
    by (simp add: m_def)
  have A3: "handshake_inv ?A3"
    using create_client_auth_outcome [OF A2(1), of cr e4 "zeros 3328" 3328 0] by (auto simp: s4 outcome_of_def dest: outcome_ok_inv)
  let ?x = "snd (crypto_scalarmult (sodium cr) (randombytes_buf e1 0 32) (kex_public_key (eph_keypair (sodium cr) e2 0)))"
    and ?ss = "snd (snd (OQS_KEM_encaps (liboqs cr) (oqs_coins e2 3) (mlkem_public_key (kem_keypair (liboqs cr) e1 1))))"
    and ?idA = "take (unat (hc_local_id_len A)) (hc_local_id A)" and ?idB = "take (unat (hc_local_id_len B)) (hc_local_id B)"
  have s5: "\<exists>A'. handshake_initiator_finish cr e5 (Some ?A3) = (HANDSHAKE_OK, Some A') \<and>
      hc_session_keys A' = Some (traffic_keys (sodium cr) ?x ?ss (hc_session_id A2) ?idA ?idB (hc_th_client_auth A2)) \<and>
      hc_keys_committed A' \<and> hc_state A' = HANDSHAKE_STATE_ESTABLISHED \<and> hc_handshake_id A' = hc_handshake_id B2"
    using live_initiator_finish [OF cr e(3) A3, of "randombytes_buf e1 0 32" _ ?ss] h A dh_agree(1) [OF cr e(1,2)] kem_agree [OF cr]
    by (simp add: eph_private kem_keypair_def del: One_nat_def)
  have sig: "mldsa_verify (liboqs cr) (Some (hc_th_client_auth A2)) 32 (Some (ca_sig m)) (unat (ca_sig_len m)) (Some pkA) = 0"
    using wf(2) ctx_struct_lens(10) [OF inv_struct [OF A2(1)]]
    by (intro sig_pair_verify [OF cr A(3)]) (simp_all add: honest_ca_sig_def)
  have ss: "length ?ss = 32" using cr by (simp add: crypto_correct_def crypto_sizes_def)
  have mh: "ca_handshake_id m = hc_handshake_id B2" using h by (simp add: m_def honest_client_auth_def)
  have s6: "\<exists>B3 ps'. handshake_responder_verify_client_auth cr e6 (Some B2) (Some ps1) (Some (client_auth_bytes m))
        (length (client_auth_bytes m)) = ((HANDSHAKE_OK, Some B3), Some ps') \<and> hc_role B3 = HANDSHAKE_ROLE_RESPONDER \<and>
      hc_state B3 = HANDSHAKE_STATE_CLIENT_AUTH_VERIFIED \<and> hc_handshake_id B3 = hc_handshake_id B2 \<and> hc_keys_committed B3 \<and>
      hc_session_keys B3 = Some (traffic_keys (sodium cr) ?x ?ss (hc_session_id A2) ?idA ?idB (hc_th_client_auth A2)) \<and>
      map_option pe_state (pend_map ps' (hc_handshake_id B2)) = Some PENDING_SLOT_CONSUMED"
    using live_verify_client_auth [OF cr e(4), of B2 "randombytes_buf e2 0 32" ?ss "client_auth_bytes m" m ps1] h A sig ss mh clk
      ca.dec_enc [OF wf(1)] dh_agree [OF cr e(2,1)]
    by (fastforce simp: eph_private tombstone_def)
  obtain A' where A': "handshake_initiator_finish cr e5 (Some ?A3) = (HANDSHAKE_OK, Some A')"
      "hc_session_keys A' = Some (traffic_keys (sodium cr) ?x ?ss (hc_session_id A2) ?idA ?idB (hc_th_client_auth A2))"
      "hc_keys_committed A'" "hc_state A' = HANDSHAKE_STATE_ESTABLISHED" "hc_handshake_id A' = hc_handshake_id B2"
    using s5 by blast
  obtain B3 ps' where B3: "handshake_responder_verify_client_auth cr e6 (Some B2) (Some ps1) (Some (client_auth_bytes m))
        (length (client_auth_bytes m)) = ((HANDSHAKE_OK, Some B3), Some ps')" "hc_role B3 = HANDSHAKE_ROLE_RESPONDER"
      "hc_state B3 = HANDSHAKE_STATE_CLIENT_AUTH_VERIFIED" "hc_handshake_id B3 = hc_handshake_id B2" "hc_keys_committed B3"
      "hc_session_keys B3 = Some (traffic_keys (sodium cr) ?x ?ss (hc_session_id A2) ?idA ?idB (hc_th_client_auth A2))"
      "map_option pe_state (pend_map ps' (hc_handshake_id B2)) = Some PENDING_SLOT_CONSUMED"
    using s6 by blast
  let ?B = "B3\<lparr>hc_eph := kex_keypair_zero, hc_peer_eph_pub := zeros 32, hc_state := HANDSHAKE_STATE_ESTABLISHED\<rparr>"
  have fin: "handshake_responder_finish (Some B3) = (HANDSHAKE_OK, Some ?B)"
    using B3(2,3) by (simp add: handshake_responder_finish_def check_call_def)
  have "handshake_inv B2" "pending_inv ps1" "env_ok e5" "env_ok e6" "crypto_sizes cr"
    using h e crypto_correct_sizes [OF cr] by (simp_all add: env_live_def)
  note inv = auth_steps_inv [OF A3 this(1,3,4,5,2) A'(1) B3(1) fin]
  have "auth_phase cr e4 e5 e6 A2 B2 ps1 = Some (A', ?B, ps')"
    using A'(1) B3(1) fin by (simp add: auth_phase_def s4)
  with A'(2-) B3 inv show ?thesis
    by - (rule exI [of _ A'], rule exI [of _ ?B], rule exI [of _ ps'], rule exI, rule exI [of _ "client_auth_bytes m"],
        rule exI [of _ B3], simp)
qed


section \<open>A concrete pair\<close>

lemma keystore_lookup_take: "keystore_lookup ks (Some i) n x = keystore_lookup ks (Some (take n i)) n x"
  by (simp add: keystore_lookup_def find_entry_def entry_matches_def Let_def)

lemma sample_crypto_correct: "crypto_correct sample_crypto"
proof -
  have "fit 32 (fit 1088 c) = fit 32 c" for c
    by (simp add: fit_def zeros_def take_replicate)
  then show ?thesis
    using sample_crypto_sizes mix_bytes_commute
    by (simp add: crypto_correct_def Let_def) (simp add: sample_defs)
qed

lemma sample_env_live: "env_live sample_env"
  using sample_env_ok by (simp add: env_live_def) (simp add: sample_env_def)

lemma sample_sig_pair: "sig_pair (liboqs sample_crypto) (zeros 1952) sk"
  by (simp add: sig_pair_def sample_defs)

lemma sample_peers:
  "\<exists>A B ps. fresh_peers sample_crypto A B \<and> pending_inv ps \<and> pend_map ps = Map.empty \<and> ps_capacity ps = 4 \<and> ps_ttl_ms ps = 1000"
proof -
  let ?kp = "\<lparr>mldsa_public_key = zeros 1952, mldsa_secret_key = Some (zeros 4032)\<rparr>"
  obtain ks where ks: "keystore_inv ks" "ks_map ks = [[2] \<mapsto> zeros 1952]"
    using keystore_add_new [OF keystore_inv_zero, of "zeros 1952" "[2]"]
    by (auto simp: id_len_valid_def ks_map_zero) (auto simp: keystore_zero_def)
  obtain ps where ps: "handshake_pending_store_init (Some (pending_store_zero [])) 4 1000 = (PENDING_OK, Some ps)"
    using pending_init_sample by blast
  then have p: "pending_inv ps" "pend_map ps = Map.empty" "ps_capacity ps = 4" "ps_ttl_ms ps = 1000" "store_usable (Some ps)"
    using pending_init_ok [OF ps]
    by (auto simp: handshake_pending_store_init_def store_init_common_def store_usable_def Let_def split: if_splits)
  obtain A where A: "handshake_initiator_init sample_env (Some handshake_ctx_zero) (Some [1]) 1 (Some ?kp) (Some ks) (Some [2]) 1 =
      (HANDSHAKE_OK, Some A)"
    by (simp add: handshake_initiator_init_def init_common_def id_len_valid_def sample_env_def secure_mem_alloc_def Let_def)
  obtain B where B: "responder_init_impl sample_env (Some handshake_ctx_zero) (Some [2]) 1 (Some ?kp) NULL
      (Some (\<lambda>_ _. Some (zeros 1952))) (Some ps) = (HANDSHAKE_OK, Some B)"
    using p(5) by (simp add: responder_init_impl_def init_common_def id_len_valid_def sample_env_def secure_mem_alloc_def Let_def)
  have a: "hc_role A = HANDSHAKE_ROLE_INITIATOR" "hc_state A = HANDSHAKE_STATE_NEW" "hc_local_id_len A = 1"
    "hc_local_keypair A = Some ?kp" "hc_keystore A = Some ks" "hc_lookup_fn A = NULL" "hc_peer_id_len A = 1"
    "take 1 (hc_peer_id A) = [2]"
    using A by (auto simp: handshake_initiator_init_def init_common_def id_len_valid_def sample_env_def secure_mem_alloc_def
        Let_def handshake_ctx_zero_def memcpy_0)
  have b: "hc_role B = HANDSHAKE_ROLE_RESPONDER" "hc_state B = HANDSHAKE_STATE_NEW" "hc_local_id_len B = 1"
    "hc_local_keypair B = Some ?kp" "hc_lookup_fn B = Some (\<lambda>_ _. Some (zeros 1952))" "take 1 (hc_local_id B) = [2]"
    using B p(5) by (auto simp: responder_init_impl_def init_common_def id_len_valid_def sample_env_def secure_mem_alloc_def
        Let_def handshake_ctx_zero_def memcpy_0)
  have "keystore_lookup (Some ks) (Some (wire_id B)) 1 (Some NULL) = (KEYSTORE_OK, Some (Some (zeros 1952)))"
    using keystore_lookup_spec [OF ks(1), of "[2]" NULL] ks(2) b(3,6)
    by (subst keystore_lookup_take) (simp add: wire_id_def id_len_valid_def memcpy_0)
  then have "fresh_peers sample_crypto A B"
    using a b initiator_init_inv [OF sample_env_ok A] responder_init_inv [OF sample_env_ok B] sample_sig_pair
    by (auto simp: fresh_peers_def has_identity_def id_len_ok_def resolve_peer_pk_def)
  with p show ?thesis by blast
qed


section \<open>What each side knows when its check succeeds\<close>

lemma mldsa_verify_0D:
  "mldsa_verify oq (Some x) n (Some sig) k (Some pk) = 0 \<Longrightarrow> OQS_SIG_verify oq (take n x) (take k sig) (take 1952 pk) = 0"
  by (auto simp: mldsa_verify_def Let_def split: option.splits if_splits)

text \<open>
  C3. The initiator accepts only its intended peer. If verifying a ServerHello succeeds, the bytes are
  exactly one encoded message; it names the peer the context was set up for and echoes the session
  identifier of this run; the key resolved for that peer verifies the signature over the digest of
  both hellos without the signature; and the context afterwards binds the digest and the handshake
  identifier of all bytes received.
\<close>

theorem server_hello_authentic:
  assumes "handshake_inv c" "crypto_sizes cr"
    and "handshake_initiator_verify_server_hello cr e (Some c) (Some b) (length b) = (HANDSHAKE_OK, Some c')"
  shows "\<exists>m pk. wf_server_hello m \<and> server_hello_bytes m = b \<and> sh_id_len m = hc_peer_id_len c \<and>
    take (unat (sh_id_len m)) (sh_id m) = take (unat (sh_id_len m)) (hc_peer_id c) \<and>
    sh_session_id_echo m = hc_session_id c \<and> resolve_peer_pk c (sh_id m) (unat (sh_id_len m)) = Some pk \<and>
    OQS_SIG_verify (liboqs cr)
      (sha256 (sodium cr) TRANSCRIPT_LABEL_SERVER_AUTH (take (hc_ch_len c) (hc_ch_bytes c)) (server_hello_unsigned_bytes m))
      (take (unat (sh_sig_len m)) (sh_sig m)) (take 1952 pk) = 0 \<and>
    hc_peer_pk c' = Some pk \<and> hc_peer_eph_pub c' = sh_ephemeral_pub m \<and> hc_peer_mlkem_ct c' = sh_mlkem_ct m \<and>
    hc_th_client_auth c' = sha256 (sodium cr) TRANSCRIPT_LABEL_CLIENT_AUTH (take (hc_ch_len c) (hc_ch_bytes c)) b \<and>
    hc_handshake_id c' = take 16 (sha256 (sodium cr) TRANSCRIPT_LABEL_HANDSHAKE_ID (take (hc_ch_len c) (hc_ch_bytes c)) b)"
proof -
  have sha: "sha256_digest_len (sodium cr)" using assms(2) by (simp add: crypto_sizes_def)
  from verify_server_hello_success [OF assms(2) inv_struct [OF assms(1)] assms(3)] show ?thesis
    by (elim exE conjE) (use sha in \<open>auto dest!: mldsa_verify_0D sh.enc_dec\<close>)
qed

lemma sample_run:
  "\<exists>A1 A2 B2 sh ca ps1 B3 ps2. handshake_inv A1 \<and> handshake_inv B2 \<and> pending_inv ps1 \<and>
     hc_role B2 = HANDSHAKE_ROLE_RESPONDER \<and> hc_state B2 = HANDSHAKE_STATE_SERVER_HELLO_CREATED \<and>
     (\<exists>pk. hc_peer_pk B2 = Some pk) \<and>
     handshake_initiator_verify_server_hello sample_crypto sample_env (Some A1) (Some sh) (length sh) = (HANDSHAKE_OK, Some A2) \<and>
     handshake_responder_verify_client_auth sample_crypto sample_env (Some B2) (Some ps1) (Some ca) (length ca) =
       ((HANDSHAKE_OK, Some B3), Some ps2)"
proof -
  obtain A B ps where s: "fresh_peers sample_crypto A B" "pending_inv ps" "pend_map ps = Map.empty" "ps_capacity ps = 4" "ps_ttl_ms ps = 1000"
    using sample_peers by blast
  obtain A2 B2 ps1 A1 sh where h: "hello_done sample_crypto sample_env sample_env A B A2 B2 ps ps1" "handshake_inv A1"
    "handshake_initiator_verify_server_hello sample_crypto sample_env (Some A1) (Some sh) (length sh) = (HANDSHAKE_OK, Some A2)"
    using hello_phase_live [OF sample_crypto_correct sample_env_live sample_env_live sample_env_live s(1,2)] s(3,4) by auto
  have "clock_ms sample_env 0 < saturating_deadline (clock_ms sample_env 1) (ps_ttl_ms ps)"
    "clock_ms sample_env 3 < saturating_deadline (clock_ms sample_env 1) (ps_ttl_ms ps)"
    by (simp_all add: s(5) saturating_deadline_def sample_env_def)
  from auth_phase_live [OF sample_crypto_correct sample_env_live sample_env_live sample_env_live sample_env_live s(1) h(1) this]
  obtain ca B3 ps2 where
    "handshake_responder_verify_client_auth sample_crypto sample_env (Some B2) (Some ps1) (Some ca) (length ca) =
       ((HANDSHAKE_OK, Some B3), Some ps2)" by blast
  moreover have "\<exists>pk. hc_peer_pk B2 = Some pk" using h(1) s(1) by (auto simp: hello_done_def fresh_peers_def)
  ultimately show ?thesis using h unfolding hello_done_def by blast
qed

theorem server_hello_authentic_witness:
  "\<exists>c b c' m. handshake_initiator_verify_server_hello sample_crypto sample_env (Some c) (Some b) (length b) = (HANDSHAKE_OK, Some c') \<and>
     server_hello_bytes m = b \<and> sh_session_id_echo m = hc_session_id c"
proof -
  obtain A1 A2 sh where r: "handshake_inv A1"
    "handshake_initiator_verify_server_hello sample_crypto sample_env (Some A1) (Some sh) (length sh) = (HANDSHAKE_OK, Some A2)"
    using sample_run by blast
  with server_hello_authentic [OF r(1) sample_crypto_sizes r(2)] show ?thesis by blast
qed

text \<open>
  C4. The responder commits only to a proved peer. If verifying a ClientAuth succeeds, the bytes are
  exactly one encoded message naming this handshake; the ledger held an active entry for it; the
  signature verifies under the peer's key over the digest stored in that entry; the entry is now
  consumed and every other entry unchanged; and the traffic keys are exactly those derived from the
  X25519 secret, the ML-KEM secret, the session identifier, the identities in the order initiator,
  responder, and that digest.
\<close>

theorem client_auth_commit:
  assumes "handshake_inv c" "crypto_sizes cr" "env_ok e" "pending_inv ps" "hc_peer_pk c = Some pk"
    and "handshake_responder_verify_client_auth cr e (Some c) (Some ps) (Some b) (length b) = ((HANDSHAKE_OK, Some c'), Some ps')"
  shows "\<exists>m en ss_x ss_k keys buf. wf_client_auth m \<and> client_auth_bytes m = b \<and> ca_handshake_id m = hc_handshake_id c \<and>
    pend_map ps (hc_handshake_id c) = Some en \<and> pe_state en = PENDING_SLOT_ACTIVE \<and>
    OQS_SIG_verify (liboqs cr) (pe_th_client_auth en) (take (unat (ca_sig_len m)) (ca_sig m)) (take 1952 pk) = 0 \<and>
    pending_inv ps' \<and> pend_map ps' = (pend_map ps)(hc_handshake_id c \<mapsto> tombstone en PENDING_SLOT_CONSUMED) \<and>
    (\<exists>x. kex_shared_secret (sodium cr) (Some x) (Some (hc_eph c)) (Some (hc_peer_eph_pub c)) = (0, Some ss_x)) \<and>
    hc_ss_kem c = Some ss_k \<and>
    derive_traffic_keys (sodium cr) buf ss_x ss_k (hc_session_id c) (hc_peer_id c) (unat (hc_peer_id_len c))
      (hc_local_id c) (unat (hc_local_id_len c)) (pe_th_client_auth en) = (0, keys) \<and>
    hc_session_keys c' = Some (memcpy (the (hc_session_keys c)) 0 (take 64 keys)) \<and> hc_keys_committed c' \<and> hc_ss_kem c' = NULL"
proof -
  have th: "length (pe_th_client_auth en) = 32" if "pend_map ps i = Some en" for i en
    using pending_inv_ledger_ok [OF assms(4)] that by (simp add: ledger_ok_def pending_entry_ok_def)
  have kx: "\<exists>y. ss = Some y" if "kex_shared_secret so (Some x) kp q = (0, ss)" for so x kp q ss
    using that by (auto simp: kex_shared_secret_def split_beta Let_def split: if_splits)
  from verify_client_auth_success [OF inv_struct [OF assms(1)] assms(4,6)]
  obtain m en x ss_x ss_k buf keys where v: "client_auth_of b = Some m" "ca_handshake_id m = hc_handshake_id c"
    "pend_map ps (hc_handshake_id c) = Some en" "pe_state en = PENDING_SLOT_ACTIVE"
    "mldsa_verify (liboqs cr) (Some (pe_th_client_auth en)) 32 (Some (ca_sig m)) (unat (ca_sig_len m)) (hc_peer_pk c) = 0"
    "kex_shared_secret (sodium cr) (Some x) (Some (hc_eph c)) (Some (hc_peer_eph_pub c)) = (0, ss_x)"
    "hc_ss_kem c = Some ss_k"
    "derive_traffic_keys (sodium cr) buf (the ss_x) ss_k (hc_session_id c) (hc_peer_id c) (unat (hc_peer_id_len c))
      (hc_local_id c) (unat (hc_local_id_len c)) (pe_th_client_auth en) = (0, keys)"
    "pending_inv ps'" "pend_map ps' = (pend_map ps)(hc_handshake_id c \<mapsto> tombstone en PENDING_SLOT_CONSUMED)"
    "c' = c\<lparr>hc_session_keys := Some (memcpy (the (hc_session_keys c)) 0 (take 64 keys)), hc_keys_committed := True,
      hc_ss_kem := NULL, hc_state := HANDSHAKE_STATE_CLIENT_AUTH_VERIFIED\<rparr>"
    by (elim exE conjE) (rule that; (assumption | simp only: option.inject))
  obtain y where y: "ss_x = Some y" using kx [OF v(6)] by blast
  have "OQS_SIG_verify (liboqs cr) (pe_th_client_auth en) (take (unat (ca_sig_len m)) (ca_sig m)) (take 1952 pk) = 0"
    using v(5) th [OF v(3)] mldsa_verify_0D [of "liboqs cr" "pe_th_client_auth en" 32] assms(5) by simp
  then show ?thesis
    using v y ca.enc_dec [OF v(1)]
    by - (rule exI [of _ m], rule exI [of _ en], rule exI [of _ y], rule exI [of _ ss_k], rule exI [of _ keys],
        rule exI [of _ buf], auto)
qed

theorem client_auth_commit_witness:
  "\<exists>c ps b c' ps'. handshake_responder_verify_client_auth sample_crypto sample_env (Some c) (Some ps) (Some b) (length b) =
       ((HANDSHAKE_OK, Some c'), Some ps') \<and>
     map_option pe_state (pend_map ps' (hc_handshake_id c)) = Some PENDING_SLOT_CONSUMED"
proof -
  obtain B2 ca ps1 B3 ps2 pk where r: "handshake_inv B2" "pending_inv ps1" "hc_peer_pk B2 = Some pk"
    "handshake_responder_verify_client_auth sample_crypto sample_env (Some B2) (Some ps1) (Some ca) (length ca) =
       ((HANDSHAKE_OK, Some B3), Some ps2)"
    using sample_run by blast
  from client_auth_commit [OF r(1) sample_crypto_sizes sample_env_ok r(2,3,4)] r(4) show ?thesis
    by - (rule exI [of _ B2], rule exI [of _ ps1], rule exI [of _ ca], rule exI [of _ B3], rule exI [of _ ps2],
        auto simp: tombstone_def)
qed



end
