(* ===== verification/Session.thy ===== *)
theory Session
  imports Handshake
begin

text \<open>
  The record layer, \<open>src/protocol/session.c\<close> with the types of \<open>session.h\<close>: one definition per
  function.

  A buffer is its address and its contents, since the code refuses overlapping buffers by comparing
  addresses; the pointer \<open>out + k\<close> into a buffer is the rest of the contents from \<open>k\<close>. What the
  clock function of the session returns is the argument \<open>now\<close>. The function pointer itself is not a
  field: it is fixed at initialisation and only called.
\<close>

abbreviation (input) SESSION_RECORD_TYPE :: byte where "SESSION_RECORD_TYPE \<equiv> 0x04"
abbreviation (input) SESSION_HEADER_BYTES :: nat where "SESSION_HEADER_BYTES \<equiv> 9"
abbreviation (input) SESSION_OVERHEAD_BYTES :: nat where "SESSION_OVERHEAD_BYTES \<equiv> 25"
abbreviation (input) SESSION_MAX_PLAINTEXT_BYTES :: nat where "SESSION_MAX_PLAINTEXT_BYTES \<equiv> 65536"
abbreviation (input) SESSION_CONTENT_LEN_BYTES :: nat where "SESSION_CONTENT_LEN_BYTES \<equiv> 2"
abbreviation (input) SESSION_MAX_CONTENT_BYTES :: nat where "SESSION_MAX_CONTENT_BYTES \<equiv> 65534"
abbreviation (input) SESSION_MAX_RECORD_BYTES :: nat where "SESSION_MAX_RECORD_BYTES \<equiv> 65561"
abbreviation (input) SESSION_MIN_RECORD_BYTES :: nat where "SESSION_MIN_RECORD_BYTES \<equiv> 27"
abbreviation (input) SESSION_AD_BYTES :: nat where "SESSION_AD_BYTES \<equiv> 47"
abbreviation (input) SESSION_REKEY_AFTER_MESSAGES :: u64 where "SESSION_REKEY_AFTER_MESSAGES \<equiv> 4294967296"
abbreviation (input) SESSION_REJECT_AFTER_MESSAGES :: u64 where "SESSION_REJECT_AFTER_MESSAGES \<equiv> 8589934592"
abbreviation (input) SESSION_REKEY_AFTER_MS :: u64 where "SESSION_REKEY_AFTER_MS \<equiv> 3600000"
abbreviation (input) SESSION_REJECT_AFTER_MS :: u64 where "SESSION_REJECT_AFTER_MS \<equiv> 3900000"
abbreviation (input) KEY_BLOCK_LEN :: nat where "KEY_BLOCK_LEN \<equiv> 64"
abbreviation (input) SEND_KEY_OFFSET :: nat where "SEND_KEY_OFFSET \<equiv> 0"
abbreviation (input) RECV_KEY_OFFSET :: nat where "RECV_KEY_OFFSET \<equiv> 32"

type_synonym buffer = "u64 \<times> bytes"

datatype session_state_t = SESSION_STATE_EMPTY | SESSION_STATE_ACTIVE | SESSION_STATE_EXPIRED | SESSION_STATE_FAILED

datatype session_status_t =
    SESSION_OK
  | SESSION_ERR_INVALID_ARG
  | SESSION_ERR_UNEXPECTED_STATE
  | SESSION_ERR_MALFORMED
  | SESSION_ERR_REPLAY
  | SESSION_ERR_OUT_OF_ORDER
  | SESSION_ERR_AUTH
  | SESSION_ERR_LIMIT
  | SESSION_ERR_EXPIRED
  | SESSION_ERR_RESOURCE_EXHAUSTED
  | SESSION_ERR_INTERNAL

record session_limits_t =
  rekey_after_messages :: u64
  reject_after_messages :: u64
  rekey_after_ms :: u64
  reject_after_ms :: u64
  pad_bucket :: u32

record session_t =
  sn_state :: session_state_t
  sn_role :: handshake_role_t
  sn_peer_confirmed :: bool
  sn_keys :: "bytes ptr"
  sn_send_dir :: byte
  sn_recv_dir :: byte
  sn_handshake_id :: bytes
  sn_send_seq :: u64
  sn_recv_seq :: u64
  sn_start_ms :: u64
  sn_limits :: session_limits_t

definition SESSION_AD_LABEL :: bytes where
  "SESSION_AD_LABEL = ascii ''mldsa-auth/v2/record''"

definition session_zero :: session_t where
  "session_zero = \<lparr>sn_state = SESSION_STATE_EMPTY, sn_role = ROLE_ZERO, sn_peer_confirmed = False, sn_keys = NULL,
     sn_send_dir = 0, sn_recv_dir = 0, sn_handshake_id = zeros WIRE_HANDSHAKE_ID_LEN, sn_send_seq = 0, sn_recv_seq = 0,
     sn_start_ms = 0, sn_limits = \<lparr>rekey_after_messages = 0, reject_after_messages = 0, rekey_after_ms = 0,
       reject_after_ms = 0, pad_bucket = 0\<rparr>\<rparr>"

section \<open>Setup and teardown\<close>

definition session_default_limits :: "session_limits_t ptr \<Rightarrow> session_limits_t ptr" where
  "session_default_limits out =
     (case out of NULL \<Rightarrow> NULL
      | Some _ \<Rightarrow> Some \<lparr>rekey_after_messages = SESSION_REKEY_AFTER_MESSAGES,
          reject_after_messages = SESSION_REJECT_AFTER_MESSAGES, rekey_after_ms = SESSION_REKEY_AFTER_MS,
          reject_after_ms = SESSION_REJECT_AFTER_MS, pad_bucket = 256\<rparr>)"

definition pad_bucket_valid :: "u32 \<Rightarrow> bool" where
  "pad_bucket_valid bucket \<longleftrightarrow>
     bucket = 1 \<or> bucket = 16 \<or> bucket = 64 \<or> bucket = 256 \<or> bucket = 1024 \<or> bucket = 4096"

definition limits_valid :: "session_limits_t \<Rightarrow> bool" where
  "limits_valid l \<longleftrightarrow>
     rekey_after_messages l \<ge> 1 \<and> rekey_after_messages l \<le> reject_after_messages l \<and>
     reject_after_messages l \<le> SESSION_REJECT_AFTER_MESSAGES \<and>
     rekey_after_messages l \<le> SESSION_REKEY_AFTER_MESSAGES \<and> rekey_after_ms l \<ge> 1 \<and>
     rekey_after_ms l \<le> reject_after_ms l \<and> reject_after_ms l \<le> SESSION_REJECT_AFTER_MS \<and>
     rekey_after_ms l \<le> SESSION_REKEY_AFTER_MS \<and> pad_bucket_valid (pad_bucket l)"

text \<open>
  A handshake context is consumed with its ledger, which \<open>handshake_ctx_wipe\<close> may use. The pointers
  read through the accessors are \<open>c2s\<close> and \<open>s2c\<close>.
\<close>

definition session_init_from_handshake ::
  "env \<Rightarrow> session_t ptr \<Rightarrow> handshake_ctx_t ptr \<Rightarrow> handshake_pending_store_t ptr \<Rightarrow> session_limits_t ptr \<Rightarrow>
   session_status_t \<times> session_t ptr \<times> handshake_ctx_t ptr \<times> handshake_pending_store_t ptr" where
  "session_init_from_handshake e s hs pending limits =
     (if s = NULL \<or> hs = NULL then (SESSION_ERR_INVALID_ARG, s, hs, pending)
      else if sn_state (the s) \<noteq> SESSION_STATE_EMPTY \<or> sn_keys (the s) \<noteq> NULL
      then (SESSION_ERR_UNEXPECTED_STATE, s, hs, pending)
      else if limits \<noteq> NULL \<and> \<not> limits_valid (the limits) then (SESSION_ERR_INVALID_ARG, s, hs, pending)
      else
        let eff = the (session_default_limits (Some (sn_limits (the s))));
            eff = (case limits of NULL \<Rightarrow> eff | Some l \<Rightarrow> l);
            (st_role, role) = handshake_get_role hs (Some ROLE_ZERO);
            (st_c2s, c2s) = handshake_session_key_c2s hs (Some NULL);
            (st_s2c, s2c) = handshake_session_key_s2c hs (Some NULL);
            (st_id, handshake_id) = handshake_get_handshake_id hs (Some (zeros WIRE_HANDSHAKE_ID_LEN))
        in if handshake_get_state hs \<noteq> HANDSHAKE_STATE_ESTABLISHED \<or> st_role \<noteq> HANDSHAKE_OK \<or>
             st_c2s \<noteq> HANDSHAKE_OK \<or> st_s2c \<noteq> HANDSHAKE_OK \<or> st_id \<noteq> HANDSHAKE_OK
           then (SESSION_ERR_UNEXPECTED_STATE, s, hs, pending)
           else if the role = HANDSHAKE_ROLE_RESPONDER \<and> \<not> handshake_is_peer_confirmed hs
           then (SESSION_ERR_UNEXPECTED_STATE, s, hs, pending)
           else
             let now = clock_ms e 0
             in if now = UINT64_MAX then (SESSION_ERR_EXPIRED, s, hs, pending)
                else
                  (case secure_mem_alloc e 0 KEY_BLOCK_LEN of
                     NULL \<Rightarrow> (SESSION_ERR_RESOURCE_EXHAUSTED, s, hs, pending)
                   | Some keys \<Rightarrow>
                     let initiator = (the role = HANDSHAKE_ROLE_INITIATOR);
                         keys = memcpy keys SEND_KEY_OFFSET (take AEAD_KEY_BYTES (the (the (if initiator then c2s else s2c))));
                         keys = memcpy keys RECV_KEY_OFFSET (take AEAD_KEY_BYTES (the (the (if initiator then s2c else c2s))));
                         s = (the s)\<lparr>
                           sn_role := the role,
                           sn_peer_confirmed := \<not> initiator,
                           sn_keys := Some keys,
                           sn_send_dir := (if initiator then KEX_DIR_C2S else KEX_DIR_S2C),
                           sn_recv_dir := (if initiator then KEX_DIR_S2C else KEX_DIR_C2S),
                           sn_handshake_id := memcpy (sn_handshake_id (the s)) 0 (take WIRE_HANDSHAKE_ID_LEN (the handshake_id)),
                           sn_send_seq := 0,
                           sn_recv_seq := 0,
                           sn_start_ms := now,
                           sn_limits := eff,
                           sn_state := SESSION_STATE_ACTIVE\<rparr>;
                         (hs, pending) = handshake_ctx_wipe e hs pending
                     in (SESSION_OK, Some s, hs, pending)))"

definition session_wipe :: "session_t ptr \<Rightarrow> session_t ptr" where
  "session_wipe s = (case s of NULL \<Rightarrow> NULL | Some _ \<Rightarrow> Some session_zero)"

definition session_get_state :: "session_t ptr \<Rightarrow> session_state_t" where
  "session_get_state s = (case s of NULL \<Rightarrow> SESSION_STATE_EMPTY | Some s \<Rightarrow> sn_state s)"

section \<open>Steady state\<close>

definition session_age_ms :: "session_t \<Rightarrow> u64 \<Rightarrow> u64" where
  "session_age_ms s now =
     (if now = UINT64_MAX \<or> now < sn_start_ms s then UINT64_MAX else now - sn_start_ms s)"

definition terminate ::
  "session_t \<Rightarrow> session_state_t \<Rightarrow> session_status_t \<Rightarrow> session_status_t \<times> session_t ptr" where
  "terminate s state why =
     (why, Some (s\<lparr>sn_keys := secure_mem_wipe (sn_keys s) KEY_BLOCK_LEN, sn_peer_confirmed := False,
        sn_state := state\<rparr>))"

definition build_nonce :: "u64 \<Rightarrow> bytes" where
  "build_nonce seq =
     (let nonce = zeros AEAD_NONCE_BYTES; nonce = memcpy nonce 0 (zeros 4)
      in memcpy nonce 4 (store_be64 seq))"

definition build_ad :: "session_t \<Rightarrow> byte \<Rightarrow> u64 \<Rightarrow> bytes" where
  "build_ad s direction seq =
     (let ad = zeros SESSION_AD_BYTES; off = 0;
          ad = memcpy ad off SESSION_AD_LABEL; off = off + length SESSION_AD_LABEL;
          ad = memcpy ad off [0x00]; off = off + 1;
          ad = memcpy ad off (take WIRE_HANDSHAKE_ID_LEN (sn_handshake_id s)); off = off + WIRE_HANDSHAKE_ID_LEN;
          ad = memcpy ad off [direction]; off = off + 1;
          ad = memcpy ad off [SESSION_RECORD_TYPE]; off = off + 1
      in memcpy ad off (store_be64 seq))"

definition inner_len_for :: "nat \<Rightarrow> u32 \<Rightarrow> nat" where
  "inner_len_for content_len bucket =
     (let b = unat bucket in ((content_len + SESSION_CONTENT_LEN_BYTES + b - 1) div b) * b)"

definition session_sealed_len :: "session_t ptr \<Rightarrow> nat \<Rightarrow> nat" where
  "session_sealed_len s content_len =
     (if s = NULL \<or> content_len > SESSION_MAX_CONTENT_BYTES \<or> \<not> pad_bucket_valid (pad_bucket (sn_limits (the s)))
      then 0
      else inner_len_for content_len (pad_bucket (sn_limits (the s))) + SESSION_OVERHEAD_BYTES)"

definition ranges_overlap :: "u64 \<Rightarrow> nat \<Rightarrow> u64 \<Rightarrow> nat \<Rightarrow> bool" where
  "ranges_overlap a a_len b b_len \<longleftrightarrow>
     (if a_len = 0 \<or> b_len = 0 then False else a < b + of_nat b_len \<and> b < a + of_nat a_len)"

definition addr :: "buffer ptr \<Rightarrow> u64" where
  "addr p = (case p of NULL \<Rightarrow> 0 | Some b \<Rightarrow> fst b)"

lemma addr_Some [simp]: "addr (Some (a, b)) = a"
  by (simp add: addr_def)

definition session_seal ::
  "sodium \<Rightarrow> u64 \<Rightarrow> session_t ptr \<Rightarrow> buffer ptr \<Rightarrow> nat \<Rightarrow> buffer ptr \<Rightarrow> nat \<Rightarrow> nat ptr \<Rightarrow>
   (session_status_t \<times> session_t ptr) \<times> buffer ptr \<times> nat ptr" where
  "session_seal so now sp pt pt_len out out_cap out_len =
     (if sp = NULL \<or> out = NULL \<or> out_len = NULL \<or> (pt = NULL \<and> pt_len \<noteq> 0) \<or> pt_len > SESSION_MAX_CONTENT_BYTES
      then ((SESSION_ERR_INVALID_ARG, sp), out, out_len)
      else let s = the sp in
      if sn_state s \<noteq> SESSION_STATE_ACTIVE then ((SESSION_ERR_UNEXPECTED_STATE, sp), out, out_len)
      else if \<not> pad_bucket_valid (pad_bucket (sn_limits s)) then ((SESSION_ERR_INTERNAL, sp), out, out_len)
      else
        let inner_len = inner_len_for pt_len (pad_bucket (sn_limits s));
            need = inner_len + SESSION_OVERHEAD_BYTES
        in if out_cap < need \<or> ranges_overlap (addr pt) pt_len (addr out) need
        then ((SESSION_ERR_INVALID_ARG, sp), out, out_len)
        else if session_age_ms s now \<ge> reject_after_ms (sn_limits s) \<or>
          sn_send_seq s \<ge> reject_after_messages (sn_limits s)
        then (terminate s SESSION_STATE_EXPIRED SESSION_ERR_EXPIRED, out, out_len)
        else
          let seq = sn_send_seq s; s = s\<lparr>sn_send_seq := seq + 1\<rparr>;
              nonce = build_nonce seq; ad = build_ad s (sn_send_dir s) seq;
              (a, o') = the out;
              o' = memcpy o' 0 [SESSION_RECORD_TYPE];
              o' = memcpy o' 1 (store_be64 seq);
              o' = memcpy o' SESSION_HEADER_BYTES (store_be16 (of_nat pt_len));
              o' = (if pt_len \<noteq> 0
                    then memcpy o' (SESSION_HEADER_BYTES + SESSION_CONTENT_LEN_BYTES) (take pt_len (snd (the pt)))
                    else o');
              used = SESSION_CONTENT_LEN_BYTES + pt_len;
              o' = memcpy o' (SESSION_HEADER_BYTES + used) (zeros (inner_len - used));
              inner = drop SESSION_HEADER_BYTES o';
              (rc, inner', ct_len) = aead_encrypt so (Some inner) (Some 0) (Some inner) inner_len (Some ad)
                SESSION_AD_BYTES (Some nonce) (map_option (drop SEND_KEY_OFFSET) (sn_keys s));
              o' = take SESSION_HEADER_BYTES o' @ the inner'
          in if rc \<noteq> 0 \<or> the ct_len \<noteq> inner_len + AEAD_TAG_BYTES
             then (terminate s SESSION_STATE_FAILED SESSION_ERR_INTERNAL, Some (a, memcpy o' 0 (zeros need)), out_len)
             else ((SESSION_OK, Some s), Some (a, o'), Some need))"

definition session_open ::
  "sodium \<Rightarrow> u64 \<Rightarrow> session_t ptr \<Rightarrow> buffer ptr \<Rightarrow> nat \<Rightarrow> buffer ptr \<Rightarrow> nat \<Rightarrow> nat ptr \<Rightarrow>
   (session_status_t \<times> session_t ptr) \<times> buffer ptr \<times> nat ptr" where
  "session_open so now sp rec rec_len pt_out pt_cap pt_len =
     (if sp = NULL \<or> rec = NULL \<or> pt_out = NULL \<or> pt_len = NULL
      then ((SESSION_ERR_INVALID_ARG, sp), pt_out, pt_len)
      else
        let s = the sp;
            writable = (if pt_cap < SESSION_MAX_PLAINTEXT_BYTES then pt_cap else SESSION_MAX_PLAINTEXT_BYTES)
        in if ranges_overlap (addr rec) rec_len (addr pt_out) writable
        then ((SESSION_ERR_INVALID_ARG, sp), pt_out, pt_len)
        else if sn_state s \<noteq> SESSION_STATE_ACTIVE then ((SESSION_ERR_UNEXPECTED_STATE, sp), pt_out, pt_len)
        else if session_age_ms s now \<ge> reject_after_ms (sn_limits s)
        then (terminate s SESSION_STATE_EXPIRED SESSION_ERR_EXPIRED, pt_out, pt_len)
        else if rec_len < SESSION_MIN_RECORD_BYTES \<or> rec_len > SESSION_MAX_RECORD_BYTES \<or>
          snd (the rec) ! 0 \<noteq> SESSION_RECORD_TYPE
        then (terminate s SESSION_STATE_FAILED SESSION_ERR_MALFORMED, pt_out, pt_len)
        else
          let body = rec_len - SESSION_OVERHEAD_BYTES
          in if pt_cap < body then ((SESSION_ERR_INVALID_ARG, sp), pt_out, pt_len)
          else
            let seq = load_be64 (drop 1 (snd (the rec)))
            in if seq < sn_recv_seq s
            then (terminate s SESSION_STATE_FAILED SESSION_ERR_REPLAY, pt_out, pt_len)
            else if seq > sn_recv_seq s
            then (terminate s SESSION_STATE_FAILED SESSION_ERR_OUT_OF_ORDER, pt_out, pt_len)
            else if seq \<ge> reject_after_messages (sn_limits s)
            then (terminate s SESSION_STATE_FAILED SESSION_ERR_LIMIT, pt_out, pt_len)
            else
              let nonce = build_nonce seq; ad = build_ad s (sn_recv_dir s) seq;
                  (rc, p, got) = aead_decrypt so (Some (snd (the pt_out))) (Some 0)
                    (Some (drop SESSION_HEADER_BYTES (snd (the rec)))) (rec_len - SESSION_HEADER_BYTES)
                    (Some ad) SESSION_AD_BYTES (Some nonce) (map_option (drop RECV_KEY_OFFSET) (sn_keys s));
                  p = the p; a = fst (the pt_out)
              in if rc \<noteq> 0 \<or> the got \<noteq> body
              then (terminate s SESSION_STATE_FAILED SESSION_ERR_AUTH, Some (a, memcpy p 0 (zeros body)), pt_len)
              else
                let content_len = unat (load_be16 p)
                in if content_len > body - SESSION_CONTENT_LEN_BYTES
                then (terminate s SESSION_STATE_FAILED SESSION_ERR_MALFORMED, Some (a, memcpy p 0 (zeros body)), pt_len)
                else
                  let pad_len = body - SESSION_CONTENT_LEN_BYTES - content_len
                  in if pad_len \<noteq> 0 \<and> bslice p (SESSION_CONTENT_LEN_BYTES + content_len) pad_len \<noteq> zeros pad_len
                  then (terminate s SESSION_STATE_FAILED SESSION_ERR_MALFORMED, Some (a, memcpy p 0 (zeros body)), pt_len)
                  else
                    let p = (if content_len \<noteq> 0 then memcpy p 0 (bslice p SESSION_CONTENT_LEN_BYTES content_len) else p);
                        p = memcpy p content_len (zeros (body - content_len));
                        s = s\<lparr>sn_recv_seq := seq + 1\<rparr>;
                        s = (if sn_role s = HANDSHAKE_ROLE_INITIATOR then s\<lparr>sn_peer_confirmed := True\<rparr> else s)
                    in ((SESSION_OK, Some s), Some (a, p), Some content_len))"

definition session_is_peer_confirmed :: "session_t ptr \<Rightarrow> bool" where
  "session_is_peer_confirmed s \<longleftrightarrow>
     (case s of NULL \<Rightarrow> False | Some s \<Rightarrow> sn_state s = SESSION_STATE_ACTIVE \<and> sn_peer_confirmed s)"

definition session_rekey_due :: "session_t ptr \<Rightarrow> u64 \<Rightarrow> bool" where
  "session_rekey_due s now \<longleftrightarrow>
     (case s of NULL \<Rightarrow> True
      | Some s \<Rightarrow>
        if sn_state s \<noteq> SESSION_STATE_ACTIVE then True
        else sn_send_seq s \<ge> rekey_after_messages (sn_limits s) \<or>
          sn_recv_seq s \<ge> rekey_after_messages (sn_limits s) \<or>
          session_age_ms s now \<ge> rekey_after_ms (sn_limits s))"

section \<open>Closed forms\<close>

text \<open>The nonce, the associated data and the padded plaintext as concatenations.\<close>

definition nonce_of :: "u64 \<Rightarrow> bytes" where
  "nonce_of seq = zeros 4 @ store_be64 seq"

definition ad_of :: "bytes \<Rightarrow> byte \<Rightarrow> u64 \<Rightarrow> bytes" where
  "ad_of hid dir seq = SESSION_AD_LABEL @ [0] @ hid @ [dir, SESSION_RECORD_TYPE] @ store_be64 seq"

definition inner_of :: "bytes \<Rightarrow> nat \<Rightarrow> bytes" where
  "inner_of c n = store_be16 (of_nat (length c)) @ c @ zeros (n - 2 - length c)"

lemma length_SESSION_AD_LABEL [simp]: "length SESSION_AD_LABEL = 20"
  by (simp add: SESSION_AD_LABEL_def ascii_def)

lemma build_nonce_eq: "build_nonce seq = nonce_of seq"
proof -
  have "zeros 12 = zeros 4 @ zeros 8" by (simp add: zeros_append)
  then show ?thesis by (simp add: build_nonce_def nonce_of_def memcpy_def Let_def)
qed

lemma build_ad_eq: "length (sn_handshake_id s) = 16 \<Longrightarrow> build_ad s d seq = ad_of (sn_handshake_id s) d seq"
proof -
  assume h: "length (sn_handshake_id s) = 16"
  have "memcpy (zeros 47) 0 SESSION_AD_LABEL = memcpy (memcpy (zeros 47) 0 []) 0 SESSION_AD_LABEL" by (simp add: memcpy_def)
  with h show ?thesis by (simp add: build_ad_def Let_def memcpy_append ad_of_def)
qed

lemma nonce_of_inj [simp]: "nonce_of a = nonce_of b \<longleftrightarrow> a = b"
  by (simp add: nonce_of_def)

lemma length_nonce_of [simp]: "length (nonce_of seq) = 12"
  by (simp add: nonce_of_def)

lemma length_ad_of [simp]: "length (ad_of hid d seq) = 31 + length hid"
  by (simp add: ad_of_def)

lemma ad_of_inj: "length h = 16 \<Longrightarrow> length h' = 16 \<Longrightarrow> ad_of h d n = ad_of h' d' n' \<longleftrightarrow> h = h' \<and> d = d' \<and> n = n'"
  by (auto simp: ad_of_def)

lemma length_inner_of: "2 + length c \<le> n \<Longrightarrow> length (inner_of c n) = n"
  by (simp add: inner_of_def)

subsection \<open>Padding\<close>

lemma pad_bucket_cases:
  "pad_bucket_valid b \<Longrightarrow> unat b \<in> {1, 16, 64, 256, 1024, 4096}"
  by (auto simp: pad_bucket_valid_def)

lemma inner_len_for_ceil:
  assumes "pad_bucket_valid b"
  shows "n + 2 \<le> inner_len_for n b" "inner_len_for n b < n + 2 + unat b" "unat b dvd inner_len_for n b"
proof -
  let ?b = "unat b"
  have b: "0 < ?b" using pad_bucket_cases [OF assms] by auto
  have "n + 2 + ?b - 1 = (n + 2 + ?b - 1) div ?b * ?b + (n + 2 + ?b - 1) mod ?b" by simp
  moreover have "(n + 2 + ?b - 1) mod ?b < ?b" using b by simp
  ultimately show "n + 2 \<le> inner_len_for n b" "inner_len_for n b < n + 2 + ?b"
    using b by (simp_all only: inner_len_for_def Let_def)
  show "?b dvd inner_len_for n b" by (simp add: inner_len_for_def Let_def)
qed

lemma inner_len_for_max:
  assumes "pad_bucket_valid b" "n \<le> 65534"
  shows "inner_len_for n b \<le> 65536"
proof -
  have d: "unat b dvd 65536" using pad_bucket_cases [OF assms(1)] by auto
  then obtain q where q: "65536 = unat b * q" by (elim dvdE)
  obtain r where r: "inner_len_for n b = unat b * r" using inner_len_for_ceil(3) [OF assms(1), of n] by (elim dvdE)
  have "inner_len_for n b < 65536 + unat b" using inner_len_for_ceil(2) [OF assms(1), of n] assms(2) by linarith
  then have "unat b * r < unat b * (q + 1)" using q r by (simp add: algebra_simps)
  then have "r \<le> q" by (simp only: nat_mult_less_cancel_disj) simp
  then have "unat b * r \<le> unat b * q" by (rule mult_le_mono2)
  with q r show ?thesis by linarith
qed

subsection \<open>Sealing\<close>

text \<open>
  The checks of \<open>session_seal\<close> before the encryption, as one verdict; the content, and the one AEAD
  call that follows when the verdict is \<open>SESSION_OK\<close>.
\<close>

definition seal_verdict :: "u64 \<Rightarrow> session_t \<Rightarrow> buffer ptr \<Rightarrow> nat \<Rightarrow> u64 \<Rightarrow> nat \<Rightarrow> session_status_t" where
  "seal_verdict now s pt n oa cap =
     (if n > SESSION_MAX_CONTENT_BYTES then SESSION_ERR_INVALID_ARG
      else if sn_state s \<noteq> SESSION_STATE_ACTIVE then SESSION_ERR_UNEXPECTED_STATE
      else if \<not> pad_bucket_valid (pad_bucket (sn_limits s)) then SESSION_ERR_INTERNAL
      else if cap < session_sealed_len (Some s) n \<or> ranges_overlap (addr pt) n oa (session_sealed_len (Some s) n)
      then SESSION_ERR_INVALID_ARG
      else if session_age_ms s now \<ge> reject_after_ms (sn_limits s) \<or> sn_send_seq s \<ge> reject_after_messages (sn_limits s)
      then SESSION_ERR_EXPIRED
      else SESSION_OK)"

definition content :: "buffer ptr \<Rightarrow> nat \<Rightarrow> bytes" where
  "content pt n = (case pt of NULL \<Rightarrow> [] | Some b \<Rightarrow> take n (snd b))"

type_synonym aead_call = "bytes \<times> bytes \<times> bytes \<times> bytes"

definition seal_call :: "session_t \<Rightarrow> bytes \<Rightarrow> aead_call" where
  "seal_call s c = (inner_of c (inner_len_for (length c) (pad_bucket (sn_limits s))),
     ad_of (sn_handshake_id s) (sn_send_dir s) (sn_send_seq s), nonce_of (sn_send_seq s), take 32 (the (sn_keys s)))"

definition encrypt_call :: "sodium \<Rightarrow> aead_call \<Rightarrow> int \<times> bytes" where
  "encrypt_call so q = (case q of (m, ad, n, k) \<Rightarrow> chacha20poly1305_ietf_encrypt so m ad n k)"

definition bump :: "session_t \<Rightarrow> session_t" where
  "bump s = s\<lparr>sn_send_seq := sn_send_seq s + 1\<rparr>"

definition session_shape :: "session_t \<Rightarrow> bool" where
  "session_shape s \<longleftrightarrow> length (sn_handshake_id s) = 16 \<and>
     (case sn_keys s of NULL \<Rightarrow> sn_state s = SESSION_STATE_EMPTY | Some k \<Rightarrow> length k = 64)"

lemma seal_buffer:
  fixes o' c :: bytes and seq :: u64 and n l :: nat
  assumes "length c = n" "n + 2 \<le> l" "l + 25 \<le> length o'"
  defines "o1 \<equiv> memcpy (memcpy (memcpy (memcpy o' 0 [SESSION_RECORD_TYPE]) 1 (store_be64 seq)) 9 (store_be16 (of_nat n))) 11 c"
  shows "memcpy o1 (11 + n) (zeros (l - (2 + n))) = memcpy o' 0 ((SESSION_RECORD_TYPE # store_be64 seq) @ inner_of c l)"
    "take 9 (memcpy o' 0 ((SESSION_RECORD_TYPE # store_be64 seq) @ inner_of c l)) = SESSION_RECORD_TYPE # store_be64 seq"
    "drop 9 (memcpy o' 0 ((SESSION_RECORD_TYPE # store_be64 seq) @ inner_of c l)) = memcpy (drop 9 o') 0 (inner_of c l)"
proof -
  have l: "length (inner_of c l) = l" using assms(1,2) by (simp add: length_inner_of)
  show "memcpy o1 (11 + n) (zeros (l - (2 + n))) = memcpy o' 0 ((SESSION_RECORD_TYPE # store_be64 seq) @ inner_of c l)"
    using assms(1-3) unfolding o1_def by (simp add: memcpy_append inner_of_def)
  show "take 9 (memcpy o' 0 ((SESSION_RECORD_TYPE # store_be64 seq) @ inner_of c l)) = SESSION_RECORD_TYPE # store_be64 seq"
    by (simp add: memcpy_0)
  show "drop 9 (memcpy o' 0 ((SESSION_RECORD_TYPE # store_be64 seq) @ inner_of c l)) = memcpy (drop 9 o') 0 (inner_of c l)"
    using l by (simp add: memcpy_0 add.commute)
qed

lemma session_seal_eq:
  assumes "session_shape s" "length (content pt n) = n" "cap \<le> length o'"
  shows "session_seal so now (Some s) pt n (Some (oa, o')) cap (Some k) =
    (case seal_verdict now s pt n oa cap of
       SESSION_OK \<Rightarrow>
         let (rc, ct) = encrypt_call so (seal_call s (content pt n)); need = session_sealed_len (Some s) n
         in if rc \<noteq> 0 \<or> length ct \<noteq> need - 9
            then (terminate (bump s) SESSION_STATE_FAILED SESSION_ERR_INTERNAL,
                  Some (oa, zeros need @ drop need ((SESSION_RECORD_TYPE # store_be64 (sn_send_seq s)) @
                    memcpy (memcpy (drop 9 o') 0 (fst (seal_call s (content pt n)))) 0 ct)), Some k)
            else ((SESSION_OK, Some (bump s)),
                  Some (oa, memcpy o' 0 ((SESSION_RECORD_TYPE # store_be64 (sn_send_seq s)) @ ct)), Some need)
     | SESSION_ERR_EXPIRED \<Rightarrow> (terminate s SESSION_STATE_EXPIRED SESSION_ERR_EXPIRED, Some (oa, o'), Some k)
     | st \<Rightarrow> ((st, Some s), Some (oa, o'), Some k))"
proof (cases "seal_verdict now s pt n oa cap = SESSION_OK")
  case False
  have "pt = NULL \<Longrightarrow> n = 0" using assms(2) by (simp add: content_def)
  then show ?thesis
    using False unfolding session_seal_def seal_verdict_def
    by (cases pt; cases "n > 65534"; cases "sn_state s = SESSION_STATE_ACTIVE"; cases "pad_bucket_valid (pad_bucket (sn_limits s))";
        cases "cap < session_sealed_len (Some s) n \<or> ranges_overlap (addr pt) n oa (session_sealed_len (Some s) n)";
        cases "session_age_ms s now \<ge> reject_after_ms (sn_limits s) \<or> sn_send_seq s \<ge> reject_after_messages (sn_limits s)")
      (simp_all add: Let_def session_sealed_len_def)
next
  case True
  let ?l = "inner_len_for n (pad_bucket (sn_limits s))" and ?c = "content pt n" and ?h = "SESSION_RECORD_TYPE # store_be64 (sn_send_seq s)"
  have g: "n \<le> 65534" "sn_state s = SESSION_STATE_ACTIVE" "pad_bucket_valid (pad_bucket (sn_limits s))" "?l + 25 \<le> cap"
    "\<not> ranges_overlap (addr pt) n oa (?l + 25)" "\<not> reject_after_ms (sn_limits s) \<le> session_age_ms s now"
    "\<not> reject_after_messages (sn_limits s) \<le> sn_send_seq s"
    using True by (auto simp: seal_verdict_def session_sealed_len_def split: if_splits)
  have n: "pt = NULL \<Longrightarrow> n = 0" "take n (snd (the pt)) = ?c \<or> n = 0" "n = 0 \<Longrightarrow> ?c = []"
    using assms(2) by (auto simp: content_def split: option.splits)
  have l: "n + 2 \<le> ?l" "?l + 25 \<le> length o'" using inner_len_for_ceil(1) [OF g(3)] g(4) assms(3) by simp_all
  note buf = seal_buffer [OF assms(2) l, of "sn_send_seq s"]
  obtain keys where keys: "sn_keys s = Some keys" "length keys = 64"
    using assms(1) g(2) by (auto simp: session_shape_def split: option.splits)
  have hid: "length (sn_handshake_id (bump s)) = 16" using assms(1) by (simp add: session_shape_def bump_def)
  have il: "length (inner_of ?c ?l) = ?l" using l(1) assms(2) by (simp add: length_inner_of)
  let ?i = "memcpy (drop 9 o') 0 (inner_of ?c ?l)"
  obtain rc ct where ct: "encrypt_call so (seal_call s ?c) = (rc, ct)" by force
  have enc: "aead_encrypt so (Some ?i) (Some 0) (Some ?i) ?l (Some (build_ad (bump s) (sn_send_dir s) (sn_send_seq s))) 47
      (Some (build_nonce (sn_send_seq s))) (Some keys) =
      (if rc \<noteq> 0 then -1 else 0, Some (memcpy ?i 0 ct), Some (if rc \<noteq> 0 then 0 else length ct))"
    using ct il hid keys assms(2)
    by (simp add: aead_encrypt_def build_ad_eq build_nonce_eq encrypt_call_def seal_call_def bump_def)
  have cpy: "(if n \<noteq> 0 then memcpy x 11 (take n (snd (the pt))) else x) = memcpy x 11 ?c" for x :: bytes
    using n by (cases "n = 0") (simp_all add: memcpy_def [of _ _ "[]"])
  have ok: "?h @ memcpy ?i 0 ct = memcpy o' 0 (?h @ ct)" if "length ct = ?l + 16"
    using that il l(2) by (simp add: memcpy_0 add.commute)
  have zero: "memcpy (?h @ memcpy ?i 0 ct) 0 (zeros (?l + 25)) = zeros (?l + 25) @ drop (?l + 25) (?h @ memcpy ?i 0 ct)"
    by (simp add: memcpy_0)
  have f: "sn_send_dir (bump s) = sn_send_dir s" "sn_keys (bump s) = sn_keys s" "s\<lparr>sn_send_seq := sn_send_seq s + 1\<rparr> = bump s"
    by (simp_all add: bump_def)
  have need: "session_sealed_len (Some s) n = ?l + 25" using g by (simp add: session_sealed_len_def)
  have fst: "fst (seal_call s ?c) = inner_of ?c ?l" using assms(2) by (simp add: seal_call_def)
  have misuse: "(Some s = NULL \<or> Some (oa, o') = NULL \<or> Some k = NULL \<or> (pt = NULL \<and> n \<noteq> 0) \<or> n > 65534) = False"
    using g(1) n(1) by (cases pt) simp_all
  have guards: "(sn_state s \<noteq> SESSION_STATE_ACTIVE) = False" "(\<not> pad_bucket_valid (pad_bucket (sn_limits s))) = False"
    "(cap < ?l + 25 \<or> ranges_overlap (addr pt) n oa (?l + 25)) = False"
    "(session_age_ms s now \<ge> reject_after_ms (sn_limits s) \<or> sn_send_seq s \<ge> reject_after_messages (sn_limits s)) = False"
    using g by auto
  have "9 + 2 = (11::nat)" "9 + (2 + n) = 11 + n" "drop 0 keys = keys" by simp_all
  note eqs = this
  have seal: "session_seal so now (Some s) pt n (Some (oa, o')) cap (Some k) =
      (if (if rc \<noteq> 0 then - 1 else 0) \<noteq> (0::int) \<or> (if rc \<noteq> 0 then 0 else length ct) \<noteq> ?l + 16
       then (terminate (bump s) SESSION_STATE_FAILED SESSION_ERR_INTERNAL, Some (oa, memcpy (?h @ memcpy ?i 0 ct) 0 (zeros (?l + 25))), Some k)
       else ((SESSION_OK, Some (bump s)), Some (oa, ?h @ memcpy ?i 0 ct), Some (?l + 25)))"
    unfolding session_seal_def Let_def
    by (simp only: misuse guards if_False option.sel prod.case addr_Some f keys(1) option.map cpy eqs buf enc)
  show ?thesis
    unfolding seal True session_status_t.case Let_def need ct fst prod.case zero
    using ok by simp
qed

subsection \<open>Opening\<close>

text \<open>Reading the padded plaintext back. It accepts exactly the padded plaintexts.\<close>

definition unpad :: "bytes \<Rightarrow> bytes option" where
  "unpad m = (let n = unat (load_be16 m) in
     if n > length m - 2 then None
     else if length m - 2 - n \<noteq> 0 \<and> bslice m (2 + n) (length m - 2 - n) \<noteq> zeros (length m - 2 - n) then None
     else Some (bslice m 2 n))"

lemma load_be16_append: "2 \<le> length a \<Longrightarrow> load_be16 (a @ b) = load_be16 a"
  by (auto simp: load_be16_def nth_append)

lemma load_be16_take: "2 \<le> length a \<Longrightarrow> load_be16 a = load_be16 (take 2 a)"
  by (simp add: load_be16_def)

lemma unpad_inner_of:
  assumes "2 + length c \<le> n" "length c < 65536"
  shows "unpad (inner_of c n) = Some c"
proof -
  have "load_be16 (inner_of c n) = of_nat (length c)" by (simp add: inner_of_def load_be16_append)
  moreover have "unat (of_nat (length c) :: u16) = length c" using assms(2) by (simp add: unat_of_nat take_bit_nat_eq_self)
  moreover have "length (inner_of c n) = n" using assms(1) by (rule length_inner_of)
  ultimately show ?thesis
    using assms(1) by (simp add: unpad_def inner_of_def bslice_def)
qed

lemma inner_of_unpad:
  assumes "unpad m = Some c" "2 \<le> length m"
  shows "inner_of c (length m) = m" "2 + length c \<le> length m" "length c < 65536"
proof -
  let ?n = "unat (load_be16 m)"
  have n: "?n + 2 \<le> length m" and z: "drop (2 + ?n) m = zeros (length m - 2 - ?n)" and c: "c = bslice m 2 ?n"
    using assms by (auto simp: unpad_def Let_def bslice_def split: if_splits)
  have l: "length c = ?n" using n by (simp add: c)
  have "store_be16 (load_be16 m) = take 2 m"
    using assms(2) store_load_be16 [of "take 2 m"] load_be16_take [OF assms(2)] by simp
  then have "inner_of c (length m) = take 2 m @ bslice m 2 ?n @ drop (2 + ?n) m"
    unfolding inner_of_def l z by (simp add: c)
  also have "\<dots> = m" unfolding bslice_def by (metis append_take_drop_id drop_drop add.commute)
  finally show "inner_of c (length m) = m" .
  show "2 + length c \<le> length m" using n l by simp
  show "length c < 65536" using l unsigned_less [of "load_be16 m", where ?'a = nat] by simp
qed

interpretation inner: wire_codec
  "\<lambda>(c, n). inner_of c n"
  "\<lambda>m. if 2 \<le> length m then map_option (\<lambda>c. (c, length m)) (unpad m) else None"
  "\<lambda>(c, n). 2 + length c \<le> n \<and> length c < 65536"
  by unfold_locales (auto simp: unpad_inner_of length_inner_of inner_of_unpad inner_of_unpad(2) [simplified] split: if_splits)

definition open_verdict :: "u64 \<Rightarrow> session_t \<Rightarrow> u64 \<Rightarrow> bytes \<Rightarrow> u64 \<Rightarrow> nat \<Rightarrow> session_status_t" where
  "open_verdict now s ra r pa cap =
     (if ranges_overlap ra (length r) pa (min cap SESSION_MAX_PLAINTEXT_BYTES) then SESSION_ERR_INVALID_ARG
      else if sn_state s \<noteq> SESSION_STATE_ACTIVE then SESSION_ERR_UNEXPECTED_STATE
      else if session_age_ms s now \<ge> reject_after_ms (sn_limits s) then SESSION_ERR_EXPIRED
      else if length r < SESSION_MIN_RECORD_BYTES \<or> length r > SESSION_MAX_RECORD_BYTES \<or> r ! 0 \<noteq> SESSION_RECORD_TYPE
      then SESSION_ERR_MALFORMED
      else if cap < length r - SESSION_OVERHEAD_BYTES then SESSION_ERR_INVALID_ARG
      else if load_be64 (drop 1 r) < sn_recv_seq s then SESSION_ERR_REPLAY
      else if load_be64 (drop 1 r) > sn_recv_seq s then SESSION_ERR_OUT_OF_ORDER
      else if sn_recv_seq s \<ge> reject_after_messages (sn_limits s) then SESSION_ERR_LIMIT
      else SESSION_OK)"

definition open_call :: "session_t \<Rightarrow> bytes \<Rightarrow> aead_call" where
  "open_call s r = (drop 9 r, ad_of (sn_handshake_id s) (sn_recv_dir s) (sn_recv_seq s), nonce_of (sn_recv_seq s),
     take 32 (drop 32 (the (sn_keys s))))"

definition decrypt_call :: "sodium \<Rightarrow> aead_call \<Rightarrow> int \<times> bytes" where
  "decrypt_call so q = (case q of (c, ad, n, k) \<Rightarrow> chacha20poly1305_ietf_decrypt so c ad n k)"

definition accepted :: "session_t \<Rightarrow> session_t" where
  "accepted s = s\<lparr>sn_recv_seq := sn_recv_seq s + 1,
     sn_peer_confirmed := sn_peer_confirmed s \<or> sn_role s = HANDSHAKE_ROLE_INITIATOR\<rparr>"

definition is_terminal_error :: "session_status_t \<Rightarrow> bool" where
  "is_terminal_error st \<longleftrightarrow> st \<in> {SESSION_ERR_MALFORMED, SESSION_ERR_REPLAY, SESSION_ERR_OUT_OF_ORDER, SESSION_ERR_LIMIT}"

definition opened :: "session_t \<Rightarrow> bytes \<Rightarrow> u64 \<Rightarrow> bytes \<Rightarrow> nat \<Rightarrow> int \<times> bytes \<Rightarrow>
  (session_status_t \<times> session_t ptr) \<times> buffer ptr \<times> nat ptr" where
  "opened s r pa p k res = (let (rc, m) = res; body = length r - 25 in
     if rc \<noteq> 0 \<or> length m \<noteq> body
     then (terminate s SESSION_STATE_FAILED SESSION_ERR_AUTH, Some (pa, memcpy (memcpy p 0 m) 0 (zeros body)), Some k)
     else case unpad m of
       None \<Rightarrow> (terminate s SESSION_STATE_FAILED SESSION_ERR_MALFORMED, Some (pa, memcpy p 0 (zeros body)), Some k)
     | Some c \<Rightarrow> ((SESSION_OK, Some (accepted s)), Some (pa, memcpy p 0 (c @ zeros (body - length c))), Some (length c)))"

lemma session_open_refused:
  assumes "open_verdict now s ra r pa cap \<noteq> SESSION_OK"
  shows "session_open so now (Some s) (Some (ra, r)) (length r) (Some (pa, p)) cap (Some k) =
    (let st = open_verdict now s ra r pa cap in
     (if st = SESSION_ERR_EXPIRED then terminate s SESSION_STATE_EXPIRED SESSION_ERR_EXPIRED
      else if is_terminal_error st then terminate s SESSION_STATE_FAILED st
      else (st, Some s), Some (pa, p), Some k))"
proof -
  have w: "(if cap < 65536 then cap else 65536) = min cap 65536" by simp
  let ?A = "ranges_overlap ra (length r) pa (min cap 65536)" and ?B = "sn_state s \<noteq> SESSION_STATE_ACTIVE"
    and ?C = "session_age_ms s now \<ge> reject_after_ms (sn_limits s)"
    and ?D = "length r < 27 \<or> length r > 65561 \<or> r ! 0 \<noteq> 4" and ?E = "cap < length r - 25"
    and ?F = "load_be64 (drop 1 r) < sn_recv_seq s" and ?G = "load_be64 (drop 1 r) > sn_recv_seq s"
    and ?H = "sn_recv_seq s \<ge> reject_after_messages (sn_limits s)"
  consider ?A | "\<not> ?A" ?B | "\<not> ?A" "\<not> ?B" ?C | "\<not> ?A" "\<not> ?B" "\<not> ?C" ?D | "\<not> ?A" "\<not> ?B" "\<not> ?C" "\<not> ?D" ?E
    | "\<not> ?A" "\<not> ?B" "\<not> ?C" "\<not> ?D" "\<not> ?E" ?F | "\<not> ?A" "\<not> ?B" "\<not> ?C" "\<not> ?D" "\<not> ?E" "\<not> ?F" ?G
    | "\<not> ?A" "\<not> ?B" "\<not> ?C" "\<not> ?D" "\<not> ?E" "\<not> ?F" "\<not> ?G" ?H
    using assms unfolding open_verdict_def by argo
  then show ?thesis
    unfolding session_open_def open_verdict_def is_terminal_error_def
    by cases (simp_all add: Let_def w)
qed

lemma unpad_buffer:
  assumes "length m = l" "2 \<le> l" "l \<le> length p"
  defines "q \<equiv> memcpy p 0 m" and "n \<equiv> unat (load_be16 m)"
  shows "load_be16 q = load_be16 m" "memcpy q 0 (zeros l) = memcpy p 0 (zeros l)"
    "n \<le> l - 2 \<Longrightarrow> bslice q (2 + n) (l - 2 - n) = bslice m (2 + n) (l - 2 - n)"
    "n \<le> l - 2 \<Longrightarrow> memcpy (if n \<noteq> 0 then memcpy q 0 (bslice q 2 n) else q) n (zeros (l - n)) =
      memcpy p 0 (bslice m 2 n @ zeros (l - n))"
proof -
  have q: "q = m @ drop l p" using assms(1) by (simp add: q_def memcpy_0)
  show "load_be16 q = load_be16 m" using assms(1,2) by (simp add: q load_be16_append)
  show "memcpy q 0 (zeros l) = memcpy p 0 (zeros l)" using assms(1) by (simp add: q memcpy_0)
  assume n: "n \<le> l - 2"
  show "bslice q (2 + n) (l - 2 - n) = bslice m (2 + n) (l - 2 - n)"
    using assms(1,2) n by (simp add: q bslice_def)
  have b: "bslice q 2 n = bslice m 2 n" "length (bslice m 2 n) = n" using assms(1,2) n by (simp_all add: q bslice_def)
  have "(if n \<noteq> 0 then memcpy q 0 (bslice q 2 n) else q) = memcpy q 0 (bslice m 2 n)"
    using b by (auto simp: memcpy_0)
  then show "memcpy (if n \<noteq> 0 then memcpy q 0 (bslice q 2 n) else q) n (zeros (l - n)) =
      memcpy p 0 (bslice m 2 n @ zeros (l - n))"
    using assms(1,2) b(2) n by (simp add: memcpy_append) (simp add: q memcpy_0)
qed

lemma session_open_eq:
  assumes "session_shape s" "cap \<le> length p" "open_verdict now s ra r pa cap = SESSION_OK"
  shows "session_open so now (Some s) (Some (ra, r)) (length r) (Some (pa, p)) cap (Some k) =
    opened s r pa p k (decrypt_call so (open_call s r))"
proof -
  let ?b = "length r - 25"
  have g: "\<not> ranges_overlap ra (length r) pa (min cap 65536)" "sn_state s = SESSION_STATE_ACTIVE"
    "\<not> session_age_ms s now \<ge> reject_after_ms (sn_limits s)" "27 \<le> length r" "\<not> length r > 65561" "r ! 0 = 4"
    "\<not> cap < ?b" "load_be64 (drop 1 r) = sn_recv_seq s" "\<not> sn_recv_seq s \<ge> reject_after_messages (sn_limits s)"
    using assms(3) by (auto simp: open_verdict_def split: if_splits)
  obtain keys where keys: "sn_keys s = Some keys" "length keys = 64"
    using assms(1) g(2) by (auto simp: session_shape_def split: option.splits)
  have hid: "length (sn_handshake_id s) = 16" using assms(1) by (simp add: session_shape_def)
  obtain rc m where m: "decrypt_call so (open_call s r) = (rc, m)" by force
  have len: "\<not> length r - 9 < 16" using g(4) by linarith
  have dec: "aead_decrypt so (Some p) (Some 0) (Some (drop 9 r)) (length r - 9)
      (Some (build_ad s (sn_recv_dir s) (sn_recv_seq s))) 47 (Some (build_nonce (sn_recv_seq s))) (Some (drop 32 keys)) =
      (if rc \<noteq> 0 then -1 else 0, Some (memcpy p 0 m), Some (if rc \<noteq> 0 then 0 else length m))"
    using m hid keys len
    by (simp add: aead_decrypt_def build_ad_eq build_nonce_eq decrypt_call_def open_call_def)
  have w: "(if cap < 65536 then cap else 65536) = min cap 65536" by simp
  have guards: "(Some s = NULL \<or> Some (ra, r) = NULL \<or> Some (pa, p) = NULL \<or> Some k = NULL) = False"
    "(length r < 27 \<or> length r > 65561 \<or> r ! 0 \<noteq> 4) = False"
    "(sn_recv_seq s < sn_recv_seq s) = False" "(\<not> sn_state s = SESSION_STATE_ACTIVE) = False"
    using g by auto
  have acc: "(if sn_role (s\<lparr>sn_recv_seq := sn_recv_seq s + 1\<rparr>) = HANDSHAKE_ROLE_INITIATOR
      then s\<lparr>sn_recv_seq := sn_recv_seq s + 1, sn_peer_confirmed := True\<rparr> else s\<lparr>sn_recv_seq := sn_recv_seq s + 1\<rparr>) = accepted s"
    by (simp add: accepted_def)
  note step = session_open_def [of so now "Some s" "Some (ra, r)" "length r" "Some (pa, p)" cap "Some k",
      unfolded Let_def option.sel fst_conv snd_conv addr_Some w guards if_False g(8) keys(1) option.map dec prod.case]
  show ?thesis
  proof (cases "rc \<noteq> 0 \<or> length m \<noteq> ?b")
    case True
    then show ?thesis using g unfolding step m opened_def Let_def prod.case by auto
  next
    case False
    have l: "2 \<le> ?b" "?b \<le> length p" "length m = ?b" using g(4,7) assms(2) False by auto
    note buf = unpad_buffer [OF l(3,1,2)]
    let ?n = "unat (load_be16 m)"
    have sz: "length r - 25 - 2 = ?b - 2" by simp
    show ?thesis
    proof (cases "?n \<le> ?b - 2")
      case True
      have bl: "length (bslice m 2 ?n) = ?n" using True l by simp
      show ?thesis
        using True g False unfolding step m opened_def Let_def prod.case unpad_def l(3)
        by (simp only: buf buf(3) [OF True] buf(4) [OF True] acc if_False if_True option.sel HOL.simp_thms not_less)
          (auto simp: buf bl)
    next
      case False
      then show ?thesis
        using g \<open>\<not> (rc \<noteq> 0 \<or> length m \<noteq> ?b)\<close> unfolding step m opened_def Let_def prod.case unpad_def l(3)
        by (auto simp: buf)
    qed
  qed
qed

section \<open>The session invariant\<close>

definition session_inv :: "session_t \<Rightarrow> bool" where
  "session_inv s \<longleftrightarrow> session_shape s \<and>
     (case sn_state s of
        SESSION_STATE_EMPTY \<Rightarrow> sn_keys s = NULL
      | SESSION_STATE_ACTIVE \<Rightarrow> limits_valid (sn_limits s) \<and>
          sn_send_seq s \<le> reject_after_messages (sn_limits s) \<and> sn_recv_seq s \<le> reject_after_messages (sn_limits s) \<and>
          (sn_role s = HANDSHAKE_ROLE_INITIATOR \<and> sn_send_dir s = KEX_DIR_C2S \<and> sn_recv_dir s = KEX_DIR_S2C \<or>
           sn_role s = HANDSHAKE_ROLE_RESPONDER \<and> sn_send_dir s = KEX_DIR_S2C \<and> sn_recv_dir s = KEX_DIR_C2S \<and>
           sn_peer_confirmed s)
      | _ \<Rightarrow> sn_keys s = Some (zeros 64) \<and> \<not> sn_peer_confirmed s)"

definition session_dead :: "session_t \<Rightarrow> bool" where
  "session_dead s \<longleftrightarrow> sn_state s \<in> {SESSION_STATE_EXPIRED, SESSION_STATE_FAILED}"

lemma session_inv_shape: "session_inv s \<Longrightarrow> session_shape s"
  by (simp add: session_inv_def)

lemma session_zero_inv: "session_inv session_zero"
  by (simp add: session_inv_def session_shape_def session_zero_def)

lemma terminate_inv:
  assumes "session_shape s" "sn_keys s \<noteq> NULL" "state \<in> {SESSION_STATE_EXPIRED, SESSION_STATE_FAILED}"
  shows "terminate s state why = (why, Some s') \<Longrightarrow> session_inv s' \<and> sn_state s' = state \<and> sn_keys s' = Some (zeros 64)"
  using assms by (auto simp: terminate_def session_inv_def session_shape_def secure_mem_wipe_Some)

lemma active_keys: "session_shape s \<Longrightarrow> sn_state s = SESSION_STATE_ACTIVE \<Longrightarrow> sn_keys s \<noteq> NULL"
  by (auto simp: session_shape_def split: option.splits)

lemma limits_valid_max: "limits_valid l \<Longrightarrow> reject_after_messages l \<le> 8589934592"
  by (simp add: limits_valid_def)

lemma seq_step:
  fixes q r :: u64
  assumes "\<not> r \<le> q" "r \<le> 8589934592"
  shows "q + 1 \<le> r" "unat (q + 1) = unat q + 1"
proof -
  have "unat q < unat r" "unat r \<le> 8589934592" using assms by (simp_all add: word_le_nat_alt)
  then show u: "unat (q + 1) = unat q + 1" by (simp add: unat_word_ariths)
  show "q + 1 \<le> r" using \<open>unat q < unat r\<close> u by (simp add: word_le_nat_alt)
qed

lemma bump_inv:
  assumes "session_inv s" "sn_state s = SESSION_STATE_ACTIVE" "\<not> reject_after_messages (sn_limits s) \<le> sn_send_seq s"
  shows "session_inv (bump s)" "unat (sn_send_seq (bump s)) = unat (sn_send_seq s) + 1"
  using assms seq_step [OF assms(3)] limits_valid_max [of "sn_limits s"]
  by (simp_all add: session_inv_def session_shape_def bump_def split: option.splits)

lemma accepted_inv:
  assumes "session_inv s" "sn_state s = SESSION_STATE_ACTIVE" "\<not> reject_after_messages (sn_limits s) \<le> sn_recv_seq s"
  shows "session_inv (accepted s)"
  using assms seq_step [OF assms(3)] limits_valid_max [of "sn_limits s"]
  by (auto simp: session_inv_def session_shape_def accepted_def split: option.splits)

text \<open>What a call may do to a session, with the status it reports.\<close>

definition session_outcome :: "session_t \<Rightarrow> session_t \<Rightarrow> session_status_t \<times> session_t ptr \<Rightarrow> bool" where
  "session_outcome s good r \<longleftrightarrow> (\<exists>s'. snd r = Some s' \<and> session_inv s' \<and>
     (if fst r = SESSION_OK then sn_state s = SESSION_STATE_ACTIVE \<and> s' = good
      else if fst r \<in> {SESSION_ERR_INVALID_ARG, SESSION_ERR_UNEXPECTED_STATE} then s' = s
      else sn_state s = SESSION_STATE_ACTIVE \<and> session_dead s' \<and> sn_keys s' = Some (zeros 64) \<and> \<not> sn_peer_confirmed s' \<and>
        (fst r = SESSION_ERR_EXPIRED \<longleftrightarrow> sn_state s' = SESSION_STATE_EXPIRED)))"

lemma outcome_terminate:
  assumes "session_shape s'" "sn_state s' = SESSION_STATE_ACTIVE" "sn_state s = SESSION_STATE_ACTIVE"
    "why \<notin> {SESSION_OK, SESSION_ERR_INVALID_ARG, SESSION_ERR_UNEXPECTED_STATE}"
    "state \<in> {SESSION_STATE_EXPIRED, SESSION_STATE_FAILED}" "why = SESSION_ERR_EXPIRED \<longleftrightarrow> state = SESSION_STATE_EXPIRED"
  shows "session_outcome s good (terminate s' state why)"
proof -
  obtain t where t: "terminate s' state why = (why, Some t)" by (simp add: terminate_def)
  with terminate_inv [OF assms(1) active_keys [OF assms(1,2)] assms(5) t] assms show ?thesis
    by (auto simp: session_outcome_def session_dead_def session_inv_def split: session_state_t.splits)
qed

lemma seal_verdict_OK:
  assumes "seal_verdict now s pt n oa cap = SESSION_OK"
  shows "sn_state s = SESSION_STATE_ACTIVE" "\<not> reject_after_messages (sn_limits s) \<le> sn_send_seq s"
    "n \<le> 65534" "session_sealed_len (Some s) n \<le> cap"
  using assms by (auto simp: seal_verdict_def split: if_splits)

lemma seal_verdict_range:
  assumes "session_inv s"
  shows "seal_verdict now s pt n oa cap \<in> {SESSION_OK, SESSION_ERR_INVALID_ARG, SESSION_ERR_UNEXPECTED_STATE, SESSION_ERR_EXPIRED}"
    "seal_verdict now s pt n oa cap = SESSION_ERR_EXPIRED \<Longrightarrow> sn_state s = SESSION_STATE_ACTIVE"
  using assms by (auto simp: seal_verdict_def session_inv_def limits_valid_def split: if_splits)

lemma session_outcome_same:
  "session_inv s \<Longrightarrow> st \<in> {SESSION_ERR_INVALID_ARG, SESSION_ERR_UNEXPECTED_STATE} \<Longrightarrow> session_outcome s good (st, Some s)"
  by (auto simp: session_outcome_def)

lemma bump_shape: "session_shape s \<Longrightarrow> session_shape (bump s)"
  by (simp add: session_shape_def bump_def split: option.splits)

lemma seal_outcome:
  assumes inv: "session_inv s" and len: "length (content pt n) = n" "cap \<le> length o'"
  shows "session_outcome s (bump s) (fst (session_seal so now (Some s) pt n (Some (oa, o')) cap (Some k)))"
proof (cases "seal_verdict now s pt n oa cap = SESSION_OK")
  case True
  note v = seal_verdict_OK [OF True]
  have f: "session_outcome s (bump s) (terminate (bump s) SESSION_STATE_FAILED SESSION_ERR_INTERNAL)"
    using v(1) bump_shape [OF session_inv_shape [OF inv]] by (intro outcome_terminate) (simp_all add: bump_def)
  have "session_outcome s (bump s) (SESSION_OK, Some (bump s))"
    using v(1) bump_inv [OF inv v(1,2)] by (simp add: session_outcome_def)
  with f show ?thesis
    by (simp add: session_seal_eq [OF session_inv_shape [OF inv] len] True Let_def split: prod.split)
next
  case False
  have "session_outcome s (bump s) (terminate s SESSION_STATE_EXPIRED SESSION_ERR_EXPIRED)"
    if "seal_verdict now s pt n oa cap = SESSION_ERR_EXPIRED"
    using that seal_verdict_range(2) [OF inv] session_inv_shape [OF inv] by (intro outcome_terminate) auto
  with False seal_verdict_range(1) [OF inv, of now pt n oa cap] session_outcome_same [OF inv] show ?thesis
    by (auto simp: session_seal_eq [OF session_inv_shape [OF inv] len])
qed

lemma open_verdict_OK:
  assumes "open_verdict now s ra r pa cap = SESSION_OK"
  shows "sn_state s = SESSION_STATE_ACTIVE" "\<not> reject_after_messages (sn_limits s) \<le> sn_recv_seq s"
    "27 \<le> length r" "length r \<le> 65561" "r ! 0 = SESSION_RECORD_TYPE" "load_be64 (drop 1 r) = sn_recv_seq s" "length r - 25 \<le> cap"
    "session_age_ms s now < reject_after_ms (sn_limits s)"
  using assms by (auto simp: open_verdict_def split: if_splits)

lemma open_verdict_range:
  "open_verdict now s ra r pa cap = SESSION_OK \<or>
   open_verdict now s ra r pa cap \<in> {SESSION_ERR_INVALID_ARG, SESSION_ERR_UNEXPECTED_STATE} \<or>
   sn_state s = SESSION_STATE_ACTIVE \<and>
     (open_verdict now s ra r pa cap = SESSION_ERR_EXPIRED \<or> is_terminal_error (open_verdict now s ra r pa cap))"
  by (auto simp: open_verdict_def is_terminal_error_def)

lemma opened_outcome:
  assumes "session_inv s" "sn_state s = SESSION_STATE_ACTIVE" "\<not> reject_after_messages (sn_limits s) \<le> sn_recv_seq s"
  shows "session_outcome s (accepted s) (fst (opened s r pa p k res))"
proof -
  have f: "session_outcome s (accepted s) (terminate s SESSION_STATE_FAILED st)" if "st \<in> {SESSION_ERR_AUTH, SESSION_ERR_MALFORMED}" for st
    using assms(2) session_inv_shape [OF assms(1)] that by (intro outcome_terminate) auto
  have "session_outcome s (accepted s) (SESSION_OK, Some (accepted s))"
    using assms(2) accepted_inv [OF assms] by (simp add: session_outcome_def)
  with f show ?thesis by (auto simp: opened_def Let_def split: prod.split option.split)
qed

lemma open_outcome:
  assumes inv: "session_inv s" and len: "cap \<le> length p"
  shows "session_outcome s (accepted s)
    (fst (session_open so now (Some s) (Some (ra, r)) (length r) (Some (pa, p)) cap (Some k)))"
proof (cases "open_verdict now s ra r pa cap = SESSION_OK")
  case True
  note v = open_verdict_OK [OF True]
  show ?thesis
    by (simp add: session_open_eq [OF session_inv_shape [OF inv] len True] opened_outcome [OF inv v(1,2)])
next
  case False
  let ?v = "open_verdict now s ra r pa cap"
  have t: "session_outcome s (accepted s) (terminate s st why)" if "sn_state s = SESSION_STATE_ACTIVE"
    "st = SESSION_STATE_EXPIRED \<and> why = SESSION_ERR_EXPIRED \<or> st = SESSION_STATE_FAILED \<and> is_terminal_error why" for st why
    using that session_inv_shape [OF inv] by (intro outcome_terminate) (auto simp: is_terminal_error_def)
  from False open_verdict_range [of now s ra r pa cap]
  consider "?v \<in> {SESSION_ERR_INVALID_ARG, SESSION_ERR_UNEXPECTED_STATE}" | "sn_state s = SESSION_STATE_ACTIVE" "?v = SESSION_ERR_EXPIRED"
    | "sn_state s = SESSION_STATE_ACTIVE" "is_terminal_error ?v" by blast
  then show ?thesis
    unfolding session_open_refused [OF False] Let_def
    using session_outcome_same [OF inv] t by cases (auto simp: is_terminal_error_def)
qed

end
