(* ===== verification/Session_Safety.thy ===== *)
theory Session_Safety
  imports Session Sample_Crypto
begin

text \<open>
  What the record layer promises over any sequence of calls: its life cycle, the use it makes of each
  key, the order in which records are accepted, and delivery between the two ends of a session.
\<close>

section \<open>Runs of calls\<close>

text \<open>
  A call with its arguments. \<open>session_exec\<close> makes the call on a session; \<open>op_calls\<close> is the use of the
  encryption function the call makes.
\<close>

datatype session_op =
    Op_Seal u64 "buffer ptr" nat buffer nat
  | Op_Open u64 buffer buffer nat

type_synonym op_result = "session_status_t \<times> buffer ptr \<times> nat ptr"

fun session_exec :: "sodium \<Rightarrow> session_t \<Rightarrow> session_op \<Rightarrow> op_result \<times> session_t" where
  "session_exec so s (Op_Seal now pt n out cap) =
     (let ((st, s'), out', len) = session_seal so now (Some s) pt n (Some out) cap (Some 0) in ((st, out', len), the s'))"
| "session_exec so s (Op_Open now rec out cap) =
     (let ((st, s'), out', len) = session_open so now (Some s) (Some rec) (length (snd rec)) (Some out) cap (Some 0)
      in ((st, out', len), the s'))"

text \<open>The buffers are as large as the caller says.\<close>

fun op_ok :: "session_op \<Rightarrow> bool" where
  "op_ok (Op_Seal now pt n out cap) \<longleftrightarrow> length (content pt n) = n \<and> cap \<le> length (snd out)"
| "op_ok (Op_Open now rec out cap) \<longleftrightarrow> cap \<le> length (snd out)"

fun op_calls :: "session_t \<Rightarrow> session_op \<Rightarrow> aead_call list" where
  "op_calls s (Op_Seal now pt n out cap) =
     (if seal_verdict now s pt n (fst out) cap = SESSION_OK then [seal_call s (content pt n)] else [])"
| "op_calls s (Op_Open now rec out cap) = []"

primrec run_calls :: "sodium \<Rightarrow> session_t \<Rightarrow> session_op list \<Rightarrow> aead_call list" where
  "run_calls so s [] = []"
| "run_calls so s (a # as) = op_calls s a @ run_calls so (snd (session_exec so s a)) as"

fun op_good :: "session_t \<Rightarrow> session_op \<Rightarrow> session_t" where
  "op_good s (Op_Seal now pt n out cap) = bump s"
| "op_good s (Op_Open now rec out cap) = accepted s"

abbreviation (input) op_status :: "op_result \<Rightarrow> session_status_t" where
  "op_status r \<equiv> fst r"

definition refused :: "session_status_t \<Rightarrow> bool" where
  "refused st \<longleftrightarrow> st \<in> {SESSION_ERR_INVALID_ARG, SESSION_ERR_UNEXPECTED_STATE}"

definition fatal :: "session_status_t \<Rightarrow> bool" where
  "fatal st \<longleftrightarrow> st \<noteq> SESSION_OK \<and> \<not> refused st"

lemma outcome_Some: "session_outcome s g x \<Longrightarrow> x = (st, s') \<Longrightarrow> session_outcome s g (st, Some (the s'))"
  by (auto simp only: session_outcome_def fst_conv snd_conv option.sel)

lemma exec_outcome:
  assumes "session_inv s" "op_ok a" "session_exec so s a = (r, s')"
  shows "session_outcome s (op_good s a) (op_status r, Some s')"
proof (cases a)
  case (Op_Seal now pt n out cap)
  obtain st t res where c: "session_seal so now (Some s) pt n (Some out) cap (Some 0) = ((st, t), res)" by (metis surj_pair)
  have "session_outcome s (bump s) (st, t)"
    using seal_outcome [OF assms(1), of pt n cap "snd out" so now "fst out" 0] assms(2) c Op_Seal by simp
  with outcome_Some [OF this refl] assms(3) c Op_Seal show ?thesis by (cases res) auto
next
  case (Op_Open now rec out cap)
  obtain st t res where c: "session_open so now (Some s) (Some rec) (length (snd rec)) (Some out) cap (Some 0) = ((st, t), res)"
    by (metis surj_pair)
  have "session_outcome s (accepted s) (st, t)"
    using open_outcome [OF assms(1), of cap "snd out" so now "fst rec" "snd rec" "fst out" 0] assms(2) c Op_Open by simp
  with outcome_Some [OF this refl] assms(3) c Op_Open show ?thesis by (cases res) auto
qed

lemma exec_cases:
  assumes "session_inv s" "op_ok a" "session_exec so s a = (r, s')"
  obtains (ok) "op_status r = SESSION_OK" "sn_state s = SESSION_STATE_ACTIVE" "s' = op_good s a" "session_inv s'"
    "sn_state s' = SESSION_STATE_ACTIVE"
  | (refused) "refused (op_status r)" "s' = s"
  | (fatal) "fatal (op_status r)" "sn_state s = SESSION_STATE_ACTIVE" "session_inv s'" "session_dead s'" "sn_keys s' = Some (zeros 64)"
proof -
  have "sn_state (op_good s a) = sn_state s" by (cases a) (simp_all add: bump_def accepted_def)
  then have "op_status r = SESSION_OK \<and> sn_state s = SESSION_STATE_ACTIVE \<and> s' = op_good s a \<and> session_inv s' \<and>
      sn_state s' = SESSION_STATE_ACTIVE \<or> refused (op_status r) \<and> s' = s \<or>
    fatal (op_status r) \<and> sn_state s = SESSION_STATE_ACTIVE \<and> session_inv s' \<and> session_dead s' \<and> sn_keys s' = Some (zeros 64)"
    using exec_outcome [OF assms] by (auto simp: session_outcome_def refused_def fatal_def split: if_splits)
  with that show thesis by blast
qed

lemma exec_dead:
  assumes "session_inv s" "op_ok a" "session_exec so s a = (r, s')" "sn_state s \<noteq> SESSION_STATE_ACTIVE"
  shows "refused (op_status r)" "s' = s" "op_calls s a = []"
proof -
  show "refused (op_status r)" "s' = s" using exec_cases [OF assms(1-3)] assms(4) by metis+
  show "op_calls s a = []" using assms(4) by (cases a) (simp_all add: seal_verdict_def)
qed

lemma dead_inactive: "session_dead s \<Longrightarrow> sn_state s \<noteq> SESSION_STATE_ACTIVE"
  by (auto simp: session_dead_def)

lemma run_dead:
  "session_inv s \<Longrightarrow> list_all op_ok as \<Longrightarrow> sn_state s \<noteq> SESSION_STATE_ACTIVE \<Longrightarrow>
   run_ops (session_exec so) s as = (tr, s') \<Longrightarrow> s' = s \<and> (\<forall>(a, r) \<in> set tr. refused (op_status r))"
proof (induction as arbitrary: tr)
  case (Cons a as)
  obtain r t where e: "session_exec so s a = (r, t)" by (cases "session_exec so s a") auto
  with exec_dead [OF Cons.prems(1) _ e] Cons.prems have d: "t = s" "refused (op_status r)" by auto
  obtain tr1 where "run_ops (session_exec so) s as = (tr1, s')" "tr = (a, r) # tr1"
    using Cons.prems(4) e d by (auto split: prod.splits)
  with Cons d show ?case by auto
qed simp

lemma run_calls_dead:
  "session_inv s \<Longrightarrow> list_all op_ok as \<Longrightarrow> sn_state s \<noteq> SESSION_STATE_ACTIVE \<Longrightarrow> run_calls so s as = []"
proof (induction as)
  case (Cons a as)
  obtain r t where e: "session_exec so s a = (r, t)" by (cases "session_exec so s a") auto
  with exec_dead [OF Cons.prems(1) _ e] Cons show ?case by auto
qed simp

lemma run_session_inv:
  "session_inv s \<Longrightarrow> list_all op_ok as \<Longrightarrow> run_ops (session_exec so) s as = (tr, s') \<Longrightarrow> session_inv s'"
proof (induction as arbitrary: s tr)
  case (Cons a as)
  obtain r u where e: "session_exec so s a = (r, u)" by (cases "session_exec so s a") auto
  then have "session_inv u" using exec_cases [OF Cons.prems(1) _ e] Cons.prems(1,2) by auto
  with Cons e show ?case by (auto split: prod.splits)
qed simp

lemma run_stays_active:
  "session_inv s \<Longrightarrow> list_all op_ok as \<Longrightarrow> run_ops (session_exec so) s as = (tr, s') \<Longrightarrow> sn_state s = SESSION_STATE_ACTIVE \<Longrightarrow>
   \<forall>(a, r) \<in> set tr. \<not> fatal (op_status r) \<Longrightarrow> sn_state s' = SESSION_STATE_ACTIVE"
proof (induction as arbitrary: s tr)
  case (Cons a as)
  obtain r u where e: "session_exec so s a = (r, u)" by (cases "session_exec so s a") auto
  obtain tr1 where t: "run_ops (session_exec so) u as = (tr1, s')" "tr = (a, r) # tr1"
    using Cons.prems(3) e by (auto split: prod.splits)
  have "session_inv u" "sn_state u = SESSION_STATE_ACTIVE"
    using exec_cases [OF Cons.prems(1) _ e] Cons.prems(1,2,4,5) t(2) by auto
  with Cons.IH [OF _ _ t(1)] Cons.prems(2,5) t(2) show ?case by simp
qed simp

lemma run_after_fatal:
  assumes "session_inv s" "list_all op_ok as" "run_ops (session_exec so) s as = (t1 @ (a, r) # t2, s')" "fatal (op_status r)"
  shows "session_dead s'" "sn_keys s' = Some (zeros 64)" "\<forall>(b, q) \<in> set t2. refused (op_status q)"
proof -
  obtain as1 as2 u v where p: "as = as1 @ a # as2" "run_ops (session_exec so) s as1 = (t1, u)" "session_exec so u a = (r, v)"
    "run_ops (session_exec so) v as2 = (t2, s')"
    using run_ops_split [OF assms(3)] by blast
  have u: "session_inv u" using run_session_inv [OF assms(1) _ p(2)] assms(2) p(1) by simp
  have v: "session_inv v" "session_dead v" "sn_keys v = Some (zeros 64)"
    using exec_cases [OF u _ p(3)] assms(2,4) p(1) by (auto simp: fatal_def)
  then show "session_dead s'" "sn_keys s' = Some (zeros 64)" "\<forall>(b, q) \<in> set t2. refused (op_status q)"
    using run_dead [OF v(1) _ dead_inactive [OF v(2)] p(4)] assms(2) p(1) by auto
qed

subsection \<open>A sample session\<close>

definition sample_session :: "handshake_role_t \<Rightarrow> session_t" where
  "sample_session role = \<lparr>sn_state = SESSION_STATE_ACTIVE, sn_role = role, sn_peer_confirmed = (role = HANDSHAKE_ROLE_RESPONDER),
     sn_keys = Some (if role = HANDSHAKE_ROLE_INITIATOR then replicate 32 1 @ replicate 32 2 else replicate 32 2 @ replicate 32 1),
     sn_send_dir = (if role = HANDSHAKE_ROLE_INITIATOR then KEX_DIR_C2S else KEX_DIR_S2C),
     sn_recv_dir = (if role = HANDSHAKE_ROLE_INITIATOR then KEX_DIR_S2C else KEX_DIR_C2S),
     sn_handshake_id = zeros 16, sn_send_seq = 0, sn_recv_seq = 0, sn_start_ms = 0,
     sn_limits = \<lparr>rekey_after_messages = 10, reject_after_messages = 20, rekey_after_ms = 1000, reject_after_ms = 2000, pad_bucket = 256\<rparr>\<rparr>"

lemma sample_session_inv:
  "role \<in> {HANDSHAKE_ROLE_INITIATOR, HANDSHAKE_ROLE_RESPONDER} \<Longrightarrow> session_inv (sample_session role)"
  "sn_state (sample_session role) = SESSION_STATE_ACTIVE"
  by (auto simp: session_inv_def session_shape_def sample_session_def limits_valid_def pad_bucket_valid_def)

section \<open>Life cycle\<close>

text \<open>
  C8. A session fails closed, once. Over any sequence of calls the invariant is kept; a call that
  reports an error other than misuse is the last one that changes anything: the key block is zero from
  then on, the peer is no longer confirmed, and every later call is refused. A session still active
  after the calls has had no such error.
\<close>

theorem session_fails_closed:
  assumes "session_inv s" "list_all op_ok as" "run_ops (session_exec so) s as = (tr, s')"
  shows "session_inv s' \<and>
    (\<forall>t1 a r t2. tr = t1 @ (a, r) # t2 \<and> fatal (op_status r) \<longrightarrow>
      session_dead s' \<and> sn_keys s' = Some (zeros 64) \<and> \<not> session_is_peer_confirmed (Some s') \<and>
      (\<forall>(b, q) \<in> set t2. refused (op_status q))) \<and>
    (sn_state s = SESSION_STATE_ACTIVE \<and> (\<forall>(a, r) \<in> set tr. \<not> fatal (op_status r)) \<longrightarrow> sn_state s' = SESSION_STATE_ACTIVE)"
proof (intro conjI allI impI; (elim conjE)?)
  show "session_inv s'" using assms by (rule run_session_inv)
  show "sn_state s' = SESSION_STATE_ACTIVE" if "sn_state s = SESSION_STATE_ACTIVE" "\<forall>(a, r) \<in> set tr. \<not> fatal (op_status r)"
    using assms that by (rule run_stays_active)
  fix t1 a r t2 assume tr: "tr = t1 @ (a, r) # t2" and f: "fatal (op_status r)"
  note d = run_after_fatal [OF assms(1,2) assms(3) [unfolded tr] f]
  show "session_dead s'" "sn_keys s' = Some (zeros 64)" "\<forall>(b, q) \<in> set t2. refused (op_status q)" using d by auto
  then show "\<not> session_is_peer_confirmed (Some s')" using dead_inactive by (simp add: session_is_peer_confirmed_def)
qed

section \<open>Nonces\<close>

lemma exec_seal_status:
  assumes "session_inv s" "op_ok (Op_Seal now pt n out cap)" "session_exec so s (Op_Seal now pt n out cap) = (r, s')"
  shows "seal_verdict now s pt n (fst out) cap = SESSION_OK \<longleftrightarrow> op_status r \<in> {SESSION_OK, SESSION_ERR_INTERNAL}"
  using assms seal_verdict_range(1) [OF assms(1), of now pt n "fst out" cap]
    session_seal_eq [OF session_inv_shape [OF assms(1)], of pt n cap "snd out" so now "fst out" 0]
  by (auto simp: terminate_def Let_def split: prod.splits if_splits)

lemma exec_calls:
  assumes "session_inv s" "op_ok a" "session_exec so s a = (r, s')"
  shows "op_calls s a = (case a of Op_Seal now pt n out cap \<Rightarrow>
      if op_status r \<in> {SESSION_OK, SESSION_ERR_INTERNAL} then [seal_call s (content pt n)] else [] | _ \<Rightarrow> [])"
  using assms exec_seal_status [OF assms(1)] by (cases a) auto

abbreviation (input) uses :: "aead_call list \<Rightarrow> (bytes \<times> bytes) list" where
  "uses \<equiv> map (\<lambda>(m, ad, n, k). (n, k))"

lemma run_calls_uses:
  assumes "session_inv s" "list_all op_ok as" "sn_state s = SESSION_STATE_ACTIVE"
  shows "uses (run_calls so s as) =
      map (\<lambda>i. (nonce_of (sn_send_seq s + of_nat i), take 32 (the (sn_keys s)))) [0..<length (run_calls so s as)] \<and>
    unat (sn_send_seq s) + length (run_calls so s as) \<le> unat (reject_after_messages (sn_limits s))"
  using assms
proof (induction as arbitrary: s)
  case Nil
  then show ?case by (simp add: session_inv_def word_le_nat_alt)
next
  case (Cons a as)
  let ?k = "take 32 (the (sn_keys s))"
  obtain r u where e: "session_exec so s a = (r, u)" by (cases "session_exec so s a") auto
  have ok: "op_ok a" "list_all op_ok as" using Cons.prems(2) by simp_all
  note calls = exec_calls [OF Cons.prems(1) ok(1) e]
  have le: "unat (sn_send_seq s) \<le> unat (reject_after_messages (sn_limits s))"
    using Cons.prems(1,3) by (simp add: session_inv_def word_le_nat_alt)
  from Cons.prems(1) ok(1) e show ?case
  proof (cases rule: exec_cases)
    case ok': ok
    note IH = Cons.IH [OF ok'(4) ok(2) ok'(5)]
    show ?thesis
    proof (cases a)
      case (Op_Seal now pt n out cap)
      with ok'(1) have c: "op_calls s a = [seal_call s (content pt n)]" using calls by simp
      have v: "seal_verdict now s pt n (fst out) cap = SESSION_OK" using c Op_Seal by (auto split: if_splits)
      have u: "u = bump s" using ok'(3) Op_Seal by simp
      have "unat (sn_send_seq u) = unat (sn_send_seq s) + 1"
        using bump_inv(2) [OF Cons.prems(1,3) seal_verdict_OK(2) [OF v]] u by simp
      moreover have "sn_send_seq u = sn_send_seq s + 1" "sn_keys u = sn_keys s" "sn_limits u = sn_limits s"
        by (simp_all add: u bump_def)
      moreover have "snd (snd (seal_call s (content pt n))) = (nonce_of (sn_send_seq s), ?k)" by (simp add: seal_call_def)
      ultimately show ?thesis
        using IH c e by (simp add: upt_conv_Cons map_Suc_upt [symmetric] split_beta add.assoc comp_def del: upt_Suc)
    next
      case (Op_Open now rec out cap)
      then have "sn_send_seq u = sn_send_seq s" "sn_keys u = sn_keys s" "sn_limits u = sn_limits s"
        using ok'(3) by (simp_all add: accepted_def)
      with IH Op_Open e show ?thesis by simp
    qed
  next
    case refused
    then have "op_calls s a = []" using calls by (auto simp: refused_def split: session_op.split)
    with refused Cons.IH [OF Cons.prems(1) ok(2) Cons.prems(3)] e show ?thesis by simp
  next
    case fatal
    have rest: "run_calls so u as = []" using run_calls_dead [OF fatal(3) ok(2) dead_inactive [OF fatal(4)]] .
    show ?thesis
    proof (cases a)
      case (Op_Seal now pt n out cap)
      have "unat (sn_send_seq s) + 1 \<le> unat (reject_after_messages (sn_limits s))"
        if "seal_verdict now s pt n (fst out) cap = SESSION_OK"
        using seal_verdict_OK(2) [OF that] by (simp add: word_le_nat_alt)
      with le rest e Op_Seal show ?thesis by (simp add: seal_call_def)
    qed (use le rest e in simp)
  qed
qed

lemma session_seal_cong:
  assumes "session_inv s" "length (content pt n) = n" "cap \<le> length (snd out)"
    and "seal_verdict now s pt n (fst out) cap = SESSION_OK \<Longrightarrow>
      encrypt_call so (seal_call s (content pt n)) = encrypt_call so' (seal_call s (content pt n))"
  shows "session_seal so now (Some s) pt n (Some out) cap (Some k) = session_seal so' now (Some s) pt n (Some out) cap (Some k)"
  using session_seal_eq [OF session_inv_shape [OF assms(1)] assms(2,3), of _ now "fst out" k] assms(4)
  by (cases "seal_verdict now s pt n (fst out) cap") simp_all

lemma session_open_cong:
  assumes "chacha20poly1305_ietf_decrypt so = chacha20poly1305_ietf_decrypt so'"
  shows "session_open so = session_open so'"
proof (intro ext)
  have a: "aead_decrypt so = aead_decrypt so'" using assms by (intro ext) (simp add: aead_decrypt_def)
  show "session_open so now sp rec n out cap len = session_open so' now sp rec n out cap len" for now sp rec n out cap len
    unfolding session_open_def a ..
qed

lemma run_calls_complete:
  assumes "session_inv s" "list_all op_ok as" "chacha20poly1305_ietf_decrypt so = chacha20poly1305_ietf_decrypt so'"
    and "\<forall>q \<in> set (run_calls so s as). encrypt_call so q = encrypt_call so' q"
  shows "run_ops (session_exec so) s as = run_ops (session_exec so') s as"
  using assms
proof (induction as arbitrary: s)
  case (Cons a as)
  have e: "session_exec so s a = session_exec so' s a"
  proof (cases a)
    case (Op_Seal now pt n out cap)
    then show ?thesis
      using session_seal_cong [OF Cons.prems(1), of pt n cap out now so so' 0] Cons.prems(2,4) by simp
  qed (use session_open_cong [OF assms(3)] in simp)
  obtain r u where u: "session_exec so s a = (r, u)" by (cases "session_exec so s a") auto
  have "session_inv u" using exec_cases [OF Cons.prems(1) _ u] Cons.prems(1,2) by auto
  then have "run_ops (session_exec so) u as = run_ops (session_exec so') u as"
    using Cons.prems(2-4) u by (intro Cons.IH) auto
  then show ?case using u e by simp
qed simp

text \<open>
  C5. A traffic key never sees a nonce twice. Over any sequence of calls on a session, the uses made of
  the encryption function are all under the session's own send key with pairwise different nonces, and
  there are at most as many as the message limit allows. They are all the uses there are: another
  encryption function that agrees on them gives the same answers and the same states.
\<close>

theorem session_nonces_distinct:
  assumes "session_inv s" "sn_state s = SESSION_STATE_ACTIVE" "list_all op_ok as"
  shows "(\<forall>(m, ad, n, k) \<in> set (run_calls so s as). k = take 32 (the (sn_keys s))) \<and>
    distinct (map (\<lambda>(m, ad, n, k). n) (run_calls so s as)) \<and>
    length (run_calls so s as) \<le> unat (reject_after_messages (sn_limits s)) \<and>
    (\<forall>so'. chacha20poly1305_ietf_decrypt so = chacha20poly1305_ietf_decrypt so' \<and>
      (\<forall>q \<in> set (run_calls so s as). encrypt_call so q = encrypt_call so' q) \<longrightarrow>
      run_ops (session_exec so) s as = run_ops (session_exec so') s as)"
proof (intro conjI allI impI)
  let ?c = "run_calls so s as" and ?f = "\<lambda>i. nonce_of (sn_send_seq s + of_nat i)"
  note u = run_calls_uses [OF assms(1,3,2), of so]
  show len: "length ?c \<le> unat (reject_after_messages (sn_limits s))" using u by simp
  have "limits_valid (sn_limits s)" using assms(1,2) by (simp add: session_inv_def)
  then have small: "length ?c \<le> 8589934592" using limits_valid_max len by (fastforce simp: word_le_nat_alt)
  have "map (\<lambda>(m, ad, n, k). n) ?c = map fst (uses ?c)" by (simp add: split_beta)
  also have "\<dots> = map ?f [0..<length ?c]" using u by simp
  finally have n: "map (\<lambda>(m, ad, n, k). n) ?c = map ?f [0..<length ?c]" .
  have "inj_on ?f {0..<length ?c}"
    using small by (auto simp: inj_on_def word_of_nat_eq_iff take_bit_nat_eq_self)
  then show "distinct (map (\<lambda>(m, ad, n, k). n) ?c)" by (simp add: n distinct_map)
  have "map snd (uses ?c) = map (\<lambda>i. take 32 (the (sn_keys s))) [0..<length ?c]" using u by simp
  then have "set (map snd (uses ?c)) \<subseteq> {take 32 (the (sn_keys s))}" by (simp only:) auto
  then show "\<forall>(m, ad, n, k) \<in> set ?c. k = take 32 (the (sn_keys s))" by (auto simp: split_beta)
  show "run_ops (session_exec so) s as = run_ops (session_exec so') s as"
    if "chacha20poly1305_ietf_decrypt so = chacha20poly1305_ietf_decrypt so' \<and>
      (\<forall>q \<in> set ?c. encrypt_call so q = encrypt_call so' q)" for so'
    using run_calls_complete [OF assms(1,3)] that by blast
qed

section \<open>Accepting records\<close>

lemma record_split:
  assumes "27 \<le> length r" "r ! 0 = t" "load_be64 (drop 1 r) = q"
  shows "r = t # store_be64 q @ drop 9 r"
proof -
  have "load_be64 (drop 1 r) = load_be64 (take 8 (drop 1 r))" by (simp add: load_be64_def)
  then have "store_be64 q = take 8 (drop 1 r)" using assms store_load_be64 [of "take 8 (drop 1 r)"] by simp
  moreover have "r = r ! 0 # drop 1 r" using assms(1) by (cases r) auto
  moreover have "drop 1 r = take 8 (drop 1 r) @ drop 9 r" using append_take_drop_id [of 8 "drop 1 r"] by simp
  ultimately show ?thesis using assms(2) by metis
qed

lemma open_ok_cases:
  assumes inv: "session_inv s" "cap \<le> length p"
    and op: "session_open so now (Some s) (Some (ra, r)) (length r) (Some (pa, p)) cap (Some k) = ((SESSION_OK, s'), p', n)"
  obtains m c where "open_verdict now s ra r pa cap = SESSION_OK" "decrypt_call so (open_call s r) = (0, m)" "length m = length r - 25"
    "unpad m = Some c" "s' = Some (accepted s)" "p' = Some (pa, memcpy p 0 (c @ zeros (length r - 25 - length c)))" "n = Some (length c)"
proof -
  have v: "open_verdict now s ra r pa cap = SESSION_OK"
  proof (rule ccontr)
    assume v: "open_verdict now s ra r pa cap \<noteq> SESSION_OK"
    show False using op v unfolding session_open_refused [OF v] Let_def terminate_def
      by (auto split: if_splits simp: is_terminal_error_def)
  qed
  have "opened s r pa p k (decrypt_call so (open_call s r)) = ((SESSION_OK, s'), p', n)"
    using op session_open_eq [OF session_inv_shape [OF inv(1)] inv(2) v] by simp
  then show thesis using that v
    by (auto simp: opened_def Let_def terminate_def split: prod.splits if_splits option.splits)
qed

text \<open>
  C6. What an accepted record is. If opening succeeds, the record is the type byte, the next expected
  sequence number and a ciphertext that the AEAD authenticates under the session's receive key, with
  that number as nonce and with the handshake identifier, the receive direction and the number as
  associated data. The plaintext is the padded form of the delivered content, the rest of the output
  up to the padded length is zero, and the number is spent.
\<close>

theorem session_open_authentic:
  assumes "session_inv s" "cap \<le> length p"
    and "session_open so now (Some s) (Some (ra, r)) (length r) (Some (pa, p)) cap (Some k) = ((SESSION_OK, s'), Some (a, p'), Some n)"
  shows "\<exists>ct. r = SESSION_RECORD_TYPE # store_be64 (sn_recv_seq s) @ ct \<and>
    chacha20poly1305_ietf_decrypt so ct (ad_of (sn_handshake_id s) (sn_recv_dir s) (sn_recv_seq s)) (nonce_of (sn_recv_seq s))
      (take 32 (drop 32 (the (sn_keys s)))) = (0, inner_of (take n p') (length r - 25)) \<and>
    n + 2 \<le> length r - 25 \<and> take (length r - 25) p' = take n p' @ zeros (length r - 25 - n) \<and>
    s' = Some (accepted s) \<and> unat (sn_recv_seq (accepted s)) = unat (sn_recv_seq s) + 1"
proof -
  from assms obtain m c where o: "open_verdict now s ra r pa cap = SESSION_OK" "decrypt_call so (open_call s r) = (0, m)"
    "length m = length r - 25" "unpad m = Some c" "s' = Some (accepted s)"
    "p' = memcpy p 0 (c @ zeros (length r - 25 - length c))" "n = length c"
    by (elim open_ok_cases) auto
  note v = open_verdict_OK [OF o(1)]
  have c: "inner_of c (length r - 25) = m" "2 + length c \<le> length r - 25"
    using inner_of_unpad [OF o(4)] o(3) v(3) by auto
  have p: "take n p' = c" "take (length r - 25) p' = c @ zeros (length r - 25 - n)"
    using c(2) o(6,7) by (simp_all add: memcpy_0)
  have "limits_valid (sn_limits s)" using assms(1) v(1) by (simp add: session_inv_def)
  from seq_step(2) [OF v(2) limits_valid_max [OF this]] have "unat (sn_recv_seq (accepted s)) = unat (sn_recv_seq s) + 1"
    by (simp add: accepted_def)
  with p c o record_split [OF v(3,5,6)] show ?thesis
    by (intro exI [of _ "drop 9 r"]) (simp add: decrypt_call_def open_call_def)
qed

text \<open>
  C17. A rejected record yields nothing. If opening does not succeed, the reported length is untouched,
  and the output buffer is untouched or zero over the whole padded plaintext. A session that was active
  is then dead with its keys zeroed, unless the call itself was misused, which changes nothing at all.
\<close>

theorem session_open_failure:
  assumes "session_inv s" "cap \<le> length p"
    and "session_open so now (Some s) (Some (ra, r)) (length r) (Some (pa, p)) cap (Some k) = ((st, s'), p', n)" "st \<noteq> SESSION_OK"
  shows "n = Some k \<and>
    (p' = Some (pa, p) \<or> (\<exists>q. p' = Some (pa, q) \<and> take (length r - 25) q = zeros (length r - 25))) \<and>
    (if refused st then s' = Some s \<and> p' = Some (pa, p)
     else \<exists>t. s' = Some t \<and> session_dead t \<and> sn_keys t = Some (zeros 64))"
proof (cases "open_verdict now s ra r pa cap = SESSION_OK")
  case True
  note v = open_verdict_OK [OF True]
  have o: "opened s r pa p k (decrypt_call so (open_call s r)) = ((st, s'), p', n)"
    using assms(3) session_open_eq [OF session_inv_shape [OF assms(1)] assms(2) True] by simp
  have "session_outcome s (accepted s) (st, s')" using opened_outcome [OF assms(1) v(1,2), of r pa p k] o by (metis fst_conv)
  moreover have "\<not> refused st" using o assms(4)
    by (auto simp: opened_def Let_def terminate_def refused_def split: prod.splits if_splits option.splits)
  ultimately have "\<exists>t. s' = Some t \<and> session_dead t \<and> sn_keys t = Some (zeros 64)"
    using assms(4) by (auto simp: session_outcome_def refused_def)
  with o assms(4) \<open>\<not> refused st\<close> show ?thesis
    by (auto simp: opened_def Let_def terminate_def memcpy_0 split: prod.splits if_splits option.splits)
next
  case False
  have out: "session_outcome s (accepted s) (st, s')" using open_outcome [OF assms(1,2), of so now ra r pa k] assms(3) by simp
  have "n = Some k" "p' = Some (pa, p)"
    using assms(3) unfolding session_open_refused [OF False] Let_def by auto
  with out assms(4) show ?thesis by (auto simp: session_outcome_def refused_def split: if_splits)
qed

subsection \<open>Order\<close>

definition accepted_seqs :: "(session_op \<times> op_result) list \<Rightarrow> u64 list" where
  "accepted_seqs tr = concat (map (\<lambda>(a, r). case a of
     Op_Open now rec out cap \<Rightarrow> if op_status r = SESSION_OK then [load_be64 (drop 1 (snd rec))] else []
   | _ \<Rightarrow> []) tr)"

lemma accepted_seqs_simps [simp]:
  "accepted_seqs [] = []"
  "accepted_seqs ((a, r) # tr) = (case a of
     Op_Open now rec out cap \<Rightarrow> if op_status r = SESSION_OK then [load_be64 (drop 1 (snd rec))] else []
   | _ \<Rightarrow> []) @ accepted_seqs tr"
  by (simp_all add: accepted_seqs_def)

lemma accepted_seqs_refused: "\<forall>(a, r) \<in> set tr. refused (op_status r) \<Longrightarrow> accepted_seqs tr = []"
  by (induction tr) (auto simp: refused_def split: session_op.split)

lemma exec_open_ok:
  assumes "session_inv s" "op_ok (Op_Open now rec out cap)" "session_exec so s (Op_Open now rec out cap) = (r, s')" "op_status r = SESSION_OK"
  shows "load_be64 (drop 1 (snd rec)) = sn_recv_seq s" "\<not> reject_after_messages (sn_limits s) \<le> sn_recv_seq s"
proof -
  obtain t p n where "session_open so now (Some s) (Some (fst rec, snd rec)) (length (snd rec)) (Some (fst out, snd out)) cap (Some 0) =
      ((SESSION_OK, t), p, n)"
    using assms(3,4) by (auto split: prod.splits)
  then have v: "open_verdict now s (fst rec) (snd rec) (fst out) cap = SESSION_OK"
    using assms(1,2) by (elim open_ok_cases [rotated 2]) simp_all
  show "load_be64 (drop 1 (snd rec)) = sn_recv_seq s" "\<not> reject_after_messages (sn_limits s) \<le> sn_recv_seq s"
    using open_verdict_OK(6,2) [OF v] by simp_all
qed

lemma run_accepts:
  assumes "session_inv s" "list_all op_ok as" "sn_state s = SESSION_STATE_ACTIVE" "run_ops (session_exec so) s as = (tr, s')"
  shows "map unat (accepted_seqs tr) = [unat (sn_recv_seq s)..<unat (sn_recv_seq s) + length (accepted_seqs tr)]"
  using assms
proof (induction as arbitrary: s tr)
  case (Cons a as)
  obtain r u where e: "session_exec so s a = (r, u)" by (cases "session_exec so s a") auto
  obtain tr1 where t: "run_ops (session_exec so) u as = (tr1, s')" "tr = (a, r) # tr1"
    using Cons.prems(4) e by (auto split: prod.splits)
  have ok: "op_ok a" "list_all op_ok as" using Cons.prems(2) by simp_all
  from Cons.prems(1) ok(1) e show ?case
  proof (cases rule: exec_cases)
    case ok': ok
    note IH = Cons.IH [OF ok'(4) ok(2) ok'(5) t(1)]
    show ?thesis
    proof (cases a)
      case (Op_Seal now pt n out cap)
      then have "sn_recv_seq u = sn_recv_seq s" using ok'(3) by (simp add: bump_def)
      with IH Op_Seal t(2) show ?thesis by simp
    next
      case (Op_Open now rec out cap)
      note q = exec_open_ok [OF Cons.prems(1) ok(1) [unfolded Op_Open] e [unfolded Op_Open] ok'(1)]
      have "limits_valid (sn_limits s)" using Cons.prems(1,3) by (simp add: session_inv_def)
      from seq_step(2) [OF q(2) limits_valid_max [OF this]]
      have "unat (sn_recv_seq u) = unat (sn_recv_seq s) + 1" using ok'(3) Op_Open by (simp add: accepted_def)
      with IH Op_Open t(2) ok'(1) q(1) show ?thesis by (simp add: upt_conv_Cons del: upt_Suc)
    qed
  next
    case refused
    then have "accepted_seqs tr = accepted_seqs tr1" using t(2) by (auto simp: refused_def split: session_op.split)
    with refused Cons.IH [OF Cons.prems(1) ok(2) Cons.prems(3)] t(1) show ?thesis by simp
  next
    case fatal
    have "accepted_seqs tr1 = []"
      using run_dead [OF fatal(3) ok(2) dead_inactive [OF fatal(4)] t(1)] by (intro accepted_seqs_refused) simp
    with fatal(1) t(2) show ?thesis by (auto simp: fatal_def split: session_op.split)
  qed
qed simp

text \<open>
  C7. No replay, no gap, no reordering. Over any sequence of calls, the records a session accepts carry
  consecutive sequence numbers, starting from the one it expects first; in particular no number is
  accepted twice.
\<close>

theorem session_accepts_in_order:
  assumes "session_inv s" "sn_state s = SESSION_STATE_ACTIVE" "list_all op_ok as" "run_ops (session_exec so) s as = (tr, s')"
  shows "map unat (accepted_seqs tr) = [unat (sn_recv_seq s)..<unat (sn_recv_seq s) + length (accepted_seqs tr)] \<and>
    distinct (accepted_seqs tr)"
proof -
  have m: "map unat (accepted_seqs tr) = [unat (sn_recv_seq s)..<unat (sn_recv_seq s) + length (accepted_seqs tr)]"
    using assms(1,3,2,4) by (rule run_accepts)
  then have "distinct (map unat (accepted_seqs tr))" by (simp only: distinct_upt)
  then have "distinct (accepted_seqs tr)" by (simp only: distinct_map)
  with m show ?thesis by blast
qed

section \<open>Sample runs\<close>

text \<open>Two calls: a record that is too short, then an attempt to seal.\<close>

definition sample_ops :: "session_op list" where
  "sample_ops = [Op_Open 2 (0x300000, [4]) (0x400000, zeros 4) 4, Op_Seal 2 NULL 0 (0x200000, zeros 281) 281]"

text \<open>Two seals.\<close>

definition sample_seals :: "session_op list" where
  "sample_seals = [Op_Seal 2 NULL 0 (0x200000, zeros 281) 281, Op_Seal 3 NULL 0 (0x200000, zeros 281) 281]"

lemma sample_ops_ok: "list_all op_ok sample_ops" "list_all op_ok sample_seals"
  by (simp_all add: sample_ops_def sample_seals_def content_def)

lemma sample_open_refused:
  "open_verdict 2 (sample_session HANDSHAKE_ROLE_INITIATOR) 0x300000 [4] 0x400000 4 = SESSION_ERR_MALFORMED"
  by (simp add: open_verdict_def sample_session_def ranges_overlap_def session_age_ms_def)

theorem session_fails_closed_witness:
  "\<exists>tr s'. run_ops (session_exec sample_sodium) (sample_session HANDSHAKE_ROLE_INITIATOR) sample_ops = (tr, s') \<and>
     session_dead s' \<and> sn_keys s' = Some (zeros 64)"
proof -
  let ?s = "sample_session HANDSHAKE_ROLE_INITIATOR"
  obtain tr s' where r: "run_ops (session_exec sample_sodium) ?s sample_ops = (tr, s')" by (metis surj_pair)
  then obtain res t2 where "tr = [] @ (hd sample_ops, SESSION_ERR_MALFORMED, res) # t2"
    using session_open_refused [of 2 ?s "0x300000" "[4]" "0x400000" 4 sample_sodium "zeros 4" 0] sample_open_refused
    by (auto simp: sample_ops_def is_terminal_error_def terminate_def split: prod.splits)
  moreover have "fatal SESSION_ERR_MALFORMED" by (simp add: fatal_def refused_def)
  ultimately have "session_dead s' \<and> sn_keys s' = Some (zeros 64)"
    using session_fails_closed [OF sample_session_inv(1) sample_ops_ok(1) r] by (metis fst_conv insertI1)
  with r show ?thesis by blast
qed

theorem session_nonces_distinct_witness:
  "distinct (map (\<lambda>(m, ad, n, k). n) (run_calls sample_sodium (sample_session HANDSHAKE_ROLE_INITIATOR) sample_seals)) \<and>
   hd (run_calls sample_sodium (sample_session HANDSHAKE_ROLE_INITIATOR) sample_seals) = seal_call (sample_session HANDSHAKE_ROLE_INITIATOR) []"
proof -
  have "seal_verdict 2 (sample_session HANDSHAKE_ROLE_INITIATOR) NULL 0 0x200000 281 = SESSION_OK"
    by (simp add: seal_verdict_def sample_session_def session_sealed_len_def inner_len_for_def pad_bucket_valid_def ranges_overlap_def
        session_age_ms_def)
  then show ?thesis
    using session_nonces_distinct [OF sample_session_inv(1) sample_session_inv(2) sample_ops_ok(2), of HANDSHAKE_ROLE_INITIATOR sample_sodium]
    by (simp add: sample_seals_def content_def)
qed

text \<open>The first record of the other end: sequence number zero, empty content.\<close>

definition sample_record :: bytes where
  "sample_record = (SESSION_RECORD_TYPE # store_be64 0) @ inner_of [] 256 @ zeros 16"

lemma sample_open:
  "session_open sample_sodium 2 (Some (sample_session HANDSHAKE_ROLE_INITIATOR)) (Some (0x300000, sample_record)) (length sample_record)
     (Some (0x400000, zeros 256)) 256 (Some k) =
   ((SESSION_OK, Some (accepted (sample_session HANDSHAKE_ROLE_INITIATOR))), Some (0x400000, zeros 256), Some 0)"
proof -
  let ?s = "sample_session HANDSHAKE_ROLE_INITIATOR"
  have len: "length sample_record = 281" by (simp add: sample_record_def length_inner_of)
  have l64: "load_be64 (store_be64 0 @ x) = 0" for x
    using load_store_be64 [of 0] by (simp add: load_be64_def)
  have v: "open_verdict 2 ?s 0x300000 sample_record 0x400000 256 = SESSION_OK"
    unfolding open_verdict_def len by (simp add: sample_session_def ranges_overlap_def session_age_ms_def sample_record_def l64)
  have "drop 9 sample_record = inner_of [] 256 @ zeros 16" by (simp add: sample_record_def)
  then have d: "decrypt_call sample_sodium (open_call ?s sample_record) = (0, inner_of [] 256)"
    by (simp add: decrypt_call_def open_call_def sample_sodium_def length_inner_of)
  have "unpad (inner_of [] 256) = Some []" by (rule unpad_inner_of) simp_all
  then show ?thesis
    using session_open_eq [OF session_inv_shape [OF sample_session_inv(1)] _ v, of "zeros 256" sample_sodium k] len
    by (simp add: opened_def d length_inner_of memcpy_0)
qed

theorem session_open_authentic_witness:
  "\<exists>ct. sample_record = SESSION_RECORD_TYPE # store_be64 0 @ ct \<and> length ct = 272 \<and> sn_recv_seq (accepted (sample_session HANDSHAKE_ROLE_INITIATOR)) = 1"
  using session_open_authentic [OF sample_session_inv(1) _ sample_open]
  by (auto simp: sample_session_def sample_record_def accepted_def length_inner_of)

theorem session_open_failure_witness:
  "\<exists>t. snd (fst (session_open sample_sodium 2 (Some (sample_session HANDSHAKE_ROLE_INITIATOR)) (Some (0x300000, [4])) (length [4 :: byte])
     (Some (0x400000, zeros 4)) 4 (Some 5))) = Some t \<and> session_dead t \<and> sn_keys t = Some (zeros 64)"
proof -
  let ?s = "sample_session HANDSHAKE_ROLE_INITIATOR"
  obtain s' p' n where r: "session_open sample_sodium 2 (Some ?s) (Some (0x300000, [4])) (length [4 :: byte]) (Some (0x400000, zeros 4)) 4 (Some 5) =
      ((SESSION_ERR_MALFORMED, s'), p', n)"
    using session_open_refused [of 2 ?s "0x300000" "[4]" "0x400000" 4 sample_sodium "zeros 4" 5] sample_open_refused
    by (auto simp: is_terminal_error_def terminate_def)
  from session_open_failure [OF sample_session_inv(1) _ this] r show ?thesis by (simp add: refused_def)
qed

theorem session_accepts_in_order_witness:
  "\<exists>tr s'. run_ops (session_exec sample_sodium) (sample_session HANDSHAKE_ROLE_INITIATOR)
     [Op_Open 2 (0x300000, sample_record) (0x400000, zeros 256) 256] = (tr, s') \<and>
     accepted_seqs tr = [0] \<and> distinct (accepted_seqs tr)"
proof -
  obtain tr s' where r: "run_ops (session_exec sample_sodium) (sample_session HANDSHAKE_ROLE_INITIATOR)
     [Op_Open 2 (0x300000, sample_record) (0x400000, zeros 256) 256] = (tr, s')" by (metis surj_pair)
  then have "length (accepted_seqs tr) = 1" using sample_open [of 0] by auto
  with session_accepts_in_order [OF sample_session_inv(1) sample_session_inv(2) _ r]
  have "map unat (accepted_seqs tr) = [0]" "distinct (accepted_seqs tr)" by (auto simp: sample_session_def)
  with r show ?thesis by (auto simp: unat_eq_0)
qed

end
