(* ===== verification/Session_Link.thy ===== *)
theory Session_Link
  imports Session_Safety
begin

text \<open>
  Two sessions as the ends of one channel: how a session takes its keys over from an established
  handshake, when two sessions fit together, and that what one seals the other opens.
\<close>

section \<open>Record sizes\<close>

text \<open>
  The size of a record. For a content length within the limit and a valid padding bucket, the
  record length that the code announces is at least the shortest and at most the longest record, its
  padded part is the least multiple of the bucket that holds the length prefix and the content, and
  sealing announces exactly it. For any other length it announces zero.
\<close>

theorem session_sealed_len_bounds:
  assumes "pad_bucket_valid (pad_bucket (sn_limits s))"
  shows "if n \<le> 65534
    then SESSION_MIN_RECORD_BYTES \<le> session_sealed_len (Some s) n \<and> session_sealed_len (Some s) n \<le> SESSION_MAX_RECORD_BYTES \<and>
      unat (pad_bucket (sn_limits s)) dvd (session_sealed_len (Some s) n - 25) \<and>
      n + 2 \<le> session_sealed_len (Some s) n - 25 \<and>
      (\<forall>l. unat (pad_bucket (sn_limits s)) dvd l \<and> n + 2 \<le> l \<longrightarrow> session_sealed_len (Some s) n - 25 \<le> l)
    else session_sealed_len (Some s) n = 0"
proof (cases "n \<le> 65534")
  case True
  let ?b = "unat (pad_bucket (sn_limits s))" and ?l = "inner_len_for n (pad_bucket (sn_limits s))"
  have len: "session_sealed_len (Some s) n = ?l + 25" using True assms by (simp add: session_sealed_len_def)
  note c = inner_len_for_ceil [OF assms, of n]
  have "?l \<le> l" if l: "?b dvd l" "n + 2 \<le> l" for l
  proof (rule ccontr)
    assume "\<not> ?l \<le> l"
    moreover have "?b dvd ?l - l" using c(3) l(1) by (rule dvd_diff_nat)
    ultimately have "?b \<le> ?l - l" by (intro dvd_imp_le) simp_all
    with c(2) l(2) \<open>\<not> ?l \<le> l\<close> show False by linarith
  qed
  with True len c inner_len_for_max [OF assms True] show ?thesis by simp
qed (simp add: session_sealed_len_def)

section \<open>From the handshake\<close>

text \<open>The session made from an established context.\<close>

definition handed_over :: "env \<Rightarrow> handshake_ctx_t \<Rightarrow> session_limits_t ptr \<Rightarrow> session_t" where
  "handed_over e h limits =
     (let initiator = (hc_role h = HANDSHAKE_ROLE_INITIATOR); hk = the (hc_session_keys h)
      in \<lparr>sn_state = SESSION_STATE_ACTIVE, sn_role = hc_role h, sn_peer_confirmed = (\<not> initiator),
        sn_keys = Some (if initiator then hk else drop 32 hk @ take 32 hk),
        sn_send_dir = (if initiator then KEX_DIR_C2S else KEX_DIR_S2C),
        sn_recv_dir = (if initiator then KEX_DIR_S2C else KEX_DIR_C2S),
        sn_handshake_id = hc_handshake_id h, sn_send_seq = 0, sn_recv_seq = 0, sn_start_ms = clock_ms e 0,
        sn_limits = (case limits of NULL \<Rightarrow> the (session_default_limits (Some (sn_limits session_zero))) | Some l \<Rightarrow> l)\<rparr>)"

definition may_hand_over :: "env \<Rightarrow> session_t \<Rightarrow> handshake_ctx_t \<Rightarrow> session_limits_t ptr \<Rightarrow> bool" where
  "may_hand_over e s h limits \<longleftrightarrow>
     sn_state s = SESSION_STATE_EMPTY \<and> sn_keys s = NULL \<and> (limits \<noteq> NULL \<longrightarrow> limits_valid (the limits)) \<and>
     hc_state h = HANDSHAKE_STATE_ESTABLISHED \<and> hc_role h \<in> {HANDSHAKE_ROLE_INITIATOR, HANDSHAKE_ROLE_RESPONDER} \<and>
     clock_ms e 0 \<noteq> UINT64_MAX \<and> secure_mem_alloc e 0 64 \<noteq> NULL"

lemma established_keys:
  assumes "handshake_inv h" "hc_state h = HANDSHAKE_STATE_ESTABLISHED"
  obtains hk where "hc_session_keys h = Some hk" "length hk = 64" "hc_keys_committed h" "length (hc_handshake_id h) = 16"
  using assms by (auto simp: handshake_inv_defs)

lemma handed_over_inv:
  assumes "handshake_inv h" "hc_state h = HANDSHAKE_STATE_ESTABLISHED" "hc_role h \<in> {HANDSHAKE_ROLE_INITIATOR, HANDSHAKE_ROLE_RESPONDER}"
    "limits \<noteq> NULL \<longrightarrow> limits_valid (the limits)"
  shows "session_inv (handed_over e h limits)"
proof -
  obtain hk where "hc_session_keys h = Some hk" "length hk = 64" "length (hc_handshake_id h) = 16"
    using established_keys [OF assms(1,2)] by metis
  with assms(3,4) show ?thesis
    by (auto simp: handed_over_def Let_def session_inv_def session_shape_def session_default_limits_def limits_valid_def
        pad_bucket_valid_def session_zero_def split: option.splits)
qed

lemma init_from_handshake_eq:
  assumes inv: "handshake_inv h" "session_inv s" "env_ok e"
  shows "if may_hand_over e s h limits
    then session_init_from_handshake e (Some s) (Some h) pending limits =
      (SESSION_OK, Some (handed_over e h limits), Some (handshake_ctx_zero\<lparr>hc_state := HANDSHAKE_STATE_FAILED\<rparr>), pending)
    else \<exists>st. st \<noteq> SESSION_OK \<and> session_init_from_handshake e (Some s) (Some h) pending limits = (st, Some s, Some h, pending)"
proof -
  let ?E = "sn_state s \<noteq> SESSION_STATE_EMPTY \<or> sn_keys s \<noteq> NULL" and ?L = "limits \<noteq> NULL \<and> \<not> limits_valid (the limits)"
    and ?N = "hc_state h \<noteq> HANDSHAKE_STATE_ESTABLISHED"
    and ?R = "hc_role h \<noteq> HANDSHAKE_ROLE_INITIATOR \<and> hc_role h \<noteq> HANDSHAKE_ROLE_RESPONDER" and ?C = "clock_ms e 0 = UINT64_MAX"
    and ?A = "secure_mem_alloc e 0 64 = NULL"
  consider ?E | "\<not> ?E" ?L | "\<not> ?E" "\<not> ?L" ?N | "\<not> ?E" "\<not> ?L" "\<not> ?N" "?R \<or> ?C \<or> ?A" | "\<not> ?E" "\<not> ?L" "\<not> ?N" "\<not> ?R" "\<not> ?C" "\<not> ?A"
    by blast
  then show ?thesis
  proof cases
    case 4
    obtain hk where k: "hc_session_keys h = Some hk" "hc_keys_committed h" using established_keys [OF inv(1)] 4 by metis
    from 4(4) consider ?R | "\<not> ?R" ?C | "\<not> ?R" "\<not> ?C" ?A by argo
    then show ?thesis
      using 4(1-3) k
      by cases (simp_all add: may_hand_over_def session_init_from_handshake_def handshake_get_role_def handshake_get_state_def
          handshake_session_key_c2s_def handshake_session_key_s2c_def key_at_def handshake_get_handshake_id_def
          handshake_is_peer_confirmed_def)
  next
    case 5
    obtain hk where k: "hc_session_keys h = Some hk" "length hk = 64" "hc_keys_committed h" "length (hc_handshake_id h) = 16"
      using established_keys [OF inv(1)] 5 by metis
    obtain b where b: "secure_mem_alloc e 0 64 = Some b" "length b = 64"
      using 5(6) inv(3) by (auto simp: secure_mem_alloc_def env_ok_def)
    have hid: "length (sn_handshake_id s) = 16" using inv(2) by (simp add: session_inv_def session_shape_def)
    have cpy: "memcpy (memcpy b 0 x) 32 y = x @ y" if "length x = 32" "length y = 32" for x y :: bytes
      using that b(2) by (simp add: memcpy_append memcpy_whole)
    have may: "may_hand_over e s h limits" using 5 by (auto simp: may_hand_over_def)
    have parts: "bslice hk 0 32 @ bslice hk 32 32 = hk" "bslice hk 32 32 @ bslice hk 0 32 = drop 32 hk @ take 32 hk"
      using k(2) by (simp_all add: bslice_def)
    have "session_init_from_handshake e (Some s) (Some h) pending limits =
      (SESSION_OK, Some (handed_over e h limits), Some (handshake_ctx_zero\<lparr>hc_state := HANDSHAKE_STATE_FAILED\<rparr>), pending)"
      using 5 k b hid parts
      by (cases s; cases "hc_role h"; cases limits) (simp_all add: session_init_from_handshake_def handshake_get_role_def handshake_get_state_def
          handshake_session_key_c2s_def handshake_session_key_s2c_def key_at_def handshake_get_handshake_id_def
          handshake_is_peer_confirmed_def handshake_ctx_wipe_def Let_def handed_over_def cpy memcpy_whole session_default_limits_def)
    with may show ?thesis by simp
  qed (auto simp: may_hand_over_def session_init_from_handshake_def handshake_get_state_def Let_def split: prod.split)
qed

text \<open>
  C16. Keys are handed over once, or not at all. Initialising a session from a handshake context succeeds
  exactly if the session is fresh, the context is established, the limits if given are no weaker than
  the defaults, the clock works and memory is available. Then the session is active, well formed, holds
  the two traffic keys in the order of its role and starts both counters at zero, and the context is
  wiped, so no session can be made from it again. Otherwise nothing changes.
\<close>

theorem session_handoff:
  assumes "handshake_inv h" "session_inv s" "env_ok e"
  shows "if may_hand_over e s h limits
    then session_init_from_handshake e (Some s) (Some h) pending limits =
        (SESSION_OK, Some (handed_over e h limits), Some (handshake_ctx_zero\<lparr>hc_state := HANDSHAKE_STATE_FAILED\<rparr>), pending) \<and>
      session_inv (handed_over e h limits) \<and>
      (\<forall>e' s' p' l'. fst (session_init_from_handshake e' s' (Some (handshake_ctx_zero\<lparr>hc_state := HANDSHAKE_STATE_FAILED\<rparr>)) p' l') \<noteq>
        SESSION_OK)
    else \<exists>st. st \<noteq> SESSION_OK \<and> session_init_from_handshake e (Some s) (Some h) pending limits = (st, Some s, Some h, pending)"
proof -
  have "fst (session_init_from_handshake e' s' (Some (handshake_ctx_zero\<lparr>hc_state := HANDSHAKE_STATE_FAILED\<rparr>)) p' l') \<noteq> SESSION_OK"
    for e' s' p' l'
    by (simp add: session_init_from_handshake_def handshake_get_state_def Let_def split: prod.split)
  moreover have "session_inv (handed_over e h limits)" if "may_hand_over e s h limits"
    using that by (intro handed_over_inv [OF assms(1)]) (simp_all add: may_hand_over_def)
  ultimately show ?thesis using init_from_handshake_eq [OF assms, of limits pending] by simp
qed

section \<open>Two ends of a channel\<close>

text \<open>\<open>a\<close> sends what \<open>b\<close> receives.\<close>

definition session_feeds :: "session_t \<Rightarrow> session_t \<Rightarrow> bool" where
  "session_feeds a b \<longleftrightarrow> sn_handshake_id a = sn_handshake_id b \<and> sn_send_dir a = sn_recv_dir b \<and> sn_send_seq a = sn_recv_seq b \<and>
     take 32 (the (sn_keys a)) = take 32 (drop 32 (the (sn_keys b)))"

definition linked :: "session_t \<Rightarrow> session_t \<Rightarrow> bool" where
  "linked a b \<longleftrightarrow> session_inv a \<and> session_inv b \<and> sn_state a = SESSION_STATE_ACTIVE \<and> sn_state b = SESSION_STATE_ACTIVE \<and>
     session_feeds a b \<and> session_feeds b a"

lemma linked_sym: "linked a b \<Longrightarrow> linked b a"
  by (simp add: linked_def)

text \<open>The AEAD as documented: decryption inverts encryption, and the tag is 16 bytes.\<close>

definition aead_correct :: "sodium \<Rightarrow> bool" where
  "aead_correct so \<longleftrightarrow> (\<forall>m ad n k. length n = 12 \<longrightarrow> length k = 32 \<longrightarrow>
     fst (chacha20poly1305_ietf_encrypt so m ad n k) = 0 \<and>
     length (snd (chacha20poly1305_ietf_encrypt so m ad n k)) = length m + 16 \<and>
     chacha20poly1305_ietf_decrypt so (snd (chacha20poly1305_ietf_encrypt so m ad n k)) ad n k = (0, m))"

lemma sample_aead_correct: "aead_correct sample_sodium"
  by (simp add: aead_correct_def sample_sodium_def)

definition sealable :: "session_t \<Rightarrow> u64 \<Rightarrow> bytes \<Rightarrow> bool" where
  "sealable s now c \<longleftrightarrow> length c \<le> SESSION_MAX_CONTENT_BYTES \<and> session_age_ms s now < reject_after_ms (sn_limits s) \<and>
     sn_send_seq s < reject_after_messages (sn_limits s)"

definition openable :: "session_t \<Rightarrow> u64 \<Rightarrow> bool" where
  "openable s now \<longleftrightarrow> session_age_ms s now < reject_after_ms (sn_limits s) \<and> sn_recv_seq s < reject_after_messages (sn_limits s)"

definition record_of :: "sodium \<Rightarrow> session_t \<Rightarrow> bytes \<Rightarrow> bytes" where
  "record_of so s c = (SESSION_RECORD_TYPE # store_be64 (sn_send_seq s)) @ snd (encrypt_call so (seal_call s c))"

lemma inv_keys:
  assumes "session_inv s" "sn_state s = SESSION_STATE_ACTIVE"
  obtains k where "sn_keys s = Some k" "length k = 64"
  using assms by (auto simp: session_inv_def session_shape_def split: option.splits)

lemma encrypt_call_correct:
  assumes "aead_correct so" "session_inv s" "sn_state s = SESSION_STATE_ACTIVE" "length c \<le> 65534"
  shows "fst (encrypt_call so (seal_call s c)) = 0" "length (record_of so s c) = session_sealed_len (Some s) (length c)"
    "length (snd (encrypt_call so (seal_call s c))) = session_sealed_len (Some s) (length c) - 9"
proof -
  obtain k where k: "sn_keys s = Some k" "length k = 64" using inv_keys [OF assms(2,3)] by metis
  have b: "pad_bucket_valid (pad_bucket (sn_limits s))" using assms(2,3) by (simp add: session_inv_def limits_valid_def)
  have i: "length (inner_of c (inner_len_for (length c) (pad_bucket (sn_limits s)))) = inner_len_for (length c) (pad_bucket (sn_limits s))"
    using inner_len_for_ceil(1) [OF b, of "length c"] by (intro length_inner_of) simp
  have len: "session_sealed_len (Some s) (length c) = inner_len_for (length c) (pad_bucket (sn_limits s)) + 25"
    using assms(4) b by (simp add: session_sealed_len_def)
  show "fst (encrypt_call so (seal_call s c)) = 0"
    "length (snd (encrypt_call so (seal_call s c))) = session_sealed_len (Some s) (length c) - 9"
    "length (record_of so s c) = session_sealed_len (Some s) (length c)"
    using assms(1) k i len by (simp_all add: encrypt_call_def seal_call_def aead_correct_def record_of_def)
qed

lemma seal_correct:
  assumes "aead_correct so" "session_inv s" "sn_state s = SESSION_STATE_ACTIVE" "sealable s now (content pt n)"
    and "length (content pt n) = n" "cap \<le> length o'" "session_sealed_len (Some s) n \<le> cap"
    and "\<not> ranges_overlap (addr pt) n oa (session_sealed_len (Some s) n)"
  shows "session_seal so now (Some s) pt n (Some (oa, o')) cap (Some k) =
    ((SESSION_OK, Some (bump s)), Some (oa, memcpy o' 0 (record_of so s (content pt n))), Some (session_sealed_len (Some s) n))"
proof -
  have "seal_verdict now s pt n oa cap = SESSION_OK"
    using assms by (auto simp: seal_verdict_def sealable_def session_inv_def limits_valid_def)
  moreover note encrypt_call_correct [OF assms(1-3), of "content pt n"]
  moreover have "n \<le> 65534" using assms(4,5) by (simp add: sealable_def)
  ultimately show ?thesis
    using assms(5) by (simp add: session_seal_eq [OF session_inv_shape [OF assms(2)] assms(5,6)] record_of_def split_beta)
qed

lemma open_record:
  assumes "aead_correct so" "linked a b" "length c \<le> 65534" "openable b now"
    and "cap \<le> length p" "session_sealed_len (Some a) (length c) - 25 \<le> cap"
    and "\<not> ranges_overlap ra (session_sealed_len (Some a) (length c)) pa (min cap 65536)"
  defines "r \<equiv> record_of so a c"
  shows "session_open so now (Some b) (Some (ra, r)) (length r) (Some (pa, p)) cap (Some k) =
    ((SESSION_OK, Some (accepted b)), Some (pa, memcpy p 0 (c @ zeros (length r - 25 - length c))), Some (length c))"
proof -
  have l: "session_inv a" "session_inv b" "sn_state a = SESSION_STATE_ACTIVE" "sn_state b = SESSION_STATE_ACTIVE" "session_feeds a b"
    using assms(2) by (simp_all add: linked_def)
  have bucket: "pad_bucket_valid (pad_bucket (sn_limits a))" using l by (simp add: session_inv_def limits_valid_def)
  let ?l = "inner_len_for (length c) (pad_bucket (sn_limits a))"
  have len: "session_sealed_len (Some a) (length c) = ?l + 25" using assms(3) bucket by (simp add: session_sealed_len_def)
  note e = encrypt_call_correct [OF assms(1) l(1,3) assms(3), folded r_def]
  note ceil = inner_len_for_ceil(1) [OF bucket, of "length c"] inner_len_for_max [OF bucket assms(3)]
  have hd: "r ! 0 = 4" "load_be64 (drop 1 r) = sn_recv_seq b" "drop 9 r = snd (encrypt_call so (seal_call a c))"
    using l(5) by (simp_all add: r_def record_of_def load_be64_def session_feeds_def) (metis length_store_be64 load_be64_def load_store_be64 take_all order_refl)
  have v: "open_verdict now b ra r pa cap = SESSION_OK"
    using assms(4,6,7) l(4) e(2) len ceil hd by (simp add: open_verdict_def openable_def not_le)
  obtain ka where ka: "sn_keys a = Some ka" "length ka = 64" using inv_keys [OF l(1,3)] by metis
  have "take 32 (drop 32 (the (sn_keys b))) = take 32 ka" using l(5) ka by (simp add: session_feeds_def)
  then have kb: "length (take 32 (drop 32 (the (sn_keys b)))) = 32" using ka by (simp only: length_take)
  have dec: "decrypt_call so (open_call b r) = (0, inner_of c ?l)"
    using assms(1) l(5) ka hd(3) kb
    by (simp add: decrypt_call_def open_call_def session_feeds_def seal_call_def encrypt_call_def aead_correct_def)
  have "unpad (inner_of c ?l) = Some c" "length (inner_of c ?l) = ?l" using ceil(1) assms(3) by (simp_all add: unpad_inner_of length_inner_of)
  then show ?thesis
    unfolding session_open_eq [OF session_inv_shape [OF l(2)] assms(5) v] opened_def dec
    using e(2) len by simp
qed

text \<open>
  One message: sealed at one end into a buffer, carried over unchanged and opened at the other. The
  buffers lie apart, at addresses chosen here.
\<close>

definition transfer :: "sodium \<Rightarrow> session_t \<Rightarrow> session_t \<Rightarrow> u64 \<Rightarrow> u64 \<Rightarrow> bytes \<Rightarrow> (bytes \<times> session_t \<times> session_t) option" where
  "transfer so a b t1 t2 c =
     (let ((st, a'), rec, n) = session_seal so t1 (Some a) (Some (0x100000, c)) (length c) (Some (0x200000, zeros 65561)) 65561 (Some 0)
      in if st \<noteq> SESSION_OK then None else
      let r = take (the n) (snd (the rec));
          ((st, b'), p, k) = session_open so t2 (Some b) (Some (0x300000, r)) (length r) (Some (0x400000, zeros 65536)) 65536 (Some 0)
      in if st \<noteq> SESSION_OK then None else Some (take (the k) (snd (the p)), the a', the b'))"

lemma ranges_apart:
  assumes "m \<le> 65561" "n \<le> 65561"
  shows "\<not> ranges_overlap 0x100000 m 0x200000 n" "\<not> ranges_overlap 0x300000 m 0x400000 n"
proof -
  have m: "unat (of_nat m :: u64) = m" using assms(1) by (simp add: unat_of_nat take_bit_nat_eq_self)
  have "\<not> b < a + of_nat m" if "unat a + 65561 \<le> unat b" for a b :: u64
  proof -
    have "unat (a + of_nat m) = unat a + m"
      using m that assms(1) unsigned_less [of b, where ?'a = nat] by (simp add: unat_word_ariths)
    with that assms(1) show ?thesis by (simp add: word_less_nat_alt)
  qed
  from this [of "0x100000" "0x200000"] this [of "0x300000" "0x400000"]
  show "\<not> ranges_overlap 0x100000 m 0x200000 n" "\<not> ranges_overlap 0x300000 m 0x400000 n"
    by (simp_all add: ranges_overlap_def)
qed

lemma session_feeds_step: "session_feeds (bump a) (accepted b) = session_feeds a b" "session_feeds (accepted b) (bump a) = session_feeds b a"
  by (simp_all add: session_feeds_def bump_def accepted_def)

lemma linked_step:
  assumes "linked a b" "sn_send_seq a < reject_after_messages (sn_limits a)" "sn_recv_seq b < reject_after_messages (sn_limits b)"
  shows "linked (bump a) (accepted b)"
proof -
  have "session_inv (bump a)" "session_inv (accepted b)"
    using assms bump_inv(1) accepted_inv by (simp_all add: linked_def not_le)
  moreover have "sn_state (bump a) = sn_state a" "sn_state (accepted b) = sn_state b" by (simp_all add: bump_def accepted_def)
  ultimately show ?thesis using assms(1) unfolding linked_def session_feeds_step by simp
qed

lemma transfer_linked:
  assumes so: "aead_correct so" and ab: "linked a b" and ok: "sealable a t1 c" "openable b t2"
  shows "transfer so a b t1 t2 c = Some (c, bump a, accepted b)" "linked (bump a) (accepted b)"
proof -
  have a: "session_inv a" "sn_state a = SESSION_STATE_ACTIVE" using ab by (simp_all add: linked_def)
  have b: "pad_bucket_valid (pad_bucket (sn_limits a))" using a by (simp add: session_inv_def limits_valid_def)
  have c: "length c \<le> 65534" using ok(1) by (simp add: sealable_def)
  have l: "session_sealed_len (Some a) (length c) \<le> 65561" "length c + 27 \<le> session_sealed_len (Some a) (length c)"
    using inner_len_for_max [OF b c] inner_len_for_ceil(1) [OF b, of "length c"] c b by (simp_all add: session_sealed_len_def)
  have con: "content (Some (0x100000, c)) (length c) = c" by (simp add: content_def)
  have seal: "session_seal so t1 (Some a) (Some (0x100000, c)) (length c) (Some (0x200000, zeros 65561)) 65561 (Some 0) =
    ((SESSION_OK, Some (bump a)), Some (0x200000, memcpy (zeros 65561) 0 (record_of so a c)), Some (session_sealed_len (Some a) (length c)))"
    using seal_correct [OF so a, of t1 "Some (0x100000, c)" "length c" 65561 "zeros 65561" "0x200000" 0] ok(1) l ranges_apart(1) c con
    by simp
  have r: "length (record_of so a c) = session_sealed_len (Some a) (length c)" using encrypt_call_correct(2) [OF so a c] .
  have op: "session_open so t2 (Some b) (Some (0x300000, record_of so a c)) (length (record_of so a c)) (Some (0x400000, zeros 65536)) 65536 (Some 0) =
    ((SESSION_OK, Some (accepted b)), Some (0x400000, memcpy (zeros 65536) 0 (c @ zeros (length (record_of so a c) - 25 - length c))),
      Some (length c))"
    using l ranges_apart(2) [of "session_sealed_len (Some a) (length c)" 65536] by (intro open_record [OF so ab c ok(2)]) simp_all
  show "transfer so a b t1 t2 c = Some (c, bump a, accepted b)"
    using op by (simp add: transfer_def seal Let_def r memcpy_0)
  show "linked (bump a) (accepted b)" using ok by (intro linked_step [OF ab]) (simp_all add: sealable_def openable_def)
qed

text \<open>
  A conversation: each message says whether it goes forward, when it is sealed and when it is opened.
\<close>

type_synonym message = "bool \<times> u64 \<times> u64 \<times> bytes"

fun conversation :: "sodium \<Rightarrow> session_t \<Rightarrow> session_t \<Rightarrow> message list \<Rightarrow> (bytes list \<times> session_t \<times> session_t) option" where
  "conversation so a b [] = Some ([], a, b)"
| "conversation so a b ((fwd, t1, t2, c) # ms) =
     (case (if fwd then transfer so a b t1 t2 c else map_option (\<lambda>(c, b, a). (c, a, b)) (transfer so b a t1 t2 c)) of
        None \<Rightarrow> None
      | Some (c', a', b') \<Rightarrow> map_option (\<lambda>(cs, x, y). (c' # cs, x, y)) (conversation so a' b' ms))"

definition on_time :: "session_t \<Rightarrow> session_t \<Rightarrow> message \<Rightarrow> bool" where
  "on_time a b m = (case m of (fwd, t1, t2, c) \<Rightarrow> length c \<le> SESSION_MAX_CONTENT_BYTES \<and>
     (let (x, y) = (if fwd then (a, b) else (b, a))
      in session_age_ms x t1 < reject_after_ms (sn_limits x) \<and> session_age_ms y t2 < reject_after_ms (sn_limits y)))"

definition sends :: "bool \<Rightarrow> message list \<Rightarrow> nat" where
  "sends fwd ms = length (filter (\<lambda>m. fst m = fwd) ms)"

definition room :: "session_t \<Rightarrow> session_t \<Rightarrow> nat \<Rightarrow> bool" where
  "room a b n \<longleftrightarrow> unat (sn_send_seq a) + n \<le> unat (reject_after_messages (sn_limits a)) \<and>
     unat (sn_recv_seq b) + n \<le> unat (reject_after_messages (sn_limits b))"

lemma room_Suc:
  assumes "room a b (Suc n)" "linked a b"
  shows "sn_send_seq a < reject_after_messages (sn_limits a)" "sn_recv_seq b < reject_after_messages (sn_limits b)"
    "room (bump a) (accepted b) n"
proof -
  show l: "sn_send_seq a < reject_after_messages (sn_limits a)" "sn_recv_seq b < reject_after_messages (sn_limits b)"
    using assms(1) by (simp_all add: room_def word_less_nat_alt)
  have "reject_after_messages (sn_limits a) \<le> 8589934592" "reject_after_messages (sn_limits b) \<le> 8589934592"
    using assms(2) by (auto simp: linked_def session_inv_def intro: limits_valid_max)
  with seq_step(2) l have "unat (sn_send_seq a + 1) = unat (sn_send_seq a) + 1" "unat (sn_recv_seq b + 1) = unat (sn_recv_seq b) + 1"
    by (auto simp: not_le)
  with assms(1) show "room (bump a) (accepted b) n" by (simp add: room_def bump_def accepted_def)
qed

lemma room_same: "room (accepted a) (bump b) n = room a b n"
  by (simp add: room_def bump_def accepted_def)

lemma on_time_step: "on_time (bump a) (accepted b) = on_time a b" "on_time (accepted a) (bump b) = on_time a b"
  by (auto simp: on_time_def fun_eq_iff session_age_ms_def bump_def accepted_def Let_def)

lemma sends_Cons: "sends fwd (m # ms) = (if fst m = fwd then Suc (sends fwd ms) else sends fwd ms)"
  by (simp add: sends_def)

lemma conversation_delivers:
  assumes "aead_correct so" "linked a b" "\<forall>m \<in> set ms. on_time a b m" "room a b (sends True ms)" "room b a (sends False ms)"
  shows "\<exists>a' b'. conversation so a b ms = Some (map (\<lambda>(fwd, t1, t2, c). c) ms, a', b') \<and> linked a' b'"
  using assms(2-)
proof (induction ms arbitrary: a b)
  case (Cons m ms)
  obtain fwd t1 t2 c where m: "m = (fwd, t1, t2, c)" by (cases m) auto
  show ?case
  proof (cases fwd)
    case True
    note r = room_Suc [of a b "sends True ms"]
    have "sealable a t1 c" "openable b t2"
      using Cons.prems True m r(1,2) by (auto simp: on_time_def sends_Cons sealable_def openable_def)
    note t = transfer_linked [OF assms(1) Cons.prems(1) this]
    have "\<exists>a' b'. conversation so (bump a) (accepted b) ms = Some (map (\<lambda>(fwd, t1, t2, c). c) ms, a', b') \<and> linked a' b'"
      using Cons.prems True m r(3) by (intro Cons.IH [OF t(2)]) (auto simp: on_time_step room_same sends_Cons)
    with t(1) True m show ?thesis by auto
  next
    case False
    note r = room_Suc [of b a "sends False ms"]
    have "sealable b t1 c" "openable a t2"
      using Cons.prems False m r(1,2) linked_sym by (auto simp: on_time_def sends_Cons sealable_def openable_def)
    note t = transfer_linked [OF assms(1) linked_sym [OF Cons.prems(1)] this]
    have "\<exists>a' b'. conversation so (accepted a) (bump b) ms = Some (map (\<lambda>(fwd, t1, t2, c). c) ms, a', b') \<and> linked a' b'"
      using Cons.prems False m r(3) linked_sym by (intro Cons.IH [OF linked_sym [OF t(2)]]) (auto simp: on_time_step room_same sends_Cons)
    with t(1) False m show ?thesis by auto
  qed
qed simp

text \<open>
  C9. Everything sent arrives. Two linked sessions exchange any conversation in both directions: if
  the AEAD is correct, every message fits and is sealed and opened before the age limit, and the
  message limits leave room, then every seal and every open succeeds, each end receives exactly the
  messages the other sent, in order, and the sessions are still linked.
\<close>

theorem session_delivery:
  assumes "aead_correct so" "linked a b" "\<forall>m \<in> set ms. on_time a b m" "room a b (sends True ms)" "room b a (sends False ms)"
  shows "\<exists>a' b'. conversation so a b ms = Some (map (\<lambda>(fwd, t1, t2, c). c) ms, a', b') \<and> linked a' b'"
  using assms by (rule conversation_delivers)

lemma sample_linked: "linked (sample_session HANDSHAKE_ROLE_INITIATOR) (sample_session HANDSHAKE_ROLE_RESPONDER)"
  unfolding linked_def by (simp add: sample_session_inv) (simp add: session_feeds_def sample_session_def)

theorem session_delivery_witness:
  "\<exists>a' b'. conversation sample_sodium (sample_session HANDSHAKE_ROLE_INITIATOR) (sample_session HANDSHAKE_ROLE_RESPONDER)
     [(True, 2, 3, [7]), (False, 4, 5, [8, 9])] = Some ([[7], [8, 9]], a', b') \<and> linked a' b'"
proof -
  have "\<forall>m \<in> set [(True, 2, 3, [7]), (False, 4, 5, [8, 9])]. on_time (sample_session HANDSHAKE_ROLE_INITIATOR) (sample_session HANDSHAKE_ROLE_RESPONDER) m"
    by (simp add: on_time_def sample_session_def session_age_ms_def)
  then show ?thesis
    using session_delivery [OF sample_aead_correct sample_linked, of "[(True, 2, 3, [7]), (False, 4, 5, [8, 9])]"]
    by (simp add: room_def sends_def sample_session_def)
qed

theorem session_sealed_len_bounds_witness:
  "pad_bucket_valid (pad_bucket (sn_limits (sample_session HANDSHAKE_ROLE_INITIATOR))) \<and>
   256 dvd (session_sealed_len (Some (sample_session HANDSHAKE_ROLE_INITIATOR)) 300 - 25)"
  using session_sealed_len_bounds [of "sample_session HANDSHAKE_ROLE_INITIATOR" 300]
  by (simp add: sample_session_def pad_bucket_valid_def)

theorem session_handoff_witness:
  "\<exists>st. st \<noteq> SESSION_OK \<and> session_init_from_handshake sample_env (Some session_zero)
     (Some (handshake_ctx_zero\<lparr>hc_state := HANDSHAKE_STATE_FAILED\<rparr>)) NULL NULL =
     (st, Some session_zero, Some (handshake_ctx_zero\<lparr>hc_state := HANDSHAKE_STATE_FAILED\<rparr>), NULL)"
proof -
  have "env_ok sample_env" by (auto simp: env_ok_def sample_env_def)
  from session_handoff [OF ctx_zero_inv session_zero_inv this, of NULL NULL] show ?thesis
    by (simp add: may_hand_over_def)
qed

end
