(* ===== verification/Proxy_V2.thy ===== *)
theory Proxy_V2
  imports Interfaces
begin

text \<open>
  The PROXY v2 preamble parser, \<open>apps/authd/proxy_v2.c\<close> with the types of \<open>proxy_v2.h\<close>: one definition
  per function, and one for each part of \<open>proxy_v2_consume\<close> that the proofs treat on its own.

  The flags \<open>hdr_ok\<close> and \<open>done\<close> are booleans. \<open>inet_ntop\<close> is an argument of the function that renders an
  address.
\<close>

abbreviation (input) PROXY_V2_SIG_LEN :: nat where "PROXY_V2_SIG_LEN \<equiv> 12"
abbreviation (input) PROXY_V2_HDR_LEN :: nat where "PROXY_V2_HDR_LEN \<equiv> 16"
abbreviation (input) PROXY_V2_ADDR_MAX :: nat where "PROXY_V2_ADDR_MAX \<equiv> 216"
abbreviation (input) PROXY_V2_LEN_MAX :: nat where "PROXY_V2_LEN_MAX \<equiv> 1024"
abbreviation (input) PROXY_V2_MAX_TOTAL :: nat where "PROXY_V2_MAX_TOTAL \<equiv> 1040"
abbreviation (input) AF_INET :: nat where "AF_INET \<equiv> 2"
abbreviation (input) AF_INET6 :: nat where "AF_INET6 \<equiv> 10"

datatype proxy_v2_status_t = PROXY_V2_NEED_MORE | PROXY_V2_OK | PROXY_V2_NO_ADDR | PROXY_V2_ERR

record authd_addr_t =
  aa_family :: byte
  aa_addr :: bytes

record proxy_v2_t =
  px_buf :: bytes
  px_have :: nat
  px_want :: nat
  px_skip :: nat
  px_hdr_ok :: bool
  px_done :: bool
  px_result :: proxy_v2_status_t
  px_addr :: authd_addr_t

definition PROXY_V2_SIG :: bytes where
  "PROXY_V2_SIG = [0x0d, 0x0a, 0x0d, 0x0a, 0x00, 0x0d, 0x0a, 0x51, 0x55, 0x49, 0x54, 0x0a]"

definition proxy_v2_status_name :: "proxy_v2_status_t \<Rightarrow> string" where
  "proxy_v2_status_name st =
     (case st of
        PROXY_V2_NEED_MORE \<Rightarrow> ''need-more''
      | PROXY_V2_OK \<Rightarrow> ''ok''
      | PROXY_V2_NO_ADDR \<Rightarrow> ''no-client-address''
      | PROXY_V2_ERR \<Rightarrow> ''malformed'')"

definition proxy_v2_init :: "proxy_v2_t ptr \<Rightarrow> proxy_v2_t ptr" where
  "proxy_v2_init p =
     (case p of NULL \<Rightarrow> NULL
      | Some _ \<Rightarrow> Some \<lparr>px_buf = zeros (PROXY_V2_HDR_LEN + PROXY_V2_ADDR_MAX), px_have = 0, px_want = PROXY_V2_HDR_LEN,
          px_skip = 0, px_hdr_ok = False, px_done = False, px_result = PROXY_V2_NEED_MORE,
          px_addr = \<lparr>aa_family = 0, aa_addr = zeros 16\<rparr>\<rparr>)"

text \<open>\<open>snprintf\<close> of a fixed text: as much as fits, always terminated.\<close>

definition snprintf_text :: "string \<Rightarrow> nat \<Rightarrow> string \<Rightarrow> string" where
  "snprintf_text out cap s = memcpy out 0 (take (cap - 1) s @ [CHR 0x00])"

definition authd_addr_str ::
  "(nat \<Rightarrow> bytes \<Rightarrow> nat \<Rightarrow> string option) \<Rightarrow> authd_addr_t ptr \<Rightarrow> string ptr \<Rightarrow> nat \<Rightarrow> string ptr" where
  "authd_addr_str inet_ntop a out cap =
     (if out = NULL \<or> cap = 0 then out
      else let o1 = memcpy (the out) 0 [CHR 0x00]
        in if a = NULL \<or> aa_family (the a) = 0 then Some (snprintf_text o1 cap ''none'')
        else let af = (if aa_family (the a) = 4 then AF_INET else AF_INET6)
          in (case inet_ntop af (aa_addr (the a)) cap of
                None \<Rightarrow> Some (snprintf_text o1 cap ''unprintable'')
              | Some s \<Rightarrow> Some (memcpy o1 0 (s @ [CHR 0x00]))))"

definition authd_addr_key :: "authd_addr_t ptr \<Rightarrow> bytes ptr \<Rightarrow> nat \<times> bytes ptr" where
  "authd_addr_key a out =
     (if a = NULL \<or> out = NULL then (0, out)
      else if aa_family (the a) = 4 then (4, Some (memcpy (the out) 0 (take 4 (aa_addr (the a)))))
      else if aa_family (the a) = 6 then (8, Some (memcpy (the out) 0 (take 8 (aa_addr (the a)))))
      else (0, out))"

definition be16 :: "bytes \<Rightarrow> u16" where
  "be16 p = (push_bit 8 (ucast (p ! 0)) OR ucast (p ! 1))"

definition addr_block_len :: "byte \<Rightarrow> nat" where
  "addr_block_len fam = (if fam = 0x1 then 12 else if fam = 0x2 then 36 else if fam = 0x3 then 216 else 0)"

definition fail :: "proxy_v2_t \<Rightarrow> nat \<Rightarrow> proxy_v2_status_t \<times> proxy_v2_t \<times> nat" where
  "fail p consumed = (PROXY_V2_ERR, p\<lparr>px_done := True, px_result := PROXY_V2_ERR\<rparr>, consumed)"

definition settle :: "proxy_v2_t \<Rightarrow> proxy_v2_status_t \<times> proxy_v2_t" where
  "settle p =
     (let ver_cmd = px_buf p ! 12; fam = drop_bit 4 (px_buf p ! 13); cmd = ver_cmd AND 0x0f
      in if cmd = 0x0 then (PROXY_V2_NO_ADDR, p)
         else if fam = 0x1
         then (PROXY_V2_OK, p\<lparr>px_addr := \<lparr>aa_family = 4, aa_addr = memcpy (aa_addr (px_addr p)) 0 (bslice (px_buf p) PROXY_V2_HDR_LEN 4)\<rparr>\<rparr>)
         else if fam = 0x2
         then (PROXY_V2_OK, p\<lparr>px_addr := \<lparr>aa_family = 6, aa_addr = memcpy (aa_addr (px_addr p)) 0 (bslice (px_buf p) PROXY_V2_HDR_LEN 16)\<rparr>\<rparr>)
         else (PROXY_V2_NO_ADDR, p))"

text \<open>The copying loop, up to \<open>lim\<close> staged bytes.\<close>

function stage :: "nat \<Rightarrow> bytes \<Rightarrow> nat \<Rightarrow> proxy_v2_t \<Rightarrow> nat \<Rightarrow> proxy_v2_t \<times> nat" where
  "stage lim data n p i =
     (if px_have p < lim \<and> i < n
      then stage lim data n (p\<lparr>px_buf := (px_buf p)[px_have p := data ! i], px_have := px_have p + 1\<rparr>) (i + 1)
      else (p, i))"
  by pat_completeness auto
termination by (relation "measure (\<lambda>(lim, data, n, p, i). n - i)") auto

declare stage.simps [simp del]

text \<open>Steps 2 and 3: the address block, then the rest of the body.\<close>

definition consume_body :: "proxy_v2_t \<Rightarrow> bytes \<Rightarrow> nat \<Rightarrow> nat \<Rightarrow> proxy_v2_status_t \<times> proxy_v2_t \<times> nat" where
  "consume_body p data n i =
     (let (p, i) = stage (px_want p) data n p i
      in if px_have p < px_want p then (PROXY_V2_NEED_MORE, p, i)
      else
        let avail = n - i; tk = (if avail < px_skip p then avail else px_skip p);
            (p, i) = (if px_skip p > 0 then (p\<lparr>px_skip := px_skip p - tk\<rparr>, i + tk) else (p, i))
        in if px_skip p > 0 then (PROXY_V2_NEED_MORE, p, i)
        else
          let p = p\<lparr>px_done := True\<rparr>; (r, p) = settle p; p = p\<lparr>px_result := r\<rparr>
          in (px_result p, p, i))"

text \<open>The decision on the fixed header, once its sixteen bytes are staged.\<close>

definition header_step :: "proxy_v2_t \<Rightarrow> proxy_v2_t option" where
  "header_step p =
     (if take PROXY_V2_SIG_LEN (px_buf p) \<noteq> PROXY_V2_SIG then None
      else let ver = drop_bit 4 (px_buf p ! 12); cmd = px_buf p ! 12 AND 0x0f; blen = unat (be16 (drop 14 (px_buf p)))
        in if ver \<noteq> 0x2 \<or> (cmd \<noteq> 0x0 \<and> cmd \<noteq> 0x1) \<or> blen > PROXY_V2_LEN_MAX then None
        else let fam = drop_bit 4 (px_buf p ! 13); blk = (if cmd = 0x1 then addr_block_len fam else 0)
          in if blk > blen then None
          else Some (p\<lparr>px_want := PROXY_V2_HDR_LEN + blk, px_skip := blen - blk, px_hdr_ok := True\<rparr>))"

definition proxy_v2_consume ::
  "proxy_v2_t ptr \<Rightarrow> bytes ptr \<Rightarrow> nat \<Rightarrow> nat ptr \<Rightarrow> proxy_v2_status_t \<times> proxy_v2_t ptr \<times> nat ptr" where
  "proxy_v2_consume pp data n used =
     (let used = map_option (\<lambda>_. 0) used
      in if pp = NULL \<or> (data = NULL \<and> n \<noteq> 0) \<or> used = NULL then (PROXY_V2_ERR, pp, used)
      else if px_done (the pp) then (px_result (the pp), pp, used)
      else
        let data = (case data of NULL \<Rightarrow> [] | Some d \<Rightarrow> d);
            (p, i) = (if px_hdr_ok (the pp) then (the pp, 0) else stage PROXY_V2_HDR_LEN data n (the pp) 0);
            (st, p, i) =
              (if px_hdr_ok p then consume_body p data n i
               else if px_have p < PROXY_V2_HDR_LEN then (PROXY_V2_NEED_MORE, p, i)
               else (case header_step p of
                       None \<Rightarrow> fail p i
                     | Some p \<Rightarrow> consume_body p data n i))
        in (st, Some p, Some i))"

section \<open>The parser as a function of the bytes read\<close>

text \<open>
  What the fixed header says, read off the stream: \<open>header_valid\<close>, the length of the address block
  \<open>blk_of\<close>, the length of the body \<open>blen_of\<close>, and how many bytes the preamble takes.
\<close>

definition cmd_of :: "bytes \<Rightarrow> byte" where "cmd_of z = z ! 12 AND 0x0f"
definition fam_of :: "bytes \<Rightarrow> byte" where "fam_of z = drop_bit 4 (z ! 13)"
definition blen_of :: "bytes \<Rightarrow> nat" where "blen_of z = unat (be16 (drop 14 z))"
definition blk_of :: "bytes \<Rightarrow> nat" where "blk_of z = (if cmd_of z = 1 then addr_block_len (fam_of z) else 0)"

definition header_valid :: "bytes \<Rightarrow> bool" where
  "header_valid z \<longleftrightarrow> take 12 z = PROXY_V2_SIG \<and> drop_bit 4 (z ! 12) = 2 \<and> cmd_of z \<in> {0, 1} \<and>
     blen_of z \<le> 1024 \<and> blk_of z \<le> blen_of z"

definition preamble_len :: "bytes \<Rightarrow> nat" where
  "preamble_len z = (if 16 \<le> length z \<and> header_valid z then 16 + blen_of z else 16)"

definition client_addr :: "bytes \<Rightarrow> authd_addr_t option" where
  "client_addr z =
     (if cmd_of z = 1 \<and> fam_of z = 1 then Some \<lparr>aa_family = 4, aa_addr = bslice z 16 4 @ zeros 12\<rparr>
      else if cmd_of z = 1 \<and> fam_of z = 2 then Some \<lparr>aa_family = 6, aa_addr = bslice z 16 16\<rparr>
      else None)"

abbreviation no_addr :: authd_addr_t where
  "no_addr \<equiv> \<lparr>aa_family = 0, aa_addr = zeros 16\<rparr>"

text \<open>The parser after the bytes \<open>z\<close>, and in the middle of the body at position \<open>q\<close>.\<close>

definition mid :: "bytes \<Rightarrow> nat \<Rightarrow> proxy_v2_t" where
  "mid z q = \<lparr>px_buf = memcpy (zeros 232) 0 (take (min q (16 + blk_of z)) z), px_have = min q (16 + blk_of z), px_want = 16 + blk_of z,
     px_skip = 16 + blen_of z - max q (16 + blk_of z), px_hdr_ok = True, px_done = False, px_result = PROXY_V2_NEED_MORE, px_addr = no_addr\<rparr>"

definition after :: "bytes \<Rightarrow> proxy_v2_t" where
  "after z =
     (if length z < 16 \<or> \<not> header_valid z
      then \<lparr>px_buf = memcpy (zeros 232) 0 (take 16 z), px_have = min 16 (length z), px_want = 16, px_skip = 0, px_hdr_ok = False,
        px_done = (16 \<le> length z), px_result = (if 16 \<le> length z then PROXY_V2_ERR else PROXY_V2_NEED_MORE), px_addr = no_addr\<rparr>
      else if length z < 16 + blen_of z then mid z (length z)
      else (mid z (16 + blen_of z))\<lparr>px_done := True,
        px_result := (if client_addr z = None then PROXY_V2_NO_ADDR else PROXY_V2_OK),
        px_addr := (case client_addr z of None \<Rightarrow> no_addr | Some a \<Rightarrow> a)\<rparr>)"

lemma be16_drop14: "16 \<le> length z \<Longrightarrow> be16 (drop 14 z) = (push_bit 8 (ucast (z ! 14)) OR ucast (z ! 15))"
  by (simp add: be16_def)

lemma header_prefix:
  assumes "16 \<le> length z" "take 16 z = take 16 y" "16 \<le> length y"
  shows "cmd_of z = cmd_of y" "fam_of z = fam_of y" "blen_of z = blen_of y" "blk_of z = blk_of y" "header_valid z = header_valid y"
proof -
  have n: "z ! i = y ! i" if "i < 16" for i using assms that by (metis nth_take)
  show c: "cmd_of z = cmd_of y" "fam_of z = fam_of y" by (simp_all add: cmd_of_def fam_of_def n)
  show b: "blen_of z = blen_of y" using assms(1,3) by (simp add: blen_of_def be16_drop14 n)
  show k: "blk_of z = blk_of y" by (simp add: blk_of_def c)
  have "take 12 (take 16 z) = take 12 (take 16 y)" by (simp only: assms(2))
  then have "take 12 z = take 12 y" by simp
  with c b k show "header_valid z = header_valid y" by (simp add: header_valid_def n)
qed

lemma addr_block_len_le: "addr_block_len f \<le> 216"
  by (simp add: addr_block_len_def)

lemma blk_of_le: "blk_of z \<le> 216"
  by (simp add: blk_of_def addr_block_len_le)

lemma stage_eq:
  assumes "length (px_buf p) = 232" "lim \<le> 232" "px_have p \<le> lim" "n = length data" "i \<le> n"
  shows "stage lim data n p i = (p\<lparr>px_buf := memcpy (px_buf p) (px_have p) (bslice data i (lim - px_have p)),
    px_have := px_have p + min (lim - px_have p) (n - i)\<rparr>, i + min (lim - px_have p) (n - i))"
  using assms
proof (induction lim data n p i rule: stage.induct)
  case (1 lim data n p i)
  show ?case
  proof (cases "px_have p < lim \<and> i < n")
    case True
    let ?p = "p\<lparr>px_buf := (px_buf p)[px_have p := data ! i], px_have := px_have p + 1\<rparr>"
    have "drop i data = data ! i # drop (Suc i) data" "lim - px_have p = Suc (lim - Suc (px_have p))"
      using True 1(5) by (simp_all add: Cons_nth_drop_Suc Suc_diff_Suc)
    then have b: "bslice data i (lim - px_have p) = data ! i # bslice data (Suc i) (lim - Suc (px_have p))"
      by (simp add: bslice_def)
    have "min (lim - px_have p) (n - i) = min (lim - (px_have p + 1)) (n - (i + 1)) + 1" using True by linarith
    then show ?thesis
      using True 1(1) [OF True] 1(2-) by (subst stage.simps) (simp add: b memcpy_update)
  next
    case False
    then have "bslice data i (lim - px_have p) = []" "min (lim - px_have p) (n - i) = 0" using 1(4-6) by (auto simp: bslice_def)
    then show ?thesis using False by (subst stage.simps) (auto simp: memcpy_def)
  qed
qed

lemma mid_sel:
  "px_buf (mid z q) = memcpy (zeros 232) 0 (take (min q (16 + blk_of z)) z)" "px_have (mid z q) = min q (16 + blk_of z)"
  "px_want (mid z q) = 16 + blk_of z"
  by (simp_all add: mid_def)

lemma stage_mid:
  assumes "q \<le> length z" "drop i d = drop q z" "i \<le> length d"
  defines "q1 \<equiv> max q (min (16 + blk_of z) (length z))"
  shows "stage (px_want (mid z q)) d (length d) (mid z q) i = (mid z q1, i + (q1 - q))"
proof -
  let ?w = "16 + blk_of z"
  have w: "?w \<le> 232" using blk_of_le [of z] by simp
  have n: "length d - i = length z - q" using arg_cong [OF assms(2), of length] by simp
  have b: "bslice d i (?w - min q ?w) = take (?w - min q ?w) (drop q z)" by (simp add: bslice_def assms(2))
  have t: "take (min q ?w) z @ take (?w - min q ?w) (drop q z) = take ?w z"
    by (cases "q \<le> ?w") (simp_all add: min_def flip: take_add)
  have t1: "take (min q1 ?w) z = take ?w z"
    using assms(1) by (auto simp: q1_def min_def max_def)
  have len: "length (memcpy (zeros 232) 0 (take (min q ?w) z)) = 232" using w by simp
  have l: "length (take (min q ?w) z) = min q ?w" using assms(1) by simp
  have m: "memcpy (memcpy (zeros 232) 0 (take (min q ?w) z)) (min q ?w) (take (?w - min q ?w) (drop q z)) = memcpy (zeros 232) 0 (take ?w z)"
    using l by (subst memcpy_append) (simp_all add: t)
  have h: "min q ?w + (q1 - q) = min q1 ?w" "min (?w - min q ?w) (length z - q) = q1 - q"
    "max q1 ?w = max q ?w"
    using assms(1) by (auto simp: q1_def min_def max_def)
  have upd: "(mid z q)\<lparr>px_buf := memcpy (zeros 232) 0 (take ?w z), px_have := min q1 ?w\<rparr> = mid z q1"
    using t1 h(3) by (simp add: mid_def)
  note st = stage_eq [of "mid z q" ?w "length d" d i, unfolded mid_sel, OF len w min.cobounded2 refl assms(3)]
  show ?thesis unfolding mid_sel st b n m h upd ..
qed

lemma mid_nth: "16 \<le> length z \<Longrightarrow> 16 \<le> q \<Longrightarrow> k < 16 \<Longrightarrow> px_buf (mid z q) ! k = z ! k"
  by (simp add: mid_def memcpy_0 nth_append)

lemma mid_bslice:
  "16 + n \<le> length z \<Longrightarrow> n \<le> blk_of z \<Longrightarrow> 16 + n \<le> q \<Longrightarrow> bslice (px_buf (mid z q)) 16 n = bslice z 16 n"
  by (simp add: mid_def memcpy_0 bslice_def drop_take min_def)

lemma settle_mid:
  assumes "header_valid z" "16 + blen_of z \<le> length z"
  shows "(let (r, p) = settle ((mid z (16 + blen_of z))\<lparr>px_done := True\<rparr>) in p\<lparr>px_result := r\<rparr>) = after z"
proof -
  let ?p = "mid z (16 + blen_of z)"
  have k: "blk_of z \<le> blen_of z" "cmd_of z \<in> {0, 1}" using assms(1) by (simp_all add: header_valid_def)
  have n: "px_buf ?p ! 12 AND 0x0f = cmd_of z" "drop_bit 4 (px_buf ?p ! 13) = fam_of z"
    using assms(2) by (simp_all add: mid_nth cmd_of_def fam_of_def)
  have a: "after z = ?p\<lparr>px_done := True, px_result := (if client_addr z = None then PROXY_V2_NO_ADDR else PROXY_V2_OK),
        px_addr := (case client_addr z of None \<Rightarrow> no_addr | Some a \<Rightarrow> a)\<rparr>"
    using assms by (simp add: after_def)
  have addr: "px_addr ?p = no_addr" by (simp add: mid_def)
  consider "cmd_of z = 0" | "cmd_of z = 1" "fam_of z = 1" | "cmd_of z = 1" "fam_of z = 2" | "cmd_of z = 1" "fam_of z \<noteq> 1" "fam_of z \<noteq> 2"
    using k(2) by blast
  then show ?thesis
  proof cases
    case 2
    then have "blk_of z = 12" by (simp add: blk_of_def addr_block_len_def)
    then have "bslice (px_buf ?p) 16 4 = bslice z 16 4" "length (bslice z 16 4) = 4"
      using k assms(2) by (simp_all add: mid_bslice)
    then show ?thesis using 2 assms(2) n unfolding a by (simp add: settle_def Let_def client_addr_def addr memcpy_0)
  next
    case 3
    then have "blk_of z = 36" by (simp add: blk_of_def addr_block_len_def)
    then have "bslice (px_buf ?p) 16 16 = bslice z 16 16" "length (bslice z 16 16) = 16"
      using k assms(2) by (simp_all add: mid_bslice)
    then show ?thesis using 3 assms(2) n unfolding a by (simp add: settle_def Let_def client_addr_def addr memcpy_0)
  qed (use n in \<open>simp_all add: a settle_def Let_def client_addr_def addr\<close>)
qed

lemma consume_body_mid:
  assumes hv: "header_valid z" "16 \<le> q" "q \<le> length z" "q \<le> 16 + blen_of z" and d: "drop i d = drop q z" "i \<le> length d"
  shows "consume_body (mid z q) d (length d) i = (px_result (after z), after z, i + (min (length z) (16 + blen_of z) - q))"
proof -
  let ?w = "16 + blk_of z" and ?t = "16 + blen_of z"
  define q1 where "q1 = max q (min ?w (length z))"
  note st = stage_mid [OF hv(3) d, folded q1_def]
  have k: "blk_of z \<le> blen_of z" using hv(1) by (simp add: header_valid_def)
  have n: "length d - i = length z - q" using arg_cong [OF d(1), of length] by simp
  have l16: "16 \<le> length z" using hv(2,3) by simp
  show ?thesis
  proof (cases "length z < ?w")
    case True
    then have q1: "q1 = length z" using hv(3) by (simp add: q1_def)
    have "after z = mid z (length z)" "px_have (mid z (length z)) < px_want (mid z (length z))" "px_result (mid z (length z)) = PROXY_V2_NEED_MORE"
      using True k hv l16 by (simp_all add: after_def mid_def)
    then show ?thesis
      using st True k hv(3) by (simp add: consume_body_def q1)
  next
    case False
    then have q1: "q1 = max q ?w" by (simp add: q1_def)
    let ?e = "min (length z) ?t"
    have skip: "px_skip (mid z q1) = ?t - q1" "px_have (mid z q1) = ?w" "px_want (mid z q1) = ?w" using q1 by (simp_all add: mid_def max_def min_def)
    have avail: "length d - (i + (q1 - q)) = length z - q1" using n q1 d(2) hv(3) by linarith
    have le: "q1 \<le> ?e" "q \<le> q1" using q1 False hv(3,4) k by auto
    have upd: "(mid z q1)\<lparr>px_skip := ?t - q1 - (?e - q1)\<rparr> = mid z ?e" using le q1 False k by (auto simp: mid_def min_def max_def)
    have tk: "(if length z - q1 < ?t - q1 then length z - q1 else ?t - q1) = ?e - q1" using le by auto
    have both: "(if 0 < ?t - q1 then (mid z ?e, i + (q1 - q) + (?e - q1)) else (mid z q1, i + (q1 - q))) = (mid z ?e, i + (?e - q))"
      using le by auto
    have "?w \<le> ?e" using k False by auto
    then have e: "px_skip (mid z ?e) = ?t - ?e" by (simp add: mid_def max_absorb1)
    show ?thesis
    proof (cases "length z < ?t")
      case True
      have "after z = mid z (length z)" "px_result (mid z (length z)) = PROXY_V2_NEED_MORE"
        using True hv(1) l16 by (simp_all add: after_def mid_def)
      with True show ?thesis
        unfolding consume_body_def st prod.case skip avail tk Let_def upd both using e by simp
    next
      case False
      then have et: "?e = ?t" by simp
      obtain r p where s: "settle ((mid z ?t)\<lparr>px_done := True\<rparr>) = (r, p)" by (metis surj_pair)
      have "p\<lparr>px_result := r\<rparr> = after z" using settle_mid [OF hv(1)] False by (simp add: s)
      moreover have "px_result (p\<lparr>px_result := r\<rparr>) = r" by simp
      ultimately have "px_result (after z) = r" "p\<lparr>px_result := r\<rparr> = after z" by simp_all
      then show ?thesis
        unfolding consume_body_def st prod.case skip avail tk Let_def upd both using e et s by simp
    qed
  qed
qed

section \<open>Every way to cut the input\<close>

definition proxy_feed :: "proxy_v2_t \<Rightarrow> bytes \<Rightarrow> proxy_v2_t \<times> nat" where
  "proxy_feed p d = (let (st, p', u) = proxy_v2_consume (Some p) (Some d) (length d) (Some 0) in (the p', the u))"

text \<open>The states a parser goes through.\<close>

definition proxy_inv :: "proxy_v2_t \<Rightarrow> bool" where
  "proxy_inv p \<longleftrightarrow> (\<exists>x. p = after x)"

lemma after_done: "px_done (after z) \<longleftrightarrow> 16 \<le> length z \<and> preamble_len z \<le> length z"
  by (auto simp: after_def preamble_len_def mid_def)

lemma mid_append: "16 \<le> length z \<Longrightarrow> q \<le> length z \<Longrightarrow> mid (z @ e) q = mid z q"
  using header_prefix [of "z @ e" z] by (simp add: mid_def)

lemma client_addr_append:
  assumes "header_valid z" "16 + blen_of z \<le> length z"
  shows "client_addr (z @ e) = client_addr z"
proof -
  have h: "cmd_of (z @ e) = cmd_of z" "fam_of (z @ e) = fam_of z" using assms(2) header_prefix [of "z @ e" z] by simp_all
  have "cmd_of z = 1 \<Longrightarrow> fam_of z = 1 \<Longrightarrow> 20 \<le> length z" "cmd_of z = 1 \<Longrightarrow> fam_of z = 2 \<Longrightarrow> 32 \<le> length z"
    using assms by (simp_all add: header_valid_def blk_of_def addr_block_len_def)
  then show ?thesis by (simp add: client_addr_def h)
qed

lemma after_append:
  assumes "px_done (after z)"
  shows "after (z @ e) = after z" "preamble_len (z @ e) = preamble_len z"
proof -
  have l: "16 \<le> length z" "preamble_len z \<le> length z" using assms by (simp_all add: after_done)
  note h = header_prefix [of "z @ e" z]
  show "preamble_len (z @ e) = preamble_len z" using h l by (simp add: preamble_len_def)
  show "after (z @ e) = after z"
  proof (cases "header_valid z")
    case True
    then have "16 + blen_of z \<le> length z" using l by (simp add: preamble_len_def)
    then show ?thesis
      using h True l(1) mid_append [OF l(1), of "16 + blen_of z" e] client_addr_append [OF True, of e] by (simp add: after_def)
  next
    case False
    then show ?thesis using h l(1) by (simp add: after_def)
  qed
qed

lemma header_step_eq:
  assumes "16 \<le> length z" "px_buf p = memcpy (zeros 232) 0 (take 16 z)"
  shows "header_step p = (if header_valid z then Some (p\<lparr>px_want := 16 + blk_of z, px_skip := blen_of z - blk_of z, px_hdr_ok := True\<rparr>) else None)"
proof -
  have n: "px_buf p ! k = z ! k" if "k < 16" for k using assms that by (simp add: memcpy_0 nth_append)
  have "take 12 (px_buf p) = take 12 z" using assms by (simp add: memcpy_0)
  moreover have "be16 (drop 14 (px_buf p)) = be16 (drop 14 z)" using assms n by (simp add: be16_drop14)
  ultimately show ?thesis
    using n [of 12] n [of 13] by (auto simp: header_step_def Let_def header_valid_def cmd_of_def fam_of_def blen_of_def blk_of_def)
qed

lemma stage_early:
  fixes d :: bytes
  assumes "length x < 16"
  defines "z \<equiv> x @ d"
  shows "stage 16 d (length d) (after x) 0 =
    ((after x)\<lparr>px_buf := memcpy (zeros 232) 0 (take 16 z), px_have := min 16 (length z)\<rparr>, min 16 (length z) - length x)"
proof -
  have a: "px_buf (after x) = memcpy (zeros 232) 0 x" "px_have (after x) = length x" using assms(1) by (simp_all add: after_def)
  have m: "memcpy (memcpy (zeros 232) 0 x) (length x) (bslice d 0 (16 - length x)) = memcpy (zeros 232) 0 (take 16 z)"
    using assms(1) by (subst memcpy_append) (simp_all add: z_def)
  have h: "length x + min (16 - length x) (length d - 0) = min 16 (length z)" "0 + min (16 - length x) (length d - 0) = min 16 (length z) - length x"
    using assms(1) by (auto simp: z_def)
  have "length (memcpy (zeros 232) 0 x) = 232" using assms(1) by simp
  from stage_eq [of "after x" 16 "length d" d 0, unfolded a m h, OF this] assms(1) show ?thesis by simp
qed

lemma consume_after:
  assumes "\<not> px_done (after x)"
  shows "proxy_v2_consume (Some (after x)) (Some d) (length d) (Some k) =
    (px_result (after (x @ d)), Some (after (x @ d)), Some (min (length (x @ d)) (preamble_len (x @ d)) - length x))"
proof (cases "length x < 16")
  case False
  let ?z = "x @ d"
  note h = header_prefix [of ?z x]
  have v: "header_valid x" "length x < 16 + blen_of x" using False assms by (auto simp: after_done preamble_len_def split: if_splits)
  have a: "after x = mid ?z (length x)" using v False mid_append [of x "length x" d] by (simp add: after_def)
  have c: "consume_body (mid ?z (length x)) d (length d) 0 =
      (px_result (after ?z), after ?z, 0 + (min (length ?z) (16 + blen_of ?z) - length x))"
    using v h False by (intro consume_body_mid) simp_all
  have "preamble_len ?z = 16 + blen_of ?z" using v h False by (simp add: preamble_len_def)
  moreover have "px_hdr_ok (mid ?z (length x))" "\<not> px_done (mid ?z (length x))" by (simp_all add: mid_def)
  ultimately show ?thesis using c by (simp add: proxy_v2_consume_def a)
next
  case True
  let ?z = "x @ d" and ?p = "(after x)\<lparr>px_buf := memcpy (zeros 232) 0 (take 16 (x @ d)), px_have := min 16 (length (x @ d))\<rparr>"
  note st = stage_early [OF True, of d]
  have f: "\<not> px_hdr_ok (after x)" "\<not> px_done (after x)" using True by (simp_all add: after_def)
  have i: "px_result (after x) = PROXY_V2_NEED_MORE" "px_addr (after x) = no_addr" using True by (simp_all add: after_def)
  show ?thesis
  proof (cases "length ?z < 16")
    case True': True
    have "?p = after ?z" using True True' by (simp add: after_def)
    moreover have "px_result (after ?z) = PROXY_V2_NEED_MORE" "preamble_len ?z = 16" "\<not> px_hdr_ok (after ?z)" "px_have (after ?z) < 16"
      using True' by (simp_all add: after_def preamble_len_def)
    ultimately show ?thesis using f st True' by (simp add: proxy_v2_consume_def)
  next
    case False
    have hs: "header_step ?p = (if header_valid ?z then Some (?p\<lparr>px_want := 16 + blk_of ?z, px_skip := blen_of ?z - blk_of ?z, px_hdr_ok := True\<rparr>) else None)"
      using False by (intro header_step_eq) simp_all
    have mid: "?p\<lparr>px_want := 16 + blk_of ?z, px_skip := blen_of ?z - blk_of ?z, px_hdr_ok := True\<rparr> = mid ?z 16"
      using True False by (simp add: after_def mid_def)
    have bad: "?p\<lparr>px_done := True, px_result := PROXY_V2_ERR\<rparr> = after ?z" if "\<not> header_valid ?z"
      using that True False by (simp add: after_def)
    have c: "consume_body (mid ?z 16) d (length d) (min 16 (length ?z) - length x) =
        (px_result (after ?z), after ?z, min 16 (length ?z) - length x + (min (length ?z) (16 + blen_of ?z) - 16))" if "header_valid ?z"
      using that False True by (intro consume_body_mid) simp_all
    define P i where "P = ?p" and "i = min 16 (length ?z) - length x"
    have P: "stage 16 d (length d) (after x) 0 = (P, i)" "header_step P = (if header_valid ?z then Some (mid ?z 16) else None)"
      "\<not> px_have P < 16" "\<not> px_hdr_ok P"
      using st hs mid False f by (simp_all add: P_def i_def)
    note c = c [folded i_def] and bad = bad [folded P_def]
    show ?thesis
    proof (cases "header_valid ?z")
      case True
      have "i + (min (length ?z) (16 + blen_of ?z) - 16) = min (length ?z) (preamble_len ?z) - length x"
        using \<open>length x < 16\<close> False True by (simp add: preamble_len_def i_def)
      then show ?thesis
        unfolding proxy_v2_consume_def using f P c [OF True] True by simp
    next
      case False': False
      have "px_result (after ?z) = PROXY_V2_ERR" "i = min (length ?z) (preamble_len ?z) - length x"
        using False False' by (simp_all add: after_def preamble_len_def i_def)
      then show ?thesis
        unfolding proxy_v2_consume_def using f P False' bad by (simp add: fail_def)
    qed
  qed
qed

lemma proxy_feed_after:
  "proxy_feed (after x) d = (if px_done (after x) then (after x, 0)
     else (after (x @ d), min (length (x @ d)) (preamble_len (x @ d)) - length x))"
proof (cases "px_done (after x)")
  case True
  then show ?thesis by (simp add: proxy_feed_def proxy_v2_consume_def)
qed (simp add: proxy_feed_def consume_after)

interpretation proxy: chunked_reader proxy_feed px_done proxy_inv
proof
  fix s d e s' u assume "proxy_inv s"
  then obtain x where x: "s = after x" by (auto simp: proxy_inv_def)
  show "proxy_inv (fst (proxy_feed s d))" by (auto simp: x proxy_feed_after proxy_inv_def)
  show "proxy_feed s [] = (s, 0)" by (simp add: x proxy_feed_after)
  show "snd (proxy_feed s d) \<le> length d" by (auto simp: x proxy_feed_after)
  show "px_done s \<Longrightarrow> proxy_feed s d = (s, 0)" by (simp add: x proxy_feed_after)
  show "\<not> px_done (fst (proxy_feed s d)) \<Longrightarrow> snd (proxy_feed s d) = length d"
    by (auto simp: x proxy_feed_after after_done preamble_len_def split: if_splits)
  assume f: "proxy_feed s d = (s', u)"
  show "proxy_feed s (d @ e) = (if px_done s' then (s', u) else (fst (proxy_feed s' e), u + snd (proxy_feed s' e)))"
  proof (cases "px_done (after x)")
    case True
    then show ?thesis using f by (auto simp: x proxy_feed_after)
  next
    case False
    then have s': "s' = after (x @ d)" "u = min (length (x @ d)) (preamble_len (x @ d)) - length x"
      using f by (simp_all add: x proxy_feed_after)
    show ?thesis
    proof (cases "px_done s'")
      case True
      then show ?thesis
        using False s' after_append [of "x @ d" e] by (auto simp: x proxy_feed_after after_done)
    next
      case False': False
      then have "length (x @ d) \<le> preamble_len (x @ d)" "length (x @ d) \<le> preamble_len (x @ d @ e)"
        using s' header_prefix [of "x @ d @ e" "x @ d"] by (auto simp: after_done preamble_len_def split: if_splits)
      then show ?thesis using False False' s' by (simp add: x proxy_feed_after)
    qed
  qed
qed

primrec proxy_feed_all :: "proxy_v2_t \<Rightarrow> bytes list \<Rightarrow> proxy_v2_t \<times> nat" where
  "proxy_feed_all p [] = (p, 0)"
| "proxy_feed_all p (d # ds) = (let (p1, u1) = proxy_feed p d; (p2, u2) = proxy_feed_all p1 ds in (p2, u1 + u2))"

lemma proxy_feed_all_list: "proxy_feed_all p ds = proxy.feed_list p ds"
  by (induction ds arbitrary: p) simp_all

lemma init_after: "the (proxy_v2_init (Some p)) = after []"
  by (simp add: proxy_v2_init_def after_def memcpy_def)

lemma feed_init: "proxy_feed_all (after []) ds = (after (concat ds), min (length (concat ds)) (preamble_len (concat ds)))"
proof -
  have "proxy_inv (after [])" by (auto simp: proxy_inv_def)
  from proxy.feed_list_concat [OF this, of ds] show ?thesis
    by (simp add: proxy_feed_all_list proxy_feed_after after_done)
qed

text \<open>
  The cut of the input does not matter. Feeding the preamble to a fresh parser in any pieces leaves
  the same parser and takes the same number of bytes as feeding it at once.
\<close>

theorem proxy_v2_any_cut:
  "proxy_feed_all (the (proxy_v2_init (Some p))) ds = proxy_feed (the (proxy_v2_init (Some p))) (concat ds)"
  using proxy.feed_list_concat [of "after []" ds] by (auto simp: proxy_feed_all_list init_after proxy_inv_def)


text \<open>An IPv4 client at 10.0.0.1, the preamble in two pieces and the first byte of what follows.\<close>

definition sample_pieces :: "bytes list" where
  "sample_pieces = [PROXY_V2_SIG @ [0x21], [0x11, 0, 12, 10, 0, 0, 1, 10, 0, 0, 2, 0, 80, 1, 187], [0x47]]"


end
