(* ===== verification/Ratelimit.thy ===== *)
theory Ratelimit
  imports Proxy_V2
begin

text \<open>
  The transport rate limiter, \<open>apps/authd/ratelimit.c\<close> with the types of \<open>ratelimit.h\<close>: one definition
  per function.

  libsodium's \<open>crypto_shorthash\<close> is the argument \<open>sh\<close> (of the data and the key), and the key that
  \<open>crypto_shorthash_keygen\<close> draws is an argument of \<open>ratelimit_init\<close>. A pointer to an entry of the table
  is its index. The local key buffer of each function starts zeroed; only the bytes that
  \<open>authd_addr_key\<close> wrote are read.
\<close>

abbreviation (input) RATELIMIT_ENTRIES :: nat where "RATELIMIT_ENTRIES \<equiv> 1024"
abbreviation (input) RATELIMIT_PER_MIN_MAX :: u32 where "RATELIMIT_PER_MIN_MAX \<equiv> 10000"
abbreviation (input) RATELIMIT_BURST_MAX :: u32 where "RATELIMIT_BURST_MAX \<equiv> 10000"
abbreviation (input) RATELIMIT_GLOBAL_MAX :: u32 where "RATELIMIT_GLOBAL_MAX \<equiv> 10000"
abbreviation (input) RATELIMIT_MAX_CONNS_MAX :: u32 where "RATELIMIT_MAX_CONNS_MAX \<equiv> 4096"

datatype ratelimit_verdict_t =
    RATELIMIT_ALLOW
  | RATELIMIT_DENY_CONNS
  | RATELIMIT_DENY_ADDR
  | RATELIMIT_DENY_GLOBAL
  | RATELIMIT_DENY_TABLE
  | RATELIMIT_DENY_NO_ADDR

record ratelimit_entry_t =
  re_key :: bytes
  re_key_len :: nat
  re_tokens_milli :: u64
  re_last_ms :: u64
  re_conns :: u32

record ratelimit_t =
  rl_hash_key :: bytes
  rl_per_min :: u32
  rl_burst :: u32
  rl_global_per_sec :: u32
  rl_max_conns :: u32
  rl_global_tokens_milli :: u64
  rl_global_last_ms :: u64
  rl_e :: "ratelimit_entry_t list"
  rl_admitted :: u64
  rl_denied_conns :: u64
  rl_denied_addr :: u64
  rl_denied_global :: u64
  rl_denied_table :: u64
  rl_refunded :: u64

type_synonym shorthash = "bytes \<Rightarrow> bytes \<Rightarrow> bytes"

definition ratelimit_verdict_name :: "ratelimit_verdict_t \<Rightarrow> string" where
  "ratelimit_verdict_name v =
     (case v of
        RATELIMIT_ALLOW \<Rightarrow> ''allow''
      | RATELIMIT_DENY_CONNS \<Rightarrow> ''too-many-connections''
      | RATELIMIT_DENY_ADDR \<Rightarrow> ''rate-limited''
      | RATELIMIT_DENY_GLOBAL \<Rightarrow> ''global-rate-limited''
      | RATELIMIT_DENY_TABLE \<Rightarrow> ''limiter-table-full''
      | RATELIMIT_DENY_NO_ADDR \<Rightarrow> ''no-client-address'')"

definition clamp_u32 :: "u32 \<Rightarrow> u32 \<Rightarrow> u32 \<Rightarrow> u32" where
  "clamp_u32 v lo hi = (if v < lo then lo else if v > hi then hi else v)"

definition entry_zero :: ratelimit_entry_t where
  "entry_zero = \<lparr>re_key = zeros 16, re_key_len = 0, re_tokens_milli = 0, re_last_ms = 0, re_conns = 0\<rparr>"

definition ratelimit_init :: "bytes \<Rightarrow> ratelimit_t ptr \<Rightarrow> u32 \<Rightarrow> u32 \<Rightarrow> u32 \<Rightarrow> u32 \<Rightarrow> u64 \<Rightarrow> ratelimit_t ptr" where
  "ratelimit_init hkey r per_min burst global_per_sec max_conns now_ms =
     (case r of NULL \<Rightarrow> NULL
      | Some _ \<Rightarrow>
        let gps = clamp_u32 global_per_sec 1 RATELIMIT_GLOBAL_MAX
        in Some \<lparr>rl_hash_key = hkey,
          rl_per_min = clamp_u32 per_min 1 RATELIMIT_PER_MIN_MAX,
          rl_burst = clamp_u32 burst 1 RATELIMIT_BURST_MAX,
          rl_global_per_sec = gps,
          rl_max_conns = clamp_u32 max_conns 1 RATELIMIT_MAX_CONNS_MAX,
          rl_global_tokens_milli = ucast gps * 1000,
          rl_global_last_ms = now_ms,
          rl_e = replicate RATELIMIT_ENTRIES entry_zero,
          rl_admitted = 0, rl_denied_conns = 0, rl_denied_addr = 0, rl_denied_global = 0, rl_denied_table = 0, rl_refunded = 0\<rparr>)"

section \<open>The buckets\<close>

definition refill :: "u64 \<Rightarrow> u64 \<Rightarrow> u64 \<Rightarrow> u64 \<Rightarrow> u64 \<Rightarrow> u64 \<Rightarrow> u64 \<times> u64" where
  "refill tokens_milli last_ms now_ms per_ms_num per_ms_den cap_milli =
     (if now_ms \<le> last_ms then (tokens_milli, last_ms)
      else
        let elapsed = now_ms - last_ms; add = (elapsed * per_ms_num) div per_ms_den
        in if add = 0 then (tokens_milli, last_ms)
           else
             let tokens_milli = tokens_milli + add;
                 tokens_milli = (if tokens_milli > cap_milli then cap_milli else tokens_milli)
             in (tokens_milli, last_ms + (add * per_ms_den) div per_ms_num))"

definition refill_addr :: "ratelimit_t \<Rightarrow> ratelimit_entry_t \<Rightarrow> u64 \<Rightarrow> ratelimit_entry_t" where
  "refill_addr r e now_ms =
     (let (t, l) = refill (re_tokens_milli e) (re_last_ms e) now_ms (ucast (rl_per_min r)) 60 (ucast (rl_burst r) * 1000)
      in e\<lparr>re_tokens_milli := t, re_last_ms := l\<rparr>)"

definition refill_global :: "ratelimit_t \<Rightarrow> u64 \<Rightarrow> ratelimit_t" where
  "refill_global r now_ms =
     (let (t, l) = refill (rl_global_tokens_milli r) (rl_global_last_ms r) now_ms (ucast (rl_global_per_sec r)) 1
        (ucast (rl_global_per_sec r) * 1000)
      in r\<lparr>rl_global_tokens_milli := t, rl_global_last_ms := l\<rparr>)"

section \<open>The table\<close>

definition bucket_of :: "shorthash \<Rightarrow> ratelimit_t \<Rightarrow> bytes \<Rightarrow> nat \<Rightarrow> nat" where
  "bucket_of sh r key key_len =
     (let h = take 8 (sh (take key_len key) (rl_hash_key r));
          v = foldl (\<lambda>v b. push_bit 8 v OR ucast b) (0 :: u64) h
      in unat (v mod of_nat RATELIMIT_ENTRIES))"

definition same_key :: "ratelimit_entry_t \<Rightarrow> bytes \<Rightarrow> nat \<Rightarrow> bool" where
  "same_key e key key_len \<longleftrightarrow> re_key_len e = key_len \<and> take key_len (re_key e) = take key_len key"

definition reclaimable :: "ratelimit_t \<Rightarrow> ratelimit_entry_t \<Rightarrow> u64 \<Rightarrow> bool" where
  "reclaimable r e now_ms \<longleftrightarrow>
     (if re_key_len e = 0 then True
      else if re_conns e \<noteq> 0 then False
      else re_tokens_milli (refill_addr r e now_ms) \<ge> ucast (rl_burst r) * 1000)"

function find_idx_loop :: "ratelimit_t \<Rightarrow> bytes \<Rightarrow> nat \<Rightarrow> nat \<Rightarrow> nat \<Rightarrow> nat" where
  "find_idx_loop r key key_len b n =
     (if n < RATELIMIT_ENTRIES
      then let i = (b + n) mod RATELIMIT_ENTRIES; e = rl_e r ! i
        in if re_key_len e = 0 then RATELIMIT_ENTRIES
           else if same_key e key key_len then i
           else find_idx_loop r key key_len b (n + 1)
      else RATELIMIT_ENTRIES)"
  by pat_completeness auto
termination by (relation "measure (\<lambda>(r, key, key_len, b, n). RATELIMIT_ENTRIES - n)") auto

definition find_idx :: "shorthash \<Rightarrow> ratelimit_t \<Rightarrow> bytes \<Rightarrow> nat \<Rightarrow> nat" where
  "find_idx sh r key key_len = find_idx_loop r key key_len (bucket_of sh r key key_len) 0"

function reclaim_loop :: "ratelimit_t \<Rightarrow> bytes \<Rightarrow> nat \<Rightarrow> u64 \<Rightarrow> nat \<Rightarrow> nat \<Rightarrow> nat option \<times> ratelimit_t" where
  "reclaim_loop r key key_len now_ms b n =
     (if n < RATELIMIT_ENTRIES
      then let i = (b + n) mod RATELIMIT_ENTRIES; c = rl_e r ! i
        in if reclaimable r c now_ms
           then let c = entry_zero\<lparr>re_key := memcpy (re_key entry_zero) 0 (take key_len key), re_key_len := key_len,
                      re_tokens_milli := ucast (rl_burst r) * 1000, re_last_ms := now_ms\<rparr>
             in (Some i, r\<lparr>rl_e := (rl_e r)[i := c]\<rparr>)
           else reclaim_loop r key key_len now_ms b (n + 1)
      else (NULL, r))"
  by pat_completeness auto
termination by (relation "measure (\<lambda>(r, key, key_len, now_ms, b, n). RATELIMIT_ENTRIES - n)") auto

declare find_idx_loop.simps [simp del] reclaim_loop.simps [simp del]

definition find_or_add :: "shorthash \<Rightarrow> ratelimit_t \<Rightarrow> bytes \<Rightarrow> nat \<Rightarrow> u64 \<Rightarrow> nat option \<times> ratelimit_t" where
  "find_or_add sh r key key_len now_ms =
     (let at = find_idx sh r key key_len
      in if at \<noteq> RATELIMIT_ENTRIES then (Some at, r)
         else reclaim_loop r key key_len now_ms (bucket_of sh r key key_len) 0)"

section \<open>The gate\<close>

definition ratelimit_admit ::
  "shorthash \<Rightarrow> ratelimit_t ptr \<Rightarrow> authd_addr_t ptr \<Rightarrow> u64 \<Rightarrow> ratelimit_verdict_t \<times> ratelimit_t ptr" where
  "ratelimit_admit sh rp addr now_ms =
     (case rp of NULL \<Rightarrow> (RATELIMIT_DENY_NO_ADDR, NULL)
      | Some r \<Rightarrow>
        let (key_len, key) = authd_addr_key addr (Some (zeros 16))
        in if key_len = 0 then (RATELIMIT_DENY_NO_ADDR, Some r)
        else
          let (ep, r) = find_or_add sh r (the key) key_len now_ms
          in (case ep of
                NULL \<Rightarrow> (RATELIMIT_DENY_TABLE, Some (r\<lparr>rl_denied_table := rl_denied_table r + 1\<rparr>))
              | Some i \<Rightarrow>
                let e = rl_e r ! i
                in if re_conns e \<ge> rl_max_conns r
                then (RATELIMIT_DENY_CONNS, Some (r\<lparr>rl_denied_conns := rl_denied_conns r + 1\<rparr>))
                else
                  let e = refill_addr r e now_ms; r = r\<lparr>rl_e := (rl_e r)[i := e]\<rparr>
                  in if re_tokens_milli e < 1000
                  then (RATELIMIT_DENY_ADDR, Some (r\<lparr>rl_denied_addr := rl_denied_addr r + 1\<rparr>))
                  else
                    let r = refill_global r now_ms
                    in if rl_global_tokens_milli r < 1000
                    then (RATELIMIT_DENY_GLOBAL, Some (r\<lparr>rl_denied_global := rl_denied_global r + 1\<rparr>))
                    else
                      let e = e\<lparr>re_tokens_milli := re_tokens_milli e - 1000, re_conns := re_conns e + 1\<rparr>
                      in (RATELIMIT_ALLOW, Some (r\<lparr>rl_e := (rl_e r)[i := e],
                           rl_global_tokens_milli := rl_global_tokens_milli r - 1000,
                           rl_admitted := rl_admitted r + 1\<rparr>))))"

definition ratelimit_release :: "shorthash \<Rightarrow> ratelimit_t ptr \<Rightarrow> authd_addr_t ptr \<Rightarrow> ratelimit_t ptr" where
  "ratelimit_release sh rp addr =
     (case rp of NULL \<Rightarrow> NULL
      | Some r \<Rightarrow>
        let (key_len, key) = authd_addr_key addr (Some (zeros 16))
        in if key_len = 0 then Some r
        else
          let at = find_idx sh r (the key) key_len
          in if at \<noteq> RATELIMIT_ENTRIES \<and> re_conns (rl_e r ! at) > 0
             then Some (r\<lparr>rl_e := (rl_e r)[at := (rl_e r ! at)\<lparr>re_conns := re_conns (rl_e r ! at) - 1\<rparr>]\<rparr>)
             else Some r)"

definition ratelimit_refund :: "shorthash \<Rightarrow> ratelimit_t ptr \<Rightarrow> authd_addr_t ptr \<Rightarrow> u64 \<Rightarrow> ratelimit_t ptr" where
  "ratelimit_refund sh rp addr now_ms =
     (case rp of NULL \<Rightarrow> NULL
      | Some r \<Rightarrow>
        let (key_len, key) = authd_addr_key addr (Some (zeros 16))
        in if key_len = 0 then Some r
        else
          let at = find_idx sh r (the key) key_len
          in if at = RATELIMIT_ENTRIES then Some r
          else
            let e = refill_addr r (rl_e r ! at) now_ms; cap = ucast (rl_burst r) * 1000;
                e = e\<lparr>re_tokens_milli := (if re_tokens_milli e + 1000 > cap then cap else re_tokens_milli e + 1000)\<rparr>
            in Some (r\<lparr>rl_e := (rl_e r)[at := e], rl_refunded := rl_refunded r + 1\<rparr>))"

definition ratelimit_tokens_milli :: "shorthash \<Rightarrow> ratelimit_t ptr \<Rightarrow> authd_addr_t ptr \<Rightarrow> u64" where
  "ratelimit_tokens_milli sh rp addr =
     (case rp of NULL \<Rightarrow> 0
      | Some r \<Rightarrow>
        let (key_len, key) = authd_addr_key addr (Some (zeros 16))
        in if key_len = 0 then 0
        else let at = find_idx sh r (the key) key_len
          in if at \<noteq> RATELIMIT_ENTRIES then re_tokens_milli (rl_e r ! at) else 0)"

definition ratelimit_conns :: "shorthash \<Rightarrow> ratelimit_t ptr \<Rightarrow> authd_addr_t ptr \<Rightarrow> u32" where
  "ratelimit_conns sh rp addr =
     (case rp of NULL \<Rightarrow> 0
      | Some r \<Rightarrow>
        let (key_len, key) = authd_addr_key addr (Some (zeros 16))
        in if key_len = 0 then 0
        else let at = find_idx sh r (the key) key_len
          in if at \<noteq> RATELIMIT_ENTRIES then re_conns (rl_e r ! at) else 0)"

section \<open>Refilling\<close>

text \<open>The arithmetic stays far from the width of the integers for times below \<open>2 ^ 48\<close> milliseconds.\<close>

abbreviation (input) TIME_MAX :: nat where "TIME_MAX \<equiv> 2 ^ 48"

lemma u64_small:
  fixes a b :: u64
  shows "unat a * unat b < 2 ^ 64 \<Longrightarrow> unat (a * b) = unat a * unat b"
    "unat a + unat b < 2 ^ 64 \<Longrightarrow> unat (a + b) = unat a + unat b"
  by (simp_all add: unat_word_ariths)

lemma refill_nat:
  fixes t l now num den cap :: u64
  assumes "unat now < TIME_MAX" "unat num \<le> 10000" "0 < unat num" "0 < unat den" "unat den \<le> 60" "unat t \<le> unat cap" "unat cap < 2 ^ 62"
  defines "add \<equiv> (unat now - unat l) * unat num div unat den"
  shows "unat (fst (refill t l now num den cap)) = min (unat cap) (unat t + add)"
    "unat (snd (refill t l now num den cap)) = unat l + add * unat den div unat num"
proof -
  let ?el = "unat now - unat l"
  have el: "unat (now - l) = ?el" if "\<not> now \<le> l" using that by (simp add: unat_sub word_le_nat_alt)
  have m: "?el * unat num < 2 ^ 62"
  proof -
    have "?el * unat num \<le> 2 ^ 48 * 10000" using assms(1,2) by (intro mult_le_mono) simp_all
    then show ?thesis by simp
  qed
  have ad: "add \<le> ?el * unat num" "add * unat den \<le> ?el * unat num" unfolding add_def by simp_all
  have a: "unat (((now - l) * num) div den) = add" if "\<not> now \<le> l"
    using m el [OF that] by (simp add: add_def unat_div u64_small)
  have b: "unat ((((now - l) * num) div den) * den div num) = add * unat den div unat num" if "\<not> now \<le> l"
    using a [OF that] ad(2) m by (simp add: unat_div u64_small)
  have "add * unat den div unat num \<le> ?el"
  proof -
    have "add * unat den div unat num \<le> ?el * unat num div unat num" using ad(2) by (rule div_le_mono)
    then show ?thesis using assms(3) by simp
  qed
  then have c: "unat (l + ((now - l) * num) div den * den div num) = unat l + add * unat den div unat num" if "\<not> now \<le> l"
    using b [OF that] that assms(1) by (subst u64_small) (simp_all add: word_le_nat_alt)
  have d: "unat (t + ((now - l) * num) div den) = unat t + add" if "\<not> now \<le> l"
    using a [OF that] ad(1) m assms(6,7) by (subst u64_small) simp_all
  have z: "add = 0" if "now \<le> l" using that by (simp add: add_def word_le_nat_alt)
  have z2: "((now - l) * num) div den = 0 \<longleftrightarrow> add = 0" if "\<not> now \<le> l" using a [OF that] by (simp add: unat_eq_0 [symmetric])
  show "unat (fst (refill t l now num den cap)) = min (unat cap) (unat t + add)"
    using assms(6) d z z2 by (auto simp: refill_def Let_def word_less_nat_alt min_def)
  show "unat (snd (refill t l now num den cap)) = unat l + add * unat den div unat num"
    using c z z2 by (auto simp: refill_def Let_def)
qed

section \<open>The table as a map\<close>

definition key_of :: "ratelimit_entry_t \<Rightarrow> bytes" where
  "key_of e = take (re_key_len e) (re_key e)"

definition occupied :: "ratelimit_entry_t \<Rightarrow> bool" where
  "occupied e \<longleftrightarrow> re_key_len e \<noteq> 0"

definition entry_wf :: "ratelimit_entry_t \<Rightarrow> bool" where
  "entry_wf e \<longleftrightarrow> length (re_key e) = 16 \<and> re_key_len e \<in> {0, 4, 8}"

definition home :: "shorthash \<Rightarrow> bytes \<Rightarrow> bytes \<Rightarrow> nat" where
  "home sh hk k = unat (foldl (\<lambda>v b. push_bit 8 v OR ucast b) (0 :: u64) (take 8 (sh k hk)) mod 1024)"

text \<open>An entry is reachable if every slot between its home and its place is taken.\<close>

definition reaches :: "(bytes \<Rightarrow> nat) \<Rightarrow> ratelimit_entry_t list \<Rightarrow> bytes \<Rightarrow> nat \<Rightarrow> bool" where
  "reaches hm es k i \<longleftrightarrow> (\<exists>n<1024. i = (hm k + n) mod 1024 \<and> (\<forall>m<n. occupied (es ! ((hm k + m) mod 1024))))"

definition table_ok :: "(bytes \<Rightarrow> nat) \<Rightarrow> ratelimit_entry_t list \<Rightarrow> bool" where
  "table_ok hm es \<longleftrightarrow> length es = 1024 \<and> (\<forall>e \<in> set es. entry_wf e) \<and>
     (\<forall>i<1024. occupied (es ! i) \<longrightarrow> reaches hm es (key_of (es ! i)) i) \<and>
     (\<forall>i<1024. \<forall>j<1024. occupied (es ! i) \<and> occupied (es ! j) \<and> key_of (es ! i) = key_of (es ! j) \<longrightarrow> i = j)"

definition rl_map :: "ratelimit_entry_t list \<Rightarrow> bytes \<Rightarrow> ratelimit_entry_t option" where
  "rl_map es k = List.find (\<lambda>e. occupied e \<and> key_of e = k) es"

lemma bucket_of_home: "bucket_of sh r key n = home sh (rl_hash_key r) (take n key)"
  by (simp add: bucket_of_def home_def)

lemma key_of_nonempty: "entry_wf e \<Longrightarrow> occupied e \<longleftrightarrow> key_of e \<noteq> []"
  by (auto simp: entry_wf_def occupied_def key_of_def)

lemma same_key_iff:
  assumes "entry_wf e" "take n key = k" "length k = n"
  shows "same_key e key n \<longleftrightarrow> key_of e = k"
proof -
  have "length (key_of e) = re_key_len e" using assms(1) by (auto simp: key_of_def entry_wf_def)
  with assms show ?thesis by (metis key_of_def same_key_def)
qed

lemma rl_map_Some:
  assumes "table_ok hm es" "i < 1024" "occupied (es ! i)" "key_of (es ! i) = k"
  shows "rl_map es k = Some (es ! i)"
proof -
  have "rl_map es k \<noteq> None" using assms by (auto simp: rl_map_def find_None_iff table_ok_def)
  then obtain e where e: "rl_map es k = Some e" by blast
  then obtain j where j: "j < length es" "occupied (es ! j)" "key_of (es ! j) = k" "e = es ! j"
    by (auto simp: rl_map_def find_Some_iff)
  then have "i = j" using assms by (simp add: table_ok_def)
  with e j show ?thesis by simp
qed

lemma rl_map_SomeD: "rl_map es k = Some e \<Longrightarrow> \<exists>i<length es. es ! i = e \<and> occupied e \<and> key_of e = k"
  by (auto simp: rl_map_def find_Some_iff)

lemma rl_map_None: "rl_map es k = None \<longleftrightarrow> (\<forall>i<length es. occupied (es ! i) \<longrightarrow> key_of (es ! i) \<noteq> k)"
  by (auto simp: rl_map_def find_None_iff in_set_conv_nth)

lemma find_idx_loop_spec:
  assumes "table_ok hm (rl_e r)" "take kl key = k" "length k = kl" "b = hm k" "n \<le> 1024"
    and "\<forall>m<n. occupied (rl_e r ! ((b + m) mod 1024)) \<and> key_of (rl_e r ! ((b + m) mod 1024)) \<noteq> k"
  shows "case rl_map (rl_e r) k of
      None \<Rightarrow> find_idx_loop r key kl b n = 1024
    | Some e \<Rightarrow> find_idx_loop r key kl b n < 1024 \<and> rl_e r ! find_idx_loop r key kl b n = e"
  using assms
proof (induction r key kl b n rule: find_idx_loop.induct)
  case (1 r key kl b n)
  let ?i = "(b + n) mod 1024" and ?es = "rl_e r"
  have absent: "rl_map ?es k = None" if "n = 1024 \<or> n < 1024 \<and> \<not> occupied (?es ! ?i)"
  proof (rule ccontr)
    assume "rl_map ?es k \<noteq> None"
    then obtain i where i: "i < 1024" "occupied (?es ! i)" "key_of (?es ! i) = k"
      using 1(2) by (auto dest!: rl_map_SomeD simp: table_ok_def)
    then obtain n' where n': "n' < 1024" "i = (b + n') mod 1024" "\<forall>m<n'. occupied (?es ! ((b + m) mod 1024))"
      using 1(2,5) by (auto simp: table_ok_def reaches_def)
    have "\<not> n' < n" using 1(7) i n'(2) by auto
    with n' that i show False by (metis linorder_neqE_nat)
  qed
  show ?case
  proof (cases "n < 1024")
    case False
    then show ?thesis using absent 1(6) by (simp add: find_idx_loop.simps [of r key kl b 1024])
  next
    case True
    have wf: "entry_wf (?es ! ?i)" using 1(2) by (simp add: table_ok_def)
    show ?thesis
    proof (cases "occupied (?es ! ?i)")
      case False
      then show ?thesis using absent True by (simp add: find_idx_loop.simps [of r key kl b n] occupied_def Let_def)
    next
      case occ: True
      show ?thesis
      proof (cases "key_of (?es ! ?i) = k")
        case True': True
        then have "rl_map ?es k = Some (?es ! ?i)" using rl_map_Some [OF 1(2) _ occ] by simp
        then show ?thesis
          using True True' occ same_key_iff [OF wf 1(3,4)] by (simp add: find_idx_loop.simps [of r key kl b n] occupied_def Let_def)
      next
        case False
        then have nk: "\<not> same_key (?es ! ?i) key kl" using same_key_iff [OF wf 1(3,4)] by simp
        have "\<forall>m<n + 1. occupied (?es ! ((b + m) mod 1024)) \<and> key_of (?es ! ((b + m) mod 1024)) \<noteq> k"
          using 1(7) occ False by (auto simp: less_Suc_eq)
        moreover have "find_idx_loop r key kl b n = find_idx_loop r key kl b (n + 1)"
          using True occ nk by (simp add: find_idx_loop.simps [of r key kl b n] occupied_def Let_def)
        ultimately show ?thesis using 1(1) [OF True refl refl _ nk 1(2-5)] True occ by (auto simp: occupied_def split: option.splits)
      qed
    qed
  qed
qed

lemma find_idx_spec:
  assumes "table_ok (home sh (rl_hash_key r)) (rl_e r)" "take kl key = k" "length k = kl"
  shows "case rl_map (rl_e r) k of
      None \<Rightarrow> find_idx sh r key kl = 1024
    | Some e \<Rightarrow> find_idx sh r key kl < 1024 \<and> rl_e r ! find_idx sh r key kl = e"
  unfolding find_idx_def using assms by (intro find_idx_loop_spec [OF assms(1)]) (simp_all add: bucket_of_home)

lemma reaches_update:
  assumes "reaches hm es k i" "occupied e'" "length es = 1024"
  shows "reaches hm (es[j := e']) k i"
proof -
  have "occupied (es ! m) \<Longrightarrow> m < 1024 \<Longrightarrow> occupied (es[j := e'] ! m)" for m
    using assms(2,3) by (cases "m = j") simp_all
  then show ?thesis using assms(1) unfolding reaches_def by (metis mod_less_divisor zero_less_numeral)
qed

lemma table_set:
  assumes ok: "table_ok hm es" and i: "i < 1024" and e': "entry_wf e'" "occupied e'" "reaches hm es (key_of e') i"
    and new: "\<forall>j<1024. j \<noteq> i \<and> occupied (es ! j) \<longrightarrow> key_of (es ! j) \<noteq> key_of e'"
  shows "table_ok hm (es[i := e'])"
    "rl_map (es[i := e']) k = (if k = key_of e' then Some e' else if occupied (es ! i) \<and> key_of (es ! i) = k then None else rl_map es k)"
proof -
  have len: "length es = 1024" using ok by (simp add: table_ok_def)
  have nth: "es[i := e'] ! j = (if j = i then e' else es ! j)" if "j < 1024" for j using that len by simp
  have "\<forall>e \<in> set (es[i := e']). entry_wf e" using ok e'(1) by (auto simp: table_ok_def dest: set_update_subset_insert [THEN subsetD])
  moreover have "reaches hm (es[i := e']) (key_of (es[i := e'] ! j)) j" if "j < 1024" "occupied (es[i := e'] ! j)" for j
    using that ok e'(2,3) len nth by (auto simp: table_ok_def intro!: reaches_update split: if_splits)
  moreover have "j = l" if "j < 1024" "l < 1024" "occupied (es[i := e'] ! j)" "occupied (es[i := e'] ! l)"
    "key_of (es[i := e'] ! j) = key_of (es[i := e'] ! l)" for j l
    using that ok new nth by (auto simp: table_ok_def split: if_splits)
  ultimately show ok': "table_ok hm (es[i := e'])" using len by (auto simp: table_ok_def)
  show "rl_map (es[i := e']) k = (if k = key_of e' then Some e' else if occupied (es ! i) \<and> key_of (es ! i) = k then None else rl_map es k)"
  proof (cases "rl_map es k")
    case None
    then have "rl_map (es[i := e']) k = None" if "k \<noteq> key_of e'" using that len by (auto simp: rl_map_None nth)
    then show ?thesis using None rl_map_Some [OF ok' i, of k] e'(2) len i by (cases "k = key_of e'") simp_all
  next
    case (Some e)
    then obtain j where j: "j < 1024" "es ! j = e" "occupied e" "key_of e = k" using len by (auto dest: rl_map_SomeD)
    show ?thesis
    proof (cases "j = i")
      case True
      then have "rl_map (es[i := e']) k = None" if "k \<noteq> key_of e'"
        using that len j ok by (auto simp: rl_map_None nth table_ok_def)
      then show ?thesis using True j rl_map_Some [OF ok' i, of k] e'(2) len i by (cases "k = key_of e'") simp_all
    next
      case False
      then have "k \<noteq> key_of e'" "\<not> (occupied (es ! i) \<and> key_of (es ! i) = k)" using j new ok i by (auto simp: table_ok_def)
      then show ?thesis using Some False j rl_map_Some [OF ok', of j k] len by simp
    qed
  qed
qed

lemma table_update:
  assumes ok: "table_ok hm es" and i: "i < 1024" "occupied (es ! i)" and e': "re_key e' = re_key (es ! i)" "re_key_len e' = re_key_len (es ! i)"
  shows "table_ok hm (es[i := e'])" "rl_map (es[i := e']) = (rl_map es)(key_of (es ! i) \<mapsto> e')"
proof -
  have "entry_wf (es ! i)" using ok i(1) by (simp add: table_ok_def)
  then have k: "key_of e' = key_of (es ! i)" "entry_wf e'" "occupied e'"
    using e' i(2) by (simp_all add: key_of_def occupied_def entry_wf_def)
  have "reaches hm es (key_of e') i" "\<forall>j<1024. j \<noteq> i \<and> occupied (es ! j) \<longrightarrow> key_of (es ! j) \<noteq> key_of e'"
    using ok i k(1) by (auto simp: table_ok_def)
  note s = table_set [OF ok i(1) k(2,3) this]
  show "table_ok hm (es[i := e'])" by (rule s(1))
  show "rl_map (es[i := e']) = (rl_map es)(key_of (es ! i) \<mapsto> e')" by (rule ext) (simp add: s(2) k(1))
qed

text \<open>Making room: the first reclaimable slot from the home of the key on.\<close>

definition new_entry :: "ratelimit_t \<Rightarrow> bytes \<Rightarrow> u64 \<Rightarrow> ratelimit_entry_t" where
  "new_entry r k now = \<lparr>re_key = memcpy (zeros 16) 0 k, re_key_len = length k, re_tokens_milli = ucast (rl_burst r) * 1000,
     re_last_ms = now, re_conns = 0\<rparr>"

lemma reclaim_loop_spec:
  assumes "take kl key = k" "length k = kl" "b = hm k" "length (rl_e r) = 1024" "n \<le> 1024" "\<forall>e \<in> set (rl_e r). entry_wf e"
    and "\<forall>m<n. occupied (rl_e r ! ((b + m) mod 1024))"
  shows "reclaim_loop r key kl now b n = (None, r) \<or>
    (\<exists>i<1024. reclaim_loop r key kl now b n = (Some i, r\<lparr>rl_e := (rl_e r)[i := new_entry r k now]\<rparr>) \<and>
      reaches hm (rl_e r) k i \<and> reclaimable r (rl_e r ! i) now)"
  using assms
proof (induction r key kl now b n rule: reclaim_loop.induct)
  case (1 r key kl now b n)
  let ?i = "(b + n) mod 1024"
  show ?case
  proof (cases "n < 1024 \<and> reclaimable r (rl_e r ! ?i) now")
    case True
    have "reaches hm (rl_e r) k ?i" using 1(4,8) True by (auto simp: reaches_def)
    with True 1(2,3) show ?thesis
      by (intro disjI2 exI [of _ ?i]) (simp add: reclaim_loop.simps [of r key kl now b n] Let_def entry_zero_def new_entry_def)
  next
    case False
    show ?thesis
    proof (cases "n < 1024")
      case True
      then have nr: "\<not> reclaimable r (rl_e r ! ?i) now" using False by simp
      then have "occupied (rl_e r ! ?i)" by (simp add: reclaimable_def occupied_def split: if_splits)
      then have "\<forall>m<n + 1. occupied (rl_e r ! ((b + m) mod 1024))" using 1(8) by (auto simp: less_Suc_eq)
      from 1(1) [OF True refl refl nr 1(2-5) _ 1(7) this] True nr show ?thesis
        by (simp add: reclaim_loop.simps [of r key kl now b n] Let_def)
    qed (simp add: reclaim_loop.simps [of r key kl now b n])
  qed
qed

section \<open>The limiter seen from one address\<close>

definition addr_key :: "authd_addr_t ptr \<Rightarrow> bytes option" where
  "addr_key a = (case a of NULL \<Rightarrow> None | Some x \<Rightarrow>
     if aa_family x = 4 then Some (take 4 (aa_addr x)) else if aa_family x = 6 then Some (take 8 (aa_addr x)) else None)"

definition addr_wf :: "authd_addr_t ptr \<Rightarrow> bool" where
  "addr_wf a \<longleftrightarrow> (case a of NULL \<Rightarrow> True | Some x \<Rightarrow> length (aa_addr x) = 16)"

lemma authd_addr_key_eq:
  assumes "addr_wf a"
  shows "authd_addr_key a (Some (zeros 16)) =
    (case addr_key a of None \<Rightarrow> (0, Some (zeros 16)) | Some k \<Rightarrow> (length k, Some (memcpy (zeros 16) 0 k)))"
  using assms by (auto simp: authd_addr_key_def addr_key_def addr_wf_def split: option.splits)

lemma addr_key_len: "addr_wf a \<Longrightarrow> addr_key a = Some k \<Longrightarrow> length k = 4 \<or> length k = 8"
  by (auto simp: addr_key_def addr_wf_def split: option.splits if_splits)

abbreviation cap_of :: "ratelimit_t \<Rightarrow> nat" where
  "cap_of r \<equiv> unat (rl_burst r) * 1000"

definition entry_ok :: "nat \<Rightarrow> ratelimit_t \<Rightarrow> ratelimit_entry_t \<Rightarrow> bool" where
  "entry_ok t r e \<longleftrightarrow> unat (re_tokens_milli e) \<le> cap_of r \<and> unat (re_last_ms e) \<le> t \<and> re_conns e \<le> rl_max_conns r"

definition config_ok :: "ratelimit_t \<Rightarrow> bool" where
  "config_ok r \<longleftrightarrow> 1 \<le> unat (rl_per_min r) \<and> unat (rl_per_min r) \<le> 10000 \<and> 1 \<le> unat (rl_burst r) \<and> unat (rl_burst r) \<le> 10000 \<and>
     1 \<le> unat (rl_global_per_sec r) \<and> unat (rl_global_per_sec r) \<le> 10000 \<and> 1 \<le> unat (rl_max_conns r) \<and> unat (rl_max_conns r) \<le> 4096"

text \<open>The limiter is well formed at time \<open>t\<close>.\<close>

definition limiter_inv :: "shorthash \<Rightarrow> nat \<Rightarrow> ratelimit_t \<Rightarrow> bool" where
  "limiter_inv sh t r \<longleftrightarrow> config_ok r \<and> table_ok (home sh (rl_hash_key r)) (rl_e r) \<and> (\<forall>k e. rl_map (rl_e r) k = Some e \<longrightarrow> entry_ok t r e) \<and>
     unat (rl_global_tokens_milli r) \<le> unat (rl_global_per_sec r) * 1000 \<and> unat (rl_global_last_ms r) \<le> t"

definition same_config :: "ratelimit_t \<Rightarrow> ratelimit_t \<Rightarrow> bool" where
  "same_config r r' \<longleftrightarrow> rl_hash_key r' = rl_hash_key r \<and> rl_per_min r' = rl_per_min r \<and> rl_burst r' = rl_burst r \<and>
     rl_global_per_sec r' = rl_global_per_sec r \<and> rl_max_conns r' = rl_max_conns r"

lemma unat_ucast_u32: "unat (ucast (x :: u32) :: u64) = unat x"
proof -
  have "unat x < 2 ^ 64" using unsigned_less [of x, where ?'a = nat] by simp
  then show ?thesis by (simp add: unsigned_ucast_eq take_bit_nat_eq_self)
qed

lemma cap_word:
  assumes "config_ok r"
  shows "unat (ucast (rl_burst r) * 1000 :: u64) = cap_of r" "unat (ucast (rl_global_per_sec r) * 1000 :: u64) = unat (rl_global_per_sec r) * 1000"
    "unat (ucast (rl_per_min r) :: u64) = unat (rl_per_min r)" "unat (ucast (rl_global_per_sec r) :: u64) = unat (rl_global_per_sec r)"
  using assms by (simp_all add: config_ok_def unat_word_ariths unat_ucast_u32)

text \<open>Refilling an entry, in natural numbers.\<close>

lemma refill_addr_nat:
  assumes "config_ok r" "entry_ok t r e" "t \<le> unat now" "unat now < TIME_MAX"
  defines "add \<equiv> (unat now - unat (re_last_ms e)) * unat (rl_per_min r) div 60" and "e' \<equiv> refill_addr r e now"
  shows "unat (re_tokens_milli e') = min (cap_of r) (unat (re_tokens_milli e) + add)"
    "unat (re_last_ms e') = unat (re_last_ms e) + add * 60 div unat (rl_per_min r)"
    "re_key e' = re_key e" "re_key_len e' = re_key_len e" "re_conns e' = re_conns e" "entry_ok (unat now) r e'"
proof -
  have c: "unat (ucast (rl_per_min r) :: u64) \<le> 10000" "0 < unat (ucast (rl_per_min r) :: u64)" "cap_of r < 2 ^ 62"
    using assms(1) by (auto simp: cap_word config_ok_def)
  have e: "unat (re_tokens_milli e) \<le> unat (ucast (rl_burst r) * 1000 :: u64)" "unat (re_last_ms e) \<le> unat now"
    using assms(1-3) by (auto simp: cap_word entry_ok_def)
  note f = refill_nat [OF assms(4) c(1,2) _ _ e(1), of 60 "re_last_ms e", simplified cap_word [OF assms(1)]]
  show t: "unat (re_tokens_milli e') = min (cap_of r) (unat (re_tokens_milli e) + add)"
    "unat (re_last_ms e') = unat (re_last_ms e) + add * 60 div unat (rl_per_min r)"
    using f c(3) by (simp_all add: e'_def refill_addr_def add_def split_beta)
  show k: "re_key e' = re_key e" "re_key_len e' = re_key_len e" "re_conns e' = re_conns e"
    by (simp_all add: e'_def refill_addr_def split_beta)
  have "add * 60 div unat (rl_per_min r) \<le> (unat now - unat (re_last_ms e)) * unat (rl_per_min r) div unat (rl_per_min r)"
    by (intro div_le_mono) (simp add: add_def)
  also have "\<dots> = unat now - unat (re_last_ms e)" using assms(1) by (simp add: config_ok_def)
  finally show "entry_ok (unat now) r e'" using t k assms(2) e(2) by (simp add: entry_ok_def)
qed

end
