(* ===== verification/Ratelimit_Safety.thy ===== *)
theory Ratelimit_Safety
  imports Ratelimit
begin

text \<open>
  What the limiter grants over any sequence of calls: connections per address, admissions per address
  and admissions overall, each against its limit.
\<close>

section \<open>One call\<close>

lemma entry_ok_mono: "entry_ok t r e \<Longrightarrow> t \<le> t' \<Longrightarrow> entry_ok t' r e"
  by (simp add: entry_ok_def)

lemma limiter_inv_mono: "limiter_inv sh t r \<Longrightarrow> t \<le> t' \<Longrightarrow> limiter_inv sh t' r"
  unfolding limiter_inv_def using entry_ok_mono by (meson order_trans)

text \<open>The entry an address has, or would get.\<close>

definition entry_for :: "ratelimit_t \<Rightarrow> bytes \<Rightarrow> u64 \<Rightarrow> ratelimit_entry_t" where
  "entry_for r k now = (case rl_map (rl_e r) k of None \<Rightarrow> new_entry r k now | Some e \<Rightarrow> e)"

text \<open>Only full and idle entries of other addresses go.\<close>

definition others_kept :: "ratelimit_t \<Rightarrow> bytes \<Rightarrow> u64 \<Rightarrow> ratelimit_entry_t list \<Rightarrow> bool" where
  "others_kept r k now es' \<longleftrightarrow> (\<forall>k'. k' \<noteq> k \<longrightarrow> rl_map es' k' = rl_map (rl_e r) k' \<or>
     rl_map es' k' = None \<and> (\<exists>e. rl_map (rl_e r) k' = Some e \<and> reclaimable r e now))"

lemma new_entry_ok:
  assumes "config_ok r" "length k = 4 \<or> length k = 8"
  shows "entry_ok (unat now) r (new_entry r k now)" "entry_wf (new_entry r k now)" "occupied (new_entry r k now)"
    "key_of (new_entry r k now) = k"
  using assms by (auto simp: entry_ok_def new_entry_def cap_word entry_wf_def occupied_def key_of_def)

lemma find_or_add_spec:
  assumes inv: "limiter_inv sh t r" and now: "t \<le> unat now" and k: "length k = 4 \<or> length k = 8"
  defines "f \<equiv> find_or_add sh r (memcpy (zeros 16) 0 k) (length k) now"
  shows "f = (None, r) \<or> (\<exists>i es'. f = (Some i, r\<lparr>rl_e := es'\<rparr>) \<and> i < 1024 \<and> table_ok (home sh (rl_hash_key r)) es' \<and>
    es' ! i = entry_for r k now \<and> occupied (es' ! i) \<and> key_of (es' ! i) = k \<and> rl_map es' k = Some (entry_for r k now) \<and>
    others_kept r k now es')"
proof -
  let ?hm = "home sh (rl_hash_key r)" and ?es = "rl_e r" and ?key = "memcpy (zeros 16) 0 k"
  have ok: "table_ok ?hm ?es" and c: "config_ok r" using inv by (simp_all add: limiter_inv_def)
  have tk: "take (length k) ?key = k" by simp
  note fi = find_idx_spec [OF ok tk refl]
  show ?thesis
  proof (cases "rl_map ?es k")
    case (Some e)
    define i where "i = find_idx sh r ?key (length k)"
    have i: "i < 1024" "?es ! i = e" using fi Some by (simp_all add: i_def)
    have "f = (Some i, r\<lparr>rl_e := ?es\<rparr>)" using i by (simp add: f_def find_or_add_def i_def)
    moreover have "occupied e" "key_of e = k" using rl_map_SomeD [OF Some] by auto
    ultimately show ?thesis using i ok Some
      by (intro disjI2 exI [of _ i] exI [of _ ?es]) (simp add: entry_for_def others_kept_def)
  next
    case None
    have len: "length ?es = 1024" "\<forall>e \<in> set ?es. entry_wf e" using ok by (simp_all add: table_ok_def)
    have f: "f = reclaim_loop r ?key (length k) now (?hm k) 0"
      using fi None tk by (simp add: f_def find_or_add_def bucket_of_home)
    note rl = reclaim_loop_spec [where hm = ?hm, OF tk refl refl len(1) _ len(2), of 0 now]
    from rl consider "f = (None, r)" | i where "i < 1024" "f = (Some i, r\<lparr>rl_e := ?es[i := new_entry r k now]\<rparr>)" "reaches ?hm ?es k i"
      "reclaimable r (?es ! i) now" unfolding f by auto
    then show ?thesis
    proof cases
      case 2
      note n = new_entry_ok [OF c k, of now]
      have new: "\<forall>j<1024. j \<noteq> i \<and> occupied (?es ! j) \<longrightarrow> key_of (?es ! j) \<noteq> key_of (new_entry r k now)"
        using None len(1) n(4) by (simp add: rl_map_None)
      note s = table_set [OF ok 2(1) n(2,3) _ new, unfolded n(4), OF 2(3)]
      have nth: "?es[i := new_entry r k now] ! i = new_entry r k now" using 2(1) len(1) by simp
      have "others_kept r k now (?es[i := new_entry r k now])"
        unfolding others_kept_def s(2) using rl_map_Some [OF ok 2(1)] 2(4) by auto
      with 2 s(1) nth n None show ?thesis
        by (intro disjI2 exI [of _ i] exI [of _ "?es[i := new_entry r k now]"]) (simp add: entry_for_def s(2))
    qed simp
  qed
qed

lemma entry_for_ok:
  assumes "limiter_inv sh t r" "t \<le> unat now" "length k = 4 \<or> length k = 8"
  shows "entry_ok (unat now) r (entry_for r k now)"
  using assms new_entry_ok(1) [OF _ assms(3), of r now] entry_ok_mono
  by (fastforce simp: limiter_inv_def entry_for_def split: option.split)

definition gstate :: "ratelimit_t \<Rightarrow> u64 \<times> u64" where
  "gstate r = (rl_global_tokens_milli r, rl_global_last_ms r)"

definition grefilled :: "ratelimit_t \<Rightarrow> u64 \<Rightarrow> u64 \<times> u64" where
  "grefilled r now = gstate (refill_global r now)"

definition gstate_ok :: "nat \<Rightarrow> ratelimit_t \<Rightarrow> u64 \<times> u64 \<Rightarrow> bool" where
  "gstate_ok t r g \<longleftrightarrow> unat (fst g) \<le> unat (rl_global_per_sec r) * 1000 \<and> unat (snd g) \<le> t"

lemma refill_global_eq: "refill_global r now = r\<lparr>rl_global_tokens_milli := fst (grefilled r now), rl_global_last_ms := snd (grefilled r now)\<rparr>"
  by (simp add: grefilled_def gstate_def refill_global_def split_beta)

lemma grefilled_nat:
  assumes "config_ok r" "gstate_ok t r (gstate r)" "t \<le> unat now" "unat now < TIME_MAX"
  shows "unat (fst (grefilled r now)) = min (unat (rl_global_per_sec r) * 1000)
      (unat (fst (gstate r)) + (unat now - unat (snd (gstate r))) * unat (rl_global_per_sec r))"
    "unat (snd (grefilled r now)) = unat now" "gstate_ok (unat now) r (grefilled r now)"
proof -
  let ?n = "ucast (rl_global_per_sec r) :: u64" and ?g = "gstate r"
  have c: "unat ?n \<le> 10000" "0 < unat ?n" "unat (rl_global_per_sec r) * 1000 < 2 ^ 62"
    using assms(1) by (auto simp: cap_word config_ok_def)
  have g: "unat (fst ?g) \<le> unat (?n * 1000)" "unat (snd ?g) \<le> unat now" using assms(1-3) by (auto simp: gstate_ok_def cap_word)
  note f = refill_nat [OF assms(4) c(1,2) _ _ g(1), of 1 "snd ?g", simplified cap_word [OF assms(1)]]
  show t: "unat (fst (grefilled r now)) = min (unat (rl_global_per_sec r) * 1000)
      (unat (fst ?g) + (unat now - unat (snd ?g)) * unat (rl_global_per_sec r))"
    "unat (snd (grefilled r now)) = unat now"
    using f c(2,3) g(2) by (simp_all add: grefilled_def gstate_def refill_global_def split_beta cap_word [OF assms(1)])
  then show "gstate_ok (unat now) r (grefilled r now)" by (simp add: gstate_ok_def)
qed

lemma limiter_inv_gstate: "limiter_inv sh t r \<Longrightarrow> gstate_ok t r (gstate r)"
  by (simp add: limiter_inv_def gstate_ok_def gstate_def)

lemma limiter_inv_step:
  assumes "limiter_inv sh t r" "t \<le> t'" "same_config r r'" "table_ok (home sh (rl_hash_key r)) (rl_e r')" "others_kept r k now (rl_e r')"
    and "\<forall>e. rl_map (rl_e r') k = Some e \<longrightarrow> entry_ok t' r e" "gstate_ok t' r (gstate r')"
  shows "limiter_inv sh t' r'"
proof -
  have "entry_ok t' r e" if "rl_map (rl_e r') k' = Some e" for k' e
  proof (cases "k' = k")
    case False
    then have "rl_map (rl_e r) k' = Some e" using assms(5) that by (force simp: others_kept_def)
    then have "entry_ok t r e" using assms(1) by (simp add: limiter_inv_def)
    then show ?thesis using assms(2) by (rule entry_ok_mono)
  qed (use that assms(6) in simp)
  then show ?thesis
    using assms(1,3,4,7) by (auto simp: limiter_inv_def same_config_def config_ok_def entry_ok_def gstate_ok_def gstate_def)
qed

lemma others_kept_update:
  "others_kept r k now es \<Longrightarrow> rl_map es' = (rl_map es)(k \<mapsto> e) \<Longrightarrow> others_kept r k now es'"
  by (simp add: others_kept_def)

lemma refill_addr_cong: "same_config r r' \<Longrightarrow> refill_addr r' = refill_addr r"
  by (intro ext) (simp add: refill_addr_def same_config_def)

definition charged :: "ratelimit_entry_t \<Rightarrow> ratelimit_entry_t" where
  "charged e = e\<lparr>re_tokens_milli := re_tokens_milli e - 1000, re_conns := re_conns e + 1\<rparr>"

lemma charged_entry_ok:
  assumes "entry_ok t r e" "1000 \<le> re_tokens_milli e" "re_conns e < rl_max_conns r"
  shows "entry_ok t r (charged e)" "unat (re_tokens_milli (charged e)) = unat (re_tokens_milli e) - 1000"
    "unat (re_conns (charged e)) = unat (re_conns e) + 1"
proof -
  have c: "unat (re_conns e) < unat (rl_max_conns r)" using assms(3) by (simp add: word_less_nat_alt)
  then show "unat (re_conns (charged e)) = unat (re_conns e) + 1"
    using unsigned_less [of "rl_max_conns r", where ?'a = nat] by (simp add: charged_def unat_word_ariths)
  moreover show "unat (re_tokens_milli (charged e)) = unat (re_tokens_milli e) - 1000"
    using assms(2) by (simp add: charged_def unat_sub word_le_nat_alt)
  moreover have "re_last_ms (charged e) = re_last_ms e" by (simp add: charged_def)
  moreover have "unat (re_tokens_milli e) \<le> cap_of r" "unat (re_last_ms e) \<le> t" using assms(1) by (simp_all add: entry_ok_def)
  ultimately show "entry_ok t r (charged e)"
    using c unfolding entry_ok_def word_le_nat_alt by (intro conjI, linarith, simp, linarith)
qed

definition admit_effect :: "ratelimit_t \<Rightarrow> bytes \<Rightarrow> u64 \<Rightarrow> ratelimit_verdict_t \<Rightarrow> ratelimit_t \<Rightarrow> bool" where
  "admit_effect r k now v r' \<longleftrightarrow>
     (let e0 = entry_for r k now; e1 = refill_addr r e0 now; g = grefilled r now
      in if v = RATELIMIT_ALLOW
         then rl_map (rl_e r') k = Some (charged e1) \<and> 1000 \<le> re_tokens_milli e1 \<and> re_conns e0 < rl_max_conns r \<and> 1000 \<le> fst g \<and>
           gstate r' = (fst g - 1000, snd g)
         else rl_map (rl_e r') k \<in> {rl_map (rl_e r) k, Some e0, Some e1} \<and> gstate r' \<in> {gstate r, g})"

lemma ratelimit_admit_unfold:
  assumes "addr_wf a" "addr_key a = Some k" "find_or_add sh r (memcpy (zeros 16) 0 k) (length k) now = (Some i, r1)"
    "refill_addr r1 = refill_addr r" "length k = 4 \<or> length k = 8"
  shows "ratelimit_admit sh (Some r) a now =
    (let e0 = rl_e r1 ! i; e1 = refill_addr r e0 now; r2 = r1\<lparr>rl_e := (rl_e r1)[i := e1]\<rparr>; r3 = refill_global r2 now
     in if rl_max_conns r1 \<le> re_conns e0 then (RATELIMIT_DENY_CONNS, Some (r1\<lparr>rl_denied_conns := rl_denied_conns r1 + 1\<rparr>))
        else if re_tokens_milli e1 < 1000 then (RATELIMIT_DENY_ADDR, Some (r2\<lparr>rl_denied_addr := rl_denied_addr r2 + 1\<rparr>))
        else if rl_global_tokens_milli r3 < 1000 then (RATELIMIT_DENY_GLOBAL, Some (r3\<lparr>rl_denied_global := rl_denied_global r3 + 1\<rparr>))
        else (RATELIMIT_ALLOW, Some (r3\<lparr>rl_e := (rl_e r3)[i := charged e1], rl_global_tokens_milli := rl_global_tokens_milli r3 - 1000,
          rl_admitted := rl_admitted r3 + 1\<rparr>)))"
proof -
  have "length k \<noteq> 0" using assms(5) by auto
  then show ?thesis
    unfolding ratelimit_admit_def authd_addr_key_eq [OF assms(1)] option.case assms(2) prod.case if_False option.sel assms(3) Let_def
      charged_def assms(4)
    by simp
qed

lemma admit_spec:
  assumes inv: "limiter_inv sh t r" and now: "t \<le> unat now" "unat now < TIME_MAX" and a: "addr_wf a" "addr_key a = Some k"
  shows "\<exists>v r'. ratelimit_admit sh (Some r) a now = (v, Some r') \<and> limiter_inv sh (unat now) r' \<and> same_config r r' \<and>
    others_kept r k now (rl_e r') \<and> admit_effect r k now v r'"
proof -
  let ?hm = "home sh (rl_hash_key r)"
  note k = addr_key_len [OF a]
  have ok: "table_ok ?hm (rl_e r)" and c: "config_ok r" using inv by (simp_all add: limiter_inv_def)
  note g0 = limiter_inv_gstate [OF inv]
  note g1 = grefilled_nat(3) [OF c g0 now]
  have g0': "gstate_ok (unat now) r (gstate r)" using g0 now(1) by (simp add: gstate_ok_def)
  from find_or_add_spec [OF inv now(1) k] consider
    "find_or_add sh r (memcpy (zeros 16) 0 k) (length k) now = (None, r)"
  | i es where "find_or_add sh r (memcpy (zeros 16) 0 k) (length k) now = (Some i, r\<lparr>rl_e := es\<rparr>)" "i < 1024" "table_ok ?hm es"
      "es ! i = entry_for r k now" "occupied (es ! i)" "key_of (es ! i) = k" "rl_map es k = Some (entry_for r k now)" "others_kept r k now es"
    by blast
  then show ?thesis
  proof cases
    case 1
    let ?r = "r\<lparr>rl_denied_table := rl_denied_table r + 1\<rparr>"
    have "length k \<noteq> 0" using k by auto
    then have "ratelimit_admit sh (Some r) a now = (RATELIMIT_DENY_TABLE, Some ?r)"
      by (simp add: ratelimit_admit_def authd_addr_key_eq [OF a(1)] a(2) 1)
    moreover have "limiter_inv sh (unat now) ?r"
      using limiter_inv_mono [OF inv now(1)] by (simp add: limiter_inv_def config_ok_def entry_ok_def)
    moreover have "admit_effect r k now RATELIMIT_DENY_TABLE ?r" by (simp add: admit_effect_def Let_def gstate_def)
    ultimately show ?thesis by (auto simp: same_config_def others_kept_def)
  next
    case 2
    let ?e0 = "entry_for r k now" and ?g = "grefilled r now"
    let ?e1 = "refill_addr r ?e0 now" and ?r1 = "r\<lparr>rl_e := es\<rparr>"
    have sc: "same_config r ?r1" by (simp add: same_config_def)
    note u = ratelimit_admit_unfold [OF a 2(1) refill_addr_cong [OF sc] k]
    have e0: "entry_ok (unat now) r ?e0" using entry_for_ok [OF inv now(1) k] .
    note e1 = refill_addr_nat [OF c e0 order_refl now(2)]
    have up: "table_ok ?hm (es[i := e])" "others_kept r k now (es[i := e])" "rl_map (es[i := e]) k = Some e"
      if "re_key e = re_key ?e0" "re_key_len e = re_key_len ?e0" for e
    proof -
      note t = table_update [OF 2(3,2,5), of e, unfolded 2(4), OF that]
      show "table_ok ?hm (es[i := e])" by (rule t(1))
      have kk: "key_of ?e0 = k" using 2(4,6) by simp
      show "others_kept r k now (es[i := e])" using t(2) by (intro others_kept_update [OF 2(8)]) (simp only: kk)
      show "rl_map (es[i := e]) k = Some e" using t(2) kk by simp
    qed
    have fin: "limiter_inv sh (unat now) r'" if "same_config r r'" "rl_e r' = es'" "table_ok ?hm es'" "others_kept r k now es'"
      "rl_map es' k = Some e" "entry_ok (unat now) r e" "gstate_ok (unat now) r (gstate r')" for r' es' e
      using that by (intro limiter_inv_step [OF inv now(1), of _ k now]) simp_all
    have "grefilled (r\<lparr>rl_e := es[i := ?e1]\<rparr>) now = ?g" by (simp add: grefilled_def refill_global_def gstate_def split_beta)
    then have gr: "refill_global (r\<lparr>rl_e := es[i := ?e1]\<rparr>) now =
        r\<lparr>rl_e := es[i := ?e1], rl_global_tokens_milli := fst ?g, rl_global_last_ms := snd ?g\<rparr>" by (simp add: refill_global_eq)
    have gk: "fst (gstate r) = rl_global_tokens_milli r" "snd (gstate r) = rl_global_last_ms r" by (simp_all add: gstate_def)
    let ?A = "rl_max_conns r \<le> re_conns ?e0" and ?B = "re_tokens_milli ?e1 < 1000" and ?C = "fst ?g < 1000"
    consider ?A | "\<not> ?A" ?B | "\<not> ?A" "\<not> ?B" ?C | "\<not> ?A" "\<not> ?B" "\<not> ?C" by blast
    then show ?thesis
    proof cases
      case A: 1
      then show ?thesis
        using fin [of "?r1\<lparr>rl_denied_conns := rl_denied_conns r + 1\<rparr>" es ?e0] 2 e0 g0'
        by (simp add: u Let_def admit_effect_def same_config_def gstate_def)
    next
      case B: 2
      then show ?thesis
        using fin [of "?r1\<lparr>rl_e := es[i := ?e1], rl_denied_addr := rl_denied_addr r + 1\<rparr>" "es[i := ?e1]" ?e1] up [OF e1(3,4)] e1(6) g0' 2(4)
        by (simp add: u Let_def admit_effect_def same_config_def gstate_def)
    next
      case C: 3
      then show ?thesis
        using fin [of "?r1\<lparr>rl_e := es[i := ?e1], rl_global_tokens_milli := fst ?g, rl_global_last_ms := snd ?g,
            rl_denied_global := rl_denied_global r + 1\<rparr>" "es[i := ?e1]" ?e1] up [OF e1(3,4)] e1(6) g1 2(4)
        by (simp add: u Let_def admit_effect_def same_config_def gstate_def gr)
    next
      case D: 4
      have ch: "re_key (charged ?e1) = re_key ?e0" "re_key_len (charged ?e1) = re_key_len ?e0" using e1(3,4) by (simp_all add: charged_def)
      have t: "1000 \<le> re_tokens_milli ?e1" "1000 \<le> fst ?g" "re_conns ?e0 < rl_max_conns r" using D by simp_all
      have "entry_ok (unat now) r (charged ?e1)" using e1(5,6) t by (simp add: charged_entry_ok)
      moreover have "gstate_ok (unat now) r (fst ?g - 1000, snd ?g)"
        using g1 t(2) by (simp add: gstate_ok_def unat_sub word_le_nat_alt) linarith
      ultimately show ?thesis
        using fin [of "r\<lparr>rl_global_last_ms := snd ?g, rl_e := es[i := charged ?e1], rl_global_tokens_milli := fst ?g - 1000,
            rl_admitted := rl_admitted r + 1\<rparr>" "es[i := charged ?e1]" "charged ?e1"] up [OF ch] t D 2(4)
        by (simp add: u Let_def admit_effect_def same_config_def gstate_def gr)
    qed
  qed
qed

lemma find_addr:
  assumes "limiter_inv sh t r" "addr_wf a" "addr_key a = Some k"
  defines "i \<equiv> find_idx sh r (memcpy (zeros 16) 0 k) (length k)"
  shows "authd_addr_key a (Some (zeros 16)) = (length k, Some (memcpy (zeros 16) 0 k))" "length k \<noteq> 0"
    "case rl_map (rl_e r) k of None \<Rightarrow> i = 1024 | Some e \<Rightarrow> i < 1024 \<and> rl_e r ! i = e"
proof -
  show "length k \<noteq> 0" using addr_key_len [OF assms(2,3)] by auto
  show "authd_addr_key a (Some (zeros 16)) = (length k, Some (memcpy (zeros 16) 0 k))"
    using assms(3) by (simp add: authd_addr_key_eq [OF assms(2)])
  show "case rl_map (rl_e r) k of None \<Rightarrow> i = 1024 | Some e \<Rightarrow> i < 1024 \<and> rl_e r ! i = e"
    unfolding i_def using assms(1) by (intro find_idx_spec) (simp_all add: limiter_inv_def)
qed

lemma slot_update:
  assumes inv: "limiter_inv sh t r" "t \<le> t'" and i: "i < 1024" "rl_e r ! i = e" "rl_map (rl_e r) k = Some e"
    and e': "re_key e' = re_key e" "re_key_len e' = re_key_len e" "entry_ok t' r e'"
  shows "limiter_inv sh t' (r\<lparr>rl_e := (rl_e r)[i := e']\<rparr>)" "rl_map ((rl_e r)[i := e']) = (rl_map (rl_e r))(k \<mapsto> e')"
proof -
  have ok: "table_ok (home sh (rl_hash_key r)) (rl_e r)" using inv(1) by (simp add: limiter_inv_def)
  have o: "occupied e" "key_of e = k" using rl_map_SomeD [OF i(3)] by auto
  note u = table_update [OF ok i(1), unfolded i(2), OF o(1) e'(1,2), unfolded o(2)]
  show "rl_map ((rl_e r)[i := e']) = (rl_map (rl_e r))(k \<mapsto> e')" by (rule u(2))
  show "limiter_inv sh t' (r\<lparr>rl_e := (rl_e r)[i := e']\<rparr>)"
    using u e'(3) limiter_inv_gstate [OF inv(1)] inv(2)
    by (intro limiter_inv_step [OF inv, of _ k 0]) (simp_all add: same_config_def others_kept_def gstate_def gstate_ok_def)
qed

lemma release_spec:
  assumes inv: "limiter_inv sh t r" and a: "addr_wf a" "addr_key a = Some k"
  shows "\<exists>r'. ratelimit_release sh (Some r) a = Some r' \<and> limiter_inv sh t r' \<and> same_config r r' \<and> gstate r' = gstate r \<and>
    rl_map (rl_e r') = (case rl_map (rl_e r) k of None \<Rightarrow> rl_map (rl_e r) | Some e \<Rightarrow>
      if re_conns e = 0 then rl_map (rl_e r) else (rl_map (rl_e r))(k \<mapsto> e\<lparr>re_conns := re_conns e - 1\<rparr>))"
proof (cases "rl_map (rl_e r) k")
  case None
  then show ?thesis using find_addr [OF assms] inv by (simp add: ratelimit_release_def same_config_def)
next
  case (Some e)
  define i where "i = find_idx sh r (memcpy (zeros 16) 0 k) (length k)"
  note f = find_addr [OF assms, folded i_def]
  have i: "i < 1024" "rl_e r ! i = e" using f(3) Some by simp_all
  show ?thesis
  proof (cases "re_conns e = 0")
    case True
    then show ?thesis using f Some i inv by (simp add: ratelimit_release_def i_def [symmetric] same_config_def)
  next
    case False
    let ?e = "e\<lparr>re_conns := re_conns e - 1\<rparr>"
    have "entry_ok t r e" using inv Some by (simp add: limiter_inv_def)
    moreover have "re_conns e - 1 \<le> re_conns e" using False by (simp add: word_le_nat_alt unat_minus_one)
    ultimately have "entry_ok t r ?e" by (auto simp: entry_ok_def)
    note u = slot_update [OF inv order_refl i Some, of ?e, simplified, OF this]
    have "re_conns e > 0" using False by (simp add: word_neq_0_conv)
    with u f i Some False show ?thesis
      by (simp add: ratelimit_release_def i_def [symmetric] same_config_def gstate_def)
  qed
qed

definition refunded :: "ratelimit_t \<Rightarrow> ratelimit_entry_t \<Rightarrow> u64 \<Rightarrow> ratelimit_entry_t" where
  "refunded r e now = (let e = refill_addr r e now; cap = ucast (rl_burst r) * 1000
     in e\<lparr>re_tokens_milli := (if re_tokens_milli e + 1000 > cap then cap else re_tokens_milli e + 1000)\<rparr>)"

lemma refunded_nat:
  assumes "config_ok r" "entry_ok t r e" "t \<le> unat now" "unat now < TIME_MAX"
  shows "unat (re_tokens_milli (refunded r e now)) = min (cap_of r) (unat (re_tokens_milli (refill_addr r e now)) + 1000)"
    "re_key (refunded r e now) = re_key e" "re_key_len (refunded r e now) = re_key_len e" "re_conns (refunded r e now) = re_conns e"
    "re_last_ms (refunded r e now) = re_last_ms (refill_addr r e now)" "entry_ok (unat now) r (refunded r e now)"
proof -
  note e = refill_addr_nat [OF assms]
  have c: "cap_of r \<le> 10000000" using assms(1) by (simp add: config_ok_def)
  have "unat (re_tokens_milli (refill_addr r e now) + 1000) = unat (re_tokens_milli (refill_addr r e now)) + 1000"
    using e(1) c by (subst u64_small) simp_all
  then show t: "unat (re_tokens_milli (refunded r e now)) = min (cap_of r) (unat (re_tokens_milli (refill_addr r e now)) + 1000)"
    using cap_word(1) [OF assms(1)] by (auto simp: refunded_def Let_def word_less_nat_alt)
  show k: "re_key (refunded r e now) = re_key e" "re_key_len (refunded r e now) = re_key_len e" "re_conns (refunded r e now) = re_conns e"
    "re_last_ms (refunded r e now) = re_last_ms (refill_addr r e now)"
    using e(3-5) by (simp_all add: refunded_def Let_def)
  show "entry_ok (unat now) r (refunded r e now)" using t k e(5,6) by (simp add: entry_ok_def)
qed

lemma refund_spec:
  assumes inv: "limiter_inv sh t r" and now: "t \<le> unat now" "unat now < TIME_MAX" and a: "addr_wf a" "addr_key a = Some k"
  shows "\<exists>r'. ratelimit_refund sh (Some r) a now = Some r' \<and> limiter_inv sh (unat now) r' \<and> same_config r r' \<and> gstate r' = gstate r \<and>
    rl_map (rl_e r') = (case rl_map (rl_e r) k of None \<Rightarrow> rl_map (rl_e r) | Some e \<Rightarrow> (rl_map (rl_e r))(k \<mapsto> refunded r e now))"
proof (cases "rl_map (rl_e r) k")
  case None
  then show ?thesis
    using find_addr [OF inv a] limiter_inv_mono [OF inv now(1)] by (simp add: ratelimit_refund_def same_config_def)
next
  case (Some e)
  define i where "i = find_idx sh r (memcpy (zeros 16) 0 k) (length k)"
  note f = find_addr [OF inv a, folded i_def]
  have i: "i < 1024" "rl_e r ! i = e" using f(3) Some by simp_all
  have "config_ok r" "entry_ok t r e" using inv Some by (simp_all add: limiter_inv_def)
  note n = refunded_nat [OF this now]
  note u = slot_update [OF inv now(1) i Some n(2,3,6)]
  let ?r = "r\<lparr>rl_e := (rl_e r)[i := refunded r e now]\<rparr>"
  have "ratelimit_refund sh (Some r) a now = Some (?r\<lparr>rl_refunded := rl_refunded r + 1\<rparr>)"
    using f i by (simp add: ratelimit_refund_def i_def [symmetric] refunded_def Let_def)
  moreover have "limiter_inv sh (unat now) (?r\<lparr>rl_refunded := rl_refunded r + 1\<rparr>)"
    using u(1) by (simp add: limiter_inv_def config_ok_def entry_ok_def)
  ultimately show ?thesis using u(2) Some by (simp add: same_config_def gstate_def)
qed

section \<open>Sequences of calls\<close>

text \<open>
  The state is the limiter with the time of its last call; the clock of the callers is monotonic and
  below \<open>TIME_MAX\<close>.
\<close>

datatype limiter_op = Admit "authd_addr_t ptr" u64 | Release "authd_addr_t ptr" | Refund "authd_addr_t ptr" u64

type_synonym limiter_state = "nat \<times> ratelimit_t"

fun op_addr :: "limiter_op \<Rightarrow> authd_addr_t ptr" where
  "op_addr (Admit a now) = a"
| "op_addr (Release a) = a"
| "op_addr (Refund a now) = a"

fun op_time :: "nat \<Rightarrow> limiter_op \<Rightarrow> nat" where
  "op_time t (Admit a now) = unat now"
| "op_time t (Release a) = t"
| "op_time t (Refund a now) = unat now"

fun limiter_exec :: "shorthash \<Rightarrow> limiter_state \<Rightarrow> limiter_op \<Rightarrow> ratelimit_verdict_t option \<times> limiter_state" where
  "limiter_exec sh (t, r) (Admit a now) = (let (v, r') = ratelimit_admit sh (Some r) a now in (Some v, unat now, the r'))"
| "limiter_exec sh (t, r) (Release a) = (None, t, the (ratelimit_release sh (Some r) a))"
| "limiter_exec sh (t, r) (Refund a now) = (None, unat now, the (ratelimit_refund sh (Some r) a now))"

fun limiter_op_ok :: "limiter_state \<Rightarrow> limiter_op \<Rightarrow> bool" where
  "limiter_op_ok (t, r) a \<longleftrightarrow> addr_wf (op_addr a) \<and> t \<le> op_time t a \<and> op_time t a < TIME_MAX"

text \<open>The limiter of \<open>r0\<close>, well formed.\<close>

fun limiter_from :: "shorthash \<Rightarrow> ratelimit_t \<Rightarrow> limiter_state \<Rightarrow> bool" where
  "limiter_from sh r0 (t, r) \<longleftrightarrow> limiter_inv sh t r \<and> same_config r0 r \<and> t < TIME_MAX"

text \<open>What one call does to the entry of one key, and to the bucket they all share.\<close>

fun key_effect :: "ratelimit_t \<Rightarrow> bytes \<Rightarrow> limiter_op \<Rightarrow> ratelimit_verdict_t option \<Rightarrow> ratelimit_entry_t option \<Rightarrow> bool" where
  "key_effect r k (Admit a now) v y \<longleftrightarrow>
     (let x = rl_map (rl_e r) k; e0 = entry_for r k now; e1 = refill_addr r e0 now
      in if addr_key a \<noteq> Some k then y = x \<or> y = None \<and> (\<exists>e. x = Some e \<and> reclaimable r e now)
         else if v = Some RATELIMIT_ALLOW then y = Some (charged e1) \<and> 1000 \<le> re_tokens_milli e1 \<and> re_conns e0 < rl_max_conns r
         else y = x \<or> y = Some e0 \<or> y = Some e1)"
| "key_effect r k (Release a) v y \<longleftrightarrow>
     y = (if addr_key a \<noteq> Some k then rl_map (rl_e r) k
          else map_option (\<lambda>e. if re_conns e = 0 then e else e\<lparr>re_conns := re_conns e - 1\<rparr>) (rl_map (rl_e r) k))"
| "key_effect r k (Refund a now) v y \<longleftrightarrow>
     y = (if addr_key a \<noteq> Some k then rl_map (rl_e r) k else map_option (\<lambda>e. refunded r e now) (rl_map (rl_e r) k))"

fun global_effect :: "ratelimit_t \<Rightarrow> limiter_op \<Rightarrow> ratelimit_verdict_t option \<Rightarrow> u64 \<times> u64 \<Rightarrow> bool" where
  "global_effect r (Admit a now) v g \<longleftrightarrow>
     (if v = Some RATELIMIT_ALLOW then 1000 \<le> fst (grefilled r now) \<and> g = (fst (grefilled r now) - 1000, snd (grefilled r now))
      else g = gstate r \<or> g = grefilled r now)"
| "global_effect r _ v g \<longleftrightarrow> g = gstate r"

lemma same_config_refl [simp]: "same_config r r"
  by (simp add: same_config_def)

lemma limiter_exec_effect:
  assumes inv: "limiter_inv sh t r" and ok: "limiter_op_ok (t, r) a" and ex: "limiter_exec sh (t, r) a = (v, t', r')"
  shows "t' = op_time t a \<and> limiter_inv sh t' r' \<and> same_config r r' \<and> key_effect r k a v (rl_map (rl_e r') k) \<and> global_effect r a v (gstate r')"
proof (cases "addr_key (op_addr a)")
  case None
  have "addr_wf (op_addr a)" using ok by simp
  note n = authd_addr_key_eq [OF this, unfolded None option.case]
  have "t' = op_time t a \<and> r' = r \<and> v \<noteq> Some RATELIMIT_ALLOW" using ex n
    by (cases a) (auto simp: ratelimit_admit_def ratelimit_release_def ratelimit_refund_def)
  moreover have "limiter_inv sh (op_time t a) r" using ok by (intro limiter_inv_mono [OF inv]) simp
  ultimately show ?thesis using None by (cases a) (simp_all add: Let_def)
next
  case (Some ka)
  show ?thesis
  proof (cases a)
    case (Admit x now)
    with ok Some have p: "t \<le> unat now" "unat now < TIME_MAX" "addr_wf x" "addr_key x = Some ka" by simp_all
    from admit_spec [OF inv p] ex Admit have "limiter_inv sh (unat now) r'" "same_config r r'" "t' = unat now"
      "others_kept r ka now (rl_e r')" "\<exists>w. v = Some w \<and> admit_effect r ka now w r'" by auto
    then show ?thesis using Admit p(4) by (auto simp: Let_def admit_effect_def others_kept_def split: if_splits)
  next
    case (Release x)
    with ok Some have p: "addr_wf x" "addr_key x = Some ka" by simp_all
    from release_spec [OF inv p] ex Release Some show ?thesis by (auto split: option.splits if_splits)
  next
    case (Refund x now)
    with ok Some have p: "t \<le> unat now" "unat now < TIME_MAX" "addr_wf x" "addr_key x = Some ka" by simp_all
    from refund_spec [OF inv p] ex Refund Some show ?thesis by (auto split: option.splits if_splits)
  qed
qed

lemma limiter_from_step:
  assumes "limiter_from sh r0 s" "limiter_op_ok s a" "limiter_exec sh s a = (v, s')"
  shows "limiter_from sh r0 s'"
proof -
  obtain t r t' r' where s: "s = (t, r)" "s' = (t', r')" by (cases s, cases s') auto
  show ?thesis using limiter_exec_effect [of sh t r a v t' r'] assms by (auto simp: s same_config_def)
qed

fun allowed :: "bytes \<Rightarrow> limiter_op \<Rightarrow> ratelimit_verdict_t option \<Rightarrow> nat" where
  "allowed k (Admit a now) v = (if addr_key a = Some k \<and> v = Some RATELIMIT_ALLOW then 1 else 0)"
| "allowed k _ v = 0"

fun released :: "bytes \<Rightarrow> limiter_op \<Rightarrow> ratelimit_verdict_t option \<Rightarrow> nat" where
  "released k (Release a) v = (if addr_key a = Some k then 1 else 0)"
| "released k _ v = 0"

fun refunds :: "bytes \<Rightarrow> limiter_op \<Rightarrow> ratelimit_verdict_t option \<Rightarrow> nat" where
  "refunds k (Refund a now) v = (if addr_key a = Some k then 1 else 0)"
| "refunds k _ v = 0"

fun refills :: "bytes \<Rightarrow> limiter_op \<Rightarrow> ratelimit_verdict_t option \<Rightarrow> nat" where
  "refills k (Release a) v = 0"
| "refills k a v = (if addr_key (op_addr a) = Some k then 1 else 0)"

fun any_allowed :: "limiter_op \<Rightarrow> ratelimit_verdict_t option \<Rightarrow> nat" where
  "any_allowed a v = (if v = Some RATELIMIT_ALLOW then 1 else 0)"

subsection \<open>Connections\<close>

definition conns_of :: "ratelimit_entry_t option \<Rightarrow> nat" where
  "conns_of x = (case x of None \<Rightarrow> 0 | Some e \<Rightarrow> unat (re_conns e))"

lemma conns_of_simps [simp]: "conns_of None = 0" "conns_of (Some e) = unat (re_conns e)"
  by (simp_all add: conns_of_def)

lemma conns_of_entry_for [simp]: "unat (re_conns (entry_for r k now)) = conns_of (rl_map (rl_e r) k)"
  by (simp add: entry_for_def conns_of_def new_entry_def split: option.split)

lemma refill_addr_conns [simp]: "re_conns (refill_addr r e now) = re_conns e"
  by (simp add: refill_addr_def split_beta)

lemma reclaimable_idle:
  assumes "rl_map es k = Some e" "reclaimable r e now"
  shows "re_conns e = 0" "ucast (rl_burst r) * 1000 \<le> re_tokens_milli (refill_addr r e now)"
  using assms rl_map_SomeD [OF assms(1)] by (auto simp: reclaimable_def occupied_def split: if_splits)

lemma key_effect_conns:
  assumes "key_effect r k a v y" "\<forall>e. rl_map (rl_e r) k = Some e \<longrightarrow> entry_ok t r e" "\<forall>e. y = Some e \<longrightarrow> entry_ok t' r e"
  shows "unat (rl_max_conns r) - conns_of y + allowed k a v \<le> unat (rl_max_conns r) - conns_of (rl_map (rl_e r) k) + released k a v"
proof (cases a)
  case (Admit x now)
  show ?thesis
  proof (cases "addr_key x = Some k \<and> v = Some RATELIMIT_ALLOW")
    case True
    let ?e = "refill_addr r (entry_for r k now) now"
    have y: "y = Some (charged ?e)" "re_conns (entry_for r k now) < rl_max_conns r" using assms(1) True Admit by (auto simp: Let_def)
    have c: "conns_of (rl_map (rl_e r) k) < unat (rl_max_conns r)" using y(2) by (simp add: word_less_nat_alt)
    then have "unat (re_conns (charged ?e)) = conns_of (rl_map (rl_e r) k) + 1"
      using unsigned_less [of "rl_max_conns r", where ?'a = nat] by (simp add: charged_def unat_word_ariths)
    with y(1) c Admit True show ?thesis by simp
  next
    case False
    have "conns_of y = conns_of (rl_map (rl_e r) k)" using assms(1) False Admit
      by (auto simp: Let_def reclaimable_idle(1) split: if_splits)
    with False Admit show ?thesis by auto
  qed
next
  case (Release x)
  with assms(1,2) show ?thesis by (cases "rl_map (rl_e r) k") (auto simp: entry_ok_def word_le_nat_alt unat_minus_one)
next
  case (Refund x now)
  with assms(1) show ?thesis by (cases "rl_map (rl_e r) k") (auto simp: refunded_def Let_def)
qed

lemma limiter_from_effect:
  assumes "limiter_from sh r0 (t, r)" "limiter_op_ok (t, r) a" "limiter_exec sh (t, r) a = (v, t', r')"
  shows "limiter_inv sh t r" "limiter_inv sh t' r'" "same_config r0 r" "same_config r r'" "t' = op_time t a" "t \<le> t'" "t' < TIME_MAX"
    "key_effect r k a v (rl_map (rl_e r') k)" "global_effect r a v (gstate r')"
    "rl_map (rl_e r) k = Some e \<Longrightarrow> entry_ok t r e" "rl_map (rl_e r') k = Some e \<Longrightarrow> entry_ok t' r e"
proof -
  show i: "limiter_inv sh t r" "same_config r0 r" using assms(1) by simp_all
  note x = limiter_exec_effect [OF i(1) assms(2,3), of k]
  show y: "limiter_inv sh t' r'" "same_config r r'" "t' = op_time t a"
    "key_effect r k a v (rl_map (rl_e r') k)" "global_effect r a v (gstate r')" using x by blast+
  show "t \<le> t'" "t' < TIME_MAX" using assms(2) y(3) by simp_all
  show "entry_ok t r e" if "rl_map (rl_e r) k = Some e" using i(1) that by (simp add: limiter_inv_def)
  show "entry_ok t' r e" if "rl_map (rl_e r') k = Some e"
  proof -
    have "entry_ok t' r' e" using y(1) that by (simp add: limiter_inv_def)
    then show ?thesis using y(2) by (simp add: entry_ok_def same_config_def)
  qed
qed

interpretation conns: credit_machine "limiter_exec sh" "limiter_from sh r0" limiter_op_ok
  "\<lambda>s. unat (rl_max_conns r0) - conns_of (rl_map (rl_e (snd s)) k)" "released k" "allowed k" for sh r0 k
proof
  fix s a v s' assume p: "limiter_from sh r0 s" "limiter_op_ok s a" "limiter_exec sh s a = (v, s')"
  then show "limiter_from sh r0 s'" by (rule limiter_from_step)
  obtain t r t' r' where s: "s = (t, r)" "s' = (t', r')" by (cases s, cases s') auto
  note e = limiter_from_effect [OF p [unfolded s]]
  have "rl_max_conns r = rl_max_conns r0" using e(3) by (simp add: same_config_def)
  with key_effect_conns [OF e(8) [of k], of t t'] e(10,11)
  show "unat (rl_max_conns r0) - conns_of (rl_map (rl_e (snd s')) k) + allowed k a v \<le>
    unat (rl_max_conns r0) - conns_of (rl_map (rl_e (snd s)) k) + released k a v"
    by (simp add: s)
qed

subsection \<open>The rate of one address\<close>

text \<open>
  In sixtieths of a milli-token. The time that \<open>refill\<close> consumes is rounded down: when the rate per
  minute neither divides 60 nor is a multiple of it, a refill may credit some of the time again, for
  less than \<open>per_min\<close>.
\<close>

definition rounding :: "nat \<Rightarrow> nat" where
  "rounding p = (if p dvd 60 \<or> 60 dvd p then 0 else p)"

lemma refill_rounding:
  fixes p el :: nat
  assumes "0 < p"
  defines "add \<equiv> el * p div 60"
  shows "60 * add + p * (el - add * 60 div p) \<le> p * el + rounding p" "p * (el - add * 60 div p) \<le> 59 + rounding p"
proof -
  have b: "60 * add \<le> p * el" "p * el \<le> 60 * add + 59" unfolding add_def by (simp_all add: mult.commute) 
  have m: "60 * add mod p \<le> rounding p"
  proof (cases "p dvd 60 \<or> 60 dvd p")
    case True
    have "p dvd 60 * add"
    proof (cases "p dvd 60")
      case False
      then obtain m where "p = 60 * m" using True by (auto elim: dvdE)
      then have "60 * add = p * el" by (simp add: add_def)
      then show ?thesis by simp
    qed simp
    then show ?thesis using True by (simp add: rounding_def)
  qed (simp add: rounding_def assms(1) less_imp_le)
  have d: "p * (60 * add div p) + 60 * add mod p = 60 * add" by simp
  have e: "p * (el - add * 60 div p) = p * el - p * (60 * add div p)" by (simp add: diff_mult_distrib2 mult.commute)
  show "60 * add + p * (el - add * 60 div p) \<le> p * el + rounding p" "p * (el - add * 60 div p) \<le> 59 + rounding p"
    unfolding e using b m d by linarith+
qed

definition worth :: "ratelimit_t \<Rightarrow> nat \<Rightarrow> ratelimit_entry_t option \<Rightarrow> nat" where
  "worth r t x = (case x of None \<Rightarrow> 60 * cap_of r
     | Some e \<Rightarrow> min (60 * cap_of r + 59 + rounding (unat (rl_per_min r)))
         (60 * unat (re_tokens_milli e) + unat (rl_per_min r) * (t - unat (re_last_ms e))))"

lemma worth_mono: "t \<le> t' \<Longrightarrow> worth r t' x \<le> worth r t x + unat (rl_per_min r) * (t' - t)"
proof (cases x)
  case (Some e)
  assume "t \<le> t'"
  then have "t' - unat (re_last_ms e) \<le> (t - unat (re_last_ms e)) + (t' - t)" by linarith
  then have "unat (rl_per_min r) * (t' - unat (re_last_ms e)) \<le> unat (rl_per_min r) * ((t - unat (re_last_ms e)) + (t' - t))"
    by (rule mult_le_mono2)
  then show ?thesis using Some by (simp add: worth_def distrib_left min_def)
qed (simp add: worth_def)

lemma worth_entry_for:
  "config_ok r \<Longrightarrow> worth r (unat now) (Some (entry_for r k now)) = worth r (unat now) (rl_map (rl_e r) k)"
  by (simp add: entry_for_def worth_def new_entry_def cap_word split: option.split)

lemma worth_refill:
  assumes "config_ok r" "entry_ok (unat now) r e" "unat now < TIME_MAX"
  defines "e1 \<equiv> refill_addr r e now" and "p \<equiv> unat (rl_per_min r)"
  shows "worth r (unat now) (Some e1) \<le> worth r (unat now) (Some e) + rounding p"
    "1000 \<le> re_tokens_milli e1 \<Longrightarrow> worth r (unat now) (Some (charged e1)) + 60000 \<le> worth r (unat now) (Some e) + rounding p"
    "worth r (unat now) (Some (refunded r e now)) \<le> worth r (unat now) (Some e) + rounding p + 60000"
    "ucast (rl_burst r) * 1000 \<le> re_tokens_milli e1 \<Longrightarrow> worth r (unat now) None \<le> worth r (unat now) (Some e)"
proof -
  note f = refill_addr_nat [OF assms(1,2) order_refl assms(3), folded e1_def]
  note g = refunded_nat [OF assms(1,2) order_refl assms(3), folded e1_def]
  let ?t = "unat (re_tokens_milli e)" and ?el = "unat now - unat (re_last_ms e)"
  define add where "add = ?el * p div 60"
  have p: "0 < p" using assms(1) by (simp add: p_def config_ok_def)
  define rest where "rest = p * (?el - add * 60 div p)"
  define x where "x = p * ?el"
  note a = refill_rounding [OF p, of ?el, folded add_def, folded rest_def x_def]
  have b: "60 * add \<le> x" unfolding add_def x_def by (simp add: mult.commute)
  have l: "p * (unat now - unat (re_last_ms e1)) = rest" using f(2) by (simp add: rest_def p_def add_def)
  have t: "unat (re_tokens_milli e1) = min (cap_of r) (?t + add)" using f(1) by (simp add: p_def add_def)
  show "worth r (unat now) (Some e1) \<le> worth r (unat now) (Some e) + rounding p"
    unfolding worth_def option.case p_def [symmetric] x_def [symmetric] l t using a by (simp add: min_def)
  show "worth r (unat now) (Some (charged e1)) + 60000 \<le> worth r (unat now) (Some e) + rounding p" if h: "1000 \<le> re_tokens_milli e1"
  proof -
    have "unat (re_tokens_milli (charged e1)) + 1000 = unat (re_tokens_milli e1)" "re_last_ms (charged e1) = re_last_ms e1"
      using h by (simp_all add: charged_def unat_sub word_le_nat_alt)
    moreover have "unat (re_tokens_milli e1) \<le> cap_of r" "unat (re_tokens_milli e1) \<le> ?t + add" by (simp_all add: t)
    ultimately show ?thesis unfolding worth_def option.case p_def [symmetric] x_def [symmetric] using a l
      by (simp add: min_def)
  qed
  show "worth r (unat now) (Some (refunded r e now)) \<le> worth r (unat now) (Some e) + rounding p + 60000"
    unfolding worth_def option.case p_def [symmetric] x_def [symmetric] g(1,5) l t using a by (simp add: min_def)
  show "worth r (unat now) None \<le> worth r (unat now) (Some e)" if h: "ucast (rl_burst r) * 1000 \<le> re_tokens_milli e1"
  proof -
    have "cap_of r \<le> ?t + add" using h t cap_word(1) [OF assms(1)] by (simp add: word_le_nat_alt)
    then show ?thesis unfolding worth_def option.case p_def [symmetric] x_def [symmetric] using b by (simp add: min_def)
  qed
qed

lemma worth_cong: "same_config r r' \<Longrightarrow> worth r' = worth r"
  by (intro ext) (simp add: worth_def same_config_def split: option.split)

definition address_gain :: "nat \<Rightarrow> bytes \<Rightarrow> limiter_op \<Rightarrow> ratelimit_verdict_t option \<Rightarrow> nat" where
  "address_gain p k a v = 60000 * refunds k a v + rounding p * refills k a v"

lemma key_effect_worth:
  assumes inv: "limiter_inv sh t r" and ok: "limiter_op_ok (t, r) a" and eff: "key_effect r k a v y"
  defines "t' \<equiv> op_time t a"
  shows "worth r t' y + 60000 * allowed k a v \<le> worth r t' (rl_map (rl_e r) k) + address_gain (unat (rl_per_min r)) k a v"
proof -
  have c: "config_ok r" using inv by (simp add: limiter_inv_def)
  have e: "entry_ok t' r e" if "rl_map (rl_e r) k = Some e" for e
  proof -
    have "entry_ok t r e" using inv that by (simp add: limiter_inv_def)
    moreover have "t \<le> t'" using ok by (simp add: t'_def)
    ultimately show ?thesis by (rule entry_ok_mono)
  qed
  show ?thesis
  proof (cases a)
    case (Admit x now)
    then have t': "t' = unat now" "unat now < TIME_MAX" "t \<le> unat now" "addr_wf x" using ok by (simp_all add: t'_def)
    show ?thesis
    proof (cases "addr_key x = Some k")
      case True
      note w = worth_refill [OF c entry_for_ok [OF inv t'(3) addr_key_len [OF t'(4) True]] t'(2)] worth_entry_for [OF c, of now k]
      from w(1,2,5) eff Admit True t'(1) show ?thesis by (auto simp: Let_def address_gain_def split: if_splits)
    next
      case False
      with eff Admit consider "y = rl_map (rl_e r) k" | x where "y = None" "rl_map (rl_e r) k = Some x" "reclaimable r x now" by (auto simp: Let_def)
      then show ?thesis
      proof cases
        case 2
        have "entry_ok (unat now) r x" using e [OF 2(2)] t'(1) by simp
        from worth_refill(4) [OF c this t'(2) reclaimable_idle(2) [OF 2(2,3)]] 2 Admit False t'(1) show ?thesis by simp
      qed (use Admit False in simp)
    qed
  next
    case (Release x)
    with eff show ?thesis by (cases "rl_map (rl_e r) k") (auto simp: worth_def)
  next
    case (Refund x now)
    then have t': "t' = unat now" "unat now < TIME_MAX" using ok by (simp_all add: t'_def)
    show ?thesis
    proof (cases "addr_key x = Some k \<and> rl_map (rl_e r) k \<noteq> None")
      case True
      then obtain z where z: "rl_map (rl_e r) k = Some z" by blast
      have "entry_ok (unat now) r z" using e [OF z] t'(1) by simp
      from worth_refill(3) [OF c this t'(2)] eff True z Refund t'(1) show ?thesis by (simp add: address_gain_def)
    qed (use eff Refund in auto)
  qed
qed

interpretation address: credit_machine "limiter_exec sh" "limiter_from sh r0" limiter_op_ok
  "\<lambda>s. worth r0 (fst s) (rl_map (rl_e (snd s)) k) + unat (rl_per_min r0) * (TIME_MAX - fst s)"
  "address_gain (unat (rl_per_min r0)) k" "\<lambda>a v. 60000 * allowed k a v" for sh r0 k
proof
  fix s a v s' assume p: "limiter_from sh r0 s" "limiter_op_ok s a" "limiter_exec sh s a = (v, s')"
  then show "limiter_from sh r0 s'" by (rule limiter_from_step)
  obtain t r t' r' where s: "s = (t, r)" "s' = (t', r')" by (cases s, cases s') auto
  note e = limiter_from_effect [OF p [unfolded s]]
  have q: "rl_per_min r = rl_per_min r0" "worth r = worth r0" using e(3) worth_cong [OF e(3)] by (simp_all add: same_config_def)
  have "limiter_op_ok (t, r) a" using p(2) s(1) by simp
  note w = key_effect_worth [OF e(1) this e(8) [of k], folded e(5), unfolded q]
  have "TIME_MAX - t = (t' - t) + (TIME_MAX - t')" using e(6,7) by linarith
  then have "unat (rl_per_min r0) * (TIME_MAX - t) = unat (rl_per_min r0) * (t' - t) + unat (rl_per_min r0) * (TIME_MAX - t')"
    by (simp add: distrib_left [symmetric])
  with w worth_mono [OF e(6), of r0 "rl_map (rl_e r) k"]
  show "worth r0 (fst s') (rl_map (rl_e (snd s')) k) + unat (rl_per_min r0) * (TIME_MAX - fst s') + 60000 * allowed k a v \<le>
    worth r0 (fst s) (rl_map (rl_e (snd s)) k) + unat (rl_per_min r0) * (TIME_MAX - fst s) + address_gain (unat (rl_per_min r0)) k a v"
    unfolding s fst_conv snd_conv by linarith
qed

subsection \<open>The rate of all addresses\<close>

definition global_worth :: "ratelimit_t \<Rightarrow> nat \<Rightarrow> u64 \<times> u64 \<Rightarrow> nat" where
  "global_worth r t g = min (1000 * unat (rl_global_per_sec r)) (unat (fst g) + unat (rl_global_per_sec r) * (t - unat (snd g)))"

lemma global_worth_mono:
  assumes "t \<le> t'"
  shows "global_worth r t' g \<le> global_worth r t g + unat (rl_global_per_sec r) * (t' - t)"
proof -
  have "t' - unat (snd g) \<le> (t - unat (snd g)) + (t' - t)" using assms by linarith
  then have "unat (rl_global_per_sec r) * (t' - unat (snd g)) \<le> unat (rl_global_per_sec r) * ((t - unat (snd g)) + (t' - t))"
    by (rule mult_le_mono2)
  then show ?thesis by (simp add: global_worth_def distrib_left min_def)
qed

lemma global_effect_worth:
  assumes inv: "limiter_inv sh t r" and ok: "limiter_op_ok (t, r) a" and eff: "global_effect r a v g" and v: "v = Some RATELIMIT_ALLOW \<longrightarrow> (\<exists>x now. a = Admit x now)"
  defines "t' \<equiv> op_time t a"
  shows "global_worth r t' g + 1000 * any_allowed a v \<le> global_worth r t' (gstate r)"
proof (cases a)
  case (Admit x now)
  have "config_ok r" using inv by (simp add: limiter_inv_def)
  from grefilled_nat [OF this limiter_inv_gstate [OF inv], of now] ok Admit
  have n: "unat (fst (grefilled r now)) = min (unat (rl_global_per_sec r) * 1000)
      (unat (fst (gstate r)) + (unat now - unat (snd (gstate r))) * unat (rl_global_per_sec r))"
    "unat (snd (grefilled r now)) = unat now" by simp_all
  have w: "global_worth r (unat now) (gstate r) = unat (fst (grefilled r now))" unfolding global_worth_def n by (simp add: mult.commute)
  have le: "global_worth r (unat now) (x, snd (grefilled r now)) \<le> unat x" for x unfolding global_worth_def using n(2) by simp
  have "global_worth r (unat now) (grefilled r now) \<le> global_worth r (unat now) (gstate r)"
    using le [of "fst (grefilled r now)"] w by simp
  moreover have "global_worth r (unat now) (fst (grefilled r now) - 1000, snd (grefilled r now)) + 1000 \<le> global_worth r (unat now) (gstate r)"
    if "1000 \<le> fst (grefilled r now)"
    using that le [of "fst (grefilled r now) - 1000"] w by (simp add: unat_sub word_le_nat_alt)
  ultimately show ?thesis using eff Admit by (auto simp: t'_def split: if_splits)
qed (use eff v in auto)

interpretation global: credit_machine "limiter_exec sh" "limiter_from sh r0" limiter_op_ok
  "\<lambda>s. global_worth r0 (fst s) (gstate (snd s)) + unat (rl_global_per_sec r0) * (TIME_MAX - fst s)"
  "\<lambda>a v. 0" "\<lambda>a v. 1000 * any_allowed a v" for sh r0
proof
  fix s a v s' assume p: "limiter_from sh r0 s" "limiter_op_ok s a" "limiter_exec sh s a = (v, s')"
  then show "limiter_from sh r0 s'" by (rule limiter_from_step)
  obtain t r t' r' where s: "s = (t, r)" "s' = (t', r')" by (cases s, cases s') auto
  note e = limiter_from_effect [OF p [unfolded s]]
  have q: "rl_global_per_sec r = rl_global_per_sec r0" "global_worth r = global_worth r0"
    using e(3) by (auto simp: same_config_def global_worth_def fun_eq_iff)
  have "v = Some RATELIMIT_ALLOW \<longrightarrow> (\<exists>x now. a = Admit x now)" using p(3) s by (cases a) auto
  from global_effect_worth [OF e(1) p(2) [unfolded s] e(9) this, folded e(5), unfolded q]
  have w: "global_worth r0 t' (gstate r') + 1000 * any_allowed a v \<le> global_worth r0 t' (gstate r)" .
  have "TIME_MAX - t = (t' - t) + (TIME_MAX - t')" using e(6,7) by linarith
  then have "unat (rl_global_per_sec r0) * (TIME_MAX - t) = unat (rl_global_per_sec r0) * (t' - t) + unat (rl_global_per_sec r0) * (TIME_MAX - t')"
    by (simp add: distrib_left [symmetric])
  with w global_worth_mono [OF e(6), of r0 "gstate r"]
  show "global_worth r0 (fst s') (gstate (snd s')) + unat (rl_global_per_sec r0) * (TIME_MAX - fst s') + 1000 * any_allowed a v \<le>
    global_worth r0 (fst s) (gstate (snd s)) + unat (rl_global_per_sec r0) * (TIME_MAX - fst s) + 0"
    unfolding s fst_conv snd_conv by linarith
qed

section \<open>What a limiter grants\<close>

fun times_ok :: "nat \<Rightarrow> limiter_op list \<Rightarrow> bool" where
  "times_ok t [] = True"
| "times_ok t (a # as) = (addr_wf (op_addr a) \<and> t \<le> op_time t a \<and> op_time t a < TIME_MAX \<and> times_ok (op_time t a) as)"

lemma run_ok_times: "run_ok (limiter_exec sh) limiter_op_ok (t, r) as = times_ok t as"
proof (induction as arbitrary: t r)
  case (Cons a as)
  obtain r' where "snd (limiter_exec sh (t, r) a) = (op_time t a, r')" by (cases a) (auto simp: split_beta)
  then show ?case using Cons.IH by simp
qed simp

lemma table_ok_empty: "table_ok hm (replicate 1024 entry_zero)" "rl_map (replicate 1024 entry_zero) k = None"
proof -
  have "\<not> occupied (replicate 1024 entry_zero ! i)" if "i < 1024" for i using that by (simp add: occupied_def entry_zero_def)
  then show "table_ok hm (replicate 1024 entry_zero)" "rl_map (replicate 1024 entry_zero) k = None"
    by (auto simp: table_ok_def rl_map_None entry_wf_def entry_zero_def)
qed

lemma clamp_u32_range:
  assumes "0 < hi" shows "1 \<le> unat (clamp_u32 v 1 hi)" "unat (clamp_u32 v 1 hi) \<le> unat hi"
proof -
  have "1 \<le> clamp_u32 v 1 hi \<and> clamp_u32 v 1 hi \<le> hi" using assms by (auto simp: clamp_u32_def word_le_nat_alt word_less_nat_alt)
  then show "1 \<le> unat (clamp_u32 v 1 hi)" "unat (clamp_u32 v 1 hi) \<le> unat hi" by (simp_all add: word_le_nat_alt)
qed

lemma ratelimit_init_from:
  assumes "ratelimit_init hk (Some x) per_min burst gps mc now = Some r" "unat now < TIME_MAX"
  shows "limiter_from sh r (unat now, r)" "rl_map (rl_e r) k = None" "gstate r = (ucast (rl_global_per_sec r) * 1000, now)" "config_ok r"
proof -
  show c: "config_ok r" using assms(1) clamp_u32_range [of 10000 per_min] clamp_u32_range [of 10000 burst]
    clamp_u32_range [of 10000 gps] clamp_u32_range [of 4096 mc]
    by (auto simp: ratelimit_init_def config_ok_def Let_def)
  show t: "rl_map (rl_e r) k = None" for k using assms(1) by (auto simp: ratelimit_init_def Let_def table_ok_empty)
  show g: "gstate r = (ucast (rl_global_per_sec r) * 1000, now)" using assms(1) by (auto simp: ratelimit_init_def Let_def gstate_def)
  have "table_ok (home sh (rl_hash_key r)) (rl_e r)" using assms(1) by (auto simp: ratelimit_init_def Let_def table_ok_empty)
  then show "limiter_from sh r (unat now, r)" using c t g assms(2) by (simp add: limiter_inv_def gstate_def cap_word)
qed

lemma ratelimit_conns_eq:
  assumes "limiter_inv sh t r" "addr_wf a" "addr_key a = Some k"
  shows "unat (ratelimit_conns sh (Some r) a) = conns_of (rl_map (rl_e r) k)"
  using find_addr [OF assms] by (auto simp: ratelimit_conns_def split: option.splits)

lemma sum_list_scale: "(\<Sum>(a, v)\<leftarrow>tr. c * f a v) = c * (\<Sum>(a, v)\<leftarrow>tr. f a v :: nat)"
  by (induction tr) (auto simp: distrib_left)

definition sample_addr :: "authd_addr_t ptr" where
  "sample_addr = Some \<lparr>aa_family = 4, aa_addr = zeros 16\<rparr>"

definition sample_hash :: shorthash where
  "sample_hash d k = zeros 8"

definition sample_limiter :: ratelimit_t where
  "sample_limiter = the (ratelimit_init (zeros 16) (Some undefined) 1 1 1 1 0)"

definition sample_calls :: "limiter_op list" where
  "sample_calls = [Admit sample_addr 5, Refund sample_addr 9, Admit sample_addr 9, Release sample_addr]"

lemma sample_addr_key: "addr_wf sample_addr" "addr_key sample_addr = Some (zeros 4)"
  by (simp_all add: sample_addr_def addr_wf_def addr_key_def zeros_def)

lemma times_ok_calls: "times_ok 0 sample_calls"
  by (simp add: sample_calls_def sample_addr_key)

text \<open>
  C25. Connections per address. Whatever calls a limiter has served since it was initialised, on any
  monotonic clock and for any hash function, the connections it counts for an address never exceed
  the configured maximum, and every admission it granted to that address is either one of those or
  was released: the table never forgets an open connection, also when it reclaims entries.
\<close>

theorem ratelimit_connections:
  assumes "ratelimit_init hk (Some x) per_min burst gps mc now = Some r" "unat now < TIME_MAX" "times_ok (unat now) as"
    and "run_ops (limiter_exec sh) (unat now, r) as = (tr, t', r')" "addr_wf a" "addr_key a = Some k"
  shows "ratelimit_conns sh (Some r') a \<le> rl_max_conns r \<and>
    (\<Sum>(a, v)\<leftarrow>tr. allowed k a v) \<le> unat (ratelimit_conns sh (Some r') a) + (\<Sum>(a, v)\<leftarrow>tr. released k a v)"
proof -
  note i = ratelimit_init_from [OF assms(1,2)]
  have ok: "run_ok (limiter_exec sh) limiter_op_ok (unat now, r) as" using assms(3) by (simp add: run_ok_times)
  have "limiter_from sh r (t', r')" by (rule conns.run_inv [OF i(1) ok assms(4)])
  then have f: "limiter_inv sh t' r'" "rl_max_conns r' = rl_max_conns r" by (simp_all add: same_config_def)
  have m: "conns_of (rl_map (rl_e r') k) \<le> unat (rl_max_conns r)"
    using f by (cases "rl_map (rl_e r') k") (auto simp: limiter_inv_def entry_ok_def word_le_nat_alt)
  with conns.run_credit [OF i(1) ok assms(4), of k] i(2) ratelimit_conns_eq [OF f(1) assms(5,6)] show ?thesis
    by (simp add: word_le_nat_alt)
qed

theorem ratelimit_connections_witness:
  "\<exists>r tr t' r'. ratelimit_init (zeros 16) (Some sample_limiter) 5 10 50 4 0 = Some r \<and> times_ok 0 sample_calls \<and>
     run_ops (limiter_exec sample_hash) (0, r) sample_calls = (tr, t', r') \<and>
     ratelimit_conns sample_hash (Some r') sample_addr \<le> rl_max_conns r \<and>
     (\<Sum>(a, v)\<leftarrow>tr. allowed (zeros 4) a v) \<le> unat (ratelimit_conns sample_hash (Some r') sample_addr) + (\<Sum>(a, v)\<leftarrow>tr. released (zeros 4) a v)"
proof -
  obtain r where r: "ratelimit_init (zeros 16) (Some sample_limiter) 5 10 50 4 0 = Some r" by (simp add: ratelimit_init_def Let_def)
  obtain tr t' r' where e: "run_ops (limiter_exec sample_hash) (0, r) sample_calls = (tr, t', r')" by (metis surj_pair)
  have "unat (0 :: u64) < TIME_MAX" "times_ok (unat (0 :: u64)) sample_calls" "run_ops (limiter_exec sample_hash) (unat (0 :: u64), r) sample_calls = (tr, t', r')"
    using times_ok_calls e by simp_all
  from ratelimit_connections [OF r this sample_addr_key] r e times_ok_calls show ?thesis by blast
qed

text \<open>
  C26. The rate of one address, over any sequence of calls. In milli-tokens of 60 ms each, the
  admissions of an address cost no more than its burst, what the elapsed time earns at \<open>per_min\<close>, the
  refunds made to it, and the rounding of \<open>refill\<close>: nothing when \<open>per_min\<close> divides 60 or is a multiple
  of 60, and at most \<open>per_min\<close> sixtieths of a milli-token for each call that refills the bucket
  otherwise. Leaving the table and coming back gives nothing.
\<close>

theorem ratelimit_address_rate:
  assumes "ratelimit_init hk (Some x) per_min burst gps mc now = Some r" "unat now < TIME_MAX" "times_ok (unat now) as"
    and "run_ops (limiter_exec sh) (unat now, r) as = (tr, t', r')"
  shows "60000 * (\<Sum>(a, v)\<leftarrow>tr. allowed k a v) \<le>
    60000 * unat (rl_burst r) + unat (rl_per_min r) * (t' - unat now) + 60000 * (\<Sum>(a, v)\<leftarrow>tr. refunds k a v) +
    rounding (unat (rl_per_min r)) * (\<Sum>(a, v)\<leftarrow>tr. refills k a v)"
proof -
  note i = ratelimit_init_from [OF assms(1,2)]
  have ok: "run_ok (limiter_exec sh) limiter_op_ok (unat now, r) as" using assms(3) by (simp add: run_ok_times)
  have "limiter_from sh r (t', r')" by (rule address.run_inv [OF i(1) ok assms(4)])
  then have t: "t' < TIME_MAX" by simp
  let ?p = "unat (rl_per_min r)"
  have "TIME_MAX - unat now \<le> (t' - unat now) + (TIME_MAX - t')" using t assms(2) by linarith
  then have p: "?p * (TIME_MAX - unat now) \<le> ?p * (t' - unat now) + ?p * (TIME_MAX - t')"
    unfolding distrib_left [symmetric] by (rule mult_le_mono2)
  have "(\<Sum>(a, v)\<leftarrow>tr. address_gain ?p k a v) = 60000 * (\<Sum>(a, v)\<leftarrow>tr. refunds k a v) + rounding ?p * (\<Sum>(a, v)\<leftarrow>tr. refills k a v)"
    by (induction tr) (auto simp: address_gain_def distrib_left)
  with address.run_credit [OF i(1) ok assms(4), of k] i(2) [of k] p show ?thesis
    unfolding fst_conv snd_conv sum_list_scale by (simp add: worth_def)
qed

theorem ratelimit_address_rate_witness:
  "\<exists>r tr t' r'. ratelimit_init (zeros 16) (Some sample_limiter) 5 10 50 4 0 = Some r \<and> times_ok 0 sample_calls \<and>
     run_ops (limiter_exec sample_hash) (0, r) sample_calls = (tr, t', r') \<and>
     60000 * (\<Sum>(a, v)\<leftarrow>tr. allowed (zeros 4) a v) \<le>
     60000 * unat (rl_burst r) + unat (rl_per_min r) * (t' - unat (0 :: u64)) + 60000 * (\<Sum>(a, v)\<leftarrow>tr. refunds (zeros 4) a v) +
     rounding (unat (rl_per_min r)) * (\<Sum>(a, v)\<leftarrow>tr. refills (zeros 4) a v)"
proof -
  obtain r where r: "ratelimit_init (zeros 16) (Some sample_limiter) 5 10 50 4 0 = Some r" by (simp add: ratelimit_init_def Let_def)
  obtain tr t' r' where e: "run_ops (limiter_exec sample_hash) (0, r) sample_calls = (tr, t', r')" by (metis surj_pair)
  have "unat (0 :: u64) < TIME_MAX" "times_ok (unat (0 :: u64)) sample_calls" "run_ops (limiter_exec sample_hash) (unat (0 :: u64), r) sample_calls = (tr, t', r')"
    using times_ok_calls e by simp_all
  from ratelimit_address_rate [OF r this, of "zeros 4"] r e times_ok_calls show ?thesis by blast
qed

text \<open>
  C27. The rate of all addresses together, over any sequence of calls: admissions number at most one
  second's worth at the start plus what the elapsed time earns at \<open>global_per_sec\<close>. Refunds do not
  extend it.
\<close>

theorem ratelimit_global_rate:
  assumes "ratelimit_init hk (Some x) per_min burst gps mc now = Some r" "unat now < TIME_MAX" "times_ok (unat now) as"
    and "run_ops (limiter_exec sh) (unat now, r) as = (tr, t', r')"
  shows "1000 * (\<Sum>(a, v)\<leftarrow>tr. any_allowed a v) \<le> unat (rl_global_per_sec r) * (1000 + (t' - unat now))"
proof -
  note i = ratelimit_init_from [OF assms(1,2)]
  have ok: "run_ok (limiter_exec sh) limiter_op_ok (unat now, r) as" using assms(3) by (simp add: run_ok_times)
  have "limiter_from sh r (t', r')" by (rule global.run_inv [OF i(1) ok assms(4)])
  then have t: "t' < TIME_MAX" by simp
  let ?g = "unat (rl_global_per_sec r)"
  have "TIME_MAX - unat now \<le> (t' - unat now) + (TIME_MAX - t')" using t assms(2) by linarith
  then have p: "?g * (TIME_MAX - unat now) \<le> ?g * (t' - unat now) + ?g * (TIME_MAX - t')"
    unfolding distrib_left [symmetric] by (rule mult_le_mono2)
  have "global_worth r (unat now) (gstate r) \<le> 1000 * ?g" by (simp add: global_worth_def)
  moreover have z: "(\<Sum>(a, v)\<leftarrow>tr. 0) = (0 :: nat)" by (induction tr) auto
  ultimately show ?thesis using global.run_credit [OF i(1) ok assms(4)] p
    unfolding fst_conv snd_conv sum_list_scale z distrib_left by linarith
qed

theorem ratelimit_global_rate_witness:
  "\<exists>r tr t' r'. ratelimit_init (zeros 16) (Some sample_limiter) 5 10 50 4 0 = Some r \<and> times_ok 0 sample_calls \<and>
     run_ops (limiter_exec sample_hash) (0, r) sample_calls = (tr, t', r') \<and>
     1000 * (\<Sum>(a, v)\<leftarrow>tr. any_allowed a v) \<le> unat (rl_global_per_sec r) * (1000 + (t' - unat (0 :: u64)))"
proof -
  obtain r where r: "ratelimit_init (zeros 16) (Some sample_limiter) 5 10 50 4 0 = Some r" by (simp add: ratelimit_init_def Let_def)
  obtain tr t' r' where e: "run_ops (limiter_exec sample_hash) (0, r) sample_calls = (tr, t', r')" by (metis surj_pair)
  have "unat (0 :: u64) < TIME_MAX" "times_ok (unat (0 :: u64)) sample_calls" "run_ops (limiter_exec sample_hash) (unat (0 :: u64), r) sample_calls = (tr, t', r')"
    using times_ok_calls e by simp_all
  from ratelimit_global_rate [OF r this] r e times_ok_calls show ?thesis by blast
qed

section \<open>The verdict\<close>

lemma reclaim_loop_None:
  "fst (reclaim_loop r key kl now b n) = None \<longleftrightarrow> (\<forall>m. n \<le> m \<and> m < 1024 \<longrightarrow> \<not> reclaimable r (rl_e r ! ((b + m) mod 1024)) now)"
proof (induction r key kl now b n rule: reclaim_loop.induct)
  case (1 r key kl now b n)
  show ?case
  proof (cases "n < 1024 \<and> \<not> reclaimable r (rl_e r ! ((b + n) mod 1024)) now")
    case True
    then have "fst (reclaim_loop r key kl now b n) = fst (reclaim_loop r key kl now b (n + 1))"
      by (simp add: reclaim_loop.simps [of r key kl now b n] Let_def)
    with 1 [OF _ refl refl] True show ?thesis by (auto simp: Suc_le_eq) (metis le_neq_implies_less)
  qed (auto simp: reclaim_loop.simps [of r key kl now b n] Let_def)
qed

lemma places_covered: "(\<forall>m<1024. P ((b + m) mod 1024)) \<longleftrightarrow> (\<forall>i<(1024 :: nat). P i)"
proof
  assume h: "\<forall>m<1024. P ((b + m) mod 1024)"
  show "\<forall>i<1024. P i"
  proof (intro allI impI)
    fix i :: nat assume i: "i < 1024"
    have "(b + (i + (1024 - b mod 1024)) mod 1024) mod 1024 = (b mod 1024 + (i + (1024 - b mod 1024))) mod 1024"
      by (simp only: mod_add_right_eq mod_add_left_eq)
    also have "b mod 1024 + (i + (1024 - b mod 1024)) = i + 1024" using mod_less_divisor [of 1024 b] by linarith
    finally have "(b + (i + (1024 - b mod 1024)) mod 1024) mod 1024 = i" using i by simp
    with h [rule_format, of "(i + (1024 - b mod 1024)) mod 1024"] show "P i" by simp
  qed
qed simp

text \<open>The address has no entry and every slot of the table is in use.\<close>

definition table_full :: "ratelimit_t \<Rightarrow> bytes \<Rightarrow> u64 \<Rightarrow> bool" where
  "table_full r k now \<longleftrightarrow> rl_map (rl_e r) k = None \<and> (\<forall>e \<in> set (rl_e r). \<not> reclaimable r e now)"

lemma find_or_add_None:
  assumes inv: "limiter_inv sh t r" and k: "length k = 4 \<or> length k = 8"
  shows "fst (find_or_add sh r (memcpy (zeros 16) 0 k) (length k) now) = None \<longleftrightarrow> table_full r k now"
proof -
  let ?hm = "home sh (rl_hash_key r)" and ?key = "memcpy (zeros 16) 0 k"
  have ok: "table_ok ?hm (rl_e r)" "length (rl_e r) = 1024" using inv by (simp_all add: limiter_inv_def table_ok_def)
  have "take (length k) ?key = k" by simp
  note fi = find_idx_spec [OF ok(1) this refl]
  show ?thesis
  proof (cases "rl_map (rl_e r) k")
    case None
    with fi have "find_or_add sh r ?key (length k) now = reclaim_loop r ?key (length k) now (bucket_of sh r ?key (length k)) 0"
      by (simp add: find_or_add_def)
    moreover have "(\<forall>i<1024. \<not> reclaimable r (rl_e r ! i) now) \<longleftrightarrow> (\<forall>e \<in> set (rl_e r). \<not> reclaimable r e now)"
      unfolding all_set_conv_all_nth ok(2) ..
    ultimately show ?thesis using None places_covered [of "\<lambda>i. \<not> reclaimable r (rl_e r ! i) now"]
      by (simp add: reclaim_loop_None table_full_def)
  qed (use fi in \<open>simp add: find_or_add_def table_full_def\<close>)
qed

text \<open>
  The verdict of \<open>ratelimit_admit\<close>, on every branch, in the order of the checks: without an address
  nothing is admitted; an address without an entry is refused exactly when no slot of the table can be
  reclaimed; then come the address's connections, its bucket after refilling and the shared bucket
  after refilling, and whatever passes all four is admitted. The probing of the hash table does not
  show.
\<close>

theorem ratelimit_verdict:
  assumes "limiter_inv sh t r" "t \<le> unat now" "unat now < TIME_MAX" "addr_wf a"
  shows "fst (ratelimit_admit sh (Some r) a now) =
    (case addr_key a of None \<Rightarrow> RATELIMIT_DENY_NO_ADDR
     | Some k \<Rightarrow>
       if table_full r k now then RATELIMIT_DENY_TABLE
       else if rl_max_conns r \<le> re_conns (entry_for r k now) then RATELIMIT_DENY_CONNS
       else if re_tokens_milli (refill_addr r (entry_for r k now) now) < 1000 then RATELIMIT_DENY_ADDR
       else if fst (grefilled r now) < 1000 then RATELIMIT_DENY_GLOBAL
       else RATELIMIT_ALLOW)"
proof (cases "addr_key a")
  case None
  then show ?thesis by (simp add: ratelimit_admit_def authd_addr_key_eq [OF assms(4)])
next
  case (Some k)
  note k = addr_key_len [OF assms(4) Some]
  note full = find_or_add_None [OF assms(1) k, of now]
  from find_or_add_spec [OF assms(1,2) k] consider
    "find_or_add sh r (memcpy (zeros 16) 0 k) (length k) now = (None, r)"
  | i es where "find_or_add sh r (memcpy (zeros 16) 0 k) (length k) now = (Some i, r\<lparr>rl_e := es\<rparr>)" "es ! i = entry_for r k now"
    by blast
  then show ?thesis
  proof cases
    case 1
    have "length k \<noteq> 0" using k by auto
    with 1 full Some show ?thesis by (simp add: ratelimit_admit_def authd_addr_key_eq [OF assms(4)])
  next
    case 2
    have sc: "same_config r (r\<lparr>rl_e := es\<rparr>)" by (simp add: same_config_def)
    have g: "rl_global_tokens_milli (refill_global (r\<lparr>rl_e := es'\<rparr>) now) = fst (grefilled r now)" for es'
      by (simp add: grefilled_def refill_global_def gstate_def split_beta)
    from full 2(1) have "\<not> table_full r k now" by simp
    with Some show ?thesis
      unfolding ratelimit_admit_unfold [OF assms(4) Some 2(1) refill_addr_cong [OF sc] k] Let_def by (simp add: 2(2) g)
  qed
qed

theorem ratelimit_verdict_witness:
  "\<exists>r. ratelimit_init (zeros 16) (Some sample_limiter) 5 10 50 4 0 = Some r \<and>
     fst (ratelimit_admit sample_hash (Some r) sample_addr 7) = RATELIMIT_ALLOW"
proof -
  obtain r where r: "ratelimit_init (zeros 16) (Some sample_limiter) 5 10 50 4 0 = Some r" by (simp add: ratelimit_init_def Let_def)
  have i: "limiter_inv sample_hash 0 r" "rl_map (rl_e r) k = None" "config_ok r" "gstate r = (ucast (rl_global_per_sec r) * 1000, 0)" for k
    using ratelimit_init_from [OF r] by simp_all
  have c: "rl_max_conns r = 4" "rl_burst r = 10" "rl_per_min r = 5" "rl_global_per_sec r = 50" "entry_zero \<in> set (rl_e r)"
    using r by (auto simp: ratelimit_init_def Let_def clamp_u32_def)
  have "reclaimable r entry_zero 7" by (simp add: reclaimable_def entry_zero_def)
  then have f: "\<not> table_full r k 7" for k using c(5) by (auto simp: table_full_def)
  have e: "entry_for r k 7 = new_entry r k 7" for k using i(2) by (simp add: entry_for_def)
  have t: "re_tokens_milli (refill_addr r (new_entry r k 7) 7) = 10000" for k
    by (simp add: refill_addr_def new_entry_def refill_def c)
  have "unat (fst (grefilled r 7)) = 50000"
    using grefilled_nat(1) [OF i(3) limiter_inv_gstate [OF i(1)], of 7] by (simp add: i(4) c)
  then have g: "\<not> fst (grefilled r 7) < 1000" by (simp add: word_less_nat_alt)
  from ratelimit_verdict [OF i(1), of 7 sample_addr] r show ?thesis
    by (simp add: sample_addr_key f e t g) (simp add: new_entry_def c)
qed



end
