(* ===== verification/Authmsg.thy ===== *)
theory Authmsg
  imports Transcript
begin

text \<open>
  The messages inside the session records, \<open>apps/authd/authmsg.c\<close> with the types of \<open>authmsg.h\<close>: one
  definition per function.

  The decoders of ROTATE and ROTATE_ACK borrow: the pointers they return point into the buffer they
  were given. Such a pointer is the offset in that buffer, and \<open>rotate_view\<close> and \<open>rotate_ack_view\<close>
  read through it. libsodium's incremental SHA-256 is one call on the concatenation of its updates,
  with the status of its initialisation, which is the only one the code looks at.
\<close>

abbreviation (input) AUTHMSG_VERSION :: byte where "AUTHMSG_VERSION \<equiv> 0x01"
abbreviation (input) AUTHMSG_OP_LOGIN_CODE :: byte where "AUTHMSG_OP_LOGIN_CODE \<equiv> 0x10"
abbreviation (input) AUTHMSG_OP_ROTATE :: byte where "AUTHMSG_OP_ROTATE \<equiv> 0x11"
abbreviation (input) AUTHMSG_OP_ROTATE_ACK :: byte where "AUTHMSG_OP_ROTATE_ACK \<equiv> 0x12"
abbreviation (input) AUTHMSG_OP_ERROR :: byte where "AUTHMSG_OP_ERROR \<equiv> 0x1F"
abbreviation (input) AUTHMSG_OP_BYE :: byte where "AUTHMSG_OP_BYE \<equiv> 0x20"
abbreviation (input) AUTHMSG_ERR_MALFORMED :: byte where "AUTHMSG_ERR_MALFORMED \<equiv> 0x01"
abbreviation (input) AUTHMSG_ERR_INTERNAL :: byte where "AUTHMSG_ERR_INTERNAL \<equiv> 0x05"
abbreviation (input) AUTHMSG_CODE_BYTES :: nat where "AUTHMSG_CODE_BYTES \<equiv> 32"
abbreviation (input) AUTHMSG_LOGIN_CODE_CONTENT_LEN :: nat where "AUTHMSG_LOGIN_CODE_CONTENT_LEN \<equiv> 43"
abbreviation (input) AUTHMSG_ERROR_CONTENT_LEN :: nat where "AUTHMSG_ERROR_CONTENT_LEN \<equiv> 3"
abbreviation (input) AUTHMSG_BYE_CONTENT_LEN :: nat where "AUTHMSG_BYE_CONTENT_LEN \<equiv> 1"
abbreviation (input) AUTHMSG_FLAG_ROTATION_DUE :: byte where "AUTHMSG_FLAG_ROTATION_DUE \<equiv> 0x01"
abbreviation (input) AUTHMSG_FLAG_ROTATE_DROP_TOKENS :: byte where "AUTHMSG_FLAG_ROTATE_DROP_TOKENS \<equiv> 0x01"
abbreviation (input) AUTHMSG_HANDSHAKE_ID_BYTES :: nat where "AUTHMSG_HANDSHAKE_ID_BYTES \<equiv> 16"
abbreviation (input) AUTHMSG_FP_BYTES :: nat where "AUTHMSG_FP_BYTES \<equiv> 32"
abbreviation (input) AUTHMSG_ROTATE_MAX_CONTENT :: nat where "AUTHMSG_ROTATE_MAX_CONTENT \<equiv> 8642"
abbreviation (input) AUTHMSG_ROTATE_ACK_CONTENT_LEN :: "nat \<Rightarrow> nat" where "AUTHMSG_ROTATE_ACK_CONTENT_LEN n \<equiv> 43 + n"
abbreviation (input) AUTHD_MAX_CONTENT :: nat where "AUTHD_MAX_CONTENT \<equiv> 9216"
abbreviation (input) STORE_ID_MAX :: nat where "STORE_ID_MAX \<equiv> 64"

datatype authmsg_status_t =
    AUTHMSG_OK
  | AUTHMSG_ERR_ARG
  | AUTHMSG_ERR_EMPTY
  | AUTHMSG_ERR_BAD_LENGTH
  | AUTHMSG_ERR_BAD_VERSION
  | AUTHMSG_ERR_BAD_FIELD
  | AUTHMSG_ERR_UNKNOWN_OP

record authmsg_login_code_t =
  lc_flags :: byte
  lc_code :: bytes
  lc_code_expires :: u64

record authmsg_rotate_t =
  ro_flags :: byte
  ro_handle :: "nat ptr"
  ro_handle_len :: nat
  ro_pk_new :: "nat ptr"
  ro_sig_old :: "nat ptr"
  ro_sig_old_len :: nat
  ro_sig_new :: "nat ptr"
  ro_sig_new_len :: nat

record authmsg_rotate_ack_t =
  ra_handle :: "nat ptr"
  ra_handle_len :: nat
  ra_fp_new :: bytes
  ra_rotated_at :: u64

text \<open>The labels \<open>mldsa-authd/v1/rotate-old\<close> and \<open>mldsa-authd/v1/rotate-new\<close>, as the bytes of the C strings.\<close>

definition AUTHMSG_LABEL_ROTATE_OLD :: bytes where
  "AUTHMSG_LABEL_ROTATE_OLD = ascii ''mldsa-authd/v1/rotate-old''"

definition AUTHMSG_LABEL_ROTATE_NEW :: bytes where
  "AUTHMSG_LABEL_ROTATE_NEW = ascii ''mldsa-authd/v1/rotate-new''"

definition authmsg_status_name :: "authmsg_status_t \<Rightarrow> string" where
  "authmsg_status_name st =
     (case st of
        AUTHMSG_OK \<Rightarrow> ''ok''
      | AUTHMSG_ERR_ARG \<Rightarrow> ''bad-argument''
      | AUTHMSG_ERR_EMPTY \<Rightarrow> ''empty-content''
      | AUTHMSG_ERR_BAD_LENGTH \<Rightarrow> ''bad-length''
      | AUTHMSG_ERR_BAD_VERSION \<Rightarrow> ''bad-version''
      | AUTHMSG_ERR_BAD_FIELD \<Rightarrow> ''bad-field''
      | AUTHMSG_ERR_UNKNOWN_OP \<Rightarrow> ''unknown-op'')"

definition put_be64 :: "bytes \<Rightarrow> nat \<Rightarrow> u64 \<Rightarrow> bytes" where
  "put_be64 p off v = memcpy p off (map (\<lambda>i. ucast (drop_bit (56 - 8 * i) v)) [0..<8])"

definition get_be64 :: "bytes \<Rightarrow> nat \<Rightarrow> u64" where
  "get_be64 p off = foldl (\<lambda>v i. push_bit 8 v OR ucast (p ! (off + i))) 0 [0..<8]"

definition put_be16 :: "bytes \<Rightarrow> nat \<Rightarrow> u16 \<Rightarrow> bytes" where
  "put_be16 p off v = memcpy (memcpy p off [ucast (drop_bit 8 v)]) (off + 1) [ucast (v AND 0xff)]"

definition get_be16 :: "bytes \<Rightarrow> nat \<Rightarrow> u16" where
  "get_be16 p off = push_bit 8 (ucast (p ! off)) OR ucast (p ! (off + 1))"

definition login_code_zero :: authmsg_login_code_t where
  "login_code_zero = \<lparr>lc_flags = 0, lc_code = zeros 32, lc_code_expires = 0\<rparr>"

definition rotate_zero :: authmsg_rotate_t where
  "rotate_zero = \<lparr>ro_flags = 0, ro_handle = NULL, ro_handle_len = 0, ro_pk_new = NULL, ro_sig_old = NULL, ro_sig_old_len = 0,
     ro_sig_new = NULL, ro_sig_new_len = 0\<rparr>"

definition rotate_ack_zero :: authmsg_rotate_ack_t where
  "rotate_ack_zero = \<lparr>ra_handle = NULL, ra_handle_len = 0, ra_fp_new = zeros 32, ra_rotated_at = 0\<rparr>"

section \<open>LOGIN_CODE, ERROR and BYE\<close>

definition authmsg_peek_op :: "bytes ptr \<Rightarrow> nat \<Rightarrow> byte ptr \<Rightarrow> authmsg_status_t \<times> byte ptr" where
  "authmsg_peek_op in' len op_out =
     (if in' = NULL \<or> op_out = NULL then (AUTHMSG_ERR_ARG, op_out)
      else if len = 0 then (AUTHMSG_ERR_EMPTY, op_out)
      else (AUTHMSG_OK, Some (the in' ! 0)))"

definition authmsg_encode_login_code ::
  "bytes ptr \<Rightarrow> nat \<Rightarrow> nat ptr \<Rightarrow> authmsg_login_code_t ptr \<Rightarrow> authmsg_status_t \<times> bytes ptr \<times> nat ptr" where
  "authmsg_encode_login_code out out_cap out_len m =
     (if out = NULL \<or> out_len = NULL \<or> m = NULL then (AUTHMSG_ERR_ARG, out, out_len)
      else if out_cap < AUTHMSG_LOGIN_CODE_CONTENT_LEN then (AUTHMSG_ERR_ARG, out, out_len)
      else if lc_flags (the m) AND NOT AUTHMSG_FLAG_ROTATION_DUE \<noteq> 0 then (AUTHMSG_ERR_BAD_FIELD, out, out_len)
      else
        let o1 = the out;
            o1 = memcpy o1 0 [AUTHMSG_OP_LOGIN_CODE];
            o1 = memcpy o1 1 [AUTHMSG_VERSION];
            o1 = memcpy o1 2 [lc_flags (the m)];
            o1 = memcpy o1 3 (take AUTHMSG_CODE_BYTES (lc_code (the m)));
            o1 = put_be64 o1 (3 + AUTHMSG_CODE_BYTES) (lc_code_expires (the m))
        in (AUTHMSG_OK, Some o1, Some AUTHMSG_LOGIN_CODE_CONTENT_LEN))"

definition authmsg_decode_login_code ::
  "bytes ptr \<Rightarrow> nat \<Rightarrow> authmsg_login_code_t ptr \<Rightarrow> authmsg_status_t \<times> authmsg_login_code_t ptr" where
  "authmsg_decode_login_code in' len out =
     (if in' = NULL \<or> out = NULL then (AUTHMSG_ERR_ARG, out)
      else
        let b = the in'; o1 = login_code_zero
        in if len = 0 then (AUTHMSG_ERR_EMPTY, Some o1)
        else if b ! 0 \<noteq> AUTHMSG_OP_LOGIN_CODE then (AUTHMSG_ERR_UNKNOWN_OP, Some o1)
        else if len \<noteq> AUTHMSG_LOGIN_CODE_CONTENT_LEN then (AUTHMSG_ERR_BAD_LENGTH, Some o1)
        else if b ! 1 \<noteq> AUTHMSG_VERSION then (AUTHMSG_ERR_BAD_VERSION, Some o1)
        else if b ! 2 AND NOT AUTHMSG_FLAG_ROTATION_DUE \<noteq> 0 then (AUTHMSG_ERR_BAD_FIELD, Some o1)
        else (AUTHMSG_OK, Some (o1\<lparr>lc_flags := b ! 2, lc_code := bslice b 3 AUTHMSG_CODE_BYTES,
               lc_code_expires := get_be64 b (3 + AUTHMSG_CODE_BYTES)\<rparr>)))"

definition authmsg_encode_error :: "bytes ptr \<Rightarrow> nat \<Rightarrow> nat ptr \<Rightarrow> byte \<Rightarrow> authmsg_status_t \<times> bytes ptr \<times> nat ptr" where
  "authmsg_encode_error out out_cap out_len code =
     (if out = NULL \<or> out_len = NULL then (AUTHMSG_ERR_ARG, out, out_len)
      else if out_cap < AUTHMSG_ERROR_CONTENT_LEN then (AUTHMSG_ERR_ARG, out, out_len)
      else if code < AUTHMSG_ERR_MALFORMED \<or> code > AUTHMSG_ERR_INTERNAL then (AUTHMSG_ERR_BAD_FIELD, out, out_len)
      else
        let o1 = the out;
            o1 = memcpy o1 0 [AUTHMSG_OP_ERROR];
            o1 = memcpy o1 1 [AUTHMSG_VERSION];
            o1 = memcpy o1 2 [code]
        in (AUTHMSG_OK, Some o1, Some AUTHMSG_ERROR_CONTENT_LEN))"

definition authmsg_decode_error :: "bytes ptr \<Rightarrow> nat \<Rightarrow> byte ptr \<Rightarrow> authmsg_status_t \<times> byte ptr" where
  "authmsg_decode_error in' len code_out =
     (if in' = NULL \<or> code_out = NULL then (AUTHMSG_ERR_ARG, code_out)
      else
        let b = the in'
        in if len = 0 then (AUTHMSG_ERR_EMPTY, Some 0)
        else if b ! 0 \<noteq> AUTHMSG_OP_ERROR then (AUTHMSG_ERR_UNKNOWN_OP, Some 0)
        else if len \<noteq> AUTHMSG_ERROR_CONTENT_LEN then (AUTHMSG_ERR_BAD_LENGTH, Some 0)
        else if b ! 1 \<noteq> AUTHMSG_VERSION then (AUTHMSG_ERR_BAD_VERSION, Some 0)
        else if b ! 2 < AUTHMSG_ERR_MALFORMED \<or> b ! 2 > AUTHMSG_ERR_INTERNAL then (AUTHMSG_ERR_BAD_FIELD, Some 0)
        else (AUTHMSG_OK, Some (b ! 2)))"

definition authmsg_encode_bye :: "bytes ptr \<Rightarrow> nat \<Rightarrow> nat ptr \<Rightarrow> authmsg_status_t \<times> bytes ptr \<times> nat ptr" where
  "authmsg_encode_bye out out_cap out_len =
     (if out = NULL \<or> out_len = NULL then (AUTHMSG_ERR_ARG, out, out_len)
      else if out_cap < AUTHMSG_BYE_CONTENT_LEN then (AUTHMSG_ERR_ARG, out, out_len)
      else (AUTHMSG_OK, Some (memcpy (the out) 0 [AUTHMSG_OP_BYE]), Some AUTHMSG_BYE_CONTENT_LEN))"

section \<open>ROTATE and ROTATE_ACK\<close>

definition authmsg_rotate_digest ::
  "sodium \<Rightarrow> bytes ptr \<Rightarrow> bytes ptr \<Rightarrow> bytes ptr \<Rightarrow> byte \<Rightarrow> bytes ptr \<Rightarrow> nat \<Rightarrow> bytes ptr \<Rightarrow> bytes ptr \<Rightarrow> authmsg_status_t \<times> bytes ptr" where
  "authmsg_rotate_digest so out label handshake_id flags handle handle_len pk_old pk_new =
     (if out = NULL \<or> label = NULL \<or> handshake_id = NULL \<or> handle = NULL \<or> pk_old = NULL \<or> pk_new = NULL \<or>
         handle_len = 0 \<or> handle_len > STORE_ID_MAX
      then (AUTHMSG_ERR_ARG, out)
      else
        let hl = of_nat handle_len;
            (rc, digest) = crypto_hash_sha256 so (the label @ [0x00] @ take AUTHMSG_HANDSHAKE_ID_BYTES (the handshake_id) @ [flags] @ [hl] @
              take handle_len (the handle) @ take MLDSA_PUBLIC_KEY_BYTES (the pk_old) @ take MLDSA_PUBLIC_KEY_BYTES (the pk_new))
        in if rc \<noteq> 0 then (AUTHMSG_ERR_ARG, out)
           else (AUTHMSG_OK, Some (memcpy (the out) 0 digest)))"

definition authmsg_encode_rotate ::
  "bytes ptr \<Rightarrow> nat \<Rightarrow> nat ptr \<Rightarrow> byte \<Rightarrow> bytes ptr \<Rightarrow> nat \<Rightarrow> bytes ptr \<Rightarrow> bytes ptr \<Rightarrow> nat \<Rightarrow> bytes ptr \<Rightarrow> nat \<Rightarrow>
   authmsg_status_t \<times> bytes ptr \<times> nat ptr" where
  "authmsg_encode_rotate out out_cap out_len flags handle handle_len pk_new sig_old sig_old_len sig_new sig_new_len =
     (if out = NULL \<or> out_len = NULL \<or> handle = NULL \<or> pk_new = NULL \<or> sig_old = NULL \<or> sig_new = NULL
      then (AUTHMSG_ERR_ARG, out, out_len)
      else if handle_len = 0 \<or> handle_len > STORE_ID_MAX \<or> sig_old_len = 0 \<or> sig_old_len > MLDSA_SIGNATURE_MAX_BYTES \<or>
         sig_new_len = 0 \<or> sig_new_len > MLDSA_SIGNATURE_MAX_BYTES
      then (AUTHMSG_ERR_BAD_FIELD, out, Some 0)
      else if flags AND NOT AUTHMSG_FLAG_ROTATE_DROP_TOKENS \<noteq> 0 then (AUTHMSG_ERR_BAD_FIELD, out, Some 0)
      else
        let need = 1 + 1 + 1 + 1 + handle_len + MLDSA_PUBLIC_KEY_BYTES + 2 + sig_old_len + 2 + sig_new_len
        in if out_cap < need then (AUTHMSG_ERR_ARG, out, Some 0)
        else
          let b = the out; off = 0;
              b = memcpy b off [AUTHMSG_OP_ROTATE]; off = off + 1;
              b = memcpy b off [AUTHMSG_VERSION]; off = off + 1;
              b = memcpy b off [flags]; off = off + 1;
              b = memcpy b off [of_nat handle_len]; off = off + 1;
              b = memcpy b off (take handle_len (the handle)); off = off + handle_len;
              b = memcpy b off (take MLDSA_PUBLIC_KEY_BYTES (the pk_new)); off = off + MLDSA_PUBLIC_KEY_BYTES;
              b = put_be16 b off (of_nat sig_old_len); off = off + 2;
              b = memcpy b off (take sig_old_len (the sig_old)); off = off + sig_old_len;
              b = put_be16 b off (of_nat sig_new_len); off = off + 2;
              b = memcpy b off (take sig_new_len (the sig_new)); off = off + sig_new_len
          in (AUTHMSG_OK, Some b, Some off))"

definition authmsg_decode_rotate :: "bytes ptr \<Rightarrow> nat \<Rightarrow> authmsg_rotate_t ptr \<Rightarrow> authmsg_status_t \<times> authmsg_rotate_t ptr" where
  "authmsg_decode_rotate in' len out =
     (if in' = NULL \<or> out = NULL then (AUTHMSG_ERR_ARG, out)
      else
        let b = the in'; o1 = rotate_zero
        in if len = 0 then (AUTHMSG_ERR_EMPTY, Some o1)
        else if b ! 0 \<noteq> AUTHMSG_OP_ROTATE then (AUTHMSG_ERR_UNKNOWN_OP, Some o1)
        else if len < 4 then (AUTHMSG_ERR_BAD_LENGTH, Some o1)
        else if b ! 1 \<noteq> AUTHMSG_VERSION then (AUTHMSG_ERR_BAD_VERSION, Some o1)
        else if b ! 2 AND NOT AUTHMSG_FLAG_ROTATE_DROP_TOKENS \<noteq> 0 then (AUTHMSG_ERR_BAD_FIELD, Some o1)
        else
          let flags = b ! 2; hl = unat (b ! 3)
          in if hl = 0 \<or> hl > STORE_ID_MAX then (AUTHMSG_ERR_BAD_FIELD, Some o1)
          else if len < 4 + hl + MLDSA_PUBLIC_KEY_BYTES + 2 then (AUTHMSG_ERR_BAD_LENGTH, Some o1)
          else
            let off = 4; handle = off; off = off + hl;
                pk_new = off; off = off + MLDSA_PUBLIC_KEY_BYTES;
                sol = unat (get_be16 b off); off = off + 2
            in if sol = 0 \<or> sol > MLDSA_SIGNATURE_MAX_BYTES then (AUTHMSG_ERR_BAD_FIELD, Some o1)
            else if len < off + sol + 2 then (AUTHMSG_ERR_BAD_LENGTH, Some o1)
            else
              let sig_old = off; off = off + sol;
                  snl = unat (get_be16 b off); off = off + 2
              in if snl = 0 \<or> snl > MLDSA_SIGNATURE_MAX_BYTES then (AUTHMSG_ERR_BAD_FIELD, Some o1)
              else if len < off + snl then (AUTHMSG_ERR_BAD_LENGTH, Some o1)
              else
                let sig_new = off; off = off + snl
                in if off \<noteq> len then (AUTHMSG_ERR_BAD_LENGTH, Some o1)
                else (AUTHMSG_OK, Some (o1\<lparr>ro_flags := flags, ro_handle := Some handle, ro_handle_len := hl,
                       ro_pk_new := Some pk_new, ro_sig_old := Some sig_old, ro_sig_old_len := sol,
                       ro_sig_new := Some sig_new, ro_sig_new_len := snl\<rparr>)))"

definition authmsg_encode_rotate_ack ::
  "bytes ptr \<Rightarrow> nat \<Rightarrow> nat ptr \<Rightarrow> bytes ptr \<Rightarrow> nat \<Rightarrow> bytes ptr \<Rightarrow> u64 \<Rightarrow> authmsg_status_t \<times> bytes ptr \<times> nat ptr" where
  "authmsg_encode_rotate_ack out out_cap out_len handle handle_len fp_new rotated_at =
     (if out = NULL \<or> out_len = NULL \<or> handle = NULL \<or> fp_new = NULL then (AUTHMSG_ERR_ARG, out, out_len)
      else if handle_len = 0 \<or> handle_len > STORE_ID_MAX then (AUTHMSG_ERR_BAD_FIELD, out, Some 0)
      else if out_cap < AUTHMSG_ROTATE_ACK_CONTENT_LEN handle_len then (AUTHMSG_ERR_ARG, out, Some 0)
      else
        let b = the out; off = 0;
            b = memcpy b off [AUTHMSG_OP_ROTATE_ACK]; off = off + 1;
            b = memcpy b off [AUTHMSG_VERSION]; off = off + 1;
            b = memcpy b off [of_nat handle_len]; off = off + 1;
            b = memcpy b off (take handle_len (the handle)); off = off + handle_len;
            b = memcpy b off (take AUTHMSG_FP_BYTES (the fp_new)); off = off + AUTHMSG_FP_BYTES;
            b = put_be64 b off rotated_at; off = off + 8
        in (AUTHMSG_OK, Some b, Some off))"

definition authmsg_decode_rotate_ack :: "bytes ptr \<Rightarrow> nat \<Rightarrow> authmsg_rotate_ack_t ptr \<Rightarrow> authmsg_status_t \<times> authmsg_rotate_ack_t ptr" where
  "authmsg_decode_rotate_ack in' len out =
     (if in' = NULL \<or> out = NULL then (AUTHMSG_ERR_ARG, out)
      else
        let b = the in'; o1 = rotate_ack_zero
        in if len = 0 then (AUTHMSG_ERR_EMPTY, Some o1)
        else if b ! 0 \<noteq> AUTHMSG_OP_ROTATE_ACK then (AUTHMSG_ERR_UNKNOWN_OP, Some o1)
        else if len < 3 then (AUTHMSG_ERR_BAD_LENGTH, Some o1)
        else if b ! 1 \<noteq> AUTHMSG_VERSION then (AUTHMSG_ERR_BAD_VERSION, Some o1)
        else
          let hl = unat (b ! 2)
          in if hl = 0 \<or> hl > STORE_ID_MAX then (AUTHMSG_ERR_BAD_FIELD, Some o1)
          else if len \<noteq> AUTHMSG_ROTATE_ACK_CONTENT_LEN hl then (AUTHMSG_ERR_BAD_LENGTH, Some o1)
          else (AUTHMSG_OK, Some (o1\<lparr>ra_handle := Some 3, ra_handle_len := hl,
                 ra_fp_new := bslice b (3 + hl) AUTHMSG_FP_BYTES,
                 ra_rotated_at := get_be64 b (3 + hl + AUTHMSG_FP_BYTES)\<rparr>)))"

section \<open>The encodings\<close>

lemma put_be64_eq: "put_be64 p off v = memcpy p off (store_be 8 v)"
  using store_be64_eq [of v] by (simp add: put_be64_def store_be64_def)

lemma put_be16_eq: "off \<le> length p \<Longrightarrow> put_be16 p off v = memcpy p off (store_be 2 v)"
proof -
  assume "off \<le> length p"
  moreover have m: "(0xff :: u16) = mask 8" by (simp add: mask_eq_exp_minus_1)
  have "(ucast (v AND 0xff) :: byte) = ucast v" unfolding m by (rule bit_word_eqI) (auto simp: bit_simps)
  ultimately show ?thesis by (simp add: put_be16_def store_be_2 memcpy_append)
qed

lemma get_be64_eq: "off + 8 \<le> length b \<Longrightarrow> get_be64 b off = load_be (bslice b off 8)"
proof -
  assume "off + 8 \<le> length b"
  then have "bslice b off 8 = map (\<lambda>i. b ! (off + i)) [0..<8]" by (intro nth_equalityI) (simp_all add: bslice_def)
  then show ?thesis by (simp add: get_be64_def load_be_def foldl_map)
qed

lemma get_be16_eq: "off + 2 \<le> length b \<Longrightarrow> get_be16 b off = load_be (bslice b off 2)"
  by (simp add: get_be16_def bslice_2 load_be_def)

lemmas be_eq = put_be64_eq put_be16_eq get_be64_eq get_be16_eq

record rotate_msg =
  rv_flags :: byte
  rv_handle :: bytes
  rv_pk_new :: bytes
  rv_sig_old :: bytes
  rv_sig_new :: bytes

record rotate_ack_msg =
  av_handle :: bytes
  av_fp_new :: bytes
  av_rotated_at :: u64

definition rotate_view :: "bytes \<Rightarrow> authmsg_rotate_t \<Rightarrow> rotate_msg" where
  "rotate_view b r = \<lparr>rv_flags = ro_flags r, rv_handle = bslice b (the (ro_handle r)) (ro_handle_len r),
     rv_pk_new = bslice b (the (ro_pk_new r)) MLDSA_PUBLIC_KEY_BYTES,
     rv_sig_old = bslice b (the (ro_sig_old r)) (ro_sig_old_len r), rv_sig_new = bslice b (the (ro_sig_new r)) (ro_sig_new_len r)\<rparr>"

definition rotate_ack_view :: "bytes \<Rightarrow> authmsg_rotate_ack_t \<Rightarrow> rotate_ack_msg" where
  "rotate_ack_view b r = \<lparr>av_handle = bslice b (the (ra_handle r)) (ra_handle_len r), av_fp_new = ra_fp_new r, av_rotated_at = ra_rotated_at r\<rparr>"

definition flag_ok :: "byte \<Rightarrow> bool" where
  "flag_ok f \<longleftrightarrow> f AND NOT 0x01 = 0"

definition wf_login_code :: "authmsg_login_code_t \<Rightarrow> bool" where
  "wf_login_code m \<longleftrightarrow> flag_ok (lc_flags m) \<and> length (lc_code m) = 32"

definition wf_error :: "byte \<Rightarrow> bool" where
  "wf_error c \<longleftrightarrow> \<not> c < AUTHMSG_ERR_MALFORMED \<and> \<not> c > AUTHMSG_ERR_INTERNAL"

definition wf_rotate :: "rotate_msg \<Rightarrow> bool" where
  "wf_rotate v \<longleftrightarrow> flag_ok (rv_flags v) \<and> rv_handle v \<noteq> [] \<and> length (rv_handle v) \<le> 64 \<and> length (rv_pk_new v) = 1952 \<and>
     rv_sig_old v \<noteq> [] \<and> length (rv_sig_old v) \<le> 3309 \<and> rv_sig_new v \<noteq> [] \<and> length (rv_sig_new v) \<le> 3309"

definition wf_rotate_ack :: "rotate_ack_msg \<Rightarrow> bool" where
  "wf_rotate_ack v \<longleftrightarrow> av_handle v \<noteq> [] \<and> length (av_handle v) \<le> 64 \<and> length (av_fp_new v) = 32"

definition login_code_bytes :: "authmsg_login_code_t \<Rightarrow> bytes" where
  "login_code_bytes m = [AUTHMSG_OP_LOGIN_CODE, AUTHMSG_VERSION, lc_flags m] @ lc_code m @ store_be 8 (lc_code_expires m)"

definition error_bytes :: "byte \<Rightarrow> bytes" where
  "error_bytes c = [AUTHMSG_OP_ERROR, AUTHMSG_VERSION, c]"

definition rotate_bytes :: "rotate_msg \<Rightarrow> bytes" where
  "rotate_bytes v = [AUTHMSG_OP_ROTATE, AUTHMSG_VERSION, rv_flags v, of_nat (length (rv_handle v))] @ rv_handle v @ rv_pk_new v @
     store_be 2 (of_nat (length (rv_sig_old v)) :: u16) @ rv_sig_old v @ store_be 2 (of_nat (length (rv_sig_new v)) :: u16) @ rv_sig_new v"

definition rotate_ack_bytes :: "rotate_ack_msg \<Rightarrow> bytes" where
  "rotate_ack_bytes v = [AUTHMSG_OP_ROTATE_ACK, AUTHMSG_VERSION, of_nat (length (av_handle v))] @ av_handle v @ av_fp_new v @
     store_be 8 (av_rotated_at v)"

lemmas authmsg_wf = wf_login_code_def wf_error_def wf_rotate_def wf_rotate_ack_def flag_ok_def
lemmas authmsg_bytes = login_code_bytes_def error_bytes_def rotate_bytes_def rotate_ack_bytes_def

definition login_code_of :: "bytes \<Rightarrow> authmsg_login_code_t option" where
  "login_code_of b = (let (st, m) = authmsg_decode_login_code (Some b) (length b) (Some login_code_zero) in if st = AUTHMSG_OK then m else None)"

definition error_of :: "bytes \<Rightarrow> byte option" where
  "error_of b = (let (st, c) = authmsg_decode_error (Some b) (length b) (Some 0) in if st = AUTHMSG_OK then c else None)"

definition rotate_of :: "bytes \<Rightarrow> rotate_msg option" where
  "rotate_of b = (let (st, r) = authmsg_decode_rotate (Some b) (length b) (Some rotate_zero)
     in if st = AUTHMSG_OK then map_option (rotate_view b) r else None)"

definition rotate_ack_of :: "bytes \<Rightarrow> rotate_ack_msg option" where
  "rotate_ack_of b = (let (st, r) = authmsg_decode_rotate_ack (Some b) (length b) (Some rotate_ack_zero)
     in if st = AUTHMSG_OK then map_option (rotate_ack_view b) r else None)"

section \<open>Decoders against encodings\<close>

lemma list_3_tail: "length b = n + 3 \<Longrightarrow> b ! 0 # b ! 1 # b ! 2 # bslice b 3 n = b"
  by (rule nth_equalityI) (auto simp: nth_Cons bslice_def numeral_eq_Suc split: nat.splits)

lemma list_4_tail: "length b = n + 4 \<Longrightarrow> b ! 0 # b ! 1 # b ! 2 # b ! 3 # bslice b 4 n = b"
  by (rule nth_equalityI) (auto simp: nth_Cons bslice_def numeral_eq_Suc split: nat.splits)

lemma decode_login_code_bytes:
  assumes "wf_login_code m"
  shows "authmsg_decode_login_code (Some (login_code_bytes m)) (length (login_code_bytes m)) (Some x) = (AUTHMSG_OK, Some m)"
  using assms by (simp add: authmsg_decode_login_code_def authmsg_wf authmsg_bytes login_code_zero_def Let_def be_eq)

lemma decode_login_code_success:
  assumes "authmsg_decode_login_code (Some b) (length b) (Some x) = (AUTHMSG_OK, Some m)"
  shows "wf_login_code m \<and> login_code_bytes m = b"
proof -
  have h: "length b = 43" "b ! 0 = 0x10" "b ! 1 = 1" "b ! 2 AND NOT 0x01 = 0"
    "m = \<lparr>lc_flags = b ! 2, lc_code = bslice b 3 32, lc_code_expires = load_be (bslice b 35 8)\<rparr>"
    using assms by (auto simp: authmsg_decode_login_code_def login_code_zero_def Let_def be_eq split: if_splits)
  then show ?thesis using list_3_tail [of b 40] by (simp add: authmsg_wf authmsg_bytes bslice_join')
qed

lemma decode_error_bytes:
  "wf_error c \<Longrightarrow> authmsg_decode_error (Some (error_bytes c)) (length (error_bytes c)) (Some x) = (AUTHMSG_OK, Some c)"
  by (simp add: authmsg_decode_error_def authmsg_wf authmsg_bytes Let_def not_less)

lemma decode_error_success:
  assumes "authmsg_decode_error (Some b) (length b) (Some x) = (AUTHMSG_OK, Some c)"
  shows "wf_error c \<and> error_bytes c = b"
proof -
  have "length b = 3" "b ! 0 = 0x1F" "b ! 1 = 1" "c = b ! 2" "wf_error c"
    using assms by (auto simp: authmsg_decode_error_def authmsg_wf Let_def split: if_splits)
  then show ?thesis using list_3_tail [of b 0] by (simp add: authmsg_bytes bslice_def)
qed

lemma decode_rotate_bytes:
  assumes "wf_rotate v"
  shows "\<exists>r. authmsg_decode_rotate (Some (rotate_bytes v)) (length (rotate_bytes v)) (Some x) = (AUTHMSG_OK, Some r) \<and>
    rotate_view (rotate_bytes v) r = v"
  using assms
  by (simp add: authmsg_decode_rotate_def authmsg_wf authmsg_bytes Let_def be_eq rotate_view_def rotate_zero_def)

lemma decode_rotate_success:
  assumes "authmsg_decode_rotate (Some b) (length b) (Some x) = (AUTHMSG_OK, Some r)"
  shows "wf_rotate (rotate_view b r) \<and> rotate_bytes (rotate_view b r) = b"
proof -
  define hl where "hl = unat (b ! 3)"
  define sol where "sol = unat (get_be16 b (4 + hl + 1952))"
  define snl where "snl = unat (get_be16 b (4 + hl + 1952 + 2 + sol))"
  note d = assms [unfolded authmsg_decode_rotate_def Let_def option.sel, folded hl_def, folded sol_def, folded snl_def]
  have h: "b ! 0 = 0x11" "b ! 1 = 1" "b ! 2 AND NOT 0x01 = 0" "hl \<noteq> 0" "hl \<le> 64" "sol \<noteq> 0" "sol \<le> 3309" "snl \<noteq> 0" "snl \<le> 3309"
      "length b = 1960 + hl + sol + snl"
    and r: "\<lparr>ro_flags = b ! 2, ro_handle = Some 4, ro_handle_len = hl, ro_pk_new = Some (4 + hl), ro_sig_old = Some (1958 + hl),
      ro_sig_old_len = sol, ro_sig_new = Some (1960 + (hl + sol)), ro_sig_new_len = snl\<rparr> = r"
    using d by (simp_all add: rotate_zero_def split: if_splits)
  have q: "hl = unat (b ! 3)" "sol = unat (get_be16 b (1956 + hl))" "snl = unat (get_be16 b (1958 + hl + sol))"
    by (simp_all add: hl_def sol_def snl_def add.commute add.left_commute)
  have q': "sol = unat (load_be (bslice b (1956 + hl) 2) :: u16)" "snl = unat (load_be (bslice b (1958 + hl + sol) 2) :: u16)"
    using q(2,3) h(10) by (simp_all add: be_eq)
  have v: "rotate_view b r = \<lparr>rv_flags = b ! 2, rv_handle = bslice b 4 hl, rv_pk_new = bslice b (4 + hl) 1952,
      rv_sig_old = bslice b (1958 + hl) sol, rv_sig_new = bslice b (1960 + hl + sol) snl\<rparr>"
    by (simp add: rotate_view_def r [symmetric] add.assoc)
  have u: "of_nat hl = b ! 3" "store_be 2 (of_nat sol :: u16) = bslice b (1956 + hl) 2" "store_be 2 (of_nat snl :: u16) = bslice b (1958 + hl + sol) 2"
    using h(10) by (simp add: q(1), simp add: q'(1), simp add: q'(2))
  have "length b = 1956 + hl + sol + snl + 4" using h(10) by simp
  from list_4_tail [OF this] h u show ?thesis
    unfolding v by (simp add: authmsg_wf authmsg_bytes bslice_join' ac_simps flip: length_0_conv)
qed

lemma decode_rotate_ack_bytes:
  assumes "wf_rotate_ack v"
  shows "\<exists>r. authmsg_decode_rotate_ack (Some (rotate_ack_bytes v)) (length (rotate_ack_bytes v)) (Some x) = (AUTHMSG_OK, Some r) \<and>
    rotate_ack_view (rotate_ack_bytes v) r = v"
  using assms by (simp add: authmsg_decode_rotate_ack_def authmsg_wf authmsg_bytes Let_def be_eq rotate_ack_view_def rotate_ack_zero_def)

lemma decode_rotate_ack_success:
  assumes "authmsg_decode_rotate_ack (Some b) (length b) (Some x) = (AUTHMSG_OK, Some r)"
  shows "wf_rotate_ack (rotate_ack_view b r) \<and> rotate_ack_bytes (rotate_ack_view b r) = b"
proof -
  define hl where "hl = unat (b ! 2)"
  have h: "b ! 0 = 0x12" "b ! 1 = 1" "hl \<noteq> 0" "hl \<le> 64" "length b = 43 + hl"
    using assms by (auto simp: authmsg_decode_rotate_ack_def Let_def hl_def split: if_splits)
  then have s: "get_be64 b (35 + hl) = load_be (bslice b (35 + hl) 8)" by (simp add: be_eq)
  have r: "r = \<lparr>ra_handle = Some 3, ra_handle_len = hl, ra_fp_new = bslice b (3 + hl) 32, ra_rotated_at = load_be (bslice b (35 + hl) 8)\<rparr>"
    using assms s by (auto simp: authmsg_decode_rotate_ack_def Let_def hl_def [symmetric] rotate_ack_zero_def ac_simps split: if_splits)
  have u: "of_nat hl = b ! 2" by (simp add: hl_def)
  have "length b = 40 + hl + 3" using h(5) by simp
  from list_3_tail [OF this] h u show ?thesis
    unfolding r by (simp add: rotate_ack_view_def authmsg_wf authmsg_bytes bslice_join' ac_simps flip: length_0_conv)
qed

interpretation login: wire_codec login_code_bytes login_code_of wf_login_code
proof
  show "login_code_of (login_code_bytes m) = Some m" if "wf_login_code m" for m
    using that by (simp add: login_code_of_def decode_login_code_bytes)
  show "wf_login_code m \<and> login_code_bytes m = b" if "login_code_of b = Some m" for b m
    using that decode_login_code_success [of b login_code_zero] by (simp add: login_code_of_def split: prod.splits if_splits)
qed

interpretation err: wire_codec error_bytes error_of wf_error
proof
  show "error_of (error_bytes m) = Some m" if "wf_error m" for m using that by (simp add: error_of_def decode_error_bytes)
  show "wf_error m \<and> error_bytes m = b" if "error_of b = Some m" for b m
    using that decode_error_success [of b 0] by (simp add: error_of_def split: prod.splits if_splits)
qed

interpretation rotate: wire_codec rotate_bytes rotate_of wf_rotate
proof
  show "rotate_of (rotate_bytes m) = Some m" if "wf_rotate m" for m
    using decode_rotate_bytes [OF that, of rotate_zero] by (auto simp: rotate_of_def)
  show "wf_rotate m \<and> rotate_bytes m = b" if "rotate_of b = Some m" for b m
    using that decode_rotate_success [of b rotate_zero] by (auto simp: rotate_of_def split: prod.splits if_splits)
qed

interpretation rotate_ack: wire_codec rotate_ack_bytes rotate_ack_of wf_rotate_ack
proof
  show "rotate_ack_of (rotate_ack_bytes m) = Some m" if "wf_rotate_ack m" for m
    using decode_rotate_ack_bytes [OF that, of rotate_ack_zero] by (auto simp: rotate_ack_of_def)
  show "wf_rotate_ack m \<and> rotate_ack_bytes m = b" if "rotate_ack_of b = Some m" for b m
    using that decode_rotate_ack_success [of b rotate_ack_zero] by (auto simp: rotate_ack_of_def split: prod.splits if_splits)
qed

text \<open>The encoders write these encodings.\<close>

lemma encode_login_code_ok:
  assumes "wf_login_code m" "43 \<le> cap" "cap \<le> length b"
  shows "authmsg_encode_login_code (Some b) cap (Some n) (Some m) = (AUTHMSG_OK, Some (memcpy b 0 (login_code_bytes m)), Some (length (login_code_bytes m)))"
  using assms by (simp add: authmsg_encode_login_code_def Let_def authmsg_wf authmsg_bytes be_eq memcpy_append)

lemma encode_error_ok:
  assumes "wf_error c" "3 \<le> cap" "cap \<le> length b"
  shows "authmsg_encode_error (Some b) cap (Some n) c = (AUTHMSG_OK, Some (memcpy b 0 (error_bytes c)), Some (length (error_bytes c)))"
  using assms by (simp add: authmsg_encode_error_def Let_def authmsg_wf authmsg_bytes memcpy_append)

lemma encode_rotate_ok:
  assumes "wf_rotate v" "length (rotate_bytes v) \<le> cap" "cap \<le> length b"
  shows "authmsg_encode_rotate (Some b) cap (Some n) (rv_flags v) (Some (rv_handle v)) (length (rv_handle v)) (Some (rv_pk_new v))
      (Some (rv_sig_old v)) (length (rv_sig_old v)) (Some (rv_sig_new v)) (length (rv_sig_new v)) =
    (AUTHMSG_OK, Some (memcpy b 0 (rotate_bytes v)), Some (length (rotate_bytes v)))"
  using assms by (simp add: authmsg_encode_rotate_def Let_def authmsg_wf authmsg_bytes be_eq memcpy_append)

lemma encode_rotate_ack_ok:
  assumes "wf_rotate_ack v" "length (rotate_ack_bytes v) \<le> cap" "cap \<le> length b"
  shows "authmsg_encode_rotate_ack (Some b) cap (Some n) (Some (av_handle v)) (length (av_handle v)) (Some (av_fp_new v)) (av_rotated_at v) =
    (AUTHMSG_OK, Some (memcpy b 0 (rotate_ack_bytes v)), Some (length (rotate_ack_bytes v)))"
  using assms by (simp add: authmsg_encode_rotate_ack_def Let_def authmsg_wf authmsg_bytes be_eq memcpy_append)

section \<open>Properties of the messages\<close>

text \<open>
  C38. Strict decoding of the daemon's messages. Each decoder accepts a content exactly when it is the
  encoding of a well-formed message, with no byte left over, and returns that message; for ROTATE and
  ROTATE_ACK the message is what the returned pointers show in the buffer. A well-formed ROTATE fits
  the buffer size the header gives for it.
\<close>

theorem authmsg_decoders_exact:
  "(authmsg_decode_login_code (Some b) (length b) (Some x1) = (AUTHMSG_OK, Some m) \<longleftrightarrow> wf_login_code m \<and> b = login_code_bytes m) \<and>
   (authmsg_decode_error (Some b) (length b) (Some x2) = (AUTHMSG_OK, Some c) \<longleftrightarrow> wf_error c \<and> b = error_bytes c) \<and>
   ((\<exists>r. authmsg_decode_rotate (Some b) (length b) (Some x3) = (AUTHMSG_OK, Some r) \<and> rotate_view b r = v) \<longleftrightarrow>
      wf_rotate v \<and> b = rotate_bytes v \<and> length b \<le> AUTHMSG_ROTATE_MAX_CONTENT) \<and>
   ((\<exists>r. authmsg_decode_rotate_ack (Some b) (length b) (Some x4) = (AUTHMSG_OK, Some r) \<and> rotate_ack_view b r = w) \<longleftrightarrow>
      wf_rotate_ack w \<and> b = rotate_ack_bytes w)"
proof -
  have "length (rotate_bytes v) \<le> 8642" if "wf_rotate v" using that by (simp add: authmsg_wf rotate_bytes_def)
  moreover have "authmsg_decode_login_code (Some b) (length b) (Some x1) = (AUTHMSG_OK, Some m) \<longleftrightarrow> wf_login_code m \<and> b = login_code_bytes m"
    using decode_login_code_success [of b x1 m] decode_login_code_bytes [of m x1] by auto
  moreover have "authmsg_decode_error (Some b) (length b) (Some x2) = (AUTHMSG_OK, Some c) \<longleftrightarrow> wf_error c \<and> b = error_bytes c"
    using decode_error_success [of b x2 c] decode_error_bytes [of c x2] by auto
  moreover have "(\<exists>r. authmsg_decode_rotate (Some b) (length b) (Some x3) = (AUTHMSG_OK, Some r) \<and> rotate_view b r = v) \<longleftrightarrow>
      wf_rotate v \<and> b = rotate_bytes v"
    using decode_rotate_success [of b x3] decode_rotate_bytes [of v x3] by auto
  moreover have "(\<exists>r. authmsg_decode_rotate_ack (Some b) (length b) (Some x4) = (AUTHMSG_OK, Some r) \<and> rotate_ack_view b r = w) \<longleftrightarrow>
      wf_rotate_ack w \<and> b = rotate_ack_bytes w"
    using decode_rotate_ack_success [of b x4] decode_rotate_ack_bytes [of w x4] by auto
  ultimately show ?thesis by auto
qed

text \<open>What \<open>authmsg_rotate_digest\<close> hashes.\<close>

definition rotate_input :: "bytes \<Rightarrow> bytes \<Rightarrow> byte \<Rightarrow> bytes \<Rightarrow> bytes \<Rightarrow> bytes \<Rightarrow> bytes" where
  "rotate_input label hid flags handle pk_old pk_new =
     label @ [0x00] @ hid @ [flags] @ [of_nat (length handle)] @ handle @ pk_old @ pk_new"

definition rotate_fields :: "bytes \<Rightarrow> bytes \<Rightarrow> bytes \<Rightarrow> bytes \<Rightarrow> bytes \<Rightarrow> bool" where
  "rotate_fields label hid handle pk_old pk_new \<longleftrightarrow>
     label \<in> {AUTHMSG_LABEL_ROTATE_OLD, AUTHMSG_LABEL_ROTATE_NEW} \<and> length hid = 16 \<and> 1 \<le> length handle \<and> length handle \<le> 64 \<and>
     length pk_old = 1952 \<and> length pk_new = 1952"

lemma length_rotate_labels [simp]: "length AUTHMSG_LABEL_ROTATE_OLD = 25" "length AUTHMSG_LABEL_ROTATE_NEW = 25"
  by (simp_all add: AUTHMSG_LABEL_ROTATE_OLD_def AUTHMSG_LABEL_ROTATE_NEW_def ascii_def)

lemma rotate_input_inj:
  assumes "rotate_fields l h a o1 n" "rotate_fields l' h' a' o1' n'" "rotate_input l h f a o1 n = rotate_input l' h' f' a' o1' n'"
  shows "l = l' \<and> h = h' \<and> f = f' \<and> a = a' \<and> o1 = o1' \<and> n = n'"
proof -
  have "length l = 25" "length l' = 25" using assms(1,2) by (auto simp: rotate_fields_def)
  with assms have e: "l = l'" "h = h'" "f = f'" "of_nat (length a) = (of_nat (length a') :: byte)" "a @ o1 @ n = a' @ o1' @ n'"
    by (simp_all add: rotate_input_def rotate_fields_def)
  have "length a = length a'" using e(4) assms(1,2) by (simp add: rotate_fields_def)
  with e assms(1,2) show ?thesis by (simp add: rotate_fields_def)
qed

lemma rotate_digest_success:
  assumes "sha256_digest_len so" "length out = 32" "rotate_fields l h a o1 n"
    and "authmsg_rotate_digest so (Some out) (Some l) (Some h) f (Some a) (length a) (Some o1) (Some n) = (AUTHMSG_OK, Some d)"
  shows "d = snd (crypto_hash_sha256 so (rotate_input l h f a o1 n))"
proof -
  have k: "take 16 h = h" "take 1952 o1 = o1" "take 1952 n = n" "length a \<noteq> 0" "\<not> length a > 64" using assms(3) by (auto simp: rotate_fields_def)
  let ?x = "crypto_hash_sha256 so (rotate_input l h f a o1 n)"
  have "authmsg_rotate_digest so (Some out) (Some l) (Some h) f (Some a) (length a) (Some o1) (Some n) =
      (if fst ?x \<noteq> 0 then (AUTHMSG_ERR_ARG, Some out) else (AUTHMSG_OK, Some (memcpy out 0 (snd ?x))))"
    using k by (simp add: authmsg_rotate_digest_def rotate_input_def split_beta Let_def)
  moreover have "length (snd ?x) = length out" using assms(1,2) by (simp add: sha256_digest_len_def)
  ultimately show ?thesis using assms(4) by (simp split: if_splits)
qed

text \<open>
  C39. What a rotation signature commits to. If two digests computed by \<open>authmsg_rotate_digest\<close> under
  the two rotation labels are equal, then the label, the handshake, the flags, the handle, the old key
  and the new key were all the same, or the two inputs are an explicit SHA-256 collision. A signature
  of one key therefore cannot be replayed as the other's, in another handshake, for another handle or
  with another flag.
\<close>

theorem rotate_digest_binding:
  assumes "sha256_digest_len so" "length out = 32" "length out' = 32" "rotate_fields l h a o1 n" "rotate_fields l' h' a' o1' n'"
    and "authmsg_rotate_digest so (Some out) (Some l) (Some h) f (Some a) (length a) (Some o1) (Some n) = (AUTHMSG_OK, Some d)"
    and "authmsg_rotate_digest so (Some out') (Some l') (Some h') f' (Some a') (length a') (Some o1') (Some n') = (AUTHMSG_OK, Some d)"
  shows "l = l' \<and> h = h' \<and> f = f' \<and> a = a' \<and> o1 = o1' \<and> n = n' \<or>
    sha256_collision so (rotate_input l h f a o1 n) (rotate_input l' h' f' a' o1' n')"
proof (cases "rotate_input l h f a o1 n = rotate_input l' h' f' a' o1' n'")
  case True
  with rotate_input_inj [OF assms(4,5)] show ?thesis by blast
next
  case False
  with rotate_digest_success [OF assms(1,2,4,6)] rotate_digest_success [OF assms(1,3,5,7)] show ?thesis
    by (simp add: sha256_collision_def)
qed

theorem rotate_digest_binding_witness:
  "sha256_collision sample_sodium (rotate_input AUTHMSG_LABEL_ROTATE_OLD (zeros 16) 0 [1] (zeros 1952) (zeros 1952))
     (rotate_input AUTHMSG_LABEL_ROTATE_OLD (zeros 16) 0 [2] (zeros 1952) (zeros 1952))"
proof -
  let ?l = "AUTHMSG_LABEL_ROTATE_OLD" and ?k = "zeros 1952"
  let ?d = "\<lambda>a. authmsg_rotate_digest sample_sodium (Some (zeros 32)) (Some ?l) (Some (zeros 16)) 0 (Some a) (length a) (Some ?k) (Some ?k)"
  have f: "rotate_fields ?l (zeros 16) [x] ?k ?k" for x by (simp add: rotate_fields_def)
  have d: "?d [x] = (AUTHMSG_OK, Some (3949 # ?l @ [0, 0, 0, 0, 0, 0]))" for x
    by (simp add: authmsg_rotate_digest_def sample_sodium_def fit_def memcpy_def zeros_def numeral_eq_Suc)
  have z: "length (zeros 32) = 32" by simp
  have "[1] \<noteq> [2 :: byte]" by simp
  with rotate_digest_binding [OF sample_sha256 z z f [of 1] f [of 2] d d] show ?thesis by blast
qed

end
