(* ===== verification/Sha1.thy ===== *)
theory Sha1
  imports Wire_Int
begin

text \<open>
  SHA-1, \<open>apps/authd/sha1.c\<close>, which the daemon uses only for the accept value of the WebSocket
  handshake. The chaining value is a list of five words. \<open>sha1_pads\<close> shows that the two-buffer
  treatment of the tail is the padding of RFC 3174.
\<close>

abbreviation (input) SHA1_DIGEST_BYTES :: nat where "SHA1_DIGEST_BYTES \<equiv> 20"
abbreviation (input) SHA1_BLOCK_BYTES :: nat where "SHA1_BLOCK_BYTES \<equiv> 64"

definition rol :: "u32 \<Rightarrow> nat \<Rightarrow> u32" where
  "rol v s = push_bit s v OR drop_bit (32 - s) v"

text \<open>The message schedule \<open>w\<close>, its two loops.\<close>

definition sha1_schedule :: "bytes \<Rightarrow> u32 list" where
  "sha1_schedule b =
     (let w = map (\<lambda>i. push_bit 24 (ucast (b ! (i * 4))) OR push_bit 16 (ucast (b ! (i * 4 + 1))) OR
                push_bit 8 (ucast (b ! (i * 4 + 2))) OR ucast (b ! (i * 4 + 3))) [0..<16]
      in foldl (\<lambda>w i. w @ [rol (w ! (i - 3) XOR w ! (i - 8) XOR w ! (i - 14) XOR w ! (i - 16)) 1]) w [16..<80])"

definition sha1_round :: "u32 list \<Rightarrow> u32 \<times> u32 \<times> u32 \<times> u32 \<times> u32 \<Rightarrow> nat \<Rightarrow> u32 \<times> u32 \<times> u32 \<times> u32 \<times> u32" where
  "sha1_round w s i =
     (let (a, bb, c, d, e) = s;
          (f, k) = (if i < 20 then ((bb AND c) OR (NOT bb AND d), 0x5a827999)
                    else if i < 40 then (bb XOR c XOR d, 0x6ed9eba1)
                    else if i < 60 then ((bb AND c) OR (bb AND d) OR (c AND d), 0x8f1bbcdc)
                    else (bb XOR c XOR d, 0xca62c1d6));
          t = rol a 5 + f + e + k + w ! i
      in (t, a, rol bb 30, c, d))"

definition sha1_block :: "u32 list \<Rightarrow> bytes \<Rightarrow> u32 list" where
  "sha1_block h b =
     (let (a, bb, c, d, e) = foldl (sha1_round (sha1_schedule b)) (h ! 0, h ! 1, h ! 2, h ! 3, h ! 4) [0..<80]
      in [h ! 0 + a, h ! 1 + bb, h ! 2 + c, h ! 3 + d, h ! 4 + e])"

function sha1_loop :: "bytes \<Rightarrow> nat \<Rightarrow> u32 list \<Rightarrow> nat \<Rightarrow> u32 list \<times> nat" where
  "sha1_loop in' n h off =
     (if n - off \<ge> SHA1_BLOCK_BYTES then sha1_loop in' n (sha1_block h (bslice in' off SHA1_BLOCK_BYTES)) (off + SHA1_BLOCK_BYTES)
      else (h, off))"
  by pat_completeness auto
termination by (relation "measure (\<lambda>(in', n, h, off). n - off)") auto

declare sha1_loop.simps [simp del]

definition sha1_tail :: "bytes \<Rightarrow> nat \<Rightarrow> nat \<Rightarrow> bytes \<times> nat" where
  "sha1_tail in' n off =
     (let rem = n - off;
          tail = zeros (2 * SHA1_BLOCK_BYTES);
          tail = memcpy tail 0 (bslice in' off rem);
          tail = tail[rem := 0x80];
          total = (if rem + 1 + 8 > SHA1_BLOCK_BYTES then 2 * SHA1_BLOCK_BYTES else SHA1_BLOCK_BYTES);
          bits = (of_nat n :: u64) * 8;
          tail = foldl (\<lambda>tail i. tail[total - 1 - i := ucast (drop_bit (8 * i) bits)]) tail [0..<8]
      in (tail, total))"

definition sha1 :: "bytes \<Rightarrow> nat \<Rightarrow> bytes" where
  "sha1 in' n =
     (let h = [0x67452301, 0xefcdab89, 0x98badcfe, 0x10325476, 0xc3d2e1f0];
          (h, off) = sha1_loop in' n h 0;
          (tail, total) = sha1_tail in' n off;
          h = sha1_block h (take SHA1_BLOCK_BYTES tail);
          h = (if total = 2 * SHA1_BLOCK_BYTES then sha1_block h (drop SHA1_BLOCK_BYTES tail) else h)
      in concat (map (\<lambda>i. [ucast (drop_bit 24 (h ! i)), ucast (drop_bit 16 (h ! i)), ucast (drop_bit 8 (h ! i)), ucast (h ! i)]) [0..<5]))"

section \<open>The padding of RFC 3174\<close>

fun blocks :: "bytes \<Rightarrow> bytes list" where
  "blocks m = (if length m < 64 then [] else take 64 m # blocks (drop 64 m))"

declare blocks.simps [simp del]

definition sha1_pad :: "bytes \<Rightarrow> bytes" where
  "sha1_pad m = m @ [0x80] @ zeros ((119 - length m mod 64) mod 64) @ store_be 8 (8 * of_nat (length m) :: u64)"

lemma pad_zeros: "r < 64 \<Longrightarrow> (119 - r) mod 64 = (if r \<le> 55 then 55 - r else 119 - r)" for r :: nat
  by (simp add: mod_if)

lemma length_sha1_pad: "length (sha1_pad m) mod 64 = 0"
proof -
  define r where "r = length m mod 64"
  have "r < 64" by (simp add: r_def)
  then have "r + (9 + (119 - r) mod 64) = (if r \<le> 55 then 64 else 128)" by (auto simp: pad_zeros)
  then have "(r + (9 + (119 - r) mod 64)) mod 64 = 0" by (simp split: if_splits)
  then have "(length m + (9 + (119 - r) mod 64)) mod 64 = 0" by (simp only: r_def mod_add_left_eq)
  then have "(length m + (9 + (119 - length m mod 64) mod 64)) mod 64 = 0" by (simp only: r_def)
  then show ?thesis by (simp add: sha1_pad_def)
qed

lemma blocks_append: "length a mod 64 = 0 \<Longrightarrow> blocks (a @ b) = blocks a @ blocks b"
proof (induction a rule: blocks.induct)
  case (1 m)
  show ?case
  proof (cases "length m < 64")
    case True
    then have "m = []" using 1(2) by simp
    then show ?thesis by (simp add: blocks.simps [of "[]"])
  next
    case False
    then have "length (drop 64 m) mod 64 = 0" using 1(2) by (simp add: le_mod_geq)
    with 1(1) [OF False] False show ?thesis by (simp add: blocks.simps [of m] blocks.simps [of "m @ b"])
  qed
qed

lemma sha1_loop_eq:
  assumes "off \<le> length m"
  shows "sha1_loop m (length m) h off =
    (foldl sha1_block h (blocks (bslice m off ((length m - off) div 64 * 64))), off + (length m - off) div 64 * 64)"
  using assms
proof (induction m "length m" h off rule: sha1_loop.induct)
  case (1 m h off)
  let ?k = "(length m - off) div 64"
  show ?case
  proof (cases "64 \<le> length m - off")
    case True
    have k: "?k = Suc ((length m - (off + 64)) div 64)" using True by (simp add: div_if)
    have "blocks (bslice m off (?k * 64)) = bslice m off 64 # blocks (bslice m (off + 64) ((length m - (off + 64)) div 64 * 64))"
      unfolding k using True 1(2)
      by (subst blocks.simps) (simp add: bslice_def drop_take min_def add.commute)
    with 1(1) [OF True] True 1(2) k show ?thesis by (simp add: sha1_loop.simps [of m "length m" h off])
  next
    case False
    then show ?thesis by (simp add: sha1_loop.simps [of m "length m" h off] bslice_def blocks.simps [of "[]"])
  qed
qed

lemma foldl_write_down:
  assumes "k \<le> t" "t \<le> length xs"
  shows "foldl (\<lambda>xs i. xs[t - 1 - i := f i]) xs [0..<k] = take (t - k) xs @ rev (map f [0..<k]) @ drop t xs"
  using assms
proof (induction k)
  case (Suc k)
  then have "take (t - k) xs = take (t - Suc k) xs @ [xs ! (t - Suc k)]"
    by (metis Suc_diff_Suc Suc_le_lessD take_Suc_conv_app_nth diff_less less_le_trans zero_less_Suc less_imp_le_nat order_le_less_trans diff_le_self)
  with Suc show ?case by (simp add: list_update_append)
qed simp

lemma store_be_rev: "store_be 8 (v :: u64) = rev (map (\<lambda>i. ucast (drop_bit (8 * i) v)) [0..<8])"
  by (simp add: store_be_def upt_rec)

lemma sha1_tail_eq:
  assumes "off = length m div 64 * 64"
  shows "take (snd (sha1_tail m (length m) off)) (fst (sha1_tail m (length m) off)) = drop off (sha1_pad m) \<and>
    length (fst (sha1_tail m (length m) off)) = 128 \<and>
    snd (sha1_tail m (length m) off) = (if length m mod 64 \<le> 55 then 64 else 128)"
proof -
  define r where "r = length m mod 64"
  define t where "t = (if r \<le> 55 then 64 else 128 :: nat)"
  let ?bits = "store_be 8 (of_nat (length m) * 8 :: u64)"
  have r: "length m - off = r" "r < 64" "off \<le> length m" using assms by (simp_all add: r_def minus_div_mult_eq_mod)
  have rest: "length (drop off m) = r" "bslice m off r = drop off m" using r by (simp_all add: bslice_def)
  have tl: "(memcpy (zeros 128) 0 (drop off m))[r := 0x80] = drop off m @ [0x80] @ zeros (127 - r)"
  proof -
    have "zeros (128 - r) = 0 # zeros (127 - r)" using r(2) by (simp add: zeros_def Suc_diff_le flip: replicate_Suc)
    then show ?thesis using r rest by (simp add: memcpy_zeros_0 list_update_append)
  qed
  have tt: "(if r + 1 + 8 > 64 then 2 * 64 else 64) = t" by (auto simp: t_def)
  have "sha1_tail m (length m) off = (take (t - 8) (drop off m @ [0x80] @ zeros (127 - r)) @ ?bits @ drop t (drop off m @ [0x80] @ zeros (127 - r)), t)"
    unfolding sha1_tail_def Let_def r(1) rest(2) mult_2_right [symmetric] store_be_rev
    using tl tt foldl_write_down [of 8 t "drop off m @ [0x80] @ zeros (127 - r)"] rest(1) r(2)
    by (auto simp: t_def)
  moreover have "take (t - 8) (drop off m @ [0x80] @ zeros (127 - r)) = drop off m @ [0x80] @ zeros ((119 - r) mod 64)"
  proof -
    have "t - 8 - r = Suc ((119 - r) mod 64)" "(119 - r) mod 64 \<le> 127 - r" using pad_zeros [OF r(2)] r(2) by (auto simp: t_def)
    moreover have "take (t - 8) (drop off m) = drop off m" using rest(1) r(2) by (simp add: t_def)
    ultimately show ?thesis using rest(1) by simp
  qed
  moreover have "drop off (sha1_pad m) = drop off m @ [0x80] @ zeros ((119 - r) mod 64) @ ?bits"
    using r(3) by (simp add: sha1_pad_def r_def mult.commute)
  moreover have l: "length (drop off m @ [0x80] @ zeros ((119 - r) mod 64) @ ?bits) = t"
    using rest(1) pad_zeros [OF r(2)] r(2) by (auto simp: t_def)
  moreover define D where "D = drop t (drop off m @ [0x80] @ zeros (127 - r))"
  moreover have d: "length D = 128 - t" using rest(1) r(2) by (simp add: t_def D_def)
  moreover define A where "A = drop off m @ [0x80] @ zeros ((119 - r) mod 64) @ ?bits"
  ultimately have "sha1_tail m (length m) off = (A @ D, t)" "drop off (sha1_pad m) = A" "length A = t" by simp_all
  moreover have "t \<le> 128" by (simp add: t_def)
  ultimately show ?thesis using d by (simp add: t_def [symmetric] r_def [symmetric])
qed

text \<open>
  \<open>sha1\<close> is SHA-1 of the message: the digest it writes is the chaining value after all blocks of
  the message padded as RFC 3174 prescribes, whatever the length, so a tail that leaves no room for
  the length field gets a block of its own.
\<close>

theorem sha1_pads:
  "sha1 m (length m) = concat (map (store_be 4)
     (foldl sha1_block [0x67452301, 0xefcdab89, 0x98badcfe, 0x10325476, 0xc3d2e1f0] (blocks (sha1_pad m)))) \<and>
   length (sha1_pad m) mod 64 = 0 \<and> length (sha1 m (length m)) = SHA1_DIGEST_BYTES"
proof -
  let ?h0 = "[0x67452301, 0xefcdab89, 0x98badcfe, 0x10325476, 0xc3d2e1f0] :: u32 list"
  define off where "off = length m div 64 * 64"
  define tail total where "tail = fst (sha1_tail m (length m) off)" and "total = snd (sha1_tail m (length m) off)"
  have t: "take total tail = drop off (sha1_pad m)" "length tail = 128" "total = 64 \<or> total = 128"
    using sha1_tail_eq [OF off_def] by (auto simp: tail_def total_def)
  have o: "off \<le> length m" by (simp add: off_def)
  define h where "h = foldl sha1_block ?h0 (blocks (take off m))"
  have l: "sha1_loop m (length m) ?h0 0 = (h, off)" by (simp add: sha1_loop_eq off_def h_def)
  have p: "sha1_pad m = take off m @ take total tail" using o by (simp add: t(1)) (simp add: sha1_pad_def)
  have "length (take off m) mod 64 = 0" using o by (simp add: off_def min_absorb2)
  then have b: "blocks (sha1_pad m) = blocks (take off m) @ blocks (take total tail)" unfolding p by (rule blocks_append)
  define g where "g = foldl sha1_block ?h0 (blocks (sha1_pad m))"
  have "blocks (take total tail) = (if total = 128 then [take 64 tail, drop 64 tail] else [take 64 tail])"
    using t(2,3) by (auto simp: blocks.simps [of "take total tail"] blocks.simps [of "drop 64 tail"] blocks.simps [of "[]"] blocks.simps [of tail])
  then have gh: "g = (if total = 128 then sha1_block (sha1_block h (take 64 tail)) (drop 64 tail) else sha1_block h (take 64 tail))"
    by (simp add: g_def b h_def)
  have "length (sha1_block x y) = 5" for x y by (simp add: sha1_block_def split_beta Let_def)
  then have g5: "length g = 5" using gh by simp
  have s: "sha1 m (length m) = concat (map (\<lambda>i. store_be 4 (g ! i)) [0..<5])"
    by (simp add: sha1_def l Let_def tail_def [symmetric] total_def [symmetric] gh split_beta store_be_4)
  have "map (\<lambda>i. store_be 4 (g ! i)) [0..<5] = map (store_be 4) g" using g5 by (intro nth_equalityI) simp_all
  with s g5 length_sha1_pad [of m] show ?thesis by (simp add: g_def [symmetric] length_concat comp_def sum_list_triv)
qed

end
