(* ===== verification/Ws.thy ===== *)
theory Ws
  imports Sha1 Primitives
begin

text \<open>
  The WebSocket transport, \<open>apps/authd/ws.c\<close> with the types of \<open>ws.h\<close>: the HTTP upgrade, the decoder of
  frames, the server's headers and the client's half.

  The input that a loop has not read yet, \<open>p + i\<close> with \<open>n - i\<close> bytes, is a list. The sink of
  \<open>ws_consume\<close> and the reader of \<open>ws_client_read_message\<close> are function pointers with a context: a
  function of the context and the bytes that returns a status and the new context. libsodium's base64
  functions are the arguments \<open>base642bin\<close> (of the capacity and the text) and \<open>bin2base64\<close>.
\<close>

abbreviation (input) WS_KEY_B64_LEN :: nat where "WS_KEY_B64_LEN \<equiv> 24"
abbreviation (input) WS_ACCEPT_B64_LEN :: nat where "WS_ACCEPT_B64_LEN \<equiv> 28"
abbreviation (input) WS_UPGRADE_MAX :: nat where "WS_UPGRADE_MAX \<equiv> 4096"
abbreviation (input) WS_STATE_MAX :: nat where "WS_STATE_MAX \<equiv> 64"
abbreviation (input) WS_CTRL_MAX :: nat where "WS_CTRL_MAX \<equiv> 125"
abbreviation (input) WS_HDR_MAX :: nat where "WS_HDR_MAX \<equiv> 14"
abbreviation (input) WS_SRV_HDR_MAX :: nat where "WS_SRV_HDR_MAX \<equiv> 10"
abbreviation (input) WS_REPLY_MAX :: nat where "WS_REPLY_MAX \<equiv> 135"
abbreviation (input) WS_OP_CONT :: byte where "WS_OP_CONT \<equiv> 0x0"
abbreviation (input) WS_OP_BINARY :: byte where "WS_OP_BINARY \<equiv> 0x2"
abbreviation (input) WS_OP_CLOSE :: byte where "WS_OP_CLOSE \<equiv> 0x8"
abbreviation (input) WS_OP_PING :: byte where "WS_OP_PING \<equiv> 0x9"
abbreviation (input) WS_OP_PONG :: byte where "WS_OP_PONG \<equiv> 0xa"

datatype ws_stage_t = WS_STAGE_UPGRADE | WS_STAGE_OPEN | WS_STAGE_CLOSED

datatype ws_status_t = WS_OK | WS_NEED_MORE | WS_ERR_PROTOCOL

datatype ws_client_status_t = WS_CLIENT_OK | WS_CLIENT_CLOSED | WS_CLIENT_IO | WS_CLIENT_PROTOCOL

record ws_t =
  ws_stage :: ws_stage_t
  ws_state :: bytes
  ws_state_len :: nat
  ws_hdr :: bytes
  ws_hdr_len :: nat
  ws_hdr_need :: nat
  ws_payload_left :: u64
  ws_mask :: bytes
  ws_mask_off :: nat
  ws_opcode :: byte
  ws_is_control :: bool
  ws_in_message :: bool
  ws_expect_mask :: bool
  ws_ctrl :: bytes
  ws_ctrl_len :: nat
  ws_reply :: bytes
  ws_reply_len :: nat
  ws_reply_sent :: nat

type_synonym 'c sink = "'c \<Rightarrow> bytes \<Rightarrow> int \<times> 'c"
type_synonym 'c reader = "'c \<Rightarrow> nat \<Rightarrow> int \<times> bytes \<times> 'c"

definition ws_zero :: ws_t where
  "ws_zero = \<lparr>ws_stage = WS_STAGE_UPGRADE, ws_state = zeros 64, ws_state_len = 0, ws_hdr = zeros 14, ws_hdr_len = 0, ws_hdr_need = 0,
     ws_payload_left = 0, ws_mask = zeros 4, ws_mask_off = 0, ws_opcode = 0, ws_is_control = False, ws_in_message = False,
     ws_expect_mask = False, ws_ctrl = zeros 125, ws_ctrl_len = 0, ws_reply = zeros 135, ws_reply_len = 0, ws_reply_sent = 0\<rparr>"

definition WS_GUID :: bytes where
  "WS_GUID = ascii ''258EAFA5-E914-47DA-95CA-C5AB0DC85B11''"

definition CRLF :: bytes where
  "CRLF = [13, 10]"

section \<open>Helpers\<close>

definition fold_case :: "byte \<Rightarrow> byte" where
  "fold_case x = (if x \<ge> 65 \<and> x \<le> 90 then x + 32 else x)"

fun ci_eq_loop :: "bytes \<Rightarrow> bytes \<Rightarrow> bool" where
  "ci_eq_loop (x # xs) (y # ys) = (if fold_case x \<noteq> fold_case y then False else ci_eq_loop xs ys)"
| "ci_eq_loop _ _ = True"

definition ci_eq :: "bytes \<Rightarrow> bytes \<Rightarrow> bool" where
  "ci_eq a b = (if length a \<noteq> length b then False else ci_eq_loop a b)"

definition is_blank :: "byte \<Rightarrow> bool" where
  "is_blank c \<longleftrightarrow> c = 32 \<or> c = 9"

definition rtrim :: "bytes \<Rightarrow> bytes" where
  "rtrim v = rev (dropWhile is_blank (rev v))"

lemma token_step: "v \<noteq> [] \<Longrightarrow> length (dropWhile (\<lambda>c. c \<noteq> 44) (dropWhile (\<lambda>c. is_blank c \<or> c = 44) v)) < length v"
proof (cases v)
  case (Cons x xs)
  show ?thesis
  proof (cases "is_blank x \<or> x = 44")
    case True
    then show ?thesis using Cons length_dropWhile_le [of "\<lambda>c. c \<noteq> 44" "dropWhile (\<lambda>c. is_blank c \<or> c = 44) xs"]
        length_dropWhile_le [of "\<lambda>c. is_blank c \<or> c = 44" xs] by (auto intro: le_less_trans)
  next
    case False
    then show ?thesis using Cons length_dropWhile_le [of "\<lambda>c. c \<noteq> 44" xs] by simp
  qed
qed simp

function has_token_loop :: "bytes \<Rightarrow> bytes \<Rightarrow> bool" where
  "has_token_loop v tok =
     (if v = [] then False
      else
        let v1 = dropWhile (\<lambda>c. is_blank c \<or> c = 44) v;
            item = takeWhile (\<lambda>c. c \<noteq> 44) v1; v2 = dropWhile (\<lambda>c. c \<noteq> 44) v1;
            e = rtrim item
        in if e \<noteq> [] \<and> ci_eq e tok then True else has_token_loop v2 tok)"
  by pat_completeness auto
termination by (relation "measure (\<lambda>(v, tok). length v)") (auto intro: token_step)

declare has_token_loop.simps [simp del]

definition has_token :: "bytes \<Rightarrow> bytes \<Rightarrow> bool" where
  "has_token v tok = has_token_loop v tok"

fun memchr :: "bytes \<Rightarrow> byte \<Rightarrow> nat option" where
  "memchr [] c = None"
| "memchr (x # xs) c = (if x = c then Some 0 else map_option Suc (memchr xs c))"

definition ws_init :: "ws_t \<Rightarrow> ws_t" where
  "ws_init w = ws_zero\<lparr>ws_stage := WS_STAGE_UPGRADE, ws_expect_mask := True\<rparr>"

definition ws_init_client :: "ws_t \<Rightarrow> ws_t" where
  "ws_init_client w = ws_zero\<lparr>ws_stage := WS_STAGE_OPEN, ws_expect_mask := False\<rparr>"

section \<open>The upgrade\<close>

definition ws_accept_key :: "(nat \<Rightarrow> bytes \<Rightarrow> int \<times> bytes) \<Rightarrow> (bytes \<Rightarrow> bytes) \<Rightarrow> bytes ptr \<Rightarrow> nat \<Rightarrow> int \<times> bytes" where
  "ws_accept_key base642bin bin2base64 key_b64 key_len =
     (let out = zeros (WS_ACCEPT_B64_LEN + 1)
      in if key_b64 = NULL \<or> key_len \<noteq> WS_KEY_B64_LEN then (-1, out)
      else
        let (rc, raw) = base642bin 16 (take key_len (the key_b64))
        in if rc \<noteq> 0 \<or> length raw \<noteq> 16 then (-1, out)
        else
          let buf = take WS_KEY_B64_LEN (the key_b64) @ WS_GUID;
              digest = sha1 buf (WS_KEY_B64_LEN + length WS_GUID)
          in (0, memcpy out 0 (bin2base64 digest @ [0])))"

function take_state_loop :: "ws_t \<Rightarrow> bytes \<Rightarrow> ws_status_t \<times> ws_t" where
  "take_state_loop w rest =
     (if rest = [] then (WS_OK, w)
      else
        let seg = takeWhile (\<lambda>c. c \<noteq> 38) rest; rest = drop (length seg + 1) rest
        in if length seg > 6 \<and> take 6 seg = ascii ''state=''
           then let v = drop 6 seg
             in if length v > WS_STATE_MAX then (WS_ERR_PROTOCOL, w)
                else if \<exists>c \<in> set v. c < 0x21 \<or> c > 0x7e then (WS_ERR_PROTOCOL, w)
                else (WS_OK, w\<lparr>ws_state := memcpy (ws_state w) 0 v, ws_state_len := length v\<rparr>)
           else take_state_loop w rest)"
  by pat_completeness auto
termination by (relation "measure (\<lambda>(w, rest). length rest)") auto

definition take_state :: "ws_t \<Rightarrow> bytes \<Rightarrow> ws_status_t \<times> ws_t" where
  "take_state w target =
     (case memchr target 63 of
        None \<Rightarrow> (WS_OK, w)
      | Some q \<Rightarrow> take_state_loop w (drop (q + 1) target))"

record ws_headers_t =
  have_upgrade :: bool
  have_connection :: bool
  have_version :: bool
  ws_key :: "bytes ptr"

definition ws_header_line :: "ws_headers_t \<Rightarrow> bytes \<Rightarrow> ws_headers_t option" where
  "ws_header_line hs h =
     (case memchr h 58 of
        None \<Rightarrow> None
      | Some nlen \<Rightarrow>
        let name = take nlen h;
            v = rtrim (dropWhile is_blank (drop (nlen + 1) h))
        in Some (if ci_eq name (ascii ''Upgrade'') then hs\<lparr>have_upgrade := has_token v (ascii ''websocket'')\<rparr>
             else if ci_eq name (ascii ''Connection'') then hs\<lparr>have_connection := has_token v (ascii ''Upgrade'')\<rparr>
             else if ci_eq name (ascii ''Sec-WebSocket-Version'') then hs\<lparr>have_version := (v = ascii ''13'')\<rparr>
             else if ci_eq name (ascii ''Sec-WebSocket-Key'') then hs\<lparr>ws_key := Some v\<rparr>
             else hs))"

function ws_headers :: "ws_headers_t \<Rightarrow> bytes \<Rightarrow> ws_headers_t option" where
  "ws_headers hs rest =
     (if rest = [] then Some hs
      else (case memchr rest 10 of
              None \<Rightarrow> None
            | Some e \<Rightarrow>
              let hl = (if e > 0 \<and> rest ! (e - 1) = 13 then e - 1 else e)
              in if hl = 0 then Some hs
                 else (case ws_header_line hs (take hl rest) of
                         None \<Rightarrow> None
                       | Some hs \<Rightarrow> ws_headers hs (drop (e + 1) rest))))"
  by pat_completeness auto
termination by (relation "measure (\<lambda>(hs, rest). length rest)") auto

declare take_state_loop.simps [simp del] ws_headers.simps [simp del]

text \<open>\<open>snprintf\<close> of \<open>s\<close> into a buffer: what the buffer holds after it.\<close>

definition snprintf_buf :: "bytes \<Rightarrow> bytes \<Rightarrow> bytes" where
  "snprintf_buf buf s = memcpy buf 0 (take (length buf - 1) s @ [0])"

definition cstr :: "bytes \<Rightarrow> bytes" where
  "cstr b = takeWhile (\<lambda>c. c \<noteq> 0) b"

text \<open>The 101 response, and the headers that must come before it.\<close>

definition ws_upgrade_reply :: "ws_t \<Rightarrow> bytes \<Rightarrow> ws_status_t \<times> ws_t" where
  "ws_upgrade_reply w accept =
     (let s = ascii ''HTTP/1.1 101 Switching Protocols'' @ CRLF @ ascii ''Upgrade: websocket'' @ CRLF @
            ascii ''Connection: Upgrade'' @ CRLF @ ascii ''Sec-WebSocket-Accept: '' @ cstr accept @ CRLF @ CRLF;
          n = length s; w = w\<lparr>ws_reply := snprintf_buf (ws_reply w) s\<rparr>
      in if n \<ge> WS_REPLY_MAX then (WS_ERR_PROTOCOL, w)
         else (WS_OK, w\<lparr>ws_reply_len := n, ws_reply_sent := 0, ws_stage := WS_STAGE_OPEN\<rparr>))"

definition ws_upgrade_headers ::
  "(nat \<Rightarrow> bytes \<Rightarrow> int \<times> bytes) \<Rightarrow> (bytes \<Rightarrow> bytes) \<Rightarrow> ws_t \<Rightarrow> bytes \<Rightarrow> ws_status_t \<times> ws_t" where
  "ws_upgrade_headers base642bin bin2base64 w rest =
     (case ws_headers \<lparr>have_upgrade = False, have_connection = False, have_version = False, ws_key = NULL\<rparr> rest of
        None \<Rightarrow> (WS_ERR_PROTOCOL, w)
      | Some hs \<Rightarrow>
        if \<not> have_upgrade hs \<or> \<not> have_connection hs \<or> \<not> have_version hs \<or> ws_key hs = NULL then (WS_ERR_PROTOCOL, w)
        else
          let (rc, accept) = ws_accept_key base642bin bin2base64 (ws_key hs) (length (the (ws_key hs)))
          in if rc \<noteq> 0 then (WS_ERR_PROTOCOL, w) else ws_upgrade_reply w accept)"

definition ws_upgrade ::
  "(nat \<Rightarrow> bytes \<Rightarrow> int \<times> bytes) \<Rightarrow> (bytes \<Rightarrow> bytes) \<Rightarrow> ws_t ptr \<Rightarrow> bytes ptr \<Rightarrow> nat \<Rightarrow> ws_status_t \<times> ws_t ptr" where
  "ws_upgrade base642bin bin2base64 wp req len =
     (if wp = NULL \<or> req = NULL \<or> len = 0 \<or> len > WS_UPGRADE_MAX then (WS_ERR_PROTOCOL, wp)
      else
        let w = the wp; r = take len (the req)
        in case memchr r 10 of
             None \<Rightarrow> (WS_ERR_PROTOCOL, wp)
           | Some eol \<Rightarrow>
             let line_len = (if eol > 0 \<and> r ! (eol - 1) = 13 then eol - 1 else eol)
             in if line_len < 14 \<or> take 4 r \<noteq> ascii ''GET '' then (WS_ERR_PROTOCOL, wp)
             else (case memchr (bslice r 4 (line_len - 4)) 32 of
                 None \<Rightarrow> (WS_ERR_PROTOCOL, wp)
               | Some tgt_len \<Rightarrow>
                 let ver_len = line_len - 4 - tgt_len - 1
                 in if \<not> (ver_len = 8 \<and> bslice r (4 + tgt_len + 1) 8 = ascii ''HTTP/1.1'') then (WS_ERR_PROTOCOL, wp)
                 else
                   let (st, w) = take_state w (bslice r 4 tgt_len)
                   in if st \<noteq> WS_OK then (WS_ERR_PROTOCOL, Some w)
                   else map_prod id Some (ws_upgrade_headers base642bin bin2base64 w (drop (eol + 1) r))))"

definition ws_refuse :: "ws_t ptr \<Rightarrow> nat \<Rightarrow> ws_status_t \<times> ws_t ptr" where
  "ws_refuse wp code =
     (case wp of NULL \<Rightarrow> (WS_ERR_PROTOCOL, wp)
      | Some w \<Rightarrow>
        let status = (if code = 429 then ascii ''429 Too Many Requests'' else ascii ''503 Service Unavailable'');
            s = ascii ''HTTP/1.1 '' @ status @ CRLF @ ascii ''Connection: close'' @ CRLF @ ascii ''Content-Length: 0'' @ CRLF @ CRLF;
            n = length s; w = w\<lparr>ws_reply := snprintf_buf (ws_reply w) s\<rparr>
        in if n \<ge> WS_REPLY_MAX
           then (WS_ERR_PROTOCOL, Some (w\<lparr>ws_reply_len := 0, ws_reply_sent := 0, ws_stage := WS_STAGE_CLOSED\<rparr>))
           else (WS_OK, Some (w\<lparr>ws_reply_len := n, ws_reply_sent := 0, ws_stage := WS_STAGE_CLOSED\<rparr>)))"

section \<open>Frames\<close>

definition ws_server_header :: "bytes \<Rightarrow> u64 \<Rightarrow> byte \<Rightarrow> bytes \<times> nat" where
  "ws_server_header out payload_len opcode =
     (let out = out[0 := 0x80 OR (opcode AND 0x0f)]
      in if payload_len < 126 then (out[1 := ucast payload_len], 2)
      else if payload_len \<le> 0xffff
        then (out[1 := 126, 2 := ucast (drop_bit 8 payload_len), 3 := ucast payload_len], 4)
      else
        let out = out[1 := 127]
        in (foldl (\<lambda>out i. out[2 + i := ucast (drop_bit (8 * (7 - i)) payload_len)]) out [0..<8], 10))"

definition queue_ctrl :: "ws_t \<Rightarrow> byte \<Rightarrow> bytes \<Rightarrow> nat \<Rightarrow> ws_t" where
  "queue_ctrl w opcode p n =
     (if ws_reply_len w \<noteq> ws_reply_sent w then w
      else
        let n = (if n > WS_CTRL_MAX then WS_CTRL_MAX else n);
            (r, hl) = ws_server_header (ws_reply w) (of_nat n) opcode;
            r = memcpy r hl (take n p)
        in w\<lparr>ws_reply := r, ws_reply_len := hl + n, ws_reply_sent := 0\<rparr>)"

text \<open>One header byte; the first component says whether the frame may go on.\<close>

definition ws_header_byte :: "ws_t \<Rightarrow> byte \<Rightarrow> bool \<times> ws_t" where
  "ws_header_byte w b =
     (if ws_hdr_len w \<ge> WS_HDR_MAX then (False, w)
      else
        let w = w\<lparr>ws_hdr := (ws_hdr w)[ws_hdr_len w := b], ws_hdr_len := ws_hdr_len w + 1\<rparr>
        in if ws_hdr_len w = 2
           then
             let b0 = ws_hdr w ! 0; b1 = ws_hdr w ! 1
             in if b0 AND 0x70 \<noteq> 0 then (False, w)
             else
               let masked = (b1 AND 0x80 \<noteq> 0)
               in if masked \<noteq> ws_expect_mask w then (False, w)
               else
                 let len7 = b1 AND 0x7f; op = b0 AND 0x0f;
                     w = w\<lparr>ws_hdr_need := 2 + (if masked then 4 else 0) + (if len7 = 126 then 2 else if len7 = 127 then 8 else 0),
                           ws_opcode := op, ws_is_control := (op AND 0x08 \<noteq> 0)\<rparr>
                 in if ws_is_control w
                    then if b0 AND 0x80 = 0 \<or> len7 > 125 then (False, w)
                      else if op \<noteq> WS_OP_CLOSE \<and> op \<noteq> WS_OP_PING \<and> op \<noteq> WS_OP_PONG then (False, w)
                      else (True, w)
                    else if op \<noteq> WS_OP_BINARY \<and> op \<noteq> WS_OP_CONT then (False, w)
                    else (True, w)
           else (True, w))"

definition ws_header_wanted :: "ws_t \<Rightarrow> bool" where
  "ws_header_wanted w \<longleftrightarrow> ws_hdr_need w = 0 \<or> ws_hdr_len w < ws_hdr_need w"

fun ws_header_loop :: "ws_t \<Rightarrow> bytes \<Rightarrow> bool \<times> ws_t \<times> bytes" where
  "ws_header_loop w [] = (True, w, [])"
| "ws_header_loop w (b # bs) =
     (if ws_header_wanted w
      then let (ok, w) = ws_header_byte w b in if ok then ws_header_loop w bs else (False, w, bs)
      else (True, w, b # bs))"

text \<open>The complete header.\<close>

definition ws_header_done :: "ws_t \<Rightarrow> bool \<times> ws_t" where
  "ws_header_done w =
     (let len7 = ws_hdr w ! 1 AND 0x7f;
          (off, left) =
            (if len7 = 126 then (4, push_bit 8 (ucast (ws_hdr w ! 2)) OR ucast (ws_hdr w ! 3))
             else if len7 = 127 then (10, foldl (\<lambda>v k. push_bit 8 v OR ucast (ws_hdr w ! (2 + k))) 0 [0..<8])
             else (2, ucast len7 :: u64));
          w = w\<lparr>ws_payload_left := left\<rparr>
      in if len7 = 126 \<and> left < 126 then (False, w)
      else if len7 = 127 \<and> (left \<le> 0xffff \<or> drop_bit 63 left \<noteq> 0) then (False, w)
      else
        let w = w\<lparr>ws_mask := (if ws_expect_mask w then bslice (ws_hdr w) off 4 else zeros 4), ws_mask_off := 0, ws_ctrl_len := 0\<rparr>
        in if \<not> ws_is_control w
           then let fin = (ws_hdr w ! 0 AND 0x80 \<noteq> 0)
             in if ws_opcode w = WS_OP_CONT \<and> \<not> ws_in_message w then (False, w)
                else if ws_opcode w = WS_OP_BINARY \<and> ws_in_message w then (False, w)
                else (True, w\<lparr>ws_in_message := \<not> fin\<rparr>)
           else (True, w))"

definition ws_unmask :: "bytes \<Rightarrow> nat \<Rightarrow> bytes \<Rightarrow> bytes" where
  "ws_unmask m off p = map (\<lambda>k. p ! k XOR m ! ((off + k) mod 4)) [0..<length p]"

text \<open>The payload at hand, in pieces of at most 512 bytes.\<close>

function ws_payload_loop :: "'c sink \<Rightarrow> ws_t \<Rightarrow> 'c \<Rightarrow> bytes \<Rightarrow> bool \<times> ws_t \<times> 'c" where
  "ws_payload_loop sink w c p =
     (if p = [] then (True, w, c)
      else
        let chunk = (if length p > 512 then 512 else length p);
            tmp = ws_unmask (ws_mask w) (ws_mask_off w) (take chunk p);
            w = w\<lparr>ws_mask_off := (ws_mask_off w + chunk) mod 4\<rparr>
        in if ws_is_control w
           then if ws_ctrl_len w + chunk > WS_CTRL_MAX then (False, w, c)
             else ws_payload_loop sink
               (w\<lparr>ws_ctrl := memcpy (ws_ctrl w) (ws_ctrl_len w) tmp, ws_ctrl_len := ws_ctrl_len w + chunk\<rparr>) c (drop chunk p)
           else let (rc, c) = sink c tmp
             in if rc \<noteq> 0 then (False, w, c) else ws_payload_loop sink w c (drop chunk p))"
  by pat_completeness auto
termination by (relation "measure (\<lambda>(sink, w, c, p). length p)") auto

declare ws_payload_loop.simps [simp del]

text \<open>The end of a frame; the first component says whether the connection is closed.\<close>

definition ws_frame_done :: "ws_t \<Rightarrow> bool \<times> ws_t" where
  "ws_frame_done w =
     (if ws_is_control w \<and> ws_opcode w = WS_OP_CLOSE
      then
        let w = queue_ctrl w WS_OP_CLOSE (ws_ctrl w) (if ws_ctrl_len w \<ge> 2 then 2 else 0)
        in (True, w\<lparr>ws_stage := WS_STAGE_CLOSED, ws_hdr_len := 0, ws_hdr_need := 0\<rparr>)
      else
        let w = (if ws_is_control w \<and> ws_opcode w = WS_OP_PING then queue_ctrl w WS_OP_PONG (ws_ctrl w) (ws_ctrl_len w) else w)
        in (False, w\<lparr>ws_hdr_len := 0, ws_hdr_need := 0, ws_ctrl_len := 0\<rparr>))"

lemma ws_header_loop_length: "ws_header_loop w bs = (ok, w', bs') \<Longrightarrow> length bs' \<le> length bs"
proof (induction w bs rule: ws_header_loop.induct)
  case (2 w b bs)
  then show ?case by (fastforce split: if_splits prod.splits)
qed simp

lemma ws_header_loop_progress: "ws_header_loop w bs = (ok, w', bs') \<Longrightarrow> ws_header_wanted w \<Longrightarrow> bs \<noteq> [] \<Longrightarrow> length bs' < length bs"
  by (cases bs) (auto split: if_splits prod.splits dest: ws_header_loop_length)

lemma ws_frame_done_wanted: "ws_frame_done w = (closed, w') \<Longrightarrow> ws_header_wanted w'"
  by (auto simp: ws_frame_done_def Let_def ws_header_wanted_def split: if_splits)

function ws_loop :: "'c sink \<Rightarrow> ws_t \<Rightarrow> 'c \<Rightarrow> bytes \<Rightarrow> ws_status_t \<times> ws_t \<times> 'c" where
  "ws_loop sink w c bs =
     (if bs = [] then (WS_NEED_MORE, w, c)
      else if ws_payload_left w = 0 \<and> ws_header_wanted w
      then
        let (ok, w, bs) = ws_header_loop w bs
        in if \<not> ok then (WS_ERR_PROTOCOL, w, c)
        else if ws_header_wanted w then (WS_NEED_MORE, w, c)
        else
          let (ok, w) = ws_header_done w
          in if \<not> ok then (WS_ERR_PROTOCOL, w, c)
          else if ws_payload_left w = 0
            then let (closed, w) = ws_frame_done w
              in if closed then (WS_OK, w, c) else ws_loop sink w c bs
          else ws_loop sink w c bs
      else
        let n = (if length bs > unat (ws_payload_left w) then unat (ws_payload_left w) else length bs);
            (ok, w1, c) = ws_payload_loop sink w c (take n bs)
        in if \<not> ok then (WS_ERR_PROTOCOL, w1, c)
        else
          let w1 = w1\<lparr>ws_payload_left := ws_payload_left w - of_nat n\<rparr>
          in if ws_payload_left w1 \<noteq> 0 then (WS_NEED_MORE, w1, c)
          else let (closed, w1) = ws_frame_done w1
            in if closed then (WS_OK, w1, c) else ws_loop sink w1 c (drop n bs))"
  by pat_completeness auto
termination
proof (relation "measure (\<lambda>(sink, w, c, bs). 2 * length bs + (if ws_payload_left w = 0 \<and> \<not> ws_header_wanted w then 1 else 0))")
  fix sink :: "'c sink" and w :: ws_t and c :: 'c and bs x ok y w1 bs1 z ok2 w2 a closed w3
  assume "bs \<noteq> []" "ws_payload_left w = 0 \<and> ws_header_wanted w" "x = ws_header_loop w bs" "(ok, y) = x" "(w1, bs1) = y"
  then have "length bs1 < length bs" by (metis ws_header_loop_progress)
  then show "((sink, w3, c, bs1), sink, w, c, bs) \<in> measure (\<lambda>(sink, w, c, bs). 2 * length bs + (if ws_payload_left w = 0 \<and> \<not> ws_header_wanted w then 1 else 0))"
    "((sink, w2, c, bs1), sink, w, c, bs) \<in> measure (\<lambda>(sink, w, c, bs). 2 * length bs + (if ws_payload_left w = 0 \<and> \<not> ws_header_wanted w then 1 else 0))"
    by auto
next
  fix sink :: "'c sink" and w :: ws_t and c :: 'c and bs n x ok y w1 c1 w2 z closed w3
  assume a: "bs \<noteq> []" "\<not> (ws_payload_left w = 0 \<and> ws_header_wanted w)"
    "n = (if length bs > unat (ws_payload_left w) then unat (ws_payload_left w) else length bs)" "z = ws_frame_done w2" "(closed, w3) = z"
  have "ws_header_wanted w3" using ws_frame_done_wanted [of w2 closed w3] a(4,5) by simp
  moreover have "n \<noteq> 0" if "ws_payload_left w \<noteq> 0" using that a(1,3) by (auto simp: unat_gt_0)
  ultimately show "((sink, w3, c1, drop n bs), sink, w, c, bs) \<in> measure (\<lambda>(sink, w, c, bs). 2 * length bs + (if ws_payload_left w = 0 \<and> \<not> ws_header_wanted w then 1 else 0))"
    using a(1,2) by auto
qed simp

declare ws_loop.simps [simp del]

definition ws_consume :: "'c sink ptr \<Rightarrow> ws_t ptr \<Rightarrow> 'c \<Rightarrow> bytes ptr \<Rightarrow> nat \<Rightarrow> ws_status_t \<times> ws_t ptr \<times> 'c" where
  "ws_consume sink wp c p n =
     (if wp = NULL \<or> (p = NULL \<and> n > 0) \<or> sink = NULL then (WS_ERR_PROTOCOL, wp, c)
      else if ws_stage (the wp) = WS_STAGE_CLOSED then (WS_OK, wp, c)
      else if ws_stage (the wp) \<noteq> WS_STAGE_OPEN then (WS_ERR_PROTOCOL, wp, c)
      else
        let (st, w, c) = ws_loop (the sink) (the wp) c (case p of NULL \<Rightarrow> [] | Some b \<Rightarrow> take n b)
        in (st, Some w, c))"

section \<open>The client\<close>

definition ws_client_request ::
  "(nat \<Rightarrow> bytes \<Rightarrow> int \<times> bytes) \<Rightarrow> (bytes \<Rightarrow> bytes) \<Rightarrow> bytes ptr \<Rightarrow> nat \<Rightarrow> nat ptr \<Rightarrow> bytes ptr \<Rightarrow> bytes ptr \<Rightarrow> bytes ptr \<Rightarrow> bytes ptr \<Rightarrow>
   int \<times> bytes ptr \<times> nat ptr \<times> bytes ptr" where
  "ws_client_request base642bin bin2base64 out cap out_len path state nonce expect =
     (if out = NULL \<or> out_len = NULL \<or> path = NULL \<or> nonce = NULL \<or> expect = NULL then (-1, out, out_len, expect)
      else
        let key = bin2base64 (take 16 (the nonce));
            (rc, exp) = ws_accept_key base642bin bin2base64 (Some key) WS_KEY_B64_LEN
        in if rc \<noteq> 0 then (-1, out, out_len, Some exp)
        else
          let given = (state \<noteq> NULL \<and> the state \<noteq> []);
              s = ascii ''GET '' @ the path @ (if given then ascii ''?state='' else []) @ (if given then the state else []) @ ascii '' HTTP/1.1'' @ CRLF @
                ascii ''Host: authd'' @ CRLF @ ascii ''Upgrade: websocket'' @ CRLF @ ascii ''Connection: Upgrade'' @ CRLF @
                ascii ''Sec-WebSocket-Key: '' @ key @ CRLF @ ascii ''Sec-WebSocket-Version: 13'' @ CRLF @ CRLF;
              n = length s;
              o1 = (if cap = 0 then the out else memcpy (the out) 0 (take (cap - 1) s @ [0]))
          in if n \<ge> cap then (-1, Some o1, out_len, Some exp)
             else (0, Some o1, Some n, Some exp))"

function find_bytes :: "bytes \<Rightarrow> nat \<Rightarrow> bytes \<Rightarrow> nat \<Rightarrow> bool" where
  "find_bytes resp len expect i =
     (if i + length expect \<le> len
      then if bslice resp i (length expect) = expect then True else find_bytes resp len expect (i + 1)
      else False)"
  by pat_completeness auto
termination by (relation "measure (\<lambda>(resp, len, expect, i). Suc len - i)") auto

declare find_bytes.simps [simp del]

definition ws_client_check_101 :: "bytes ptr \<Rightarrow> nat \<Rightarrow> bytes ptr \<Rightarrow> int" where
  "ws_client_check_101 resp len expect =
     (if resp = NULL \<or> expect = NULL \<or> len < 12 then -1
      else if take 12 (the resp) \<noteq> ascii ''HTTP/1.1 101'' then -1
      else if find_bytes (the resp) len (the expect) 0 then 0 else -1)"

definition ws_client_frame :: "bytes ptr \<Rightarrow> nat \<Rightarrow> bytes ptr \<Rightarrow> nat \<Rightarrow> bytes ptr \<Rightarrow> nat \<times> bytes ptr" where
  "ws_client_frame out cap payload n msk =
     (if out = NULL \<or> payload = NULL \<or> msk = NULL then (0, out)
      else
        let (h, hl) = ws_server_header (zeros WS_SRV_HDR_MAX) (of_nat n) WS_OP_BINARY
        in if hl + 4 + n > cap then (0, out)
        else
          let o1 = memcpy (the out) 0 (take hl h);
              o1 = o1[1 := o1 ! 1 OR 0x80];
              o1 = memcpy o1 hl (take 4 (the msk));
              o1 = foldl (\<lambda>o1 i. o1[hl + 4 + i := the payload ! i XOR the msk ! (i mod 4)]) o1 [0..<n]
          in (hl + 4 + n, Some o1))"

text \<open>
  The client's reader loops over control frames; a peer that sends them for ever keeps it in the loop,
  which is \<open>None\<close>.
\<close>

partial_function (option) ws_client_read_loop ::
  "'c reader \<Rightarrow> 'c \<Rightarrow> nat \<Rightarrow> (ws_client_status_t \<times> bytes \<times> nat \<times> 'c) option" where
  "ws_client_read_loop rd c cap =
     (let (first, h, c) = rd c 2
      in if first > 0 then Some (WS_CLIENT_CLOSED, [], 0, c)
      else if first < 0 then Some (WS_CLIENT_IO, [], 0, c)
      else if h ! 0 AND 0x70 \<noteq> 0 then Some (WS_CLIENT_PROTOCOL, [], 0, c)
      else if h ! 1 AND 0x80 \<noteq> 0 then Some (WS_CLIENT_PROTOCOL, [], 0, c)
      else
        let b0 = h ! 0; len7 = h ! 1 AND 0x7f;
            (rc, ext, c) = (if len7 = 126 then rd c 2 else if len7 = 127 then rd c 8 else (0, [], c));
            len = (if len7 = 126 then push_bit 8 (ucast (ext ! 0)) OR ucast (ext ! 1)
                   else if len7 = 127 then foldl (\<lambda>v i. push_bit 8 v OR ucast (ext ! i)) 0 [0..<8]
                   else (ucast len7 :: u64))
        in if rc \<noteq> 0 then Some (WS_CLIENT_IO, [], 0, c)
        else if len7 = 127 \<and> drop_bit 63 len \<noteq> 0 then Some (WS_CLIENT_PROTOCOL, [], 0, c)
        else
          let op = b0 AND 0x0f
          in if op = WS_OP_CLOSE then Some (WS_CLIENT_CLOSED, [], 0, c)
          else if op = WS_OP_PING \<or> op = WS_OP_PONG
          then if unat len > WS_CTRL_MAX then Some (WS_CLIENT_PROTOCOL, [], 0, c)
            else
              let (rc, drain, c) = (if len > 0 then rd c (unat len) else (0, [], c))
              in if rc \<noteq> 0 then Some (WS_CLIENT_IO, [], 0, c) else ws_client_read_loop rd c cap
          else if op \<noteq> WS_OP_BINARY \<or> b0 AND 0x80 = 0 then Some (WS_CLIENT_PROTOCOL, [], 0, c)
          else if unat len > cap then Some (WS_CLIENT_PROTOCOL, [], 0, c)
          else
            let (rc, data, c) = (if len > 0 then rd c (unat len) else (0, [], c))
            in if rc \<noteq> 0 then Some (WS_CLIENT_IO, data, 0, c)
               else Some (WS_CLIENT_OK, data, unat len, c))"

definition ws_client_read_message ::
  "'c reader ptr \<Rightarrow> 'c \<Rightarrow> bytes ptr \<Rightarrow> nat \<Rightarrow> nat ptr \<Rightarrow> (ws_client_status_t \<times> bytes ptr \<times> nat ptr \<times> 'c) option" where
  "ws_client_read_message rd c out cap out_len =
     (if rd = NULL \<or> out = NULL \<or> out_len = NULL then Some (WS_CLIENT_PROTOCOL, out, out_len, c)
      else (case ws_client_read_loop (the rd) c cap of
              None \<Rightarrow> None
            | Some (st, data, n, c) \<Rightarrow> Some (st, Some (memcpy (the out) 0 data), Some n, c)))"

end
