(* ===== verification/Ws_Safety.thy ===== *)
theory Ws_Safety
  imports Ws Interfaces
begin

text \<open>
  The frame decoder of \<open>ws.c\<close> as a machine that reads one byte at a time. For a sink that takes its
  bytes in any pieces the decoder is that machine, so the way the network cuts the stream does not
  matter; and what the client's and the server's encoders write, the decoders of the other side read.
\<close>

section \<open>Payload\<close>

text \<open>A sink is additive if two calls in a row do what one call with both pieces does.\<close>

definition additive :: "'c sink \<Rightarrow> bool" where
  "additive sink \<longleftrightarrow> (\<forall>c x y. x \<noteq> [] \<longrightarrow> y \<noteq> [] \<longrightarrow>
     (fst (sink c (x @ y)) = 0 \<longleftrightarrow> fst (sink c x) = 0 \<and> fst (sink (snd (sink c x)) y) = 0) \<and>
     (fst (sink c (x @ y)) = 0 \<longrightarrow> snd (sink c (x @ y)) = snd (sink (snd (sink c x)) y)))"

lemma additiveD:
  assumes "additive sink" "x \<noteq> []" "y \<noteq> []"
  shows "fst (sink c (x @ y)) = 0 \<longleftrightarrow> fst (sink c x) = 0 \<and> fst (sink (snd (sink c x)) y) = 0"
    "fst (sink c (x @ y)) = 0 \<Longrightarrow> snd (sink c (x @ y)) = snd (sink (snd (sink c x)) y)"
  using assms by (simp_all add: additive_def)

lemma length_ws_unmask [simp]: "length (ws_unmask m off p) = length p"
  by (simp add: ws_unmask_def)

lemma ws_unmask_append: "ws_unmask m off (x @ y) = ws_unmask m off x @ ws_unmask m ((off + length x) mod 4) y"
proof (rule nth_equalityI)
  fix i assume i: "i < length (ws_unmask m off (x @ y))"
  show "ws_unmask m off (x @ y) ! i = (ws_unmask m off x @ ws_unmask m ((off + length x) mod 4) y) ! i"
  proof (cases "i < length x")
    case False
    then obtain j where j: "i = length x + j" by (metis le_Suc_ex not_less)
    have "((off + length x) mod 4 + j) mod 4 = (off + length x + j) mod 4" by (rule mod_add_left_eq)
    with i j show ?thesis by (simp add: ws_unmask_def nth_append add.assoc del: upt_Suc)
  qed (use i in \<open>simp add: ws_unmask_def nth_append\<close>)
qed simp

text \<open>All the payload at hand in one step.\<close>

definition payload_all :: "'c sink \<Rightarrow> ws_t \<Rightarrow> 'c \<Rightarrow> bytes \<Rightarrow> (ws_t \<times> 'c) option" where
  "payload_all sink w c p =
     (if p = [] then Some (w, c)
      else
        let tmp = ws_unmask (ws_mask w) (ws_mask_off w) p; w = w\<lparr>ws_mask_off := (ws_mask_off w + length p) mod 4\<rparr>
        in if ws_is_control w
           then if ws_ctrl_len w + length p > 125 then None
             else Some (w\<lparr>ws_ctrl := memcpy (ws_ctrl w) (ws_ctrl_len w) tmp, ws_ctrl_len := ws_ctrl_len w + length p\<rparr>, c)
           else if fst (sink c tmp) \<noteq> 0 then None else Some (w, snd (sink c tmp)))"

lemma payload_all_nil [simp]: "payload_all sink w c [] = Some (w, c)"
  by (simp add: payload_all_def)

lemma payload_all_append:
  assumes "additive sink" "length (ws_ctrl w) = 125"
  shows "payload_all sink w c (x @ y) = (case payload_all sink w c x of None \<Rightarrow> None | Some (w, c) \<Rightarrow> payload_all sink w c y)"
proof (cases "x = [] \<or> y = []")
  case True
  then show ?thesis by (auto split: option.splits)
next
  case False
  let ?X = "ws_unmask (ws_mask w) (ws_mask_off w) x" and ?Y = "ws_unmask (ws_mask w) ((ws_mask_off w + length x) mod 4) y"
  have ne: "?X \<noteq> []" "?Y \<noteq> []" using False by (metis length_0_conv length_ws_unmask)+
  note a = additiveD [OF assms(1) ne, of c]
  show ?thesis
  proof (cases "ws_is_control w")
    case True
    have "memcpy (memcpy (ws_ctrl w) (ws_ctrl_len w) ?X) (ws_ctrl_len w + length x) ?Y = memcpy (ws_ctrl w) (ws_ctrl_len w) (?X @ ?Y)"
      if "ws_ctrl_len w + length x \<le> 125" using that assms(2) by (simp add: memcpy_append)
    with True False show ?thesis by (simp add: payload_all_def Let_def ws_unmask_append add.assoc mod_add_left_eq)
  next
    case c: False
    with False a show ?thesis by (simp add: payload_all_def Let_def ws_unmask_append add.assoc mod_add_left_eq)
  qed
qed

definition outcome_of_payload :: "bool \<times> ws_t \<times> 'c \<Rightarrow> (ws_t \<times> 'c) option" where
  "outcome_of_payload x = (case x of (ok, w, c) \<Rightarrow> if ok then Some (w, c) else None)"

lemma ws_payload_loop_step:
  assumes "p \<noteq> []" and k: "k = (if length p > 512 then 512 else length p)"
  shows "outcome_of_payload (ws_payload_loop sink w c p) =
    (case payload_all sink w c (take k p) of None \<Rightarrow> None
     | Some (w, c) \<Rightarrow> outcome_of_payload (ws_payload_loop sink w c (drop k p)))"
proof -
  have t: "take k p \<noteq> []" "length (take k p) = k" using assms by auto
  show ?thesis
    unfolding ws_payload_loop.simps [of sink w c p] k [symmetric] Let_def payload_all_def t(2)
    using assms(1) t(1) by (simp add: outcome_of_payload_def split_beta)
qed

lemma ws_payload_loop_all:
  assumes "additive sink"
  shows "length (ws_ctrl w) = 125 \<Longrightarrow> outcome_of_payload (ws_payload_loop sink w c p) = payload_all sink w c p"
proof (induction "length p" arbitrary: w c p rule: less_induct)
  case less
  show ?case
  proof (cases "p = []")
    case True
    then show ?thesis by (subst ws_payload_loop.simps) (simp add: outcome_of_payload_def)
  next
    case False
    define k where "k = (if length p > 512 then 512 else length p)"
    have k: "take k p @ drop k p = p" "length (drop k p) < length p" using False by (auto simp: k_def)
    have "payload_all sink w c (take k p) = Some (w', c') \<Longrightarrow> length (ws_ctrl w') = 125" for w' c'
      using less.prems by (auto simp: payload_all_def Let_def split: if_splits)
    then show ?thesis
      using payload_all_append [OF assms less.prems, of c "take k p" "drop k p"] k less.hyps
      by (auto simp: ws_payload_loop_step [OF False k_def] split: option.splits)
  qed
qed

section \<open>The decoder reads a byte at a time\<close>

definition ws_outcome :: "ws_status_t \<times> ws_t \<times> 'c \<Rightarrow> (ws_t \<times> 'c) option" where
  "ws_outcome x = (case x of (st, w, c) \<Rightarrow> if st = WS_ERR_PROTOCOL then None else Some (w, c))"

lemma ws_outcome_simps [simp]:
  "ws_outcome (WS_ERR_PROTOCOL, w, c) = None" "ws_outcome (WS_OK, w, c) = Some (w, c)" "ws_outcome (WS_NEED_MORE, w, c) = Some (w, c)"
  by (simp_all add: ws_outcome_def)

lemma ws_loop_nil [simp]: "ws_loop sink w c [] = (WS_NEED_MORE, w, c)"
  by (simp add: ws_loop.simps)

text \<open>The end of a frame, then the rest of the input.\<close>

definition ws_after_frame :: "'c sink \<Rightarrow> ws_t \<Rightarrow> 'c \<Rightarrow> bytes \<Rightarrow> (ws_t \<times> 'c) option" where
  "ws_after_frame sink w c bs =
     (case ws_frame_done w of (closed, w) \<Rightarrow> if closed then Some (w, c) else ws_outcome (ws_loop sink w c bs))"

lemma ws_header_byte_left: "ws_header_byte w b = (ok, w') \<Longrightarrow> ws_payload_left w' = ws_payload_left w"
  by (auto simp: ws_header_byte_def Let_def split: if_splits)

lemma ws_header_loop_stop: "\<not> ws_header_wanted w \<Longrightarrow> ws_header_loop w bs = (True, w, bs)"
  by (cases bs) simp_all

lemma ws_loop_header:
  assumes "ws_payload_left w = 0" "ws_header_wanted w" and h: "ws_header_byte w b = (ok, w1)"
  shows "ws_outcome (ws_loop sink w c (b # bs)) =
    (if \<not> ok then None
     else if ws_header_wanted w1 then ws_outcome (ws_loop sink w1 c bs)
     else (case ws_header_done w1 of (ok, w2) \<Rightarrow>
       if \<not> ok then None
       else if ws_payload_left w2 = 0 then ws_after_frame sink w2 c bs
       else ws_outcome (ws_loop sink w2 c bs)))"
proof (cases "ok \<and> ws_header_wanted w1")
  case True
  have "ws_payload_left w1 = 0" using h assms(1) by (simp add: ws_header_byte_left)
  with True assms show ?thesis
    by (cases bs) (simp_all add: ws_loop.simps [of sink w c "b # bs" for bs] ws_loop.simps [of sink w1 c "b' # bs'" for b' bs'])
next
  case False
  with assms show ?thesis
    by (auto simp: ws_loop.simps [of sink w c "b # bs"] ws_header_loop_stop ws_after_frame_def split: prod.split)
qed

lemma ws_loop_payload:
  assumes "additive sink" "length (ws_ctrl w) = 125" "ws_payload_left w \<noteq> 0" "bs \<noteq> []"
    and n: "n = min (length bs) (unat (ws_payload_left w))"
  shows "ws_outcome (ws_loop sink w c bs) =
    (case payload_all sink w c (take n bs) of None \<Rightarrow> None
     | Some (w1, c1) \<Rightarrow>
       let w1 = w1\<lparr>ws_payload_left := ws_payload_left w - of_nat n\<rparr>
       in if ws_payload_left w1 \<noteq> 0 then Some (w1, c1) else ws_after_frame sink w1 c1 (drop n bs))"
proof -
  have n': "(if length bs > unat (ws_payload_left w) then unat (ws_payload_left w) else length bs) = n" using n by simp
  obtain ok w1 c1 where l: "ws_payload_loop sink w c (take n bs) = (ok, w1, c1)" using prod_cases3 by blast
  have o: "payload_all sink w c (take n bs) = (if ok then Some (w1, c1) else None)"
    using ws_payload_loop_all [OF assms(1,2), of c "take n bs"] l by (simp add: outcome_of_payload_def)
  show ?thesis
    unfolding ws_loop.simps [of sink w c bs] n'
    using assms(3,4) l o by (simp add: Let_def ws_after_frame_def split_beta)
qed

lemma payload_all_left:
  "payload_all sink (w\<lparr>ws_payload_left := v\<rparr>) c p = map_option (\<lambda>(w, c). (w\<lparr>ws_payload_left := v\<rparr>, c)) (payload_all sink w c p)"
  by (simp add: payload_all_def Let_def)

lemma payload_all_keeps:
  assumes "payload_all sink w c p = Some (w', c')" "length (ws_ctrl w) = 125"
  shows "length (ws_ctrl w') = 125" "ws_payload_left w' = ws_payload_left w" "ws_stage w' = ws_stage w"
  using assms by (auto simp: payload_all_def Let_def split: if_splits)

lemma ws_loop_payload_byte:
  assumes add: "additive sink" and len: "length (ws_ctrl w) = 125" and left: "ws_payload_left w \<noteq> 0"
  shows "ws_outcome (ws_loop sink w c (b # bs)) =
    (case payload_all sink w c [b] of None \<Rightarrow> None
     | Some (w1, c1) \<Rightarrow>
       let w1 = w1\<lparr>ws_payload_left := ws_payload_left w - 1\<rparr>
       in if ws_payload_left w1 = 0 then ws_after_frame sink w1 c1 bs else ws_outcome (ws_loop sink w1 c1 bs))"
proof -
  define l where "l = ws_payload_left w"
  define m where "m = min (length bs) (unat (l - 1))"
  have u: "unat l = Suc (unat (l - 1))" using left unat_minus_one [of l] by (simp add: l_def unat_gt_0)
  have n: "Suc m = min (length (b # bs)) (unat l)" by (simp add: m_def u)
  have app: "payload_all sink w c (take (Suc m) (b # bs)) = Option.bind (payload_all sink w c [b]) (\<lambda>(w, c). payload_all sink w c (take m bs))"
    using payload_all_append [OF add len, of c "[b]" "take m bs"] by (cases "payload_all sink w c [b]") simp_all
  have whole: "ws_outcome (ws_loop sink w c (b # bs)) =
    (case Option.bind (payload_all sink w c [b]) (\<lambda>(w, c). payload_all sink w c (take m bs)) of None \<Rightarrow> None
     | Some (w1, c1) \<Rightarrow> let w1 = w1\<lparr>ws_payload_left := l - of_nat (Suc m)\<rparr>
       in if ws_payload_left w1 \<noteq> 0 then Some (w1, c1) else ws_after_frame sink w1 c1 (drop m bs))"
    using ws_loop_payload [OF add len left _ n [unfolded l_def], of c] unfolding app l_def [symmetric] drop_Suc_Cons by simp
  show ?thesis
  proof (cases "payload_all sink w c [b]")
    case None
    then show ?thesis using whole by simp
  next
    case (Some r)
    obtain w1 c1 where r: "r = (w1, c1)" by force
    note p = Some [unfolded r]
    define w2 where "w2 = w1\<lparr>ws_payload_left := l - 1\<rparr>"
    have len2: "length (ws_ctrl w2) = 125" using payload_all_keeps(1) [OF p len] by (simp add: w2_def)
    show ?thesis
    proof (cases "m = 0")
      case True
      then have "l = 1 \<or> bs = []" by (auto simp: m_def min_def unat_eq_0 split: if_splits)
      with True show ?thesis using whole p by (auto simp: Let_def l_def [symmetric])
    next
      case False
      have ne: "l - 1 \<noteq> 0" "bs \<noteq> []" using False by (auto simp: m_def)
      have l2: "ws_payload_left w2 = l - 1" by (simp add: w2_def)
      have step: "ws_outcome (ws_loop sink w2 c1 bs) =
        (case payload_all sink w2 c1 (take m bs) of None \<Rightarrow> None
         | Some (w3, c3) \<Rightarrow> let w3 = w3\<lparr>ws_payload_left := l - 1 - of_nat m\<rparr>
           in if ws_payload_left w3 \<noteq> 0 then Some (w3, c3) else ws_after_frame sink w3 c3 (drop m bs))"
        using ws_loop_payload [OF add len2 _ ne(2) m_def [folded l2], of c1] ne(1) unfolding l2 by blast
      have "payload_all sink w2 c1 (take m bs) = map_option (\<lambda>(w, c). (w\<lparr>ws_payload_left := l - 1\<rparr>, c)) (payload_all sink w1 c1 (take m bs))"
        by (simp add: w2_def payload_all_left)
      with step whole p ne(1) show ?thesis
        by (auto simp: Let_def w2_def l_def [symmetric] diff_diff_eq split: option.splits)
    qed
  qed
qed

text \<open>
  The reference decoder: what one more byte of the stream does to the state and to the sink's context.
  \<open>None\<close> is a protocol error.
\<close>

definition ws_byte :: "'c sink \<Rightarrow> ws_t \<times> 'c \<Rightarrow> byte \<Rightarrow> (ws_t \<times> 'c) option" where
  "ws_byte sink s b = (case s of (w, c) \<Rightarrow>
     if ws_stage w = WS_STAGE_CLOSED then Some (w, c)
     else if ws_payload_left w = 0
     then (case ws_header_byte w b of (ok, w1) \<Rightarrow>
       if \<not> ok then None
       else if ws_header_wanted w1 then Some (w1, c)
       else (case ws_header_done w1 of (ok, w2) \<Rightarrow>
         if \<not> ok then None
         else Some (if ws_payload_left w2 = 0 then snd (ws_frame_done w2) else w2, c)))
     else (case payload_all sink w c [b] of
       None \<Rightarrow> None
     | Some (w1, c1) \<Rightarrow>
       let w1 = w1\<lparr>ws_payload_left := ws_payload_left w - 1\<rparr>
       in Some (if ws_payload_left w1 = 0 then snd (ws_frame_done w1) else w1, c1)))"

text \<open>The bounds of the buffers, which hold at every moment, and where the decoder is between two bytes.\<close>

definition ws_bounds :: "ws_t \<Rightarrow> bool" where
  "ws_bounds w \<longleftrightarrow> length (ws_state w) = 64 \<and> ws_state_len w \<le> 64 \<and> length (ws_hdr w) = 14 \<and> ws_hdr_len w \<le> 14 \<and>
     length (ws_mask w) = 4 \<and> length (ws_ctrl w) = 125 \<and> ws_ctrl_len w \<le> 125 \<and>
     length (ws_reply w) = 135 \<and> ws_reply_len w \<le> 135 \<and> ws_reply_sent w \<le> ws_reply_len w"

definition ws_sync :: "ws_t \<Rightarrow> bool" where
  "ws_sync w \<longleftrightarrow> ws_stage w \<noteq> WS_STAGE_UPGRADE \<and> (ws_payload_left w = 0 \<longrightarrow> ws_header_wanted w)"

lemma length_ws_server_header [simp]: "length (fst (ws_server_header out n opc)) = length out"
  by (simp add: ws_server_header_def Let_def upt_rec)

lemma ws_server_header_short: "n < 126 \<Longrightarrow> snd (ws_server_header out n opc) = 2"
  by (simp add: ws_server_header_def Let_def)

lemma queue_ctrl_bounds:
  assumes "ws_bounds w" "length p = 125"
  shows "ws_bounds (queue_ctrl w opc p n)"
proof -
  define k where "k = (if n > 125 then 125 else n)"
  have k: "k \<le> 125" by (simp add: k_def)
  then have "(of_nat k :: u64) < 126" by (simp add: word_less_nat_alt unat_of_nat)
  then obtain r where r: "ws_server_header (ws_reply w) (of_nat k) opc = (r, 2)" "length r = 135"
    using ws_server_header_short [of "of_nat k" "ws_reply w" opc] length_ws_server_header [of "ws_reply w" "of_nat k" opc] assms(1)
    by (cases "ws_server_header (ws_reply w) (of_nat k) opc") (simp add: ws_bounds_def)
  then show ?thesis using assms k by (simp add: queue_ctrl_def k_def [symmetric] ws_bounds_def)
qed

lemma ws_bounds_upd [simp]:
  "ws_bounds (w\<lparr>ws_payload_left := v\<rparr>) = ws_bounds w" "ws_bounds (w\<lparr>ws_stage := st\<rparr>) = ws_bounds w"
  "ws_bounds (w\<lparr>ws_hdr_need := n\<rparr>) = ws_bounds w" "ws_bounds (w\<lparr>ws_opcode := opc\<rparr>) = ws_bounds w"
  "ws_bounds (w\<lparr>ws_is_control := x\<rparr>) = ws_bounds w" "ws_bounds (w\<lparr>ws_in_message := x\<rparr>) = ws_bounds w"
  "ws_bounds (w\<lparr>ws_mask_off := n\<rparr>) = ws_bounds w"
  by (simp_all add: ws_bounds_def)

lemma ws_bounds_len [simp]:
  "ws_bounds w \<Longrightarrow> k \<le> 14 \<Longrightarrow> ws_bounds (w\<lparr>ws_hdr_len := k\<rparr>)" "ws_bounds w \<Longrightarrow> k \<le> 125 \<Longrightarrow> ws_bounds (w\<lparr>ws_ctrl_len := k\<rparr>)"
  "ws_bounds w \<Longrightarrow> length m = 4 \<Longrightarrow> ws_bounds (w\<lparr>ws_mask := m\<rparr>)"
  "ws_bounds w \<Longrightarrow> ws_bounds (w\<lparr>ws_hdr := (ws_hdr w)[i := b]\<rparr>)"
  by (simp_all add: ws_bounds_def)

lemma ws_header_byte_bounds: "ws_bounds w \<Longrightarrow> ws_header_byte w b = (ok, w') \<Longrightarrow> ws_bounds w'"
  unfolding ws_header_byte_def Let_def by (simp split: if_split_asm) (auto)

lemma ws_header_loop_bounds: "ws_header_loop w bs = (ok, w', r) \<Longrightarrow> ws_bounds w \<Longrightarrow> ws_bounds w'"
proof (induction w bs rule: ws_header_loop.induct)
  case (2 w b bs)
  then show ?case by (cases "ws_header_byte w b") (auto dest: ws_header_byte_bounds split: if_splits)
qed simp

lemma ws_header_done_bounds: "ws_bounds w \<Longrightarrow> ws_header_done w = (ok, w') \<Longrightarrow> ws_bounds w'"
  by (auto simp: ws_header_done_def Let_def ws_bounds_def [of w] split: if_splits)

lemma ws_frame_done_bounds: "ws_bounds w \<Longrightarrow> ws_bounds (snd (ws_frame_done w))"
  using queue_ctrl_bounds [of w "ws_ctrl w"]
  by (simp add: ws_frame_done_def Let_def ws_bounds_def [of w])

lemma payload_all_bounds: "payload_all sink w c p = Some (w', c') \<Longrightarrow> ws_bounds w \<Longrightarrow> ws_bounds w'"
  by (auto simp: payload_all_def Let_def ws_bounds_def split: if_splits)

lemma ws_header_byte_stage: "ws_header_byte w b = (ok, w') \<Longrightarrow> ws_stage w' = ws_stage w"
  by (auto simp: ws_header_byte_def Let_def split: if_splits)

lemma ws_header_done_stage: "ws_header_done w = (ok, w') \<Longrightarrow> ws_stage w' = ws_stage w"
  by (auto simp: ws_header_done_def Let_def split: if_splits)

lemma queue_ctrl_stage [simp]: "ws_stage (queue_ctrl w opc p n) = ws_stage w"
  by (simp add: queue_ctrl_def Let_def split_beta)

lemma ws_frame_done_stage:
  "ws_frame_done w = (closed, w') \<Longrightarrow> ws_stage w = WS_STAGE_OPEN \<Longrightarrow> ws_stage w' = (if closed then WS_STAGE_CLOSED else WS_STAGE_OPEN)"
  by (auto simp: ws_frame_done_def Let_def split: if_splits)

lemma feeds_closed: "ws_stage w = WS_STAGE_CLOSED \<Longrightarrow> feeds (ws_byte sink) (w, c) bs = Some (w, c)"
  by (induction bs) (simp_all add: ws_byte_def)

lemma ws_after_frame_bytes:
  assumes "ws_stage w = WS_STAGE_OPEN" "ws_bounds w"
    and ih: "\<And>w. ws_stage w = WS_STAGE_OPEN \<Longrightarrow> ws_bounds w \<Longrightarrow> ws_sync w \<Longrightarrow> ws_outcome (ws_loop sink w c bs) = feeds (ws_byte sink) (w, c) bs"
  shows "ws_after_frame sink w c bs = feeds (ws_byte sink) (snd (ws_frame_done w), c) bs"
proof -
  obtain closed w' where f: "ws_frame_done w = (closed, w')" by force
  have st: "ws_stage w' = (if closed then WS_STAGE_CLOSED else WS_STAGE_OPEN)" using f assms(1) by (rule ws_frame_done_stage)
  have "ws_bounds w'" using ws_frame_done_bounds [OF assms(2)] f by simp
  moreover have "ws_sync w'" using st ws_frame_done_wanted [OF f] by (simp add: ws_sync_def)
  ultimately show ?thesis using f st ih [of w'] by (simp add: ws_after_frame_def feeds_closed)
qed

lemma ws_loop_bytes:
  assumes "additive sink"
  shows "ws_stage w = WS_STAGE_OPEN \<Longrightarrow> ws_bounds w \<Longrightarrow> ws_sync w \<Longrightarrow>
    ws_outcome (ws_loop sink w c bs) = feeds (ws_byte sink) (w, c) bs"
proof (induction bs arbitrary: w c)
  case (Cons b bs)
  show ?case
  proof (cases "ws_payload_left w = 0")
    case True
    obtain ok w1 where h: "ws_header_byte w b = (ok, w1)" by force
    obtain ok2 w2 where d: "ws_header_done w1 = (ok2, w2)" by force
    have wanted: "ws_header_wanted w" using True Cons.prems by (simp add: ws_sync_def)
    have 1: "ws_stage w1 = WS_STAGE_OPEN" "ws_bounds w1" "ws_header_wanted w1 \<Longrightarrow> ws_sync w1"
      using ws_header_byte_stage [OF h] ws_header_byte_bounds [OF _ h] Cons.prems by (simp_all add: ws_sync_def)
    have 2: "ws_stage w2 = WS_STAGE_OPEN" "ws_bounds w2" "ws_payload_left w2 \<noteq> 0 \<Longrightarrow> ws_sync w2"
      using ws_header_done_stage [OF d] ws_header_done_bounds [OF 1(2) d] 1(1) by (simp_all add: ws_sync_def)
    show ?thesis
      unfolding ws_loop_header [OF True wanted h]
      using Cons.IH [OF 1(1,2)] Cons.IH [OF 2(1,2)] 1(3) 2(3) ws_after_frame_bytes [OF 2(1,2) Cons.IH] True d Cons.prems(1) h
      by (simp add: ws_byte_def [of sink "(w, c)" b])
  next
    case False
    have len: "length (ws_ctrl w) = 125" using Cons.prems by (simp add: ws_bounds_def)
    show ?thesis
    proof (cases "payload_all sink w c [b]")
      case None
      then show ?thesis unfolding ws_loop_payload_byte [OF assms len False] using False Cons.prems(1) by (simp add: ws_byte_def [of sink "(w, c)" b])
    next
      case (Some r)
      obtain w1 c1 where r: "r = (w1, c1)" by force
      define w2 where "w2 = w1\<lparr>ws_payload_left := ws_payload_left w - 1\<rparr>"
      note keeps = payload_all_keeps [OF Some [unfolded r] len] payload_all_bounds [OF Some [unfolded r] Cons.prems(2)]
      have 2: "ws_stage w2 = WS_STAGE_OPEN" "ws_bounds w2" "ws_payload_left w2 \<noteq> 0 \<Longrightarrow> ws_sync w2"
        using keeps Cons.prems(1) by (simp_all add: w2_def ws_sync_def)
      have step: "ws_byte sink (w, c) b = Some (if ws_payload_left w2 = 0 then snd (ws_frame_done w2) else w2, c1)"
        using False Cons.prems(1) Some r by (simp add: ws_byte_def w2_def Let_def)
      show ?thesis
        unfolding ws_loop_payload_byte [OF assms len False] Some r option.case prod.case Let_def w2_def [symmetric]
        using Cons.IH [OF 2(1,2)] 2(3) ws_after_frame_bytes [OF 2(1,2) Cons.IH] step by simp
    qed
  qed
qed simp

lemma ws_byte_inv:
  assumes "ws_bounds w" "ws_sync w" "ws_byte sink (w, c) b = Some (w', c')"
  shows "ws_bounds w' \<and> ws_sync w'"
proof (cases "ws_stage w = WS_STAGE_CLOSED")
  case live: False
  then have st: "ws_stage w = WS_STAGE_OPEN" using assms(2) by (cases "ws_stage w") (simp_all add: ws_sync_def)
  have fin: "ws_bounds (snd (ws_frame_done v)) \<and> ws_sync (snd (ws_frame_done v))" if "ws_stage v = WS_STAGE_OPEN" "ws_bounds v" for v
    using ws_frame_done_bounds [OF that(2)] ws_frame_done_stage [of v] ws_frame_done_wanted [of v] that(1)
    by (cases "ws_frame_done v") (simp add: ws_sync_def split: if_splits)
  show ?thesis
  proof (cases "ws_payload_left w = 0")
    case True
    obtain ok w1 where h: "ws_header_byte w b = (ok, w1)" by force
    obtain ok2 w2 where d: "ws_header_done w1 = (ok2, w2)" by force
    note keeps = ws_header_byte_stage [OF h] ws_header_byte_bounds [OF assms(1) h] ws_header_done_stage [OF d] ws_header_done_bounds [OF _ d]
    show ?thesis using assms(3) True live h d keeps st fin [of w2] by (auto simp: ws_byte_def ws_sync_def split: if_splits)
  next
    case False
    then obtain w1 c1 where p: "payload_all sink w c [b] = Some (w1, c1)" using assms(3) live by (auto simp: ws_byte_def split: option.splits)
    have len: "length (ws_ctrl w) = 125" using assms(1) by (simp add: ws_bounds_def)
    show ?thesis
      using assms(3) False live p payload_all_keeps [OF p len] payload_all_bounds [OF p assms(1)] st
        fin [of "w1\<lparr>ws_payload_left := ws_payload_left w - 1\<rparr>"]
      by (auto simp: ws_byte_def Let_def ws_sync_def split: if_splits)
  qed
qed (use assms in \<open>simp add: ws_byte_def\<close>)

section \<open>Any cut of the stream\<close>

definition ws_run :: "'c sink \<Rightarrow> ws_t \<times> 'c \<Rightarrow> bytes \<Rightarrow> (ws_t \<times> 'c) option" where
  "ws_run sink s d = (case s of (w, c) \<Rightarrow> case ws_consume (Some sink) (Some w) c (Some d) (length d) of
     (st, wp, c') \<Rightarrow> if st = WS_ERR_PROTOCOL then None else Some (the wp, c'))"

lemma ws_run_bytes:
  assumes "additive sink" "ws_bounds w" "ws_sync w"
  shows "ws_run sink (w, c) d = feeds (ws_byte sink) (w, c) d"
proof (cases "ws_stage w = WS_STAGE_CLOSED")
  case True
  then show ?thesis by (simp add: ws_run_def ws_consume_def feeds_closed)
next
  case False
  then have st: "ws_stage w = WS_STAGE_OPEN" using assms(3) by (cases "ws_stage w") (simp_all add: ws_sync_def)
  then show ?thesis using ws_loop_bytes [OF assms(1) st assms(2,3), of c d]
    by (cases "ws_loop sink w c d") (simp add: ws_run_def ws_consume_def ws_outcome_def split: if_splits)
qed

lemma ws_bytes_inv: "feeds (ws_byte sink) (w, c) bs = Some (w', c') \<Longrightarrow> ws_bounds w \<Longrightarrow> ws_sync w \<Longrightarrow> ws_bounds w' \<and> ws_sync w'"
  by (induction bs arbitrary: w c) (auto split: Option.bind_splits dest: ws_byte_inv)

definition ws_fits :: "'c sink \<Rightarrow> ws_t \<times> 'c \<Rightarrow> bytes \<Rightarrow> bool" where
  "ws_fits sink s d \<longleftrightarrow> additive sink \<and> ws_bounds (fst s) \<and> ws_sync (fst s)"

interpretation ws: stream_machine "ws_run sink" "ws_fits sink"
proof unfold_locales
  fix s :: "ws_t \<times> 'a" and x y s'
  obtain w c where s: "s = (w, c)" by force
  show "ws_run sink s [] = Some s" if "ws_fits sink s []"
    using that by (simp add: s ws_fits_def ws_run_bytes)
  assume f: "ws_fits sink s (x @ y)"
  then have b: "ws_run sink s d = feeds (ws_byte sink) (w, c) d" for d by (simp add: s ws_fits_def ws_run_bytes)
  have ok: "ws_fits sink t z" if "feeds (ws_byte sink) (w, c) x = Some t" for t z
    using that f ws_bytes_inv [of sink w c x "fst t" "snd t"] by (simp add: ws_fits_def s)
  then show "ws_fits sink s' y" if "ws_run sink s x = Some s'" using that b by simp
  show "ws_run sink s (x @ y) = Option.bind (ws_run sink s x) (\<lambda>s. ws_run sink s y)"
  proof (cases "feeds (ws_byte sink) (w, c) x")
    case (Some t)
    then show ?thesis using ok [OF Some] by (cases t) (simp add: b feeds_append ws_fits_def ws_run_bytes)
  qed (simp add: b feeds_append)
qed

section \<open>Frames of RFC 6455\<close>

text \<open>An unfragmented frame: the header, the key if there is one, and the payload under the key.\<close>

definition ws_len_bytes :: "nat \<Rightarrow> bytes" where
  "ws_len_bytes n =
     (if n < 126 then [of_nat n]
      else if n \<le> 0xffff then 126 # store_be 2 (of_nat n :: u64)
      else 127 # store_be 8 (of_nat n :: u64))"

definition ws_frame_header :: "byte \<Rightarrow> bytes option \<Rightarrow> nat \<Rightarrow> bytes" where
  "ws_frame_header opc key n =
     (case key of
        None \<Rightarrow> (0x80 OR opc) # ws_len_bytes n
      | Some m \<Rightarrow> (0x80 OR opc) # (hd (ws_len_bytes n) OR 0x80) # tl (ws_len_bytes n) @ m)"

definition ws_key_bytes :: "bytes option \<Rightarrow> bytes" where
  "ws_key_bytes key = (case key of None \<Rightarrow> zeros 4 | Some m \<Rightarrow> m)"

definition ws_frame_bytes :: "byte \<Rightarrow> bytes option \<Rightarrow> bytes \<Rightarrow> bytes" where
  "ws_frame_bytes opc key p = ws_frame_header opc key (length p) @ ws_unmask (ws_key_bytes key) 0 p"

lemma ws_unmask_twice: "ws_unmask m k (ws_unmask m k p) = p"
  by (rule nth_equalityI) (simp_all add: ws_unmask_def xor.assoc)

lemma ws_unmask_zeros: "ws_unmask (zeros 4) k p = p"
  by (rule nth_equalityI) (simp_all add: ws_unmask_def zeros_def)

lemma two_bytes: "v \<le> (0xffff :: u64) \<Longrightarrow> push_bit 8 (ucast (ucast (drop_bit 8 v) :: byte)) OR ucast (ucast v :: byte) = v"
proof -
  assume "v \<le> 0xffff"
  then have "unat v < 2 ^ 16" by (simp add: word_le_nat_alt)
  then have "unat (take_bit 16 v) = unat v" unfolding unsigned_take_bit_eq by (rule take_bit_nat_eq_self)
  then have v: "take_bit 16 v = v" by (rule unsigned_word_eqI)
  have "push_bit 8 (ucast (ucast (drop_bit 8 (take_bit 16 v)) :: byte)) OR ucast (ucast (take_bit 16 v) :: byte) = take_bit 16 v"
    by (rule bit_word_eqI) (auto simp: bit_simps)
  then show ?thesis by (simp add: v)
qed

text \<open>The end of a header, and the header byte by byte.\<close>

definition ws_header_end :: "ws_t \<Rightarrow> 'c \<Rightarrow> (ws_t \<times> 'c) option" where
  "ws_header_end w c =
     (case ws_header_done w of (ok, w2) \<Rightarrow>
        if \<not> ok then None else Some (if ws_payload_left w2 = 0 then snd (ws_frame_done w2) else w2, c))"

definition ws_ready :: "ws_t \<Rightarrow> bool" where
  "ws_ready w \<longleftrightarrow> ws_bounds w \<and> ws_stage w = WS_STAGE_OPEN \<and> ws_hdr_len w = 0 \<and> ws_hdr_need w = 0 \<and> ws_payload_left w = 0"

lemma ws_header_rest:
  "ws_stage w = WS_STAGE_OPEN \<Longrightarrow> ws_payload_left w = 0 \<Longrightarrow> length (ws_hdr w) = 14 \<Longrightarrow> 2 \<le> ws_hdr_len w \<Longrightarrow> r \<noteq> [] \<Longrightarrow>
   ws_hdr_len w + length r = ws_hdr_need w \<Longrightarrow> ws_hdr_need w \<le> 14 \<Longrightarrow>
   feeds (ws_byte sink) (w, c) r = ws_header_end (w\<lparr>ws_hdr := memcpy (ws_hdr w) (ws_hdr_len w) r, ws_hdr_len := ws_hdr_need w\<rparr>) c"
proof (induction r arbitrary: w)
  case (Cons b r)
  define w1 where "w1 = w\<lparr>ws_hdr := (ws_hdr w)[ws_hdr_len w := b], ws_hdr_len := ws_hdr_len w + 1\<rparr>"
  have h: "ws_header_byte w b = (True, w1)" using Cons.prems by (simp add: ws_header_byte_def w1_def)
  have wanted: "ws_header_wanted w1 \<longleftrightarrow> r \<noteq> []" using Cons.prems by (cases r) (auto simp: ws_header_wanted_def w1_def)
  have byte: "ws_byte sink (w, c) b = (if r \<noteq> [] then Some (w1, c) else ws_header_end w1 c)"
    using Cons.prems h wanted by (simp add: ws_byte_def ws_header_end_def)
  show ?case
  proof (cases "r = []")
    case True
    then show ?thesis using byte Cons.prems by (simp add: w1_def memcpy_def upd_conv_take_nth_drop)
  next
    case False
    then show ?thesis using byte Cons.IH [of w1] Cons.prems by (simp add: w1_def memcpy_update)
  qed
qed simp

lemma ws_header_start:
  assumes w: "ws_ready w" and b0: "b0 AND 0x70 = 0" and b1: "(b1 AND 0x80 \<noteq> 0) = ws_expect_mask w"
    and opc: "b0 AND 0x0f = WS_OP_BINARY \<or> b0 AND 0x0f = WS_OP_CONT"
    and need: "need = 2 + (if ws_expect_mask w then 4 else 0) + (if b1 AND 0x7f = 126 then 2 else if b1 AND 0x7f = 127 then 8 else 0)"
    and len: "length (b0 # b1 # r) = need"
  shows "feeds (ws_byte sink) (w, c) (b0 # b1 # r) =
    ws_header_end (w\<lparr>ws_hdr := memcpy (ws_hdr w) 0 (b0 # b1 # r), ws_hdr_len := need, ws_hdr_need := need,
      ws_opcode := b0 AND 0x0f, ws_is_control := False\<rparr>) c"
proof -
  obtain x0 x1 t where hdr: "ws_hdr w = x0 # x1 # t" "length t = 12"
    using w by (cases "ws_hdr w"; cases "tl (ws_hdr w)") (auto simp: ws_ready_def ws_bounds_def)
  define w1 where "w1 = w\<lparr>ws_hdr := b0 # x1 # t, ws_hdr_len := 1\<rparr>"
  define w2 where "w2 = w\<lparr>ws_hdr := b0 # b1 # t, ws_hdr_len := 2, ws_hdr_need := need, ws_opcode := b0 AND 0x0f, ws_is_control := False\<rparr>"
  have h1: "ws_byte sink (w, c) b0 = Some (w1, c)"
    using w hdr by (simp add: ws_byte_def ws_ready_def ws_header_byte_def ws_header_wanted_def w1_def)
  have nc: "(b0 AND 0x0f) AND 0x08 = 0" using opc by auto
  have "ws_header_byte w1 b1 = (True, w2)"
    using opc by (auto simp: ws_header_byte_def w1_def w2_def Let_def b0 b1 nc need)
  then have h2: "ws_byte sink (w1, c) b1 = (if need = 2 then ws_header_end w2 c else Some (w2, c))"
    using w need by (auto simp: ws_byte_def ws_ready_def w1_def w2_def ws_header_wanted_def ws_header_end_def)
  show ?thesis
  proof (cases "r = []")
    case True
    then have "need = 2" using len by simp
    then show ?thesis using h1 h2 hdr True by (simp add: w2_def memcpy_def)
  next
    case False
    have "need \<le> 14" using need by simp
    then have "feeds (ws_byte sink) (w2, c) r = ws_header_end (w2\<lparr>ws_hdr := memcpy (ws_hdr w2) 2 r, ws_hdr_len := need\<rparr>) c"
      using ws_header_rest [of w2 r sink c] w hdr False len by (simp add: w2_def ws_ready_def)
    moreover have "w2\<lparr>ws_hdr := memcpy (ws_hdr w2) 2 r, ws_hdr_len := need\<rparr> =
      w\<lparr>ws_hdr := memcpy (ws_hdr w) 0 (b0 # b1 # r), ws_hdr_len := need, ws_hdr_need := need, ws_opcode := b0 AND 0x0f, ws_is_control := False\<rparr>"
      using hdr by (simp add: w2_def memcpy_def)
    moreover have "need \<noteq> 2" using False len by auto
    ultimately show ?thesis using h1 h2 by simp
  qed
qed

lemma byte7:
  assumes "(x :: byte) < 128"
  shows "x AND 0x7f = x" "x AND 0x80 = 0" "(x OR 0x80) AND 0x7f = x" "(x OR 0x80) AND 0x80 = 0x80"
proof -
  have "unat x < 2 ^ 7" using assms by (simp add: word_less_nat_alt)
  then have "unat (take_bit 7 x) = unat x" unfolding unsigned_take_bit_eq by (rule take_bit_nat_eq_self)
  then have t: "take_bit 7 x = x" by (rule unsigned_word_eqI)
  have m: "(0x7f :: byte) = mask 7" by (simp add: mask_eq_exp_minus_1)
  show 1: "x AND 0x7f = x" unfolding m using t by (simp add: take_bit_eq_mask)
  have "take_bit 7 x AND 0x80 = 0" unfolding take_bit_eq_mask m [symmetric] by (simp add: and.assoc)
  then show 2: "x AND 0x80 = 0" by (simp add: t)
  show "(x OR 0x80) AND 0x7f = x" by (simp add: bit.conj_disj_distrib2 1)
  show "(x OR 0x80) AND 0x80 = 0x80" by (simp add: bit.conj_disj_distrib2 2)
qed

text \<open>The first length byte, whether or not the frame is masked.\<close>

definition ws_len7 :: "nat \<Rightarrow> byte" where
  "ws_len7 n = (if n < 126 then of_nat n else if n \<le> 0xffff then 126 else 127)"

lemma ws_len7_less: "ws_len7 n < 128"
proof (cases "n < 126")
  case True
  then show ?thesis by (simp add: ws_len7_def word_less_nat_alt unat_of_nat)
qed (simp add: ws_len7_def)

lemma ws_len7_short: "ws_len7 n = 126 \<longleftrightarrow> 126 \<le> n \<and> n \<le> 0xffff" "ws_len7 n = 127 \<longleftrightarrow> 0xffff < n"
proof -
  have "(of_nat n :: byte) \<noteq> 126 \<and> (of_nat n :: byte) \<noteq> 127" if "n < 126"
    using that by (auto dest!: arg_cong [where f = unat] simp: unat_of_nat)
  then show "ws_len7 n = 126 \<longleftrightarrow> 126 \<le> n \<and> n \<le> 0xffff" "ws_len7 n = 127 \<longleftrightarrow> 0xffff < n"
    by (auto simp: ws_len7_def)
qed

definition ws_len_ext :: "nat \<Rightarrow> bytes" where
  "ws_len_ext n = (if n < 126 then [] else if n \<le> 0xffff then [ucast (drop_bit 8 (of_nat n :: u64)), ucast (of_nat n :: u64)] else store_be 8 (of_nat n :: u64))"

lemma ws_len_bytes_eq: "ws_len_bytes n = ws_len7 n # ws_len_ext n"
  by (simp add: ws_len_bytes_def ws_len7_def ws_len_ext_def store_be_def upt_rec)

lemma ws_frame_header_eq:
  "ws_frame_header opc key n =
     (0x80 OR opc) # (case key of None \<Rightarrow> ws_len7 n | Some m \<Rightarrow> ws_len7 n OR 0x80) # ws_len_ext n @ (case key of None \<Rightarrow> [] | Some m \<Rightarrow> m)"
  by (simp add: ws_frame_header_def ws_len_bytes_eq split: option.split)

lemma load_be_nth: "foldl (\<lambda>v k. push_bit 8 v OR ucast (h ! (i + k))) 0 [0..<8] = (load_be (map (\<lambda>k. h ! (i + k)) [0..<8]) :: u64)"
  by (simp add: load_be_def foldl_map)

lemma ws_header_done_frame:
  assumes hdr: "ws_hdr w = ws_frame_header 2 key n @ z" and key: "\<And>m. key = Some m \<Longrightarrow> length m = 4"
    and exp: "ws_expect_mask w = (key \<noteq> None)" and n: "n < 2 ^ 63"
    and w: "\<not> ws_is_control w" "ws_opcode w = 2" "\<not> ws_in_message w"
  shows "ws_header_done w =
    (True, w\<lparr>ws_payload_left := of_nat n, ws_mask := ws_key_bytes key, ws_mask_off := 0, ws_ctrl_len := 0, ws_in_message := False\<rparr>)"
proof -
  define L where "L = ws_hdr w ! 1"
  define off where "off = (if n < 126 then 2 else if n \<le> 0xffff then 4 else (10 :: nat))"
  define left where "left = (of_nat n :: u64)"
  have u: "unat left = n" using n by (simp add: left_def unat_of_nat)
  have L: "L AND 0x7f = ws_len7 n"
    using byte7 [OF ws_len7_less, of n] by (simp add: L_def hdr ws_frame_header_eq split: option.split)
  have h0: "ws_hdr w ! 0 = 0x82" by (simp add: hdr ws_frame_header_eq)
  have len: "length (ws_len_ext n) + 2 = off" by (simp add: ws_len_ext_def off_def)
  have mk: "(if key \<noteq> None then bslice (ws_hdr w) off 4 else zeros 4) = ws_key_bytes key"
    using key len by (cases key) (auto simp: hdr ws_frame_header_eq ws_key_bytes_def bslice_def)
  have left: "(if ws_len7 n = 126 then (4, push_bit 8 (ucast (ws_hdr w ! 2)) OR ucast (ws_hdr w ! 3))
      else if ws_len7 n = 127 then (10, foldl (\<lambda>v k. push_bit 8 v OR ucast (ws_hdr w ! (2 + k))) 0 [0..<8])
      else (2, ucast (ws_len7 n))) = (off, left)" (is "?l = _")
  proof -
    consider "n < 126" | "126 \<le> n" "n \<le> 0xffff" | "0xffff < n" by linarith
    then show ?thesis
    proof cases
      case 1
      then have "(ucast (of_nat n :: byte) :: u64) = of_nat n" 
        by (simp add: word_unat_eq_iff unsigned_ucast_eq unat_of_nat take_bit_nat_eq_self)
      then show ?thesis using 1 by (simp add: ws_len7_short) (simp add: ws_len7_def off_def left_def)
    next
      case 2
      have "left \<le> 0xffff" using 2 u by (simp add: word_le_nat_alt)
      then show ?thesis using 2 two_bytes [of left] by (simp add: ws_len7_short off_def hdr ws_frame_header_eq ws_len_ext_def left_def)
    next
      case 3
      have "map (\<lambda>k. ws_hdr w ! (2 + k)) [0..<8] = store_be 8 left"
        using 3 by (intro nth_equalityI) (simp_all add: hdr ws_frame_header_eq ws_len_ext_def nth_append left_def)
      then show ?thesis using 3 by (simp only: ws_len7_short load_be_nth) (simp add: off_def)
    qed
  qed
  have d: "drop_bit 63 left = 0" using u n by (simp add: drop_bit_eq_div unat_div word_unat_eq_iff)
  have g: "\<not> (ws_len7 n = 126 \<and> left < 126)" "\<not> (ws_len7 n = 127 \<and> (left \<le> 0xffff \<or> drop_bit 63 left \<noteq> 0))"
    using u d by (auto simp: ws_len7_short word_less_nat_alt word_le_nat_alt)
  show ?thesis
    unfolding ws_header_done_def Let_def L_def [symmetric] L left prod.case
    using g mk w h0 exp by (cases key) (simp_all add: left_def)
qed

section \<open>Round trips\<close>

text \<open>What a frame leaves as it was.\<close>

definition ws_same :: "ws_t \<Rightarrow> ws_t \<Rightarrow> bool" where
  "ws_same w w' \<longleftrightarrow> ws_stage w' = ws_stage w \<and> ws_expect_mask w' = ws_expect_mask w \<and> ws_state w' = ws_state w \<and> ws_state_len w' = ws_state_len w \<and>
     ws_reply w' = ws_reply w \<and> ws_reply_len w' = ws_reply_len w \<and> ws_reply_sent w' = ws_reply_sent w"

definition ws_idle :: "ws_t \<Rightarrow> bool" where
  "ws_idle w \<longleftrightarrow> ws_ready w \<and> \<not> ws_in_message w"

text \<open>The sink's step on the payload of a message.\<close>

definition sink_step :: "'c sink \<Rightarrow> 'c \<Rightarrow> bytes \<Rightarrow> 'c option" where
  "sink_step sink c p = (if p = [] then Some c else if fst (sink c p) = 0 then Some (snd (sink c p)) else None)"

lemma ws_idle_sync: "ws_idle w \<Longrightarrow> ws_bounds w \<and> ws_sync w"
  by (simp add: ws_idle_def ws_ready_def ws_sync_def ws_header_wanted_def)

lemma ws_frame_header_run:
  assumes w: "ws_idle w" and key: "\<And>m. key = Some m \<Longrightarrow> length m = 4"
    and exp: "ws_expect_mask w = (key \<noteq> None)" and n: "n < 2 ^ 63"
  obtains w1 where "ws_bounds w1" "ws_same w w1" "ws_payload_left w1 = of_nat n" "ws_mask w1 = ws_key_bytes key" "ws_mask_off w1 = 0"
    "\<not> ws_is_control w1" "\<not> ws_in_message w1"
    "feeds (ws_byte sink) (w, c) (ws_frame_header 2 key n) = Some (if n = 0 then snd (ws_frame_done w1) else w1, c)"
proof -
  define h where "h = ws_frame_header 2 key n"
  obtain b1 r where h: "h = 0x82 # b1 # r" and b1: "b1 = (case key of None \<Rightarrow> ws_len7 n | Some m \<Rightarrow> ws_len7 n OR 0x80)"
    and r: "r = ws_len_ext n @ (case key of None \<Rightarrow> [] | Some m \<Rightarrow> m)"
    by (simp add: h_def ws_frame_header_eq)
  have b: "(b1 AND 0x80 \<noteq> 0) = ws_expect_mask w" "b1 AND 0x7f = ws_len7 n"
    using byte7 [OF ws_len7_less, of n] exp by (simp_all add: b1 split: option.split)
  have len: "length h = 2 + (if ws_expect_mask w then 4 else 0) + (if b1 AND 0x7f = 126 then 2 else if b1 AND 0x7f = 127 then 8 else 0)"
    using key exp unfolding b(2) ws_len7_short by (auto simp: h r ws_len_ext_def split: option.split)
  define v where "v = w\<lparr>ws_hdr := memcpy (ws_hdr w) 0 h, ws_hdr_len := length h, ws_hdr_need := length h, ws_opcode := 2, ws_is_control := False\<rparr>"
  define w1 where "w1 = v\<lparr>ws_payload_left := of_nat n, ws_mask := ws_key_bytes key, ws_mask_off := 0, ws_ctrl_len := 0, ws_in_message := False\<rparr>"
  have le: "length h \<le> 14" using len by simp
  have run: "feeds (ws_byte sink) (w, c) h = ws_header_end v c"
    using ws_header_start [of w "0x82" b1 "length h" r sink c] b(1) w len unfolding v_def by (simp add: h ws_idle_def)
  have fin: "ws_header_done v = (True, w1)"
    unfolding w1_def by (rule ws_header_done_frame [OF _ key _ n]) (use w in \<open>simp_all add: v_def h_def memcpy_0 ws_idle_def exp\<close>)
  have "ws_bounds v" using w le by (simp add: ws_idle_def ws_ready_def v_def ws_bounds_def)
  then have bounds: "ws_bounds w1" by (rule ws_header_done_bounds [OF _ fin])
  have "ws_payload_left w1 = 0 \<longleftrightarrow> n = 0" using n by (simp add: w1_def word_unat_eq_iff unat_of_nat)
  then show thesis
    using that [OF bounds] run fin w by (simp add: ws_same_def w1_def v_def ws_header_end_def h_def)
qed

lemma ws_frame_done_data: "\<not> ws_is_control w \<Longrightarrow> ws_frame_done w = (False, w\<lparr>ws_hdr_len := 0, ws_hdr_need := 0, ws_ctrl_len := 0\<rparr>)"
  by (simp add: ws_frame_done_def)

lemma ws_idle_after:
  assumes "ws_idle w" "ws_bounds w1" "ws_same w w1" "\<not> ws_in_message w1"
  shows "ws_idle (w1\<lparr>ws_payload_left := 0, ws_hdr_len := 0, ws_hdr_need := 0, ws_ctrl_len := 0\<rparr>)"
    "ws_same w (w1\<lparr>ws_payload_left := 0, ws_hdr_len := 0, ws_hdr_need := 0, ws_ctrl_len := 0\<rparr>)"
  using assms by (simp_all add: ws_idle_def ws_ready_def ws_same_def)

lemma ws_same_trans: "ws_same w w1 \<Longrightarrow> ws_same w1 w2 \<Longrightarrow> ws_same w w2"
  by (simp add: ws_same_def)

lemma ws_payload_run:
  assumes add: "additive sink" and w: "ws_bounds w" "ws_stage w = WS_STAGE_OPEN" "\<not> ws_is_control w" "ws_mask_off w = 0"
    and q: "q \<noteq> []" "ws_payload_left w = of_nat (length q)" "length q < 2 ^ 63"
  shows "feeds (ws_byte sink) (w, c) q = map_option
    (\<lambda>c. (w\<lparr>ws_mask_off := length q mod 4, ws_payload_left := 0, ws_hdr_len := 0, ws_hdr_need := 0, ws_ctrl_len := 0\<rparr>, c))
    (sink_step sink c (ws_unmask (ws_mask w) 0 q))"
proof -
  have u: "unat (ws_payload_left w) = length q" using q by (simp add: unat_of_nat)
  then have ne: "ws_payload_left w \<noteq> 0" using q by auto
  have len: "length (ws_ctrl w) = 125" using w by (simp add: ws_bounds_def)
  have "ws_unmask (ws_mask w) 0 q \<noteq> []" using q by (metis length_0_conv length_ws_unmask)
  then show ?thesis
    using ws_loop_bytes [OF add w(2,1), of c q] ws_loop_payload [OF add len ne q(1), of "length q" c] ne u w q
    by (auto simp: ws_sync_def payload_all_def sink_step_def ws_after_frame_def ws_frame_done_data)
qed

lemma ws_frame_run:
  assumes add: "additive sink" and w: "ws_idle w" and key: "\<And>m. key = Some m \<Longrightarrow> length m = 4"
    and exp: "ws_expect_mask w = (key \<noteq> None)" and n: "length p < 2 ^ 63"
  obtains w' where "ws_idle w'" "ws_same w w'" "ws_run sink (w, c) (ws_frame_bytes 2 key p) = map_option (Pair w') (sink_step sink c p)"
proof -
  obtain w1 where w1: "ws_bounds w1" "ws_same w w1" "ws_payload_left w1 = of_nat (length p)" "ws_mask w1 = ws_key_bytes key" "ws_mask_off w1 = 0"
    "\<not> ws_is_control w1" "\<not> ws_in_message w1"
    "feeds (ws_byte sink) (w, c) (ws_frame_header 2 key (length p)) = Some (if length p = 0 then snd (ws_frame_done w1) else w1, c)"
    by (rule ws_frame_header_run [OF w key exp n])
  have st: "ws_stage w1 = WS_STAGE_OPEN" using w w1(2) by (simp add: ws_same_def ws_idle_def ws_ready_def)
  define q where "q = ws_unmask (ws_key_bytes key) 0 p"
  have q: "length q = length p" "ws_unmask (ws_mask w1) 0 q = p" using w1(4) by (simp_all add: q_def ws_unmask_twice)
  have run: "ws_run sink (w, c) (ws_frame_bytes 2 key p) = feeds (ws_byte sink) (if length p = 0 then snd (ws_frame_done w1) else w1, c) q"
    using ws_run_bytes [OF add, of w] ws_idle_sync [OF w] w1(8) by (simp add: ws_frame_bytes_def feeds_append q_def)
  show thesis
  proof (cases "p = []")
    case True
    have "w1\<lparr>ws_hdr_len := 0, ws_hdr_need := 0, ws_ctrl_len := 0\<rparr> = w1\<lparr>ws_payload_left := 0, ws_hdr_len := 0, ws_hdr_need := 0, ws_ctrl_len := 0\<rparr>"
      using w1(3) True by simp
    then show thesis using that [OF ws_idle_after [OF w w1(1,2,7)]] run True w1(6)
      by (simp add: ws_frame_done_data sink_step_def q_def ws_unmask_def)
  next
    case False
    have "ws_bounds (w1\<lparr>ws_mask_off := length q mod 4\<rparr>)" "ws_same w (w1\<lparr>ws_mask_off := length q mod 4\<rparr>)" "\<not> ws_in_message (w1\<lparr>ws_mask_off := length q mod 4\<rparr>)"
      using w1 by (simp_all add: ws_same_def)
    note ok = ws_idle_after [OF w this]
    have "q \<noteq> []" using q(1) False by auto
    note pay = ws_payload_run [OF add w1(1) st w1(6,5) this, of c, unfolded q, OF w1(3) n]
    show thesis
      by (rule that [OF ok]) (use run pay False q(1) in simp)
  qed
qed

definition wf_frame :: "bool \<Rightarrow> bytes option \<times> bytes \<Rightarrow> bool" where
  "wf_frame masked f \<longleftrightarrow> (fst f \<noteq> None) = masked \<and> (\<forall>m. fst f = Some m \<longrightarrow> length m = 4) \<and> length (snd f) < 2 ^ 63"

lemma ws_frames_run:
  assumes add: "additive sink"
  shows "ws_idle w \<Longrightarrow> (\<forall>f \<in> set fs. wf_frame (ws_expect_mask w) f) \<Longrightarrow>
    \<exists>w'. ws_idle w' \<and> ws_same w w' \<and>
      ws_run sink (w, c) (concat (map (\<lambda>(key, p). ws_frame_bytes 2 key p) fs)) = map_option (Pair w') (feeds (sink_step sink) c (map snd fs))"
proof (induction fs arbitrary: w c)
  case Nil
  then show ?case using ws_idle_sync [OF Nil(1)] add by (auto simp: ws_same_def ws_run_bytes)
next
  case (Cons f fs)
  obtain key p where f: "f = (key, p)" by force
  have fits: "ws_fits sink (w, c) d" for d using ws_idle_sync [OF Cons.prems(1)] add by (simp add: ws_fits_def)
  obtain w1 where w1: "ws_idle w1" "ws_same w w1" "ws_run sink (w, c) (ws_frame_bytes 2 key p) = map_option (Pair w1) (sink_step sink c p)"
    by (rule ws_frame_run [OF add Cons.prems(1), of key p c]) (use Cons.prems(2) in \<open>auto simp: f wf_frame_def\<close>)
  have e: "ws_expect_mask w1 = ws_expect_mask w" using w1(2) by (simp add: ws_same_def)
  show ?case
  proof (cases "sink_step sink c p")
    case None
    then show ?thesis using ws.feed_append [OF fits] w1 by (auto simp: f)
  next
    case (Some c1)
    obtain w2 where "ws_idle w2" "ws_same w1 w2"
      "ws_run sink (w1, c1) (concat (map (\<lambda>(key, p). ws_frame_bytes 2 key p) fs)) = map_option (Pair w2) (feeds (sink_step sink) c1 (map snd fs))"
      using Cons.IH [OF w1(1), of c1] Cons.prems(2) e by auto
    then show ?thesis using ws.feed_append [OF fits] w1 Some ws_same_trans by (auto simp: f)
  qed
qed

lemma ws_server_header_bytes:
  assumes "10 \<le> length out" "n < 2 ^ 64"
  shows "ws_server_header out (of_nat n) opc =
    (memcpy out 0 ((0x80 OR (opc AND 0x0f)) # ws_len_bytes n), 1 + length (ws_len_bytes n))"
proof -
  have u: "unat (of_nat n :: u64) = n" using assms(2) by (simp add: unat_of_nat)
  obtain x0 o1 where o0: "out = x0 # o1" using assms(1) by (cases out) auto
  obtain x1 o2 where o1: "o1 = x1 # o2" using assms(1) o0 by (cases o1) auto
  obtain x2 o3 where o2: "o2 = x2 # o3" using assms(1) o0 o1 by (cases o2) auto
  obtain x3 t where o3: "o3 = x3 # t" using assms(1) o0 o1 o2 by (cases o3) auto
  note out = o0 o1 o2 o3
  consider "n < 126" | "126 \<le> n" "n \<le> 0xffff" | "0xffff < n" by linarith
  then show ?thesis
  proof cases
    case 1
    then have "ucast (of_nat n :: u64) = (of_nat n :: byte)" by (simp add: word_unat_eq_iff unsigned_ucast_eq unat_of_nat take_bit_nat_eq_self)
    then show ?thesis using 1 u by (simp add: ws_server_header_def out ws_len_bytes_def word_less_nat_alt memcpy_def)
  next
    case 2
    then show ?thesis using u
      by (simp add: ws_server_header_def out ws_len_bytes_eq ws_len7_def ws_len_ext_def word_less_nat_alt word_le_nat_alt memcpy_def)
  next
    case 3
    define f where "f = (\<lambda>i. ucast (drop_bit (8 * (7 - i)) (of_nat n :: u64)) :: byte)"
    have "store_be 8 (of_nat n :: u64) = map f [0..<8]" by (simp add: store_be_def f_def)
    moreover have "ws_server_header out (of_nat n) opc = (foldl (\<lambda>b i. b[2 + i := f i]) (out[0 := 0x80 OR (opc AND 0x0f), 1 := 127]) [0..<8], 10)"
      using 3 u by (simp add: ws_server_header_def word_less_nat_alt word_le_nat_alt f_def Let_def)
    ultimately show ?thesis using 3 assms(1) foldl_update [of 2 8 "out[0 := 0x80 OR (opc AND 0x0f), 1 := 127]" f]
      by (simp add: out ws_len_bytes_def memcpy_def del: upt.simps)
  qed
qed

lemma ws_client_frame_bytes:
  assumes "length m = 4" "length p < 2 ^ 63" "cap \<le> length out"
  shows "ws_client_frame (Some out) cap (Some p) (length p) (Some m) =
    (if length (ws_frame_bytes 2 (Some m) p) > cap then (0, Some out)
     else (length (ws_frame_bytes 2 (Some m) p), Some (memcpy out 0 (ws_frame_bytes 2 (Some m) p))))"
proof -
  define L where "L = ws_len_bytes (length p)"
  obtain l t where L: "L = l # t" by (simp add: L_def ws_len_bytes_eq)
  have hdr: "ws_server_header (zeros 10) (of_nat (length p)) 2 = (memcpy (zeros 10) 0 (0x82 # L), 1 + length L)"
    using ws_server_header_bytes [of "zeros 10" "length p" 2] assms(2) by (simp add: L_def)
  have fb: "ws_frame_bytes 2 (Some m) p = 0x82 # (l OR 0x80) # t @ m @ ws_unmask m 0 p"
    by (simp add: ws_frame_bytes_def ws_frame_header_def L_def [symmetric] L ws_key_bytes_def)
  have len: "length (ws_frame_bytes 2 (Some m) p) = 1 + length L + 4 + length p" using assms(1) by (simp add: fb L)
  show ?thesis
  proof (cases "1 + length L + 4 + length p > cap")
    case True
    then show ?thesis by (simp add: ws_client_frame_def hdr len)
  next
    case False
    define o1 where "o1 = memcpy out 0 (0x82 # (l OR 0x80) # t)"
    have 1: "(memcpy out 0 (0x82 # L))[1 := memcpy out 0 (0x82 # L) ! 1 OR 0x80] = o1" by (simp add: o1_def L memcpy_def)
    have 2: "foldl (\<lambda>b i. b[1 + length L + 4 + i := p ! i XOR m ! (i mod 4)]) (memcpy o1 (1 + length L) m) [0..<length p] =
        memcpy (memcpy o1 (1 + length L) m) (1 + length L + 4) (ws_unmask m 0 p)"
      using False assms foldl_update [of "1 + length L + 4" "length p" "memcpy o1 (1 + length L) m" "\<lambda>i. p ! i XOR m ! (i mod 4)"]
      by (simp add: ws_unmask_def o1_def L del: upt.simps)
    have 3: "memcpy (memcpy o1 (1 + length L) m) (1 + length L + 4) (ws_unmask m 0 p) = memcpy out 0 (ws_frame_bytes 2 (Some m) p)"
      using False assms by (simp add: o1_def fb L memcpy_append)
    have "ws_client_frame (Some out) cap (Some p) (length p) (Some m) = (1 + length L + 4 + length p,
        Some (foldl (\<lambda>b i. b[1 + length L + 4 + i := p ! i XOR m ! (i mod 4)]) (memcpy o1 (1 + length L) m) [0..<length p]))"
      using False assms(1) by (simp add: ws_client_frame_def hdr 1 [unfolded One_nat_def] del: upt.simps)
    then show ?thesis unfolding 2 3 len using False by simp
  qed
qed

text \<open>A reader over the bytes that the peer has sent, with the contract of \<open>ws_read_fn\<close>.\<close>

definition list_reader :: "bytes reader" where
  "list_reader c n = (if n \<le> length c then (0, take n c, drop n c) else if c = [] then (1, [], []) else (-1, [], []))"

lemma list_reader_append: "length x = n \<Longrightarrow> list_reader (x @ y) n = (0, x, y)"
  by (simp add: list_reader_def)

lemma ws_frame_bytes_plain: "ws_frame_bytes opc None p = (0x80 OR opc) # ws_len7 (length p) # ws_len_ext (length p) @ p"
  by (simp add: ws_frame_bytes_def ws_frame_header_eq ws_key_bytes_def ws_unmask_zeros)

lemma ws_len_ext_read:
  assumes "n < 2 ^ 63"
  shows "(if ws_len7 n = 126 then list_reader (ws_len_ext n @ r) 2 else if ws_len7 n = 127 then list_reader (ws_len_ext n @ r) 8
      else (0, [], ws_len_ext n @ r)) = (0, ws_len_ext n, r)"
    and "(if ws_len7 n = 126 then push_bit 8 (ucast (ws_len_ext n ! 0)) OR ucast (ws_len_ext n ! 1)
      else if ws_len7 n = 127 then foldl (\<lambda>v i. push_bit 8 v OR ucast (ws_len_ext n ! i)) 0 [0..<8]
      else (ucast (ws_len7 n) :: u64)) = of_nat n"
    and "drop_bit 63 (of_nat n :: u64) = 0"
proof -
  have u: "unat (of_nat n :: u64) = n" using assms by (simp add: unat_of_nat)
  then show "drop_bit 63 (of_nat n :: u64) = 0" using assms by (simp add: drop_bit_eq_div unat_div word_unat_eq_iff)
  show "(if ws_len7 n = 126 then list_reader (ws_len_ext n @ r) 2 else if ws_len7 n = 127 then list_reader (ws_len_ext n @ r) 8
      else (0, [], ws_len_ext n @ r)) = (0, ws_len_ext n, r)"
    unfolding ws_len7_short by (simp add: ws_len_ext_def list_reader_def)
  consider "n < 126" | "126 \<le> n" "n \<le> 0xffff" | "0xffff < n" by linarith
  then show "(if ws_len7 n = 126 then push_bit 8 (ucast (ws_len_ext n ! 0)) OR ucast (ws_len_ext n ! 1)
      else if ws_len7 n = 127 then foldl (\<lambda>v i. push_bit 8 v OR ucast (ws_len_ext n ! i)) 0 [0..<8]
      else (ucast (ws_len7 n) :: u64)) = of_nat n"
  proof cases
    case 1
    then have "(ucast (of_nat n :: byte) :: u64) = of_nat n"
      by (simp add: word_unat_eq_iff unsigned_ucast_eq unat_of_nat take_bit_nat_eq_self)
    then show ?thesis using 1 by (simp add: ws_len7_short) (simp add: ws_len7_def)
  next
    case 2
    then show ?thesis using two_bytes [of "of_nat n"] u by (simp add: ws_len7_short ws_len_ext_def word_le_nat_alt)
  next
    case 3
    have "map (\<lambda>k. ws_len_ext n ! (0 + k)) [0..<8] = store_be 8 (of_nat n :: u64)"
      using 3 by (intro nth_equalityI) (simp_all add: ws_len_ext_def)
    then show ?thesis using 3 load_be_nth [of "ws_len_ext n" 0] by (simp add: ws_len7_short del: upt.simps)
  qed
qed

lemma ws_client_read_data:
  assumes "length p < 2 ^ 63" "length p \<le> cap"
  shows "ws_client_read_loop list_reader (ws_frame_bytes 2 None p @ rest) cap = Some (WS_CLIENT_OK, p, length p, rest)"
proof -
  have r: "list_reader (ws_frame_bytes 2 None p @ rest) 2 = (0, [0x82, ws_len7 (length p)], ws_len_ext (length p) @ p @ rest)"
    by (simp add: ws_frame_bytes_plain list_reader_def)
  have u: "unat (of_nat (length p) :: u64) = length p" using assms by (simp add: unat_of_nat)
  have z: "(of_nat (length p) :: u64) > 0 \<longleftrightarrow> p \<noteq> []" using u by (auto simp: word_gt_0 word_unat_eq_iff)
  show ?thesis
    unfolding ws_client_read_loop.simps [of list_reader "ws_frame_bytes 2 None p @ rest"] r Let_def prod.case nth_Cons_0 One_nat_def nth_Cons_Suc
      byte7(1,2) [OF ws_len7_less] ws_len_ext_read [OF assms(1), unfolded One_nat_def]
    using assms(2) z u by (simp add: list_reader_append)
qed

lemma ws_client_read_control:
  assumes "length p \<le> 125" "opc = WS_OP_PING \<or> opc = WS_OP_PONG"
  shows "ws_client_read_loop list_reader (ws_frame_bytes opc None p @ rest) cap = ws_client_read_loop list_reader rest cap"
proof -
  have r: "list_reader (ws_frame_bytes opc None p @ rest) 2 = (0, [0x80 OR opc, ws_len7 (length p)], ws_len_ext (length p) @ p @ rest)"
    by (simp add: ws_frame_bytes_plain list_reader_def)
  have n: "length p < 2 ^ 63" using assms(1) by simp
  have u: "unat (of_nat (length p) :: u64) = length p" using n by (simp add: unat_of_nat)
  have z: "(of_nat (length p) :: u64) > 0 \<longleftrightarrow> p \<noteq> []" using u by (auto simp: word_gt_0 word_unat_eq_iff)
  show ?thesis
    unfolding ws_client_read_loop.simps [of list_reader "ws_frame_bytes opc None p @ rest"] r Let_def prod.case nth_Cons_0 One_nat_def nth_Cons_Suc
      byte7(1,2) [OF ws_len7_less] ws_len_ext_read [OF n, unfolded One_nat_def]
    using assms z u by (auto simp: list_reader_append)
qed

section \<open>Properties\<close>

text \<open>
  C36. \<open>ws_consume\<close> is the byte-at-a-time decoder, however the stream is cut: for a sink that does not
  care how its bytes are grouped, the state and the sink's context after any sequence of calls depend
  only on the bytes, and so does whether the stream is refused. This holds from every state between two
  calls, in the middle of a header, of a fragmented message or of a control frame.\<close>

theorem ws_any_cut:
  assumes "additive sink" "ws_bounds w" "ws_sync w"
  shows "feeds (ws_run sink) (w, c) ds = feeds (ws_byte sink) (w, c) (concat ds)"
proof -
  have "ws_fits sink (w, c) (concat ds)" using assms by (simp add: ws_fits_def)
  then show ?thesis using ws.feeds_concat [of sink "(w, c)" ds] assms by (simp add: ws_run_bytes)
qed

text \<open>The sink that keeps all.\<close>

definition keep_sink :: "bytes sink" where
  "keep_sink c x = (0, c @ x)"

lemma additive_keep_sink: "additive keep_sink"
  by (simp add: additive_def keep_sink_def)

lemma ws_idle_init: "ws_idle (ws_init_client w)" "ws_idle ((ws_init w)\<lparr>ws_stage := WS_STAGE_OPEN\<rparr>)"
  by (simp_all add: ws_idle_def ws_ready_def ws_bounds_def ws_init_client_def ws_init_def ws_zero_def)

lemma ws_any_cut_witness:
  "additive keep_sink \<and> ws_bounds (ws_init_client ws_zero) \<and> ws_sync (ws_init_client ws_zero) \<and>
   feeds (ws_run keep_sink) (ws_init_client ws_zero, []) [[0x82], [3, 7], [8, 9]] =
     feeds (ws_byte keep_sink) (ws_init_client ws_zero, []) [0x82, 3, 7, 8, 9] \<and>
   map_option snd (feeds (ws_byte keep_sink) (ws_init_client ws_zero, []) [0x82, 3, 7, 8, 9]) = Some [7, 8, 9]"
proof (intro conjI)
  show a: "additive keep_sink" by (rule additive_keep_sink)
  show b: "ws_bounds (ws_init_client ws_zero)" "ws_sync (ws_init_client ws_zero)"
    using ws_idle_sync [OF ws_idle_init(1)] by simp_all
  show "feeds (ws_run keep_sink) (ws_init_client ws_zero, []) [[0x82], [3, 7], [8, 9]] =
     feeds (ws_byte keep_sink) (ws_init_client ws_zero, []) [0x82, 3, 7, 8, 9]"
    using ws_any_cut [OF a b, of "[]" "[[0x82], [3, 7], [8, 9]]"] by simp
  show "map_option snd (feeds (ws_byte keep_sink) (ws_init_client ws_zero, []) [0x82, 3, 7, 8, 9]) = Some [7, 8, 9]"
    by code_simp
qed

text \<open>The bytes that the client sends for one message.\<close>

definition client_writes :: "bytes \<Rightarrow> bytes \<Rightarrow> bytes \<Rightarrow> bytes" where
  "client_writes out m p = (case ws_client_frame (Some out) (length out) (Some p) (length p) (Some m) of (n, o1) \<Rightarrow> take n (the o1))"

lemma length_ws_frame_bytes: "length m = 4 \<Longrightarrow> length (ws_frame_bytes opc (Some m) p) \<le> length p + 14"
  by (simp add: ws_frame_bytes_def ws_frame_header_eq ws_len_ext_def)

lemma client_writes_frame:
  "length m = 4 \<Longrightarrow> length p < 2 ^ 63 \<Longrightarrow> length p + 14 \<le> length out \<Longrightarrow> client_writes out m p = ws_frame_bytes 2 (Some m) p"
  using length_ws_frame_bytes [of m 2 p] by (simp add: client_writes_def ws_client_frame_bytes)

text \<open>
  What the client frames, the server receives: the messages that a client wrote with
  \<open>ws_client_frame\<close>, under any masking keys, cut into any pieces by the network, reach the server's sink
  as the payloads, one after the other, and the decoder is then ready for the next frame with its pending
  reply untouched.\<close>

theorem ws_client_messages_arrive:
  assumes "additive sink" "ws_idle w" "ws_expect_mask w"
    and "\<forall>(m, p) \<in> set ms. length m = 4 \<and> length p < 2 ^ 63 \<and> length p + 14 \<le> length out"
    and "concat ds = concat (map (\<lambda>(m, p). client_writes out m p) ms)"
  shows "\<exists>w'. ws_idle w' \<and> ws_same w w' \<and> feeds (ws_run sink) (w, c) ds = map_option (Pair w') (feeds (sink_step sink) c (map snd ms))"
proof -
  define fs where "fs = map (\<lambda>(m, p). (Some m, p)) ms"
  have b: "map (\<lambda>(m, p). client_writes out m p) ms = map (\<lambda>(key, p). ws_frame_bytes 2 key p) fs"
    using assms(4) by (auto simp: client_writes_frame fs_def)
  have "\<forall>f \<in> set fs. wf_frame (ws_expect_mask w) f" using assms(3,4) by (auto simp: wf_frame_def fs_def)
  moreover have "map snd fs = map snd ms" by (auto simp: fs_def)
  moreover have "feeds (ws_run sink) (w, c) ds = ws_run sink (w, c) (concat ds)"
    using ws_idle_sync [OF assms(2)] assms(1) by (intro ws.feeds_concat) (simp add: ws_fits_def)
  ultimately show ?thesis using ws_frames_run [OF assms(1,2), of fs c] unfolding assms(5) b by simp
qed

lemma ws_client_messages_arrive_witness:
  "\<exists>w'. ws_idle w' \<and> feeds (ws_run keep_sink) ((ws_init ws_zero)\<lparr>ws_stage := WS_STAGE_OPEN\<rparr>, [])
     [client_writes (zeros 64) [1, 2, 3, 4] [7, 8, 9] @ client_writes (zeros 64) [5, 6, 7, 8] [10]] = Some (w', [7, 8, 9, 10])"
proof -
  have e: "ws_expect_mask ((ws_init ws_zero)\<lparr>ws_stage := WS_STAGE_OPEN\<rparr>)" by (simp add: ws_init_def)
  obtain w' where "ws_idle w'" "feeds (ws_run keep_sink) ((ws_init ws_zero)\<lparr>ws_stage := WS_STAGE_OPEN\<rparr>, [])
     [client_writes (zeros 64) [1, 2, 3, 4] [7, 8, 9] @ client_writes (zeros 64) [5, 6, 7, 8] [10]] =
     map_option (Pair w') (feeds (sink_step keep_sink) [] [[7, 8, 9], [10]])"
    using ws_client_messages_arrive [OF additive_keep_sink ws_idle_init(2) e, of "[([1, 2, 3, 4], [7, 8, 9]), ([5, 6, 7, 8], [10])]" "zeros 64"
      "[client_writes (zeros 64) [1, 2, 3, 4] [7, 8, 9] @ client_writes (zeros 64) [5, 6, 7, 8] [10]]" "[]"] by auto
  then show ?thesis by (auto simp: sink_step_def keep_sink_def)
qed

text \<open>
  What the server frames, the client reads: after any pings and pongs, \<open>ws_client_read_message\<close> returns
  the payload of the server's binary frame and leaves the rest of the stream to the next call. In
  particular it returns, although its loop has no bound.\<close>

theorem ws_server_message_read:
  assumes "\<forall>(opc, q) \<in> set cs. (opc = WS_OP_PING \<or> opc = WS_OP_PONG) \<and> length q \<le> 125"
    and "length p < 2 ^ 63" "length p \<le> cap" "length h = 10" "ws_server_header h (of_nat (length p)) WS_OP_BINARY = (h', hl)"
  shows "ws_client_read_message (Some list_reader) (concat (map (\<lambda>(opc, q). ws_frame_bytes opc None q) cs) @ take hl h' @ p @ rest) (Some out) cap (Some l) =
    Some (WS_CLIENT_OK, Some (memcpy out 0 p), Some (length p), rest)"
proof -
  have "take hl h' @ p = ws_frame_bytes 2 None p"
    using ws_server_header_bytes [of h "length p" 2] assms(2,4,5) by (auto simp: ws_frame_bytes_plain ws_len_bytes_eq memcpy_def)
  moreover have "ws_client_read_loop list_reader (concat (map (\<lambda>(opc, q). ws_frame_bytes opc None q) cs) @ ws_frame_bytes 2 None p @ rest) cap =
      Some (WS_CLIENT_OK, p, length p, rest)"
    using assms(1) by (induction cs) (auto simp: ws_client_read_data [OF assms(2,3)] ws_client_read_control)
  ultimately show ?thesis by (simp add: ws_client_read_message_def flip: append_assoc)
qed

lemma ws_server_message_read_witness:
  "ws_client_read_message (Some list_reader) ([0x89, 1, 5] @ [0x82, 3] @ [7, 8, 9] @ [1]) (Some (zeros 4)) 4 (Some 0) =
     Some (WS_CLIENT_OK, Some [7, 8, 9, 0], Some 3, [1])"
proof -
  have "ws_server_header (zeros 10) (of_nat (length [7, 8, 9 :: byte])) WS_OP_BINARY = ([0x82, 3, 0, 0, 0, 0, 0, 0, 0, 0], 2)" by code_simp
  moreover have "ws_frame_bytes WS_OP_PING None [5] = [0x89, 1, 5]" by code_simp
  moreover have "memcpy (zeros 4) 0 [7, 8, 9] = [7, 8, 9, 0]" by code_simp
  ultimately show ?thesis
    using ws_server_message_read [of "[(WS_OP_PING, [5])]" "[7, 8, 9]" 4 "zeros 10" "[0x82, 3, 0, 0, 0, 0, 0, 0, 0, 0]" 2 "[1]" "zeros 4" 0] by simp
qed

end
