(* ===== verification/Conn_Io.thy ===== *)
theory Conn_Io
  imports Ws_Safety Proxy_V2
begin

text \<open>
  The buffers of one connection, \<open>apps/authd/conn_io.c\<close> with the types of \<open>conn_io.h\<close>: framing of the
  input in the three modes, one queued reply, and the priority of the WebSocket's own replies.

  A pointer into \<open>in\<close> or \<open>out\<close> that a function returns is its offset. The sink of \<open>ws_consume\<close> gets the
  connection as its context; it writes \<open>in\<close> and \<open>in_len\<close> only, and \<open>ws_consume\<close> writes \<open>ws\<close> only.
\<close>

abbreviation (input) AUTHD_FRAME_MAX :: nat where "AUTHD_FRAME_MAX \<equiv> 12313"
abbreviation (input) AUTHD_LINE_MAX :: nat where "AUTHD_LINE_MAX \<equiv> 8192"
abbreviation (input) AUTHD_FRAME_HEADER :: nat where "AUTHD_FRAME_HEADER \<equiv> 4"
abbreviation (input) AUTHD_IN_BUF_BYTES :: nat where "AUTHD_IN_BUF_BYTES \<equiv> 12317"
abbreviation (input) AUTHD_OUT_BUF_BYTES :: nat where "AUTHD_OUT_BUF_BYTES \<equiv> 12327"

datatype conn_io_mode_t = CONN_IO_MODE_FRAME | CONN_IO_MODE_LINE | CONN_IO_MODE_WS

datatype conn_io_status_t = CONN_IO_OK | CONN_IO_ERR_ARG | CONN_IO_ERR_OVERFLOW | CONN_IO_ERR_PROTOCOL | CONN_IO_ERR_BUSY

record conn_io_t =
  ci_mode :: conn_io_mode_t
  ci_proxy_on :: bool
  ci_proxy :: proxy_v2_t
  ci_ws :: ws_t
  ci_in :: bytes
  ci_in_len :: nat
  ci_frame_len :: nat
  ci_line_total :: nat
  ci_failed :: bool
  ci_out :: bytes
  ci_out_len :: nat
  ci_out_sent :: nat

definition conn_io_status_name :: "conn_io_status_t \<Rightarrow> string" where
  "conn_io_status_name st =
     (case st of
        CONN_IO_OK \<Rightarrow> ''ok''
      | CONN_IO_ERR_ARG \<Rightarrow> ''bad-argument''
      | CONN_IO_ERR_OVERFLOW \<Rightarrow> ''buffer-overflow''
      | CONN_IO_ERR_PROTOCOL \<Rightarrow> ''protocol''
      | CONN_IO_ERR_BUSY \<Rightarrow> ''send-busy'')"

section \<open>Set-up\<close>

definition conn_io_set_mode :: "conn_io_t ptr \<Rightarrow> conn_io_mode_t \<Rightarrow> conn_io_t ptr" where
  "conn_io_set_mode cp mode =
     map_option (\<lambda>c.
       let c = c\<lparr>ci_mode := mode\<rparr>
       in if mode = CONN_IO_MODE_WS then c\<lparr>ci_ws := ws_init (ci_ws c)\<rparr> else c) cp"

definition conn_io_set_proxy :: "conn_io_t ptr \<Rightarrow> bool \<Rightarrow> conn_io_t ptr" where
  "conn_io_set_proxy cp on =
     map_option (\<lambda>c.
       if ci_mode c = CONN_IO_MODE_WS
       then let c = c\<lparr>ci_proxy_on := on\<rparr>
         in if ci_proxy_on c then c\<lparr>ci_proxy := the (proxy_v2_init (Some (ci_proxy c)))\<rparr> else c
       else c) cp"

definition conn_io_proxy_settled :: "conn_io_t ptr \<Rightarrow> bool" where
  "conn_io_proxy_settled cp = (case cp of NULL \<Rightarrow> False | Some c \<Rightarrow> ci_proxy_on c \<and> px_done (ci_proxy c))"

definition conn_io_client_addr :: "conn_io_t ptr \<Rightarrow> authd_addr_t" where
  "conn_io_client_addr cp = (case cp of NULL \<Rightarrow> \<lparr>aa_family = 0, aa_addr = zeros 16\<rparr> | Some c \<Rightarrow> px_addr (ci_proxy c))"

definition conn_io_ws_refuse :: "conn_io_t ptr \<Rightarrow> nat \<Rightarrow> conn_io_status_t \<times> conn_io_t ptr" where
  "conn_io_ws_refuse cp code =
     (case cp of NULL \<Rightarrow> (CONN_IO_ERR_ARG, cp)
      | Some c \<Rightarrow>
        if ci_mode c \<noteq> CONN_IO_MODE_WS then (CONN_IO_ERR_ARG, cp)
        else
          let c = c\<lparr>ci_out := zeros AUTHD_OUT_BUF_BYTES, ci_out_len := 0, ci_out_sent := 0\<rparr>;
              (st, wp) = ws_refuse (Some (ci_ws c)) code
          in (if st = WS_OK then CONN_IO_OK else CONN_IO_ERR_PROTOCOL, Some (c\<lparr>ci_ws := the wp\<rparr>)))"

definition conn_io_ws_silence :: "conn_io_t ptr \<Rightarrow> conn_io_t ptr" where
  "conn_io_ws_silence cp =
     map_option (\<lambda>c.
       if ci_mode c \<noteq> CONN_IO_MODE_WS then c
       else c\<lparr>ci_out := zeros AUTHD_OUT_BUF_BYTES, ci_out_len := 0, ci_out_sent := 0,
         ci_ws := (ci_ws c)\<lparr>ws_reply := zeros WS_REPLY_MAX, ws_reply_len := 0, ws_reply_sent := 0, ws_stage := WS_STAGE_CLOSED\<rparr>\<rparr>) cp"

definition proxy_zero :: proxy_v2_t where
  "proxy_zero = \<lparr>px_buf = zeros 232, px_have = 0, px_want = 0, px_skip = 0, px_hdr_ok = False, px_done = False,
     px_result = PROXY_V2_NEED_MORE, px_addr = \<lparr>aa_family = 0, aa_addr = zeros 16\<rparr>\<rparr>"

definition conn_io_zero :: conn_io_t where
  "conn_io_zero = \<lparr>ci_mode = CONN_IO_MODE_FRAME, ci_proxy_on = False, ci_proxy = proxy_zero, ci_ws = ws_zero,
     ci_in = zeros AUTHD_IN_BUF_BYTES, ci_in_len = 0, ci_frame_len = 0, ci_line_total = 0, ci_failed = False,
     ci_out = zeros AUTHD_OUT_BUF_BYTES, ci_out_len = 0, ci_out_sent = 0\<rparr>"

definition conn_io_reset :: "conn_io_t ptr \<Rightarrow> conn_io_t ptr" where
  "conn_io_reset cp = map_option (\<lambda>_. conn_io_zero) cp"

section \<open>Input\<close>

definition be32 :: "bytes \<Rightarrow> u32" where
  "be32 p = push_bit 24 (ucast (p ! 0)) OR push_bit 16 (ucast (p ! 1)) OR push_bit 8 (ucast (p ! 2)) OR ucast (p ! 3)"

definition note_line_cap :: "conn_io_t \<Rightarrow> conn_io_status_t \<times> conn_io_t" where
  "note_line_cap c =
     (if memchr (take (ci_in_len c) (ci_in c)) 10 \<noteq> None then (CONN_IO_OK, c)
      else if ci_in_len c \<ge> AUTHD_LINE_MAX then (CONN_IO_ERR_PROTOCOL, c\<lparr>ci_failed := True\<rparr>)
      else (CONN_IO_OK, c))"

definition note_header :: "conn_io_t \<Rightarrow> conn_io_status_t \<times> conn_io_t" where
  "note_header c =
     (if ci_mode c = CONN_IO_MODE_WS \<and> ws_stage (ci_ws c) = WS_STAGE_UPGRADE then (CONN_IO_OK, c)
      else if ci_frame_len c \<noteq> 0 \<or> ci_in_len c < AUTHD_FRAME_HEADER then (CONN_IO_OK, c)
      else
        let len = be32 (ci_in c)
        in if len = 0 \<or> len > of_nat AUTHD_FRAME_MAX then (CONN_IO_ERR_PROTOCOL, c\<lparr>ci_failed := True\<rparr>)
           else (CONN_IO_OK, c\<lparr>ci_frame_len := unat len\<rparr>))"

definition ws_sink_in :: "conn_io_t sink" where
  "ws_sink_in c p =
     (if length p > AUTHD_IN_BUF_BYTES - ci_in_len c then (-1, c)
      else (0, c\<lparr>ci_in := memcpy (ci_in c) (ci_in_len c) p, ci_in_len := ci_in_len c + length p\<rparr>))"

definition ws_feed :: "conn_io_t \<Rightarrow> bytes \<Rightarrow> conn_io_status_t \<times> conn_io_t" where
  "ws_feed c p =
     (let (st, wp, c) = ws_consume (Some ws_sink_in) (Some (ci_ws c)) c (Some p) (length p);
          c = c\<lparr>ci_ws := the wp\<rparr>
      in if st = WS_ERR_PROTOCOL then (CONN_IO_ERR_PROTOCOL, c\<lparr>ci_failed := True\<rparr>)
         else note_header c)"

fun end_of_headers_loop :: "nat \<Rightarrow> bytes \<Rightarrow> nat" where
  "end_of_headers_loop i (a # b # c # d # r) =
     (if a = 13 \<and> b = 10 \<and> c = 13 \<and> d = 10 then i + 4 else end_of_headers_loop (i + 1) (b # c # d # r))"
| "end_of_headers_loop i _ = 0"

definition end_of_headers :: "bytes \<Rightarrow> nat" where
  "end_of_headers p = end_of_headers_loop 0 p"

definition push_ws ::
  "(nat \<Rightarrow> bytes \<Rightarrow> int \<times> bytes) \<Rightarrow> (bytes \<Rightarrow> bytes) \<Rightarrow> conn_io_t \<Rightarrow> bytes \<Rightarrow> conn_io_status_t \<times> conn_io_t" where
  "push_ws base642bin bin2base64 c data =
     (if ws_stage (ci_ws c) \<noteq> WS_STAGE_UPGRADE then ws_feed c data
      else if length data > AUTHD_IN_BUF_BYTES - ci_in_len c then (CONN_IO_ERR_OVERFLOW, c\<lparr>ci_failed := True\<rparr>)
      else
        let c = c\<lparr>ci_in := memcpy (ci_in c) (ci_in_len c) data, ci_in_len := ci_in_len c + length data\<rparr>;
            req_len = end_of_headers (take (ci_in_len c) (ci_in c))
        in if req_len = 0
           then if ci_in_len c > WS_UPGRADE_MAX then (CONN_IO_ERR_PROTOCOL, c\<lparr>ci_failed := True\<rparr>)
             else (CONN_IO_OK, c)
        else if req_len > WS_UPGRADE_MAX then (CONN_IO_ERR_PROTOCOL, c\<lparr>ci_failed := True\<rparr>)
        else
          let (st, wp) = ws_upgrade base642bin bin2base64 (Some (ci_ws c)) (Some (ci_in c)) req_len;
              c = c\<lparr>ci_ws := the wp\<rparr>
          in if st \<noteq> WS_OK then (CONN_IO_ERR_PROTOCOL, c\<lparr>ci_failed := True\<rparr>)
          else
            let rest = bslice (ci_in c) req_len (ci_in_len c - req_len);
                c = c\<lparr>ci_in := memcpy (ci_in c) 0 (zeros (ci_in_len c)), ci_in_len := 0\<rparr>
            in if length rest > 0 then ws_feed c rest else (CONN_IO_OK, c))"

definition conn_io_push ::
  "(nat \<Rightarrow> bytes \<Rightarrow> int \<times> bytes) \<Rightarrow> (bytes \<Rightarrow> bytes) \<Rightarrow> conn_io_t ptr \<Rightarrow> bytes ptr \<Rightarrow> nat \<Rightarrow> conn_io_status_t \<times> conn_io_t ptr" where
  "conn_io_push base642bin bin2base64 cp data n =
     (if cp = NULL \<or> (data = NULL \<and> n \<noteq> 0) then (CONN_IO_ERR_ARG, cp)
      else if ci_failed (the cp) then (CONN_IO_ERR_PROTOCOL, cp)
      else
        let c = the cp; d = (case data of NULL \<Rightarrow> [] | Some b \<Rightarrow> take n b)
        in if ci_mode c = CONN_IO_MODE_WS
        then
          if ci_proxy_on c \<and> \<not> px_done (ci_proxy c)
          then
            let (st, pp, used) = proxy_v2_consume (Some (ci_proxy c)) data n (Some 0);
                c = c\<lparr>ci_proxy := the pp\<rparr>
            in if st = PROXY_V2_ERR then (CONN_IO_ERR_PROTOCOL, Some (c\<lparr>ci_failed := True\<rparr>))
               else if \<not> px_done (ci_proxy c) then (CONN_IO_OK, Some c)
               else map_prod id Some (push_ws base642bin bin2base64 c (drop (the used) d))
          else map_prod id Some (push_ws base642bin bin2base64 c d)
        else if n = 0 then map_prod id Some (if ci_mode c = CONN_IO_MODE_LINE then note_line_cap c else note_header c)
        else if n > AUTHD_IN_BUF_BYTES - ci_in_len c then (CONN_IO_ERR_OVERFLOW, Some (c\<lparr>ci_failed := True\<rparr>))
        else
          let c = c\<lparr>ci_in := memcpy (ci_in c) (ci_in_len c) d, ci_in_len := ci_in_len c + n\<rparr>
          in map_prod id Some (if ci_mode c = CONN_IO_MODE_LINE then note_line_cap c else note_header c))"

definition conn_io_next_line :: "conn_io_t ptr \<Rightarrow> nat ptr \<Rightarrow> nat ptr \<Rightarrow> int \<times> conn_io_t ptr \<times> nat ptr \<times> nat ptr" where
  "conn_io_next_line cp line len =
     (case cp of NULL \<Rightarrow> (0, cp, line, len)
      | Some c \<Rightarrow>
        if line = NULL \<or> len = NULL \<or> ci_failed c \<or> ci_mode c \<noteq> CONN_IO_MODE_LINE then (0, cp, line, len)
        else (case memchr (take (ci_in_len c) (ci_in c)) 10 of
                None \<Rightarrow> (0, cp, line, len)
              | Some i \<Rightarrow>
                let c = c\<lparr>ci_line_total := i + 1\<rparr>;
                    n = (if i > 0 \<and> ci_in c ! (i - 1) = 13 then i - 1 else i)
                in (1, Some c, Some 0, Some n)))"

definition conn_io_consume_line :: "conn_io_t ptr \<Rightarrow> conn_io_t ptr" where
  "conn_io_consume_line cp =
     map_option (\<lambda>c.
       if ci_line_total c = 0 \<or> ci_in_len c < ci_line_total c then c
       else
         let total = ci_line_total c; rest = ci_in_len c - total;
             b = (if rest > 0 then memcpy (ci_in c) 0 (bslice (ci_in c) total rest) else ci_in c);
             b = memcpy b rest (zeros (ci_in_len c - rest))
         in c\<lparr>ci_in := b, ci_in_len := rest, ci_line_total := 0\<rparr>) cp"

definition conn_io_next_frame :: "conn_io_t ptr \<Rightarrow> nat ptr \<Rightarrow> nat ptr \<Rightarrow> int \<times> conn_io_t ptr \<times> nat ptr \<times> nat ptr" where
  "conn_io_next_frame cp payload len =
     (case cp of NULL \<Rightarrow> (0, cp, payload, len)
      | Some c \<Rightarrow>
        if payload = NULL \<or> len = NULL \<or> ci_failed c then (0, cp, payload, len)
        else
          let (st, c) = note_header c
          in if st \<noteq> CONN_IO_OK then (0, Some c, payload, len)
          else if ci_frame_len c = 0 then (0, Some c, payload, len)
          else if ci_in_len c < AUTHD_FRAME_HEADER + ci_frame_len c then (0, Some c, payload, len)
          else (1, Some c, Some AUTHD_FRAME_HEADER, Some (ci_frame_len c)))"

definition conn_io_consume_frame :: "conn_io_t ptr \<Rightarrow> conn_io_t ptr" where
  "conn_io_consume_frame cp =
     map_option (\<lambda>c.
       if ci_frame_len c = 0 then c
       else
         let total = AUTHD_FRAME_HEADER + ci_frame_len c
         in if ci_in_len c < total then c
         else
           let rest = ci_in_len c - total;
               b = (if rest > 0 then memcpy (ci_in c) 0 (bslice (ci_in c) total rest) else ci_in c);
               b = memcpy b rest (zeros (ci_in_len c - rest))
           in snd (note_header (c\<lparr>ci_in := b, ci_in_len := rest, ci_frame_len := 0\<rparr>))) cp"

section \<open>Output\<close>

definition frame_prefix :: "nat \<Rightarrow> bytes" where
  "frame_prefix len =
     [of_nat (drop_bit 24 len AND 0xff), of_nat (drop_bit 16 len AND 0xff), of_nat (drop_bit 8 len AND 0xff), of_nat (len AND 0xff)]"

definition conn_io_queue :: "conn_io_t ptr \<Rightarrow> bytes ptr \<Rightarrow> nat \<Rightarrow> conn_io_status_t \<times> conn_io_t ptr" where
  "conn_io_queue cp payload len =
     (if cp = NULL \<or> payload = NULL then (CONN_IO_ERR_ARG, cp)
      else if len = 0 \<or> len > AUTHD_FRAME_MAX then (CONN_IO_ERR_ARG, cp)
      else if ci_out_len (the cp) \<noteq> ci_out_sent (the cp) then (CONN_IO_ERR_BUSY, cp)
      else
        let c = the cp; p = take len (the payload)
        in if ci_mode c = CONN_IO_MODE_LINE
        then (CONN_IO_OK, Some (c\<lparr>ci_out := memcpy (ci_out c) 0 p, ci_out_len := len, ci_out_sent := 0\<rparr>))
        else if ci_mode c = CONN_IO_MODE_WS
        then
          let inner = AUTHD_FRAME_HEADER + len;
              (h, hl) = ws_server_header (zeros WS_SRV_HDR_MAX) (of_nat inner) WS_OP_BINARY
          in if hl + inner > AUTHD_OUT_BUF_BYTES then (CONN_IO_ERR_ARG, cp)
          else
            let b = memcpy (ci_out c) 0 (take hl h);
                b = memcpy b hl (frame_prefix len);
                b = memcpy b (hl + AUTHD_FRAME_HEADER) p
            in (CONN_IO_OK, Some (c\<lparr>ci_out := b, ci_out_len := hl + inner, ci_out_sent := 0\<rparr>))
        else
          let b = memcpy (ci_out c) 0 (frame_prefix len);
              b = memcpy b AUTHD_FRAME_HEADER p
          in (CONN_IO_OK, Some (c\<lparr>ci_out := b, ci_out_len := AUTHD_FRAME_HEADER + len, ci_out_sent := 0\<rparr>)))"

definition ws_reply_pending :: "conn_io_t \<Rightarrow> bool" where
  "ws_reply_pending c \<longleftrightarrow> ci_mode c = CONN_IO_MODE_WS \<and> ws_reply_len (ci_ws c) > ws_reply_sent (ci_ws c)"

definition conn_io_in_room :: "conn_io_t ptr \<Rightarrow> nat" where
  "conn_io_in_room cp =
     (case cp of NULL \<Rightarrow> 0 | Some c \<Rightarrow> if ci_in_len c \<ge> AUTHD_IN_BUF_BYTES then 0 else AUTHD_IN_BUF_BYTES - ci_in_len c)"

definition conn_io_pending :: "conn_io_t ptr \<Rightarrow> nat" where
  "conn_io_pending cp =
     (case cp of NULL \<Rightarrow> 0
      | Some c \<Rightarrow>
        if ws_reply_pending c then ws_reply_len (ci_ws c) - ws_reply_sent (ci_ws c)
        else if ci_out_len c \<le> ci_out_sent c then 0
        else ci_out_len c - ci_out_sent c)"

text \<open>What the returned pointer shows.\<close>

definition conn_io_pending_ptr :: "conn_io_t ptr \<Rightarrow> bytes ptr" where
  "conn_io_pending_ptr cp =
     (case cp of NULL \<Rightarrow> NULL
      | Some c \<Rightarrow>
        if ws_reply_pending c then Some (drop (ws_reply_sent (ci_ws c)) (ws_reply (ci_ws c)))
        else Some (drop (ci_out_sent c) (ci_out c)))"

definition conn_io_sent :: "conn_io_t ptr \<Rightarrow> nat \<Rightarrow> conn_io_t ptr" where
  "conn_io_sent cp n =
     map_option (\<lambda>c.
       if ws_reply_pending c
       then
         let w = ci_ws c; left = ws_reply_len w - ws_reply_sent w;
             w = w\<lparr>ws_reply_sent := ws_reply_sent w + (if n > left then left else n)\<rparr>
         in c\<lparr>ci_ws := if ws_reply_sent w \<ge> ws_reply_len w
                then w\<lparr>ws_reply := memcpy (ws_reply w) 0 (zeros (ws_reply_len w)), ws_reply_len := 0, ws_reply_sent := 0\<rparr>
                else w\<rparr>
       else
         let pending = conn_io_pending (Some c);
             c = c\<lparr>ci_out_sent := ci_out_sent c + (if n > pending then pending else n)\<rparr>
         in if ci_out_sent c = ci_out_len c
            then c\<lparr>ci_out := memcpy (ci_out c) 0 (zeros (ci_out_len c)), ci_out_len := 0, ci_out_sent := 0\<rparr>
            else c) cp"

end
