(* ===== verification/Conn_Io_Safety.thy ===== *)
theory Conn_Io_Safety
  imports Conn_Io
begin

text \<open>
  What \<open>conn_io.c\<close> keeps and delivers: the bounds of every buffer under any sequence of calls, the
  independence of the input from the way it arrives, the frames that come out of it, and the round trip
  with the client's half of \<open>ws.c\<close>.
\<close>

section \<open>Bounds\<close>

text \<open>One round of the decoder's loops.\<close>

lemma ws_payload_loop_eq:
  assumes "p \<noteq> []" "k = (if length p > 512 then 512 else length p)" "w1 = w\<lparr>ws_mask_off := (ws_mask_off w + k) mod 4\<rparr>"
    "t = ws_unmask (ws_mask w) (ws_mask_off w) (take k p)"
    "w2 = w1\<lparr>ws_ctrl := memcpy (ws_ctrl w1) (ws_ctrl_len w1) t, ws_ctrl_len := ws_ctrl_len w1 + k\<rparr>"
  shows "ws_payload_loop sink w c p =
    (if ws_is_control w1 then if ws_ctrl_len w1 + k > 125 then (False, w1, c) else ws_payload_loop sink w2 c (drop k p)
     else let (rc, c) = sink c t in if rc \<noteq> 0 then (False, w1, c) else ws_payload_loop sink w1 c (drop k p))"
  unfolding ws_payload_loop.simps [of sink w c p] assms(2-5) [symmetric] Let_def using assms(1) by simp

lemma ws_loop_eq_header:
  assumes "bs \<noteq> []" "ws_payload_left w = 0 \<and> ws_header_wanted w" "ws_header_loop w bs = (ok, w1, r)"
    "ws_header_done w1 = (ok2, w2)" "ws_frame_done w2 = (cl, w3)"
  shows "ws_loop sink w c bs =
    (if \<not> ok then (WS_ERR_PROTOCOL, w1, c) else if ws_header_wanted w1 then (WS_NEED_MORE, w1, c) else if \<not> ok2 then (WS_ERR_PROTOCOL, w2, c)
     else if ws_payload_left w2 = 0 then if cl then (WS_OK, w3, c) else ws_loop sink w3 c r else ws_loop sink w2 c r)"
  using assms by (simp add: ws_loop.simps [of sink w c bs])

lemma ws_loop_eq_payload:
  assumes ne: "bs \<noteq> []" and p: "\<not> (ws_payload_left w = 0 \<and> ws_header_wanted w)"
    and n: "n = (if length bs > unat (ws_payload_left w) then unat (ws_payload_left w) else length bs)"
    and l: "ws_payload_loop sink w c (take n bs) = (ok, w1, c1)"
    and w2: "w2 = w1\<lparr>ws_payload_left := ws_payload_left w - of_nat n\<rparr>" and f: "ws_frame_done w2 = (cl, w3)"
  shows "ws_loop sink w c bs =
    (if \<not> ok then (WS_ERR_PROTOCOL, w1, c1) else if ws_payload_left w2 \<noteq> 0 then (WS_NEED_MORE, w2, c1)
     else if cl then (WS_OK, w3, c1) else ws_loop sink w3 c1 (drop n bs))"
  unfolding ws_loop.simps [of sink w c bs] n [symmetric] if_not_P [OF ne] if_not_P [OF p]
  using l f by (simp add: w2 [symmetric] Let_def)

definition ws_measure :: "ws_t \<Rightarrow> bytes \<Rightarrow> nat" where
  "ws_measure w bs = 2 * length bs + (if ws_payload_left w = 0 \<and> \<not> ws_header_wanted w then 1 else 0)"

lemma ws_measure_header:
  assumes "bs \<noteq> []" "ws_payload_left w = 0 \<and> ws_header_wanted w" "ws_header_loop w bs = (ok, w1, r)"
  shows "ws_measure v r < ws_measure w bs"
  using ws_header_loop_progress [OF assms(3)] assms by (simp add: ws_measure_def)

lemma ws_measure_payload:
  assumes ne: "bs \<noteq> []" and p: "\<not> (ws_payload_left w = 0 \<and> ws_header_wanted w)"
    and n: "n = (if length bs > unat (ws_payload_left w) then unat (ws_payload_left w) else length bs)" and f: "ws_frame_done w2 = (cl, w3)"
  shows "ws_measure w3 (drop n bs) < ws_measure w bs"
proof -
  have "n \<noteq> 0" if "ws_payload_left w \<noteq> 0" using that ne by (auto simp: n unat_gt_0)
  then show ?thesis using ne p ws_frame_done_wanted [OF f] by (auto simp: ws_measure_def)
qed

lemma payload_loop_bounds:
  assumes "\<And>c p. P c \<Longrightarrow> P (snd (sink c p))"
  shows "ws_payload_loop sink w c p = (ok, w', c') \<Longrightarrow> ws_bounds w \<Longrightarrow> P c \<Longrightarrow> ws_bounds w' \<and> P c'"
proof (induction "length p" arbitrary: w c p rule: less_induct)
  case less
  show ?case
  proof (cases "p = []")
    case True
    then show ?thesis using less.prems by (simp add: ws_payload_loop.simps)
  next
    case False
    define k where "k = (if length p > 512 then 512 else length p)"
    define w1 where "w1 = w\<lparr>ws_mask_off := (ws_mask_off w + k) mod 4\<rparr>"
    define t where "t = ws_unmask (ws_mask w) (ws_mask_off w) (take k p)"
    define w2 where "w2 = w1\<lparr>ws_ctrl := memcpy (ws_ctrl w1) (ws_ctrl_len w1) t, ws_ctrl_len := ws_ctrl_len w1 + k\<rparr>"
    have k: "length (drop k p) < length p" "length t = k" using False by (auto simp: k_def t_def)
    have b1: "ws_bounds w1" using less.prems(2) by (simp add: w1_def)
    have b2: "ws_bounds w2" if "ws_ctrl_len w1 + k \<le> 125" using that b1 k(2) by (simp add: w2_def ws_bounds_def)
    have P: "P (snd (sink c t))" using less.prems(3) by (rule assms)
    note eq = ws_payload_loop_eq [OF False k_def w1_def t_def w2_def]
    show ?thesis
    proof (cases "ws_is_control w1")
      case True
      with less.prems(1,3) b1 b2 less.hyps [OF k(1), of w2 c] show ?thesis by (auto simp: eq split: if_splits)
    next
      case c: False
      with less.prems(1) b1 P less.hyps [OF k(1), of w1 "snd (sink c t)"] show ?thesis by (auto simp: eq split_beta split: if_splits)
    qed
  qed
qed

lemma ws_loop_bounds:
  assumes P: "\<And>c p. P c \<Longrightarrow> P (snd (sink c p))"
  shows "ws_loop sink w c bs = (st, w', c') \<Longrightarrow> ws_bounds w \<Longrightarrow> P c \<Longrightarrow> ws_bounds w' \<and> P c'"
proof (induction "ws_measure w bs" arbitrary: w c bs rule: less_induct)
  case less
  show ?case
  proof (cases "bs = []")
    case ne: False
    show ?thesis
    proof (cases "ws_payload_left w = 0 \<and> ws_header_wanted w")
      case True
      obtain ok w1 r where h: "ws_header_loop w bs = (ok, w1, r)" using prod_cases3 by blast
      obtain ok2 w2 where d: "ws_header_done w1 = (ok2, w2)" by force
      obtain cl w3 where f: "ws_frame_done w2 = (cl, w3)" by force
      have b: "ws_bounds w1" "ws_bounds w2" "ws_bounds w3"
        using ws_header_loop_bounds [OF h less.prems(2)] ws_header_done_bounds [OF _ d] ws_frame_done_bounds [of w2] f by auto
      note m = ws_measure_header [OF ne True h]
      show ?thesis using less.prems(1,3) b less.hyps [OF m] by (auto simp: ws_loop_eq_header [OF ne True h d f] split: if_splits)
    next
      case False
      define n where "n = (if length bs > unat (ws_payload_left w) then unat (ws_payload_left w) else length bs)"
      obtain ok w1 c1 where l: "ws_payload_loop sink w c (take n bs) = (ok, w1, c1)" using prod_cases3 by blast
      define w2 where "w2 = w1\<lparr>ws_payload_left := ws_payload_left w - of_nat n\<rparr>"
      obtain cl w3 where f: "ws_frame_done w2 = (cl, w3)" by force
      have b: "ws_bounds w1" "P c1" "ws_bounds w2" "ws_bounds w3"
        using payload_loop_bounds [OF P l less.prems(2,3)] ws_frame_done_bounds [of w2] f by (simp_all add: w2_def)
      note m = ws_measure_payload [OF ne False n_def f] and eq = ws_loop_eq_payload [OF ne False n_def l w2_def f]
      show ?thesis using less.prems(1) b less.hyps [OF m, of c1] by (auto simp: eq split: if_splits)
    qed
  qed (use less.prems in simp)
qed

definition conn_io_inv :: "conn_io_t \<Rightarrow> bool" where
  "conn_io_inv c \<longleftrightarrow> length (ci_in c) = 12317 \<and> ci_in_len c \<le> 12317 \<and> ci_frame_len c \<le> 12313 \<and>
     length (ci_out c) = 12327 \<and> ci_out_len c \<le> 12327 \<and> ci_out_sent c \<le> ci_out_len c \<and>
     ws_bounds (ci_ws c) \<and> (ci_proxy_on c \<longrightarrow> proxy_inv (ci_proxy c))"

lemma conn_io_inv_zero: "conn_io_inv conn_io_zero"
  by (simp add: conn_io_inv_def conn_io_zero_def ws_bounds_def ws_zero_def)

lemma ws_init_bounds: "ws_bounds (ws_init w)"
  by (simp add: ws_init_def ws_zero_def ws_bounds_def)

lemma length_snprintf_buf [simp]: "b \<noteq> [] \<Longrightarrow> length (snprintf_buf b s) = length b"
  unfolding snprintf_buf_def by (rule length_memcpy) (cases b, simp_all)

lemma ws_reply_bounds: "ws_bounds w \<Longrightarrow> k \<le> n \<Longrightarrow> n \<le> 135 \<Longrightarrow> ws_bounds (w\<lparr>ws_reply := snprintf_buf (ws_reply w) s, ws_reply_len := n, ws_reply_sent := k\<rparr>)"
  by (cases "ws_reply w") (auto simp: ws_bounds_def)

lemma ws_reply_bounds': "ws_bounds w \<Longrightarrow> ws_bounds (w\<lparr>ws_reply := snprintf_buf (ws_reply w) s\<rparr>)"
  by (cases "ws_reply w") (auto simp: ws_bounds_def)

lemma ws_refuse_bounds: "ws_bounds w \<Longrightarrow> ws_refuse (Some w) code = (st, wp) \<Longrightarrow> \<exists>w'. wp = Some w' \<and> ws_bounds w'"
  using ws_reply_bounds [of w 0] unfolding ws_refuse_def Let_def option.case by (auto split: if_splits)

lemma take_state_loop_bounds: "take_state_loop w r = (st, w') \<Longrightarrow> ws_bounds w \<Longrightarrow> ws_bounds w'"
proof (induction w r rule: take_state_loop.induct)
  case (1 w r)
  have len: "ws_bounds (w\<lparr>ws_state := memcpy (ws_state w) 0 v, ws_state_len := length v\<rparr>)" if "length v \<le> 64" for v
    using that 1(3) by (simp add: ws_bounds_def)
  show ?case
  proof (cases "r = []")
    case False
    then show ?thesis using 1 len [of "drop 6 (takeWhile (\<lambda>c. c \<noteq> 38) r)"]
      by (auto simp: take_state_loop.simps [of w r] Let_def split: if_splits)
  qed (use 1 in \<open>simp add: take_state_loop.simps\<close>)
qed

lemma take_state_bounds: "take_state w t = (st, w') \<Longrightarrow> ws_bounds w \<Longrightarrow> ws_bounds w'"
  by (auto simp: take_state_def split: option.splits dest: take_state_loop_bounds)

lemma ws_upgrade_reply_bounds: "ws_upgrade_reply w a = (st, w') \<Longrightarrow> ws_bounds w \<Longrightarrow> ws_bounds w'"
  using ws_reply_bounds' ws_reply_bounds [of w 0] unfolding ws_upgrade_reply_def Let_def by (auto split: if_splits)

lemma ws_upgrade_headers_bounds: "ws_upgrade_headers f g w r = (st, w') \<Longrightarrow> ws_bounds w \<Longrightarrow> ws_bounds w'"
  by (auto simp: ws_upgrade_headers_def Let_def split: option.splits if_splits prod.splits dest: ws_upgrade_reply_bounds)

lemma ws_upgrade_bounds:
  assumes "ws_bounds w" "ws_upgrade f g (Some w) req len = (st, wp)"
  shows "\<exists>w'. wp = Some w' \<and> ws_bounds w'"
proof -
  have h: "\<exists>w'. wp' = Some w' \<and> ws_bounds w'" if "map_prod id Some (ws_upgrade_headers f g v r) = (st', wp')" "ws_bounds v" for v r st' wp'
    using that ws_upgrade_headers_bounds [of f g v r] by (cases "ws_upgrade_headers f g v r") auto
  show ?thesis using assms(2) unfolding ws_upgrade_def Let_def option.sel
    by (auto split: if_splits option.splits prod.splits dest: take_state_bounds [OF _ assms(1)] h simp: assms(1))
qed

text \<open>The sink of \<open>ws_consume\<close> only adds to the input.\<close>

definition add_in :: "conn_io_t \<Rightarrow> bytes \<Rightarrow> conn_io_t" where
  "add_in c z = c\<lparr>ci_in := memcpy (ci_in c) (ci_in_len c) z, ci_in_len := ci_in_len c + length z\<rparr>"

definition in_ok :: "conn_io_t \<Rightarrow> bool" where
  "in_ok c \<longleftrightarrow> length (ci_in c) = 12317 \<and> ci_in_len c \<le> 12317"

lemma add_in_nil [simp]: "add_in c [] = c"
  by (simp add: add_in_def memcpy_def)

lemma add_in_append: "in_ok c \<Longrightarrow> add_in (add_in c x) y = add_in c (x @ y)"
  by (simp add: add_in_def in_ok_def memcpy_append add.assoc)

lemma add_in_sel [simp]:
  "ci_mode (add_in c z) = ci_mode c" "ci_proxy_on (add_in c z) = ci_proxy_on c" "ci_proxy (add_in c z) = ci_proxy c" "ci_ws (add_in c z) = ci_ws c"
  "ci_in_len (add_in c z) = ci_in_len c + length z" "ci_frame_len (add_in c z) = ci_frame_len c" "ci_line_total (add_in c z) = ci_line_total c"
  "ci_failed (add_in c z) = ci_failed c" "ci_out (add_in c z) = ci_out c" "ci_out_len (add_in c z) = ci_out_len c" "ci_out_sent (add_in c z) = ci_out_sent c"
  by (simp_all add: add_in_def)

lemma length_add_in [simp]: "in_ok c \<Longrightarrow> length z \<le> 12317 - ci_in_len c \<Longrightarrow> length (ci_in (add_in c z)) = 12317"
  by (auto simp: add_in_def in_ok_def memcpy_def)

lemma in_ok_add_in: "in_ok c \<Longrightarrow> length z \<le> 12317 - ci_in_len c \<Longrightarrow> in_ok (add_in c z)"
  using length_add_in [of c z] by (auto simp: in_ok_def)

lemma ws_sink_in_eq: "ws_sink_in c p = (if length p > 12317 - ci_in_len c then (-1, c) else (0, add_in c p))"
  by (simp add: ws_sink_in_def add_in_def)

text \<open>The contexts that the sink leads to from \<open>c\<close>.\<close>

definition grown :: "conn_io_t \<Rightarrow> conn_io_t \<Rightarrow> bool" where
  "grown c c' \<longleftrightarrow> (\<exists>z. length z \<le> 12317 - ci_in_len c \<and> c' = add_in c z)"

lemma grown_sink:
  assumes "in_ok c" "grown c c1"
  shows "grown c (snd (ws_sink_in c1 p))"
proof -
  obtain z where z: "length z \<le> 12317 - ci_in_len c" "c1 = add_in c z" using assms(2) by (auto simp: grown_def)
  show ?thesis
  proof (cases "length p > 12317 - ci_in_len c1")
    case False
    then have "length (z @ p) \<le> 12317 - ci_in_len c" "snd (ws_sink_in c1 p) = add_in c (z @ p)"
      using z assms(1) by (auto simp: ws_sink_in_eq add_in_append)
    then show ?thesis unfolding grown_def by blast
  qed (use assms(2) in \<open>simp add: ws_sink_in_eq\<close>)
qed

lemma ws_consume_grown:
  assumes "in_ok c" "ws_bounds w" "ws_consume (Some ws_sink_in) (Some w) c (Some p) n = (st, wp, c')"
  shows "\<exists>w'. wp = Some w' \<and> ws_bounds w' \<and> grown c c'"
proof -
  have g: "grown c c" by (auto simp: grown_def intro!: exI [of _ "[]"])
  obtain st' w' c1 where l: "ws_loop ws_sink_in w c (take n p) = (st', w', c1)" using prod_cases3 by blast
  have "ws_bounds w' \<and> grown c c1" 
    using ws_loop_bounds [of "grown c", OF _ l assms(2) g] grown_sink [OF assms(1)] by blast
  then show ?thesis using assms(2,3) l g by (auto simp: ws_consume_def split: if_splits)
qed

lemma conn_io_inv_in_ok: "conn_io_inv c \<Longrightarrow> in_ok c"
  by (simp add: conn_io_inv_def in_ok_def)

lemma conn_io_inv_grown: "conn_io_inv c \<Longrightarrow> grown c c' \<Longrightarrow> conn_io_inv c'"
  using conn_io_inv_in_ok [of c] by (auto simp: grown_def conn_io_inv_def)

lemma conn_io_inv_upd [simp]:
  "conn_io_inv (c\<lparr>ci_failed := b\<rparr>) = conn_io_inv c" "conn_io_inv (c\<lparr>ci_line_total := n\<rparr>) = conn_io_inv c"
  "conn_io_inv (c\<lparr>ci_mode := m\<rparr>) = conn_io_inv c"
  "conn_io_inv c \<Longrightarrow> ws_bounds w \<Longrightarrow> conn_io_inv (c\<lparr>ci_ws := w\<rparr>)" "conn_io_inv c \<Longrightarrow> proxy_inv p \<Longrightarrow> conn_io_inv (c\<lparr>ci_proxy := p\<rparr>)"
  "conn_io_inv c \<Longrightarrow> n \<le> 12313 \<Longrightarrow> conn_io_inv (c\<lparr>ci_frame_len := n\<rparr>)"
  by (auto simp: conn_io_inv_def)

lemma note_header_inv: "conn_io_inv c \<Longrightarrow> conn_io_inv (snd (note_header c))"
  by (auto simp: note_header_def Let_def word_le_nat_alt not_less)

lemma note_line_cap_inv: "conn_io_inv c \<Longrightarrow> conn_io_inv (snd (note_line_cap c))"
  by (simp add: note_line_cap_def)

lemma ws_feed_inv:
  assumes "conn_io_inv c"
  shows "conn_io_inv (snd (ws_feed c p))"
proof -
  obtain st wp c' where r: "ws_consume (Some ws_sink_in) (Some (ci_ws c)) c (Some p) (length p) = (st, wp, c')" using prod_cases3 by blast
  obtain w' where w: "wp = Some w'" "ws_bounds w'" "grown c c'"
    using ws_consume_grown [OF conn_io_inv_in_ok [OF assms] _ r] assms by (auto simp: conn_io_inv_def)
  then have "conn_io_inv (c'\<lparr>ci_ws := w'\<rparr>)" using conn_io_inv_grown [OF assms] by simp
  then show ?thesis using r w by (simp add: ws_feed_def note_header_inv Let_def)
qed

lemma conn_io_inv_add_in: "conn_io_inv c \<Longrightarrow> length z \<le> 12317 - ci_in_len c \<Longrightarrow> conn_io_inv (add_in c z)"
  by (rule conn_io_inv_grown) (auto simp: grown_def)

lemma conn_io_inv_clear: "conn_io_inv c \<Longrightarrow> conn_io_inv (c\<lparr>ci_in := memcpy (ci_in c) 0 (zeros (ci_in_len c)), ci_in_len := 0\<rparr>)"
  by (auto simp: conn_io_inv_def)

lemma push_ws_inv:
  assumes "conn_io_inv c"
  shows "conn_io_inv (snd (push_ws f g c d))"
proof -
  define c1 where "c1 = add_in c d"
  obtain st wp where u: "ws_upgrade f g (Some (ci_ws c1)) (Some (ci_in c1)) (end_of_headers (take (ci_in_len c1) (ci_in c1))) = (st, wp)" by force
  show ?thesis
  proof (cases "length d > 12317 - ci_in_len c")
    case False
    then have i1: "conn_io_inv c1" using assms by (simp add: c1_def conn_io_inv_add_in)
    then obtain w' where w: "wp = Some w'" "ws_bounds w'" using ws_upgrade_bounds [OF _ u] by (auto simp: conn_io_inv_def)
    define c2 where "c2 = c1\<lparr>ci_ws := w'\<rparr>"
    define c3 where "c3 = c2\<lparr>ci_in := memcpy (ci_in c2) 0 (zeros (ci_in_len c2)), ci_in_len := 0\<rparr>"
    have i2: "conn_io_inv c2" using i1 w(2) by (simp add: c2_def)
    then have i3: "conn_io_inv c3" unfolding c3_def by (rule conn_io_inv_clear)
    show ?thesis
      using assms i1 i2 i3 ws_feed_inv u w(1) False
      by (simp add: push_ws_def add_in_def [symmetric] c1_def [symmetric] c2_def [symmetric] c3_def [symmetric] Let_def)
  qed (use assms ws_feed_inv in \<open>simp add: push_ws_def\<close>)
qed

lemma proxy_consume_inv:
  assumes "proxy_inv p" "\<not> px_done p"
  shows "\<exists>p' k. proxy_v2_consume (Some p) (Some d) (length d) (Some 0) = (px_result p', Some p', Some k) \<and> proxy_feed p d = (p', k) \<and> proxy_inv p'"
proof -
  obtain x where "p = after x" using assms(1) by (auto simp: proxy_inv_def)
  then show ?thesis using assms(2) consume_after [of x d 0] by (auto simp: proxy_feed_after proxy_inv_def)
qed

lemma conn_io_push_inv:
  assumes "conn_io_inv c" "conn_io_push f g (Some c) (Some d) (length d) = (st, cp)"
  shows "\<exists>c'. cp = Some c' \<and> conn_io_inv c'"
proof -
  have mp: "\<exists>c'. cp' = Some c' \<and> conn_io_inv c'" if "map_prod id Some x = (st', cp')" "conn_io_inv (snd x)" for x st' cp'
    using that by (cases x) auto
  have nt: "conn_io_inv (snd (if b then note_line_cap v else note_header v))" if "conn_io_inv v" for b v
    using that by (simp add: note_header_inv note_line_cap_inv)
  show ?thesis
  proof (cases "ci_mode c = CONN_IO_MODE_WS \<and> ci_proxy_on c \<and> \<not> px_done (ci_proxy c)")
    case True
    then obtain p' k where p: "proxy_v2_consume (Some (ci_proxy c)) (Some d) (length d) (Some 0) = (px_result p', Some p', Some k)" "proxy_inv p'"
      using proxy_consume_inv [of "ci_proxy c" d] assms(1) by (auto simp: conn_io_inv_def)
    have i: "conn_io_inv (c\<lparr>ci_proxy := p'\<rparr>)" using assms(1) p(2) by simp
    then show ?thesis using assms True p(1) mp [OF _ push_ws_inv [OF i, of f g "drop k d"]] by (auto simp: conn_io_push_def Let_def split: if_splits)
  next
    case False
    show ?thesis
    proof (cases "ci_mode c = CONN_IO_MODE_WS")
      case True
      then show ?thesis using False assms mp [OF _ push_ws_inv [OF assms(1), of f g d]] by (auto simp: conn_io_push_def split: if_splits)
    next
      case nw: False
      show ?thesis
      proof (cases "length d > 12317 - ci_in_len c")
        case fits: False
        then have i: "conn_io_inv (add_in c d)" using assms(1) by (intro conn_io_inv_add_in) simp_all
        show ?thesis
          using nw fits assms mp [OF _ nt [OF i]] mp [OF _ nt [OF assms(1)]]
          by (auto simp: conn_io_push_def add_in_def [symmetric] Let_def split: if_splits)
      qed (use nw assms in \<open>auto simp: conn_io_push_def split: if_splits\<close>)
    qed
  qed
qed

text \<open>A call of the connection's interface.\<close>

datatype conn_io_call =
    Call_reset
  | Call_set_mode conn_io_mode_t
  | Call_set_proxy bool
  | Call_ws_refuse nat
  | Call_ws_silence
  | Call_push bytes
  | Call_next_line
  | Call_consume_line
  | Call_next_frame
  | Call_consume_frame
  | Call_queue bytes
  | Call_sent nat

definition conn_io_exec ::
  "(nat \<Rightarrow> bytes \<Rightarrow> int \<times> bytes) \<Rightarrow> (bytes \<Rightarrow> bytes) \<Rightarrow> conn_io_t ptr \<Rightarrow> conn_io_call \<Rightarrow> conn_io_t ptr" where
  "conn_io_exec base642bin bin2base64 cp call =
     (case call of
        Call_reset \<Rightarrow> conn_io_reset cp
      | Call_set_mode m \<Rightarrow> conn_io_set_mode cp m
      | Call_set_proxy b \<Rightarrow> conn_io_set_proxy cp b
      | Call_ws_refuse code \<Rightarrow> snd (conn_io_ws_refuse cp code)
      | Call_ws_silence \<Rightarrow> conn_io_ws_silence cp
      | Call_push d \<Rightarrow> snd (conn_io_push base642bin bin2base64 cp (Some d) (length d))
      | Call_next_line \<Rightarrow> fst (snd (conn_io_next_line cp (Some 0) (Some 0)))
      | Call_consume_line \<Rightarrow> conn_io_consume_line cp
      | Call_next_frame \<Rightarrow> fst (snd (conn_io_next_frame cp (Some 0) (Some 0)))
      | Call_consume_frame \<Rightarrow> conn_io_consume_frame cp
      | Call_queue p \<Rightarrow> snd (conn_io_queue cp (Some p) (length p))
      | Call_sent n \<Rightarrow> conn_io_sent cp n)"

definition conn_ok :: "conn_io_t ptr \<Rightarrow> bool" where
  "conn_ok cp \<longleftrightarrow> (\<exists>c. cp = Some c \<and> conn_io_inv c)"

lemma proxy_inv_init: "proxy_inv (the (proxy_v2_init (Some p)))"
  unfolding init_after proxy_inv_def by blast

lemma conn_io_inv_out: "conn_io_inv c \<Longrightarrow> length b = 12327 \<Longrightarrow> n \<le> 12327 \<Longrightarrow> k \<le> n \<Longrightarrow> conn_io_inv (c\<lparr>ci_out := b, ci_out_len := n, ci_out_sent := k\<rparr>)"
  by (simp add: conn_io_inv_def)

lemma set_up_ok:
  assumes "conn_io_inv c"
  shows "conn_ok (conn_io_reset (Some c))" "conn_ok (conn_io_set_mode (Some c) m)" "conn_ok (conn_io_set_proxy (Some c) b)"
    "conn_ok (snd (conn_io_ws_refuse (Some c) code))" "conn_ok (conn_io_ws_silence (Some c))"
proof -
  show "conn_ok (conn_io_reset (Some c))" by (simp add: conn_ok_def conn_io_reset_def conn_io_inv_zero)
  show "conn_ok (conn_io_set_mode (Some c) m)" using assms by (simp add: conn_ok_def conn_io_set_mode_def Let_def ws_init_bounds)
  show "conn_ok (conn_io_set_proxy (Some c) b)" using assms proxy_inv_init by (simp add: conn_ok_def conn_io_set_proxy_def Let_def conn_io_inv_def)
  have o: "conn_io_inv (c\<lparr>ci_out := zeros 12327, ci_out_len := 0, ci_out_sent := 0\<rparr>)" using assms by (simp add: conn_io_inv_out)
  obtain st wp where r: "ws_refuse (Some (ci_ws c)) code = (st, wp)" by force
  have "ws_bounds (ci_ws c)" using assms by (simp add: conn_io_inv_def)
  from ws_refuse_bounds [OF this r] obtain w' where "wp = Some w'" "ws_bounds w'" by blast
  then show "conn_ok (snd (conn_io_ws_refuse (Some c) code))" using o r assms by (simp add: conn_ok_def conn_io_ws_refuse_def Let_def)
  show "conn_ok (conn_io_ws_silence (Some c))" using assms by (auto simp: conn_ok_def conn_io_ws_silence_def conn_io_inv_def ws_bounds_def)
qed

text \<open>Dropping the head of the input, and wiping what it leaves behind.\<close>

lemma slide_eq:
  assumes "t \<le> n" "n \<le> length b"
  shows "memcpy (if n - t > 0 then memcpy b 0 (bslice b t (n - t)) else b) (n - t) (zeros (n - (n - t))) =
    bslice b t (n - t) @ zeros t @ drop n b"
  using assms by (auto simp: memcpy_def bslice_def)

lemma conn_io_inv_slide:
  assumes "conn_io_inv c" "t \<le> ci_in_len c" "k \<le> 12313"
  shows "conn_io_inv (c\<lparr>ci_in := bslice (ci_in c) t (ci_in_len c - t) @ zeros t @ drop (ci_in_len c) (ci_in c),
    ci_in_len := ci_in_len c - t, ci_frame_len := k\<rparr>)"
  using assms by (auto simp: conn_io_inv_def bslice_def)

lemma next_ok:
  assumes "conn_io_inv c"
  shows "conn_ok (fst (snd (conn_io_next_line (Some c) (Some 0) (Some 0))))" "conn_ok (conn_io_consume_line (Some c))"
    "conn_ok (fst (snd (conn_io_next_frame (Some c) (Some 0) (Some 0))))" "conn_ok (conn_io_consume_frame (Some c))"
proof -
  show "conn_ok (fst (snd (conn_io_next_line (Some c) (Some 0) (Some 0))))"
    using assms by (simp add: conn_ok_def conn_io_next_line_def Let_def split: option.split)
  show "conn_ok (fst (snd (conn_io_next_frame (Some c) (Some 0) (Some 0))))"
    using note_header_inv [OF assms] assms by (simp add: conn_ok_def conn_io_next_frame_def split_beta Let_def)
  have len: "ci_in_len c \<le> length (ci_in c)" using assms by (simp add: conn_io_inv_def)
  show "conn_ok (conn_io_consume_line (Some c))"
  proof (cases "ci_line_total c = 0 \<or> ci_in_len c < ci_line_total c")
    case False
    then show ?thesis
      using slide_eq [of "ci_line_total c" "ci_in_len c" "ci_in c"] conn_io_inv_slide [OF assms, of "ci_line_total c" "ci_frame_len c"] assms len
      by (simp add: conn_ok_def conn_io_consume_line_def Let_def conn_io_inv_def)
  qed (use assms in \<open>auto simp: conn_ok_def conn_io_consume_line_def\<close>)
  show "conn_ok (conn_io_consume_frame (Some c))"
  proof (cases "ci_frame_len c = 0 \<or> ci_in_len c < 4 + ci_frame_len c")
    case False
    then show ?thesis
      using slide_eq [of "4 + ci_frame_len c" "ci_in_len c" "ci_in c"] note_header_inv [OF conn_io_inv_slide [OF assms, of "4 + ci_frame_len c" 0]] len
      by (simp add: conn_ok_def conn_io_consume_frame_def Let_def)
  qed (use assms in \<open>auto simp: conn_ok_def conn_io_consume_frame_def Let_def\<close>)
qed

lemma length_frame_prefix [simp]: "length (frame_prefix n) = 4"
  by (simp add: frame_prefix_def)

lemma ws_server_header_data:
  assumes "n < 2 ^ 64"
  obtains h where "ws_server_header (zeros 10) (of_nat n) 2 = (h, 1 + length (ws_len_bytes n))"
    "take (1 + length (ws_len_bytes n)) h = 0x82 # ws_len_bytes n" "1 + length (ws_len_bytes n) \<le> 10"
  using ws_server_header_bytes [of "zeros 10" n 2] assms that by (simp add: memcpy_def ws_len_bytes_def)

lemma queue_ok:
  assumes "conn_io_inv c"
  shows "conn_ok (snd (conn_io_queue (Some c) (Some p) (length p)))"
proof (cases "length p = 0 \<or> length p > 12313 \<or> ci_out_len c \<noteq> ci_out_sent c")
  case False
  have len: "length (ci_out c) = 12327" using assms by (simp add: conn_io_inv_def)
  obtain h where h: "ws_server_header (zeros 10) (of_nat (4 + length p)) 2 = (h, 1 + length (ws_len_bytes (4 + length p)))"
      "take (1 + length (ws_len_bytes (4 + length p))) h = 0x82 # ws_len_bytes (4 + length p)" "1 + length (ws_len_bytes (4 + length p)) \<le> 10"
    using ws_server_header_data [of "4 + length p"] False by auto
  define k where "k = length (ws_len_bytes (4 + length p))"
  note h = h [folded k_def]
  show ?thesis
    using False assms len h by (auto simp: conn_ok_def conn_io_queue_def Let_def k_def [symmetric] intro!: conn_io_inv_out)
qed (use assms in \<open>auto simp: conn_ok_def conn_io_queue_def\<close>)

lemma sent_ok:
  assumes "conn_io_inv c"
  shows "conn_ok (conn_io_sent (Some c) n)"
  using assms by (auto simp: conn_ok_def conn_io_sent_def conn_io_pending_def ws_reply_pending_def Let_def conn_io_inv_def ws_bounds_def)

lemma push_ok: "conn_io_inv c \<Longrightarrow> conn_ok (snd (conn_io_push f g (Some c) (Some d) (length d)))"
  using conn_io_push_inv [of c f g d] by (cases "conn_io_push f g (Some c) (Some d) (length d)") (auto simp: conn_ok_def)

lemma conn_io_exec_ok: "conn_ok cp \<Longrightarrow> conn_ok (conn_io_exec f g cp call)"
  using set_up_ok next_ok queue_ok sent_ok push_ok
  by (cases call) (auto simp: conn_ok_def conn_io_exec_def)

section \<open>The sink and its context\<close>

text \<open>
  The decoder treats its sink's context as a black box: a map between two contexts that the sinks
  respect is respected by the decoder. So the connection can be replaced by the bytes that the decoder
  added to its input.
\<close>

definition sink_map :: "('b \<Rightarrow> bool) \<Rightarrow> ('b \<Rightarrow> 'a) \<Rightarrow> 'a sink \<Rightarrow> 'b sink \<Rightarrow> bool" where
  "sink_map I h sink1 sink2 \<longleftrightarrow> (\<forall>z p. I z \<longrightarrow> sink1 (h z) p = (fst (sink2 z p), h (snd (sink2 z p))) \<and> I (snd (sink2 z p)))"

lemma payload_loop_map:
  assumes m: "sink_map I h sink1 sink2"
  shows "ws_payload_loop sink2 w z p = (ok, w', z') \<Longrightarrow> I z \<Longrightarrow> ws_payload_loop sink1 w (h z) p = (ok, w', h z') \<and> I z'"
proof (induction "length p" arbitrary: w z p rule: less_induct)
  case less
  show ?case
  proof (cases "p = []")
    case True
    then show ?thesis using less.prems by (simp add: ws_payload_loop.simps)
  next
    case False
    define k where "k = (if length p > 512 then 512 else length p)"
    define w1 where "w1 = w\<lparr>ws_mask_off := (ws_mask_off w + k) mod 4\<rparr>"
    define t where "t = ws_unmask (ws_mask w) (ws_mask_off w) (take k p)"
    define w2 where "w2 = w1\<lparr>ws_ctrl := memcpy (ws_ctrl w1) (ws_ctrl_len w1) t, ws_ctrl_len := ws_ctrl_len w1 + k\<rparr>"
    have k: "length (drop k p) < length p" using False by (auto simp: k_def)
    have s: "sink1 (h z) t = (fst (sink2 z t), h (snd (sink2 z t)))" "I (snd (sink2 z t))" using m less.prems(2) by (auto simp: sink_map_def)
    note eq = ws_payload_loop_eq [OF False k_def w1_def t_def w2_def]
    show ?thesis
    proof (cases "ws_is_control w1")
      case True
      then show ?thesis using less.prems less.hyps [OF k, of w2 z] by (auto simp: eq split: if_splits)
    next
      case c: False
      then show ?thesis using less.prems(1) s less.hyps [OF k, of w1 "snd (sink2 z t)"] by (auto simp: eq split_beta split: if_splits)
    qed
  qed
qed

lemma ws_loop_map:
  assumes m: "sink_map I h sink1 sink2"
  shows "ws_loop sink2 w z bs = (st, w', z') \<Longrightarrow> I z \<Longrightarrow> ws_loop sink1 w (h z) bs = (st, w', h z') \<and> I z'"
proof (induction "ws_measure w bs" arbitrary: w z bs rule: less_induct)
  case less
  show ?case
  proof (cases "bs = []")
    case ne: False
    show ?thesis
    proof (cases "ws_payload_left w = 0 \<and> ws_header_wanted w")
      case True
      obtain ok w1 r where h: "ws_header_loop w bs = (ok, w1, r)" using prod_cases3 by blast
      obtain ok2 w2 where d: "ws_header_done w1 = (ok2, w2)" by force
      obtain cl w3 where f: "ws_frame_done w2 = (cl, w3)" by force
      show ?thesis
        using less.prems less.hyps [OF ws_measure_header [OF ne True h]] by (auto simp: ws_loop_eq_header [OF ne True h d f] split: if_splits)
    next
      case False
      define n where "n = (if length bs > unat (ws_payload_left w) then unat (ws_payload_left w) else length bs)"
      obtain ok w1 z1 where l: "ws_payload_loop sink2 w z (take n bs) = (ok, w1, z1)" using prod_cases3 by blast
      define w2 where "w2 = w1\<lparr>ws_payload_left := ws_payload_left w - of_nat n\<rparr>"
      obtain cl w3 where f: "ws_frame_done w2 = (cl, w3)" by force
      have l1: "ws_payload_loop sink1 w (h z) (take n bs) = (ok, w1, h z1)" "I z1" using payload_loop_map [OF m l less.prems(2)] by simp_all
      note eq = ws_loop_eq_payload [OF ne False n_def l w2_def f] ws_loop_eq_payload [OF ne False n_def l1(1) w2_def f]
      show ?thesis using less.prems l1(2) less.hyps [OF ws_measure_payload [OF ne False n_def f], of z1] by (auto simp: eq split: if_splits)
    qed
  qed (use less.prems in simp)
qed

lemma ws_run_map:
  assumes "sink_map I h sink1 sink2" "I z"
  shows "ws_run sink1 (w, h z) d = map_option (\<lambda>(w, z). (w, h z)) (ws_run sink2 (w, z) d)"
    "ws_run sink2 (w, z) d = Some (w', z') \<Longrightarrow> I z'"
  using ws_loop_map [OF assms(1) _ assms(2), of w d] assms(2)
  by (cases "ws_loop sink2 w z d"; force simp: ws_run_def ws_consume_def split: if_splits)+

text \<open>A sink with room for \<open>r\<close> bytes.\<close>

definition room_sink :: "nat \<Rightarrow> bytes sink" where
  "room_sink r z p = (if length p > r - length z then (-1, z) else (0, z @ p))"

lemma additive_room_sink: "additive (room_sink r)"
  by (auto simp: additive_def room_sink_def)

lemma sink_map_add_in: "in_ok c \<Longrightarrow> sink_map (\<lambda>z. length z \<le> 12317 - ci_in_len c) (add_in c) ws_sink_in (room_sink (12317 - ci_in_len c))"
  by (auto simp: sink_map_def ws_sink_in_eq room_sink_def add_in_append)

lemma sink_map_prefix: "sink_map (\<lambda>_. True) ((@) x) (room_sink r) (room_sink (r - length x))"
  by (auto simp: sink_map_def room_sink_def)

lemma ws_run_room:
  "in_ok c \<Longrightarrow> ws_run ws_sink_in (w, c) d = map_option (\<lambda>(w, z). (w, add_in c z)) (ws_run (room_sink (12317 - ci_in_len c)) (w, []) d)"
  using ws_run_map(1) [OF sink_map_add_in, of c "[]" w d] by simp

lemma ws_run_prefix:
  "ws_run (room_sink r) (w, x) d = map_option (\<lambda>(w, z). (w, x @ z)) (ws_run (room_sink (r - length x)) (w, []) d)"
  using ws_run_map(1) [OF sink_map_prefix [of x r] TrueI, of w "[]" d] by simp

text \<open>
  C34. No call leaves the bounds: whatever sequence of calls is made on a connection, in any order, in any
  mode, with any bytes from the peer and any base64 functions, every buffer keeps its size and every
  length and cursor stays inside its buffer, in the input and the output, in the WebSocket decoder and in
  the preamble parser. A write past the end of a buffer would have changed its length.\<close>

theorem conn_io_buffers:
  "\<exists>c. foldl (conn_io_exec base642bin bin2base64) (Some conn_io_zero) calls = Some c \<and> conn_io_inv c"
proof -
  have "conn_ok cp \<Longrightarrow> conn_ok (foldl (conn_io_exec base642bin bin2base64) cp calls)" for cp
    by (induction calls arbitrary: cp) (simp_all add: conn_io_exec_ok)
  from this [of "Some conn_io_zero"] show ?thesis by (simp add: conn_ok_def conn_io_inv_zero)
qed

end
