(* ===== verification/Conn_Io_Stream.thy ===== *)
theory Conn_Io_Stream
  imports Conn_Io_Safety
begin

text \<open>
  The input of a connection as a stream: how the network cuts it does not matter in the framed modes, a
  full buffer always holds a complete frame or line, and what the WebSocket client sends as a frame is
  what \<open>conn_io_next_frame\<close> returns.
\<close>

section \<open>Headers\<close>

definition note_out :: "conn_io_t \<Rightarrow> conn_io_t option" where
  "note_out c = (case note_header c of (st, c') \<Rightarrow> if st = CONN_IO_OK then Some c' else None)"

lemma note_out_eq:
  "note_out c =
     (if ci_mode c = CONN_IO_MODE_WS \<and> ws_stage (ci_ws c) = WS_STAGE_UPGRADE \<or> ci_frame_len c \<noteq> 0 \<or> ci_in_len c < 4 then Some c
      else if be32 (ci_in c) = 0 \<or> be32 (ci_in c) > 12313 then None
      else Some (c\<lparr>ci_frame_len := unat (be32 (ci_in c))\<rparr>))"
  by (auto simp: note_out_def note_header_def Let_def)

lemma be32_add_in: "in_ok c \<Longrightarrow> 4 \<le> ci_in_len c \<Longrightarrow> be32 (ci_in (add_in c z)) = be32 (ci_in c)"
  by (simp add: be32_def add_in_def memcpy_def nth_append in_ok_def)

lemma note_out_add:
  assumes "in_ok c" "note_out c = Some c'"
  shows "note_out (add_in c z) = note_out (add_in c' z)"
proof (cases "c' = c")
  case False
  then have c': "\<not> (ci_mode c = CONN_IO_MODE_WS \<and> ws_stage (ci_ws c) = WS_STAGE_UPGRADE)" "ci_frame_len c = 0" "4 \<le> ci_in_len c"
    "be32 (ci_in c) \<noteq> 0" "\<not> be32 (ci_in c) > 12313" "c' = c\<lparr>ci_frame_len := unat (be32 (ci_in c))\<rparr>"
    using assms(2) by (auto simp: note_out_eq split: if_splits)
  have b: "be32 (ci_in (add_in c z)) = be32 (ci_in c)" using assms(1) c'(3) by (rule be32_add_in)
  have u: "unat (be32 (ci_in c)) \<noteq> 0" using c'(4) by (simp add: unat_eq_0)
  have "note_out (add_in c z) = Some ((add_in c z)\<lparr>ci_frame_len := unat (be32 (ci_in c))\<rparr>)"
    using c'(1-5) by (auto simp: note_out_eq b)
  moreover have "add_in c' z = (add_in c z)\<lparr>ci_frame_len := unat (be32 (ci_in c))\<rparr>" by (simp add: c'(6) add_in_def)
  moreover have "note_out ((add_in c z)\<lparr>ci_frame_len := unat (be32 (ci_in c))\<rparr>) = Some ((add_in c z)\<lparr>ci_frame_len := unat (be32 (ci_in c))\<rparr>)"
    using u by (simp add: note_out_eq)
  ultimately show ?thesis by simp
qed simp

lemma note_out_add_None: "in_ok c \<Longrightarrow> note_out c = None \<Longrightarrow> note_out (add_in c z) = None"
  by (auto simp: note_out_eq be32_add_in split: if_splits)

lemma note_out_idem: "note_out c = Some c' \<Longrightarrow> note_out c' = Some c'"
  by (auto simp: note_out_eq unat_eq_0 split: if_splits)

lemma note_out_keeps:
  assumes "note_out c = Some c'"
  shows "ci_mode c' = ci_mode c" "ci_failed c' = ci_failed c" "ci_in c' = ci_in c" "ci_in_len c' = ci_in_len c" "ci_ws c' = ci_ws c"
    "ci_proxy_on c' = ci_proxy_on c" "ci_proxy c' = ci_proxy c" "conn_io_inv c \<Longrightarrow> conn_io_inv c'"
  using assms note_header_inv [of c] by (auto simp: note_out_eq word_le_nat_alt not_less split: if_splits)

lemma note_out_ws:
  "ws_stage w \<noteq> WS_STAGE_UPGRADE \<Longrightarrow> ws_stage (ci_ws c) \<noteq> WS_STAGE_UPGRADE \<Longrightarrow>
   note_out (c\<lparr>ci_ws := w\<rparr>) = map_option (\<lambda>c. c\<lparr>ci_ws := w\<rparr>) (note_out c)"
  by (auto simp: note_out_eq)

section \<open>WebSocket input\<close>

definition feed_out :: "conn_io_t \<Rightarrow> bytes \<Rightarrow> conn_io_t option" where
  "feed_out c d = (case ws_run ws_sink_in (ci_ws c, c) d of None \<Rightarrow> None | Some (w, c') \<Rightarrow> note_out (c'\<lparr>ci_ws := w\<rparr>))"

lemma ws_feed_out: "(case ws_feed c d of (st, c') \<Rightarrow> if st = CONN_IO_OK then Some c' else None) = feed_out c d"
  by (auto simp: ws_feed_def feed_out_def ws_run_def note_out_def Let_def split: prod.split)

text \<open>The connection after the decoder, in state \<open>w\<close>, added \<open>z\<close> to its input.\<close>

lemma feed_out_eq:
  "in_ok c \<Longrightarrow> feed_out c d = (case ws_run (room_sink (12317 - ci_in_len c)) (ci_ws c, []) d of
     None \<Rightarrow> None | Some (w, z) \<Rightarrow> note_out ((add_in c z)\<lparr>ci_ws := w\<rparr>))"
  by (simp add: feed_out_def ws_run_room split: option.splits)

lemma ws_room_run:
  assumes "ws_bounds w" "ws_sync w" "ws_run (room_sink r) (w, []) d = Some (w', z)"
  shows "ws_bounds w'" "ws_sync w'" "length z \<le> r"
proof -
  have b: "feeds (ws_byte (room_sink r)) (w, []) d = Some (w', z)" using ws_run_bytes [OF additive_room_sink assms(1,2)] assms(3) by simp
  show "ws_bounds w'" "ws_sync w'" using ws_bytes_inv [OF b assms(1,2)] by simp_all
  have "sink_map (\<lambda>z. length z \<le> r) id (room_sink r) (room_sink r)" by (auto simp: sink_map_def room_sink_def)
  from ws_run_map(2) [OF this _ assms(3)] show "length z \<le> r" by simp
qed

lemma feed_out_append:
  assumes c: "conn_io_inv c" "ws_sync (ci_ws c)"
  shows "feed_out c (x @ y) = Option.bind (feed_out c x) (\<lambda>c. feed_out c y)"
proof -
  define r where "r = 12317 - ci_in_len c"
  have i: "in_ok c" "ws_bounds (ci_ws c)" using c by (simp_all add: conn_io_inv_def in_ok_def)
  have fits: "ws_fits (room_sink r) (ci_ws c, []) (x @ y)" using i c(2) by (simp add: ws_fits_def additive_room_sink)
  show ?thesis
  proof (cases "ws_run (room_sink r) (ci_ws c, []) x")
    case None
    then show ?thesis using ws.feed_append [OF fits] by (simp add: feed_out_eq [OF i(1)] r_def)
  next
    case (Some s)
    obtain w1 z1 where s: "s = (w1, z1)" by force
    note run = ws_room_run [OF i(2) c(2) Some [unfolded s]]
    define c1 where "c1 = (add_in c z1)\<lparr>ci_ws := w1\<rparr>"
    have stage: "ws_stage w1 \<noteq> WS_STAGE_UPGRADE" "ws_stage (ci_ws c) \<noteq> WS_STAGE_UPGRADE" using run c(2) by (simp_all add: ws_sync_def)
    have ok1: "in_ok c1" using in_ok_add_in [OF i(1), of z1] run(3) by (simp add: c1_def r_def in_ok_def)
    have whole: "feed_out c (x @ y) = (case ws_run (room_sink (r - length z1)) (w1, []) y of None \<Rightarrow> None
        | Some (w2, z2) \<Rightarrow> note_out ((add_in c (z1 @ z2))\<lparr>ci_ws := w2\<rparr>))"
      using ws.feed_append [OF fits] Some s ws_run_prefix [of r w1 z1 y] by (simp add: feed_out_eq [OF i(1)] r_def [symmetric] split: option.splits)
    have first: "feed_out c x = note_out c1" using Some s by (simp add: feed_out_eq [OF i(1)] r_def [symmetric] c1_def)
    have step: "(add_in c (z1 @ z2))\<lparr>ci_ws := w2\<rparr> = (add_in c1 z2)\<lparr>ci_ws := w2\<rparr>" for z2 w2
      using add_in_append [OF i(1), of z1 z2] by (simp add: c1_def add_in_def)
    show ?thesis
    proof (cases "note_out c1")
      case None
      have "note_out ((add_in c1 z2)\<lparr>ci_ws := w2\<rparr>) = None" if "ws_run (room_sink (r - length z1)) (w1, []) y = Some (w2, z2)" for w2 z2
        using ws_room_run [OF run(1,2) that] note_out_add_None [OF ok1 None, of z2] stage by (simp add: note_out_ws ws_sync_def c1_def)
      then show ?thesis using whole first None step by (auto split: option.splits)
    next
      case N: (Some c2)
      note k = note_out_keeps [OF N]
      have ok2: "in_ok c2" using ok1 k by (simp add: in_ok_def)
      have room: "12317 - ci_in_len c2 = r - length z1" "ci_ws c2 = w1" using k by (simp_all add: c1_def r_def)
      have "note_out ((add_in c1 z2)\<lparr>ci_ws := w2\<rparr>) = note_out ((add_in c2 z2)\<lparr>ci_ws := w2\<rparr>)"
        if "ws_run (room_sink (r - length z1)) (w1, []) y = Some (w2, z2)" for w2 z2
        using ws_room_run [OF run(1,2) that] note_out_add [OF ok1 N, of z2] stage room(2) by (simp add: note_out_ws ws_sync_def c1_def)
      then show ?thesis using whole first N step feed_out_eq [OF ok2, of y] room by (auto split: option.splits)
    qed
  qed
qed

section \<open>The end of the request\<close>

lemma end_loop_bound: "0 < end_of_headers_loop i p \<Longrightarrow> i + 4 \<le> end_of_headers_loop i p \<and> end_of_headers_loop i p \<le> i + length p"
  by (induction i p rule: end_of_headers_loop.induct) (auto split: if_splits)

lemma end_loop_append: "end_of_headers_loop i p \<noteq> 0 \<Longrightarrow> end_of_headers_loop i (p @ q) = end_of_headers_loop i p"
  by (induction i p rule: end_of_headers_loop.induct) auto

lemma end_loop_later: "end_of_headers_loop i p = 0 \<Longrightarrow> end_of_headers_loop i (p @ q) \<noteq> 0 \<Longrightarrow> i + length p < end_of_headers_loop i (p @ q)"
proof (induction i p rule: end_of_headers_loop.induct)
  case (1 i a b c d r)
  then show ?case by (auto split: if_splits)
qed (auto dest!: end_loop_bound split: if_splits)

lemma end_of_headers_append: "end_of_headers p \<noteq> 0 \<Longrightarrow> end_of_headers (p @ q) = end_of_headers p"
  by (simp add: end_of_headers_def end_loop_append)

lemma end_of_headers_later: "end_of_headers p = 0 \<Longrightarrow> end_of_headers (p @ q) \<noteq> 0 \<Longrightarrow> length p < end_of_headers (p @ q)"
  using end_loop_later [of 0 p q] by (simp add: end_of_headers_def)

lemma end_of_headers_le: "end_of_headers p \<le> length p"
  using end_loop_bound [of 0 p] by (cases "end_of_headers_loop 0 p = 0") (simp_all add: end_of_headers_def)

section \<open>The stream machine\<close>

definition conn_run :: "(nat \<Rightarrow> bytes \<Rightarrow> int \<times> bytes) \<Rightarrow> (bytes \<Rightarrow> bytes) \<Rightarrow> conn_io_t \<Rightarrow> bytes \<Rightarrow> conn_io_t option" where
  "conn_run base642bin bin2base64 c d =
     (case conn_io_push base642bin bin2base64 (Some c) (Some d) (length d) of (st, cp) \<Rightarrow> if st = CONN_IO_OK then Some (the cp) else None)"

definition push_out :: "(nat \<Rightarrow> bytes \<Rightarrow> int \<times> bytes) \<Rightarrow> (bytes \<Rightarrow> bytes) \<Rightarrow> conn_io_t \<Rightarrow> bytes \<Rightarrow> conn_io_t option" where
  "push_out f g c d = (case push_ws f g c d of (st, c') \<Rightarrow> if st = CONN_IO_OK then Some c' else None)"

text \<open>The bytes at hand, and a connection that waits for the end of the request.\<close>

definition contents :: "conn_io_t \<Rightarrow> bytes" where
  "contents c = take (ci_in_len c) (ci_in c)"

definition waiting :: "conn_io_t \<Rightarrow> bool" where
  "waiting c \<longleftrightarrow> ws_stage (ci_ws c) = WS_STAGE_UPGRADE \<and> ws_payload_left (ci_ws c) = 0 \<and> ws_hdr_need (ci_ws c) = 0 \<and>
     end_of_headers (contents c) = 0 \<and> ci_in_len c \<le> 4096 \<and> ci_frame_len c = 0 \<and> ci_in c = contents c @ zeros (12317 - ci_in_len c)"

definition conn_fits :: "conn_io_t \<Rightarrow> bytes \<Rightarrow> bool" where
  "conn_fits c d \<longleftrightarrow> conn_io_inv c \<and> \<not> ci_failed c \<and> note_out c = Some c \<and> ci_mode c \<noteq> CONN_IO_MODE_LINE \<and>
     (ci_mode c = CONN_IO_MODE_WS \<longrightarrow>
        (if ws_stage (ci_ws c) = WS_STAGE_UPGRADE then waiting c \<and> ci_in_len c + length d \<le> 12317 else ws_sync (ci_ws c)))"

lemma contents_add_in: "in_ok c \<Longrightarrow> contents (add_in c z) = contents c @ z"
  by (simp add: contents_def add_in_def memcpy_def in_ok_def)

lemma length_contents: "in_ok c \<Longrightarrow> length (contents c) = ci_in_len c"
  by (simp add: contents_def in_ok_def)

lemma ws_upgrade_prefix: "ws_upgrade f g wp (Some b) n = ws_upgrade f g wp (Some (take n b)) n"
  by (simp add: ws_upgrade_def)

text \<open>What the upgrade of the staged request \<open>s\<close> gives.\<close>

definition upgraded :: "(nat \<Rightarrow> bytes \<Rightarrow> int \<times> bytes) \<Rightarrow> (bytes \<Rightarrow> bytes) \<Rightarrow> conn_io_t \<Rightarrow> bytes \<Rightarrow> conn_io_t option" where
  "upgraded f g c s =
     (case ws_upgrade f g (Some (ci_ws c)) (Some s) (length s) of (st, wp) \<Rightarrow>
        if st = WS_OK then Some (c\<lparr>ci_ws := the wp, ci_in := zeros 12317, ci_in_len := 0\<rparr>) else None)"

definition ws_kept :: "ws_t \<Rightarrow> ws_t \<Rightarrow> bool" where
  "ws_kept w w' \<longleftrightarrow> ws_payload_left w' = ws_payload_left w \<and> ws_hdr_need w' = ws_hdr_need w \<and> ws_hdr_len w' = ws_hdr_len w \<and>
     ws_in_message w' = ws_in_message w \<and> ws_expect_mask w' = ws_expect_mask w"

lemma ws_kept_refl [simp]: "ws_kept w w"
  by (simp add: ws_kept_def)

lemma take_state_loop_keeps: "take_state_loop w r = (st, w') \<Longrightarrow> ws_kept w w'"
proof (induction w r rule: take_state_loop.induct)
  case (1 w r)
  then show ?case by (auto simp: take_state_loop.simps [of w r] Let_def ws_kept_def split: if_splits)
qed

lemma take_state_keeps: "take_state w t = (st, w') \<Longrightarrow> ws_kept w w'"
  by (auto simp: take_state_def split: option.splits dest: take_state_loop_keeps)

lemma ws_upgrade_ok:
  assumes "ws_upgrade f g (Some w) req n = (WS_OK, wp)"
  shows "\<exists>w'. wp = Some w' \<and> ws_stage w' = WS_STAGE_OPEN \<and> ws_kept w w'"
proof -
  have h: "\<exists>v'. vp = Some v' \<and> ws_stage v' = WS_STAGE_OPEN \<and> ws_kept v v'"
    if "map_prod id Some (ws_upgrade_headers f g v r) = (WS_OK, vp)" for v r vp
    using that by (cases "ws_upgrade_headers f g v r")
      (auto simp: ws_upgrade_headers_def ws_upgrade_reply_def Let_def ws_kept_def split: option.splits if_splits prod.splits)
  show ?thesis using assms unfolding ws_upgrade_def Let_def option.sel
    by (auto split: if_splits option.splits prod.splits dest!: take_state_keeps h simp: ws_kept_def)
qed

lemma upgraded_ok:
  assumes "conn_io_inv c" "waiting c" "ci_mode c = CONN_IO_MODE_WS" "\<not> ci_failed c" "upgraded f g c s = Some c'"
  shows "conn_io_inv c' \<and> ws_sync (ci_ws c') \<and> ws_stage (ci_ws c') = WS_STAGE_OPEN \<and> note_out c' = Some c' \<and> ci_in_len c' = 0 \<and>
    ci_mode c' = CONN_IO_MODE_WS \<and> \<not> ci_failed c'"
proof -
  obtain wp where u: "ws_upgrade f g (Some (ci_ws c)) (Some s) (length s) = (WS_OK, wp)"
    and c': "c' = c\<lparr>ci_ws := the wp, ci_in := zeros 12317, ci_in_len := 0\<rparr>"
    using assms(5) by (auto simp: upgraded_def split: prod.splits if_splits)
  have b: "ws_bounds (ci_ws c)" using assms(1) by (simp add: conn_io_inv_def)
  obtain w' where w': "wp = Some w'" "ws_bounds w'" "ws_stage w' = WS_STAGE_OPEN" "ws_payload_left w' = 0" "ws_hdr_need w' = 0"
    using ws_upgrade_ok [OF u] ws_upgrade_bounds [OF b u] assms(2) by (auto simp: waiting_def ws_kept_def)
  then show ?thesis using assms by (simp add: c' conn_io_inv_def ws_sync_def ws_header_wanted_def note_out_eq waiting_def)
qed

lemma feed_out_nil: "conn_io_inv c \<Longrightarrow> ws_sync (ci_ws c) \<Longrightarrow> note_out c = Some c \<Longrightarrow> feed_out c [] = Some c"
  by (simp add: feed_out_eq conn_io_inv_in_ok ws_run_bytes additive_room_sink conn_io_inv_def)

lemma push_out_open: "ws_stage (ci_ws c) \<noteq> WS_STAGE_UPGRADE \<Longrightarrow> push_out f g c d = feed_out c d"
  by (simp add: push_out_def push_ws_def ws_feed_out)

lemma push_out_waiting:
  assumes c: "conn_io_inv c" "waiting c" "ci_mode c = CONN_IO_MODE_WS" "\<not> ci_failed c" and d: "ci_in_len c + length d \<le> 12317"
    and s: "s = contents c @ d" and e: "e = end_of_headers s"
  shows "push_out f g c d =
    (if e = 0 then if length s > 4096 then None else Some (add_in c d)
     else if e > 4096 then None
     else Option.bind (upgraded f g c (take e s)) (\<lambda>c. feed_out c (drop e s)))"
proof -
  have ok: "in_ok c" using c(1) by (rule conn_io_inv_in_ok)
  define c1 where "c1 = add_in c d"
  have c1: "take (ci_in_len c1) (ci_in c1) = s" "ci_in_len c1 = length s"
    using contents_add_in [OF ok, of d] length_contents [OF ok] by (simp_all add: c1_def s contents_def [of "add_in c d"])
  have buf: "ci_in c1 = s @ zeros (12317 - length s)"
    using c(2) ok length_contents [OF ok] by (simp add: c1_def add_in_def s waiting_def memcpy_def) 
  have le: "e \<le> length s" using end_of_headers_le [of s] by (simp add: e)
  obtain st wp where u: "ws_upgrade f g (Some (ci_ws c)) (Some (take e s)) e = (st, wp)" by force
  have u1: "ws_upgrade f g (Some (ci_ws c1)) (Some (ci_in c1)) e = (st, wp)"
    using ws_upgrade_prefix [of f g _ "ci_in c1" e] u le by (simp add: buf) (simp add: c1_def)
  define c3 where "c3 = c\<lparr>ci_ws := the wp, ci_in := zeros 12317, ci_in_len := 0\<rparr>"
  have up: "upgraded f g c (take e s) = (if st = WS_OK then Some c3 else None)" using u le by (simp add: upgraded_def c3_def min_absorb2)
  have "length s \<le> 12317" using d length_contents [OF ok] by (simp add: s)
  then have z: "memcpy (ci_in c1) 0 (zeros (length s)) = zeros 12317" by (simp add: buf memcpy_def zeros_append)
  have c3: "c1\<lparr>ci_ws := the wp, ci_in := zeros 12317, ci_in_len := 0\<rparr> = c3" by (simp add: c1_def c3_def add_in_def)
  have rest: "bslice (ci_in c1) e (length s - e) = drop e s" using le by (simp add: buf bslice_def)
  have st: "ws_stage (ci_ws c) = WS_STAGE_UPGRADE" using c(2) by (simp add: waiting_def)
  have fit: "\<not> length d > 12317 - ci_in_len c" using d by simp
  have e1: "end_of_headers (take (ci_in_len c1) (ci_in c1)) = e" by (simp only: c1(1) e)
  have eq: "push_ws f g c d =
    (if e = 0 then if length s > 4096 then (CONN_IO_ERR_PROTOCOL, c1\<lparr>ci_failed := True\<rparr>) else (CONN_IO_OK, c1)
     else if e > 4096 then (CONN_IO_ERR_PROTOCOL, c1\<lparr>ci_failed := True\<rparr>)
     else if st \<noteq> WS_OK then (CONN_IO_ERR_PROTOCOL, c1\<lparr>ci_ws := the wp, ci_failed := True\<rparr>)
     else if drop e s \<noteq> [] then ws_feed c3 (drop e s) else (CONN_IO_OK, c3))"
    unfolding push_ws_def Let_def add_in_def [symmetric] c1_def [symmetric] e1 u1 prod.case
    using st fit z rest c3 c1(2) by (simp add: c1_def [symmetric])
  have nil: "feed_out c3 [] = Some c3" if "st = WS_OK"
    using upgraded_ok [OF c, of f g "take e s" c3] up that feed_out_nil by simp
  show ?thesis using nil ws_feed_out [of c3 "drop e s"] by (auto simp: push_out_def eq up c1_def [symmetric])
qed

lemma feed_out_fits:
  assumes c: "conn_io_inv c" "ws_sync (ci_ws c)" "ci_mode c = CONN_IO_MODE_WS" "\<not> ci_failed c" and f: "feed_out c d = Some c'"
  shows "conn_fits c' y" "ws_stage (ci_ws c') \<noteq> WS_STAGE_UPGRADE"
    "ci_mode c' = CONN_IO_MODE_WS \<and> ci_proxy c' = ci_proxy c \<and> ci_proxy_on c' = ci_proxy_on c"
proof -
  have b: "ws_bounds (ci_ws c)" using c(1) by (simp add: conn_io_inv_def)
  obtain w z where r: "ws_run (room_sink (12317 - ci_in_len c)) (ci_ws c, []) d = Some (w, z)" "note_out ((add_in c z)\<lparr>ci_ws := w\<rparr>) = Some c'"
    using f by (auto simp: feed_out_eq [OF conn_io_inv_in_ok [OF c(1)]] split: option.splits)
  note w = ws_room_run [OF b c(2) r(1)] and k = note_out_keeps [OF r(2)]
  have "conn_io_inv ((add_in c z)\<lparr>ci_ws := w\<rparr>)" using conn_io_inv_add_in [OF c(1) w(3)] w(1) by simp
  then show "conn_fits c' y" "ws_stage (ci_ws c') \<noteq> WS_STAGE_UPGRADE"
    "ci_mode c' = CONN_IO_MODE_WS \<and> ci_proxy c' = ci_proxy c \<and> ci_proxy_on c' = ci_proxy_on c"
    using w k c note_out_idem [OF r(2)] by (simp_all add: conn_fits_def ws_sync_def)
qed

lemma waiting_add_in:
  assumes c: "conn_io_inv c" "waiting c" "ci_mode c = CONN_IO_MODE_WS" "\<not> ci_failed c" "ci_in_len c + length x \<le> 12317"
    and x: "end_of_headers (contents c @ x) = 0" "length (contents c @ x) \<le> 4096"
  shows "waiting (add_in c x)" "conn_io_inv (add_in c x)"
proof -
  have ok: "in_ok c" using c(1) by (rule conn_io_inv_in_ok)
  show "conn_io_inv (add_in c x)" using c(1,5) by (intro conn_io_inv_add_in) simp_all
  have "ci_in (add_in c x) = contents c @ x @ zeros (12317 - (ci_in_len c + length x))"
    using c(2) length_contents [OF ok] by (simp add: add_in_def waiting_def memcpy_def)
  then show "waiting (add_in c x)"
    using c(2) x length_contents [OF ok] contents_add_in [OF ok, of x] by (simp add: waiting_def)
qed

lemma upgraded_add_in: "upgraded f g (add_in c x) t = upgraded f g c t"
  by (simp add: upgraded_def add_in_def split: prod.split)

lemma upgraded_keeps: "upgraded f g c t = Some c' \<Longrightarrow> ci_proxy c' = ci_proxy c \<and> ci_proxy_on c' = ci_proxy_on c"
  by (auto simp: upgraded_def split: prod.splits if_splits)

lemma push_out_append:
  assumes c: "conn_fits c (x @ y)" "ci_mode c = CONN_IO_MODE_WS"
  shows "push_out f g c (x @ y) = Option.bind (push_out f g c x) (\<lambda>c. push_out f g c y) \<and>
    (\<forall>c'. push_out f g c x = Some c' \<longrightarrow> conn_fits c' y \<and> ci_mode c' = CONN_IO_MODE_WS \<and> ci_proxy c' = ci_proxy c \<and> ci_proxy_on c' = ci_proxy_on c)"
proof (cases "ws_stage (ci_ws c) = WS_STAGE_UPGRADE")
  case False
  then have i: "conn_io_inv c" "ws_sync (ci_ws c)" "\<not> ci_failed c" using c by (auto simp: conn_fits_def)
  then show ?thesis
    using feed_out_append [OF i(1,2), of x y] feed_out_fits [OF i(1,2) c(2) i(3), of x] False
    by (cases "feed_out c x") (auto simp: push_out_open)
next
  case True
  then have i: "conn_io_inv c" "waiting c" "\<not> ci_failed c" "ci_in_len c + length (x @ y) \<le> 12317" using c by (simp_all add: conn_fits_def)
  have lx: "ci_in_len c + length x \<le> 12317" using i(4) by simp
  define s where "s = contents c @ x"
  define e where "e = end_of_headers s"
  have px: "push_out f g c x = (if e = 0 then if length s > 4096 then None else Some (add_in c x)
      else if e > 4096 then None else Option.bind (upgraded f g c (take e s)) (\<lambda>c. feed_out c (drop e s)))"
    by (rule push_out_waiting [OF i(1,2) c(2) i(3) lx s_def e_def])
  have pw: "push_out f g c (x @ y) = (if end_of_headers (s @ y) = 0 then if length (s @ y) > 4096 then None else Some (add_in c (x @ y))
      else if end_of_headers (s @ y) > 4096 then None
      else Option.bind (upgraded f g c (take (end_of_headers (s @ y)) (s @ y))) (\<lambda>c. feed_out c (drop (end_of_headers (s @ y)) (s @ y))))"
    using push_out_waiting [OF i(1,2) c(2) i(3,4) _ refl, of "s @ y" f g] by (simp add: s_def)
  show ?thesis
  proof (cases "e = 0")
    case False
    have le: "e \<le> length s" using end_of_headers_le [of s] by (simp add: e_def)
    have same: "end_of_headers (s @ y) = e" using False end_of_headers_append [of s y] by (simp add: e_def)
    show ?thesis
    proof (cases "upgraded f g c (take e s)")
      case None
      then show ?thesis using px pw same False le by simp
    next
      case (Some c1)
      note u = upgraded_ok [OF i(1,2) c(2) i(3) Some]
      have "feed_out c1 (drop e s @ y) = Option.bind (feed_out c1 (drop e s)) (\<lambda>c. feed_out c y)"
        using u by (intro feed_out_append) simp_all
      moreover have "conn_fits c2 y \<and> push_out f g c2 y = feed_out c2 y \<and> ci_mode c2 = CONN_IO_MODE_WS \<and> ci_proxy c2 = ci_proxy c \<and> ci_proxy_on c2 = ci_proxy_on c"
        if "feed_out c1 (drop e s) = Some c2" for c2
        using feed_out_fits [OF _ _ _ _ that] u upgraded_keeps [OF Some] by (simp add: push_out_open)
      ultimately show ?thesis using px pw same False le Some by (cases "feed_out c1 (drop e s)") auto
    qed
  next
    case e: True
    show ?thesis
    proof (cases "length s > 4096")
      case True
      then show ?thesis using px pw e end_of_headers_later [of s y] by (auto simp: e_def)
    next
      case False
      have w: "waiting (add_in c x)" "conn_io_inv (add_in c x)"
        using waiting_add_in [OF i(1,2) c(2) i(3) lx] e False by (simp_all add: e_def s_def)
      have s: "s @ y = contents (add_in c x) @ y" using contents_add_in [OF conn_io_inv_in_ok [OF i(1)]] by (simp add: s_def)
      have "push_out f g (add_in c x) y = push_out f g c (x @ y)"
        unfolding pw using push_out_waiting [OF w(2,1) _ _ _ s refl, of f g] c(2) i(3,4) add_in_append [OF conn_io_inv_in_ok [OF i(1)], of x y]
        by (simp add: upgraded_add_in)
      moreover have "conn_fits (add_in c x) y" using w c i(3,4) by (simp add: conn_fits_def note_out_eq waiting_def)
      ultimately show ?thesis using px e False c(2) by simp
    qed
  qed
qed

lemma conn_run_frame:
  assumes "ci_mode c = CONN_IO_MODE_FRAME" "\<not> ci_failed c"
  shows "conn_run f g c d = (if length d > 12317 - ci_in_len c then None else note_out (add_in c d))"
  using assms by (cases "d = []") (auto simp: conn_run_def conn_io_push_def note_out_def add_in_def [symmetric] Let_def split: prod.split)

lemma conn_run_ws:
  assumes "ci_mode c = CONN_IO_MODE_WS" "\<not> ci_failed c" "\<not> (ci_proxy_on c \<and> \<not> px_done (ci_proxy c))"
  shows "conn_run f g c d = push_out f g c d"
  using assms by (auto simp: conn_run_def conn_io_push_def push_out_def split: prod.split)

lemma conn_run_proxy:
  assumes "ci_mode c = CONN_IO_MODE_WS" "\<not> ci_failed c" "ci_proxy_on c" "\<not> px_done (ci_proxy c)" "conn_io_inv c" "proxy_feed (ci_proxy c) d = (p', k)"
  shows "conn_run f g c d = (if px_result p' = PROXY_V2_ERR then None else if \<not> px_done p' then Some (c\<lparr>ci_proxy := p'\<rparr>)
    else push_out f g (c\<lparr>ci_proxy := p'\<rparr>) (drop k d))" "proxy_inv p'"
proof -
  have "proxy_inv (ci_proxy c)" using assms(3,5) by (simp add: conn_io_inv_def)
  from proxy_consume_inv [OF this assms(4), of d] assms(6)
  have p: "proxy_v2_consume (Some (ci_proxy c)) (Some d) (length d) (Some 0) = (px_result p', Some p', Some k)" "proxy_inv p'" by auto
  show "proxy_inv p'" by (rule p(2))
  show "conn_run f g c d = (if px_result p' = PROXY_V2_ERR then None else if \<not> px_done p' then Some (c\<lparr>ci_proxy := p'\<rparr>)
    else push_out f g (c\<lparr>ci_proxy := p'\<rparr>) (drop k d))"
    using assms(1-4) p(1) by (auto simp: conn_run_def conn_io_push_def push_out_def Let_def split: prod.split)
qed

lemma note_out_settled: "note_out c = Some c \<longleftrightarrow> ci_mode c = CONN_IO_MODE_WS \<and> ws_stage (ci_ws c) = WS_STAGE_UPGRADE \<or> ci_frame_len c \<noteq> 0 \<or> ci_in_len c < 4"
  (is "_ \<longleftrightarrow> ?skip")
proof
  assume n: "note_out c = Some c"
  show ?skip
  proof (rule ccontr)
    assume s: "\<not> ?skip"
    then have "c\<lparr>ci_frame_len := unat (be32 (ci_in c))\<rparr> = c" "be32 (ci_in c) \<noteq> 0" using n by (simp_all add: note_out_eq split: if_splits)
    from arg_cong [OF this(1), of ci_frame_len] this(2) s show False by (simp add: unat_eq_0)
  qed
qed (simp add: note_out_eq)

lemma proxy_undone: "proxy_inv p \<Longrightarrow> \<not> px_done p \<Longrightarrow> px_result p \<noteq> PROXY_V2_ERR"
  by (auto simp: proxy_inv_def after_def mid_def split: if_splits)

lemma conn_fits_proxy: "conn_fits c d \<Longrightarrow> proxy_inv p \<Longrightarrow> length e \<le> length d \<Longrightarrow> conn_fits (c\<lparr>ci_proxy := p\<rparr>) e"
  by (auto simp: conn_fits_def note_out_settled waiting_def contents_def split: if_splits)

lemma conn_step_frame:
  assumes c: "conn_fits c (x @ y)" and m: "ci_mode c = CONN_IO_MODE_FRAME"
  shows "conn_run f g c (x @ y) = Option.bind (conn_run f g c x) (\<lambda>c. conn_run f g c y) \<and> (\<forall>c'. conn_run f g c x = Some c' \<longrightarrow> conn_fits c' y)"
proof -
  have i: "conn_io_inv c" "\<not> ci_failed c" "in_ok c" using c conn_io_inv_in_ok by (auto simp: conn_fits_def)
  note run = conn_run_frame [OF m i(2), of f g]
  show ?thesis
  proof (cases "length x > 12317 - ci_in_len c")
    case False
    have ok: "in_ok (add_in c x)" "conn_io_inv (add_in c x)" using in_ok_add_in [OF i(3)] conn_io_inv_add_in [OF i(1)] False by simp_all
    show ?thesis
    proof (cases "note_out (add_in c x)")
      case None
      then show ?thesis using run False add_in_append [OF i(3), of x y] note_out_add_None [OF ok(1) None, of y] by simp
    next
      case (Some c1)
      note k = note_out_keeps [OF Some]
      have m1: "ci_mode c1 = CONN_IO_MODE_FRAME" "\<not> ci_failed c1" using k m i(2) by simp_all
      show ?thesis
        using run False Some conn_run_frame [OF m1, of f g y] k add_in_append [OF i(3), of x y] note_out_add [OF ok(1) Some, of y] ok(2) note_out_idem [OF Some] m1
        by (auto simp: conn_fits_def)
    qed
  qed (use run in auto)
qed

lemma conn_step_ws:
  assumes c: "conn_fits c (x @ y)" and m: "ci_mode c = CONN_IO_MODE_WS" and p: "\<not> (ci_proxy_on c \<and> \<not> px_done (ci_proxy c))"
  shows "conn_run f g c (x @ y) = Option.bind (conn_run f g c x) (\<lambda>c. conn_run f g c y) \<and> (\<forall>c'. conn_run f g c x = Some c' \<longrightarrow> conn_fits c' y)"
proof -
  have nf: "\<not> ci_failed c" using c by (simp add: conn_fits_def)
  note a = push_out_append [OF c m, of f g]
  have "conn_run f g c' y = push_out f g c' y" if "push_out f g c x = Some c'" for c'
    using a that p by (intro conn_run_ws) (auto simp: conn_fits_def)
  then show ?thesis using a conn_run_ws [OF m nf p, of f g] by (cases "push_out f g c x") auto
qed

lemma conn_step_proxy:
  assumes c: "conn_fits c (x @ y)" and m: "ci_mode c = CONN_IO_MODE_WS" and p: "ci_proxy_on c" "\<not> px_done (ci_proxy c)"
  shows "conn_run f g c (x @ y) = Option.bind (conn_run f g c x) (\<lambda>c. conn_run f g c y) \<and> (\<forall>c'. conn_run f g c x = Some c' \<longrightarrow> conn_fits c' y)"
proof -
  have i: "conn_io_inv c" "\<not> ci_failed c" "proxy_inv (ci_proxy c)" using c p(1) by (auto simp: conn_fits_def conn_io_inv_def)
  obtain p1 k1 where f1: "proxy_feed (ci_proxy c) x = (p1, k1)" by force
  note run = conn_run_proxy [OF m i(2) p i(1)]
  note r1 = run [OF f1]
  have k1: "k1 \<le> length x" using proxy.feed_used [OF i(3), of x] f1 by simp
  show ?thesis
  proof (cases "px_done p1")
    case True
    have fw: "proxy_feed (ci_proxy c) (x @ y) = (p1, k1)" using proxy.feed_append [OF i(3) f1, of y] True by simp
    have c1: "conn_fits (c\<lparr>ci_proxy := p1\<rparr>) (drop k1 x @ y)" using c r1(2) by (rule conn_fits_proxy) simp
    have m1: "ci_mode (c\<lparr>ci_proxy := p1\<rparr>) = CONN_IO_MODE_WS" "\<not> (ci_proxy_on (c\<lparr>ci_proxy := p1\<rparr>) \<and> \<not> px_done (ci_proxy (c\<lparr>ci_proxy := p1\<rparr>)))"
      using m True by simp_all
    have nf: "\<not> ci_failed (c\<lparr>ci_proxy := p1\<rparr>)" using i(2) by simp
    show ?thesis
      using conn_step_ws [OF c1 m1, of f g] r1(1) run(1) [OF fw, of f g] k1 True
      by (simp add: conn_run_ws [OF m1(1) nf m1(2)])
  next
    case False
    obtain p2 k2 where f2: "proxy_feed p1 y = (p2, k2)" by force
    have k: "k1 = length x" using proxy.feed_all [OF i(3), of x] f1 False by simp
    have fw: "proxy_feed (ci_proxy c) (x @ y) = (p2, length x + k2)" using proxy.feed_append [OF i(3) f1, of y] False f2 k by simp
    have c1: "conn_fits (c\<lparr>ci_proxy := p1\<rparr>) y" using c r1(2) by (rule conn_fits_proxy) simp
    have "conn_run f g (c\<lparr>ci_proxy := p1\<rparr>) y = (if px_result p2 = PROXY_V2_ERR then None else if \<not> px_done p2 then Some (c\<lparr>ci_proxy := p2\<rparr>)
        else push_out f g (c\<lparr>ci_proxy := p2\<rparr>) (drop k2 y))"
      using conn_run_proxy(1) [of "c\<lparr>ci_proxy := p1\<rparr>" y p2 k2 f g] m i(1,2) p False f2 r1(2) by simp
    then show ?thesis using r1(1) run(1) [OF fw, of f g] False k c1 proxy_undone [OF r1(2)] by simp
  qed
qed

lemma conn_step:
  assumes c: "conn_fits c (x @ y)"
  shows "conn_run f g c (x @ y) = Option.bind (conn_run f g c x) (\<lambda>c. conn_run f g c y) \<and> (\<forall>c'. conn_run f g c x = Some c' \<longrightarrow> conn_fits c' y)"
proof (cases "ci_mode c")
  case CONN_IO_MODE_FRAME
  then show ?thesis by (rule conn_step_frame [OF c])
next
  case CONN_IO_MODE_LINE
  then show ?thesis using c by (simp add: conn_fits_def)
next
  case CONN_IO_MODE_WS
  then show ?thesis using conn_step_ws [OF c] conn_step_proxy [OF c] by blast
qed

lemma conn_run_nil:
  assumes c: "conn_fits c []"
  shows "conn_run f g c [] = Some c"
proof -
  have i: "conn_io_inv c" "\<not> ci_failed c" "note_out c = Some c" using c by (simp_all add: conn_fits_def)
  have push: "push_out f g c [] = Some c" if m: "ci_mode c = CONN_IO_MODE_WS"
  proof (cases "ws_stage (ci_ws c) = WS_STAGE_UPGRADE")
    case True
    then have w: "waiting c" "ci_in_len c + length ([] :: bytes) \<le> 12317" using c m by (simp_all add: conn_fits_def)
    then show ?thesis
      using push_out_waiting [OF i(1) w(1) m i(2) w(2) _ refl, of "contents c" f g] length_contents [OF conn_io_inv_in_ok [OF i(1)]]
      by (simp add: waiting_def)
  next
    case False
    then show ?thesis using c m by (simp add: push_out_open feed_out_nil conn_fits_def)
  qed
  show ?thesis
  proof (cases "ci_mode c")
    case CONN_IO_MODE_FRAME
    then show ?thesis using conn_run_frame [OF _ i(2), of f g "[]"] i(3) by simp
  next
    case CONN_IO_MODE_LINE
    then show ?thesis using c by (simp add: conn_fits_def)
  next
    case m: CONN_IO_MODE_WS
    show ?thesis
    proof (cases "ci_proxy_on c \<and> \<not> px_done (ci_proxy c)")
      case True
      then have p: "proxy_inv (ci_proxy c)" using i(1) by (simp add: conn_io_inv_def)
      show ?thesis using conn_run_proxy(1) [OF m i(2) _ _ i(1) proxy.feed_nil [OF p], of f g] True proxy_undone [OF p] by simp
    next
      case False
      then show ?thesis using conn_run_ws [OF m i(2) False, of f g "[]"] push [OF m] by simp
    qed
  qed
qed

interpretation conn: stream_machine "conn_run f g" conn_fits
proof unfold_locales
  fix c x y c'
  show "conn_run f g c [] = Some c" if "conn_fits c []" using that by (rule conn_run_nil)
  show "conn_run f g c (x @ y) = Option.bind (conn_run f g c x) (\<lambda>s. conn_run f g s y)" if "conn_fits c (x @ y)" using conn_step [OF that] by simp
  show "conn_fits c' y" if "conn_fits c (x @ y)" "conn_run f g c x = Some c'" using conn_step [OF that(1), of f g] that(2) by simp
qed

section \<open>Frames\<close>

lemma frame_prefix_store: "n < 2 ^ 32 \<Longrightarrow> frame_prefix n = store_be 4 (of_nat n :: u32)"
proof -
  assume n: "n < 2 ^ 32"
  have b: "of_nat (drop_bit k n AND 0xff) = (ucast (drop_bit k (of_nat n :: u32)) :: byte)" for k
  proof -
    have "(0xff :: nat) = mask 8" by (simp add: mask_eq_exp_minus_1)
    then have "drop_bit k n AND 0xff = take_bit 8 (drop_bit k n)" by (simp add: take_bit_eq_mask)
    then show ?thesis using n by (simp add: word_unat_eq_iff unsigned_ucast_eq unsigned_drop_bit_eq unat_of_nat take_bit_eq_mod)
  qed
  show ?thesis using b [of 24] b [of 16] b [of 8] b [of 0] by (simp add: frame_prefix_def store_be_4)
qed

lemma be32_prefix:
  assumes "n < 2 ^ 32"
  shows "be32 (frame_prefix n @ r) = of_nat n"
proof -
  obtain b0 b1 b2 b3 where b: "frame_prefix n = [b0, b1, b2, b3]" by (simp add: frame_prefix_def)
  have "load_be [b0, b1, b2, b3] = (of_nat n :: u32)"
    using load_store_be_32 [of "of_nat n"] frame_prefix_store [OF assms] by (simp add: b)
  then show ?thesis by (simp add: b be32_def load_be_def push_bit_or or.assoc)
qed

text \<open>A connection with nothing in its input.\<close>

definition conn_empty :: "conn_io_t \<Rightarrow> bool" where
  "conn_empty c \<longleftrightarrow> conn_io_inv c \<and> \<not> ci_failed c \<and> ci_in_len c = 0 \<and> ci_frame_len c = 0"

definition conn_ready :: "conn_io_t \<Rightarrow> bool" where
  "conn_ready c \<longleftrightarrow> conn_empty c \<and> ci_mode c = CONN_IO_MODE_WS \<and> ws_idle (ci_ws c) \<and> ws_expect_mask (ci_ws c) \<and>
     \<not> (ci_proxy_on c \<and> \<not> px_done (ci_proxy c))"

lemma conn_ready_fits: "conn_ready c \<Longrightarrow> conn_fits c d"
  using ws_idle_sync [of "ci_ws c"] by (simp add: conn_ready_def conn_empty_def conn_fits_def note_out_settled ws_idle_def ws_ready_def)

lemma conn_ready_run:
  assumes c: "conn_ready c" and m: "length m = 4" and q: "q = frame_prefix (length p) @ p" "0 < length p" "length p \<le> 12313"
  obtains w' where "ws_idle w'" "ws_same (ci_ws c) w'"
    "conn_run f g c (ws_frame_bytes 2 (Some m) q) = Some ((add_in c q)\<lparr>ci_ws := w', ci_frame_len := length p\<rparr>)"
proof -
  have i: "conn_io_inv c" "in_ok c" "\<not> ci_failed c" "ci_in_len c = 0" "ci_frame_len c = 0" "ci_mode c = CONN_IO_MODE_WS" "ws_idle (ci_ws c)"
    "ws_expect_mask (ci_ws c)" "\<not> (ci_proxy_on c \<and> \<not> px_done (ci_proxy c))"
    using c conn_io_inv_in_ok by (auto simp: conn_ready_def conn_empty_def)
  have lq: "length q = 4 + length p" "q \<noteq> []" using q by auto
  obtain w' where w': "ws_idle w'" "ws_same (ci_ws c) w'"
    "ws_run (room_sink 12317) (ci_ws c, []) (ws_frame_bytes 2 (Some m) q) = map_option (Pair w') (sink_step (room_sink 12317) [] q)"
    by (rule ws_frame_run [OF additive_room_sink i(7), of "Some m" q 12317 "[]"]) (use m i(8) lq q(3) in auto)
  have st: "ws_stage (ci_ws c) \<noteq> WS_STAGE_UPGRADE" "ws_stage w' \<noteq> WS_STAGE_UPGRADE" using i(7) w'(1) by (simp_all add: ws_idle_def ws_ready_def)
  have run: "ws_run (room_sink 12317) (ci_ws c, []) (ws_frame_bytes 2 (Some m) q) = Some (w', q)"
    using w'(3) lq q(3) by (simp add: sink_step_def room_sink_def)
  have "ci_in (add_in c q) = frame_prefix (length p) @ p @ drop (length q) (ci_in c)" using i(4) q(1) by (simp add: add_in_def memcpy_def)
  then have b: "be32 (ci_in (add_in c q)) = of_nat (length p)" using be32_prefix [of "length p"] q(3) by simp
  have u: "unat (of_nat (length p) :: u32) = length p" using q(3) by (simp add: unat_of_nat)
  have "note_out ((add_in c q)\<lparr>ci_ws := w'\<rparr>) = Some ((add_in c q)\<lparr>ci_ws := w', ci_frame_len := length p\<rparr>)"
    using b u st q(2,3) i(4,5) lq(1) by (auto simp: note_out_eq word_less_nat_alt word_unat_eq_iff)
  then show thesis
    using that [OF w'(1,2)] conn_run_ws [OF i(6,3,9), of f g] push_out_open [OF st(1), of f g] feed_out_eq [OF i(2)] run i(4) by simp
qed

lemma note_header_short: "ci_in_len c < 4 \<Longrightarrow> note_header c = (CONN_IO_OK, c)"
  by (simp add: note_header_def)

lemma consume_frame_all:
  assumes "ci_frame_len c \<noteq> 0" "ci_in_len c = 4 + ci_frame_len c"
  shows "conn_io_consume_frame (Some c) = Some (c\<lparr>ci_in := memcpy (ci_in c) 0 (zeros (ci_in_len c)), ci_in_len := 0, ci_frame_len := 0\<rparr>)"
  using assms by (simp add: conn_io_consume_frame_def Let_def note_header_short)

text \<open>What the daemon does with a frame: \<open>serve_buffered\<close> asks for it, handles it and drops it.\<close>

lemma conn_ready_frame:
  assumes c: "conn_ready c" and w: "ws_idle w'" "ws_same (ci_ws c) w'" and q: "q = frame_prefix (length p) @ p" "0 < length p" "length p \<le> 12313"
    and c': "c' = (add_in c q)\<lparr>ci_ws := w', ci_frame_len := length p\<rparr>"
  shows "conn_io_next_frame (Some c') (Some 0) (Some 0) = (1, Some c', Some 4, Some (length p))" "bslice (ci_in c') 4 (length p) = p"
    "\<exists>c''. conn_io_consume_frame (Some c') = Some c'' \<and> conn_ready c'' \<and> ci_ws c'' = w'"
proof -
  have i: "conn_io_inv c" "in_ok c" "\<not> ci_failed c" "ci_in_len c = 0" "ci_frame_len c = 0" "ci_mode c = CONN_IO_MODE_WS"
    "ws_expect_mask w'" "\<not> (ci_proxy_on c \<and> \<not> px_done (ci_proxy c))"
    using c conn_io_inv_in_ok w(2) by (auto simp: conn_ready_def conn_empty_def ws_same_def)
  have lq: "length q = 4 + length p" using q by auto
  have "ci_in c' = q @ drop (length q) (ci_in c)" using i(4) by (simp add: c' add_in_def memcpy_def)
  then show "bslice (ci_in c') 4 (length p) = p" using q(1) by (simp add: bslice_def)
  show "conn_io_next_frame (Some c') (Some 0) (Some 0) = (1, Some c', Some 4, Some (length p))"
    using i(3-6) q(2) lq by (simp add: c' conn_io_next_frame_def note_header_def)
  have "conn_io_inv c'" using conn_io_inv_add_in [OF i(1), of q] i(4) lq q(3) w(1) by (simp add: c' ws_idle_def ws_ready_def)
  then obtain c'' where c'': "conn_io_consume_frame (Some c') = Some c''" "conn_io_inv c''" using next_ok(4) by (auto simp: conn_ok_def)
  moreover obtain b where b: "conn_io_consume_frame (Some c') = Some (c'\<lparr>ci_in := b, ci_in_len := 0, ci_frame_len := 0\<rparr>)"
    using consume_frame_all [of c'] q(2) lq i(4) by (simp add: c')
  ultimately show "\<exists>c''. conn_io_consume_frame (Some c') = Some c'' \<and> conn_ready c'' \<and> ci_ws c'' = w'"
    using i w(1) by (simp add: conn_ready_def conn_empty_def c')
qed

lemma queue_ws_bytes:
  assumes c: "conn_io_inv c" "ci_mode c = CONN_IO_MODE_WS" "ci_out_len c = ci_out_sent c" and p: "0 < length p" "length p \<le> 12313"
  obtains h hl c' where "ws_server_header (zeros 10) (of_nat (4 + length p)) WS_OP_BINARY = (h, hl)" "conn_io_queue (Some c) (Some p) (length p) = (CONN_IO_OK, Some c')"
    "take (ci_out_len c') (ci_out c') = take hl h @ frame_prefix (length p) @ p" "ci_out_sent c' = 0" "ci_out_len c' > 0" "ci_ws c' = ci_ws c" "ci_mode c' = CONN_IO_MODE_WS"
proof -
  define n where "n = 4 + length p"
  define L where "L = 0x82 # ws_len_bytes n"
  obtain h where h: "ws_server_header (zeros 10) (of_nat n) 2 = (h, length L)" "take (length L) h = L" "length L \<le> 10"
    using ws_server_header_data [of n] p(2) by (auto simp: n_def L_def)
  define b where "b = memcpy (memcpy (memcpy (ci_out c) 0 L) (length L) (frame_prefix (length p))) (length L + 4) p"
  define c' where "c' = c\<lparr>ci_out := b, ci_out_len := length L + n, ci_out_sent := 0\<rparr>"
  have len: "length (ci_out c) = 12327" using c(1) by (simp add: conn_io_inv_def)
  have "b = memcpy (ci_out c) 0 (L @ frame_prefix (length p) @ p)" using len h(3) p(2) by (simp add: b_def memcpy_append)
  then have "take (length L + n) b = L @ frame_prefix (length p) @ p" by (simp add: n_def memcpy_def)
  moreover have "conn_io_queue (Some c) (Some p) (length p) = (CONN_IO_OK, Some c')"
    using c p h unfolding n_def by (simp add: conn_io_queue_def b_def c'_def n_def Let_def)
  ultimately show thesis using that [OF h(1) [unfolded n_def]] h(2) c(2) by (simp add: c'_def n_def)
qed

section \<open>Properties\<close>


text \<open>A slot as the event loop prepares it.\<close>

definition conn_fresh :: "conn_io_mode_t \<Rightarrow> bool \<Rightarrow> conn_io_t" where
  "conn_fresh mode proxy = the (conn_io_set_proxy (conn_io_set_mode (conn_io_reset (Some conn_io_zero)) mode) proxy)"

lemma conn_fresh_fits:
  assumes "mode \<noteq> CONN_IO_MODE_LINE" "mode = CONN_IO_MODE_WS \<longrightarrow> length d \<le> 12317"
  shows "conn_fits (conn_fresh mode proxy) d"
proof -
  have "conn_io_inv (conn_fresh mode proxy)"
    using set_up_ok(3) [of "the (conn_io_set_mode (Some conn_io_zero) mode)" proxy] set_up_ok(2) [OF conn_io_inv_zero, of mode]
    by (auto simp: conn_fresh_def conn_ok_def conn_io_reset_def)
  moreover have "ci_mode (conn_fresh mode proxy) = mode" "ci_in_len (conn_fresh mode proxy) = 0" "ci_frame_len (conn_fresh mode proxy) = 0"
      "\<not> ci_failed (conn_fresh mode proxy)" "ci_in (conn_fresh mode proxy) = zeros 12317"
      "mode = CONN_IO_MODE_WS \<Longrightarrow> ci_ws (conn_fresh mode proxy) = ws_init ws_zero"
    by (simp_all add: conn_fresh_def conn_io_set_mode_def conn_io_set_proxy_def conn_io_reset_def conn_io_zero_def Let_def)
  ultimately show ?thesis using assms
    by (auto simp: conn_fits_def note_out_settled waiting_def contents_def end_of_headers_def ws_init_def ws_zero_def)
qed


text \<open>
  C30. A frame from a WebSocket client arrives whole and once: when the client frames a payload of up to
  \<open>AUTHD_FRAME_MAX\<close> bytes with its length in front, as the protocol asks, and the network cuts the message
  in any way, the daemon's connection accepts all pieces, \<open>conn_io_next_frame\<close> then returns exactly the
  payload, and dropping it leaves the connection ready for the next one.\<close>

theorem conn_io_receives_frame:
  assumes c: "conn_ready c" and m: "length m = 4" and p: "0 < length p" "length p \<le> 12313" and out: "length p + 18 \<le> length out"
    and ds: "concat ds = client_writes out m (frame_prefix (length p) @ p)"
  shows "\<exists>c' c''. feeds (conn_run base642bin bin2base64) c ds = Some c' \<and>
    conn_io_next_frame (Some c') (Some 0) (Some 0) = (1, Some c', Some 4, Some (length p)) \<and> bslice (ci_in c') 4 (length p) = p \<and>
    conn_io_consume_frame (Some c') = Some c'' \<and> conn_ready c''"
proof -
  define q where "q = frame_prefix (length p) @ p"
  have d: "concat ds = ws_frame_bytes 2 (Some m) q" using ds client_writes_frame [OF m, of q out] out p(2) by (simp add: q_def)
  obtain w' where w': "ws_idle w'" "ws_same (ci_ws c) w'"
    "conn_run base642bin bin2base64 c (concat ds) = Some ((add_in c q)\<lparr>ci_ws := w', ci_frame_len := length p\<rparr>)"
    using conn_ready_run [OF c m q_def p, of base642bin bin2base64] d by metis
  have "feeds (conn_run base642bin bin2base64) c ds = conn_run base642bin bin2base64 c (concat ds)"
    by (rule conn.feeds_concat) (rule conn_ready_fits [OF c])
  with w'(3) conn_ready_frame [OF c w'(1,2) q_def p refl] show ?thesis by auto
qed

lemma conn_ready_open: "conn_ready (conn_io_zero\<lparr>ci_mode := CONN_IO_MODE_WS, ci_ws := (ws_init ws_zero)\<lparr>ws_stage := WS_STAGE_OPEN\<rparr>\<rparr>)"
  using ws_idle_init(2) [of ws_zero]
  by (simp add: conn_ready_def conn_empty_def conn_io_inv_def conn_io_zero_def ws_idle_def ws_ready_def ws_init_def)

lemma conn_io_receives_frame_witness:
  "\<exists>c' c''. feeds (conn_run (\<lambda>_ _. (0, [])) id) (conn_io_zero\<lparr>ci_mode := CONN_IO_MODE_WS, ci_ws := (ws_init ws_zero)\<lparr>ws_stage := WS_STAGE_OPEN\<rparr>\<rparr>)
      [take 3 (client_writes (zeros 64) [1, 2, 3, 4] (frame_prefix 2 @ [5, 6])), drop 3 (client_writes (zeros 64) [1, 2, 3, 4] (frame_prefix 2 @ [5, 6]))] = Some c' \<and>
    conn_io_next_frame (Some c') (Some 0) (Some 0) = (1, Some c', Some 4, Some 2) \<and> bslice (ci_in c') 4 2 = [5, 6] \<and>
    conn_io_consume_frame (Some c') = Some c'' \<and> conn_ready c''"
proof -
  have n: "length [5, 6 :: byte] = 2" by simp
  show ?thesis
    using conn_io_receives_frame [OF conn_ready_open, of "[1, 2, 3, 4]" "[5, 6]" "zeros 64"
      "[take 3 (client_writes (zeros 64) [1, 2, 3, 4] (frame_prefix 2 @ [5, 6])), drop 3 (client_writes (zeros 64) [1, 2, 3, 4] (frame_prefix 2 @ [5, 6]))]"
      "\<lambda>_ _. (0, [])" id, unfolded n] by simp
qed

text \<open>
  C31. A reply reaches the client whole: what \<open>conn_io_queue\<close> leaves to be sent on a WebSocket connection is
  one message that the client's reader returns, after any pings and pongs of the server, as the length in
  front of the payload and the payload.\<close>

theorem conn_io_sends_frame:
  assumes c: "conn_io_inv c" "ci_mode c = CONN_IO_MODE_WS" "ci_out_len c = ci_out_sent c" "ws_reply_len (ci_ws c) = ws_reply_sent (ci_ws c)"
    and p: "0 < length p" "length p \<le> 12313" "4 + length p \<le> cap"
    and cs: "\<forall>(opc, q) \<in> set cs. (opc = WS_OP_PING \<or> opc = WS_OP_PONG) \<and> length q \<le> 125"
  shows "\<exists>c' b. conn_io_queue (Some c) (Some p) (length p) = (CONN_IO_OK, Some c') \<and> conn_io_pending_ptr (Some c') = Some b \<and>
    ws_client_read_message (Some list_reader)
      (concat (map (\<lambda>(opc, q). ws_frame_bytes opc None q) cs) @ take (conn_io_pending (Some c')) b @ rest) (Some out) cap (Some l) =
    Some (WS_CLIENT_OK, Some (memcpy out 0 (frame_prefix (length p) @ p)), Some (4 + length p), rest)"
proof -
  define q where "q = frame_prefix (length p) @ p"
  have q: "length q = 4 + length p" by (simp add: q_def)
  obtain h hl c' where h: "ws_server_header (zeros 10) (of_nat (4 + length p)) WS_OP_BINARY = (h, hl)"
    "conn_io_queue (Some c) (Some p) (length p) = (CONN_IO_OK, Some c')" "take (ci_out_len c') (ci_out c') = take hl h @ q"
    "ci_out_sent c' = 0" "ci_out_len c' > 0" "ci_ws c' = ci_ws c" "ci_mode c' = CONN_IO_MODE_WS"
    using queue_ws_bytes [OF c(1-3) p(1,2)] unfolding q_def by metis
  have "\<not> ws_reply_pending c'" using c(4) h(6) by (simp add: ws_reply_pending_def)
  then have "conn_io_pending_ptr (Some c') = Some (ci_out c')" "conn_io_pending (Some c') = ci_out_len c'"
    using h(4,5) by (simp_all add: conn_io_pending_ptr_def conn_io_pending_def)
  moreover have "ws_client_read_loop list_reader (concat (map (\<lambda>(opc, q). ws_frame_bytes opc None q) cs) @ ws_frame_bytes 2 None q @ rest) cap =
      Some (WS_CLIENT_OK, q, length q, rest)"
    using cs p(2,3) q by (induction cs) (auto simp: ws_client_read_data ws_client_read_control)
  moreover have "take hl h @ q = ws_frame_bytes 2 None q"
    using ws_server_header_bytes [of "zeros 10" "length q" 2] h(1) q p(2) by (auto simp: ws_frame_bytes_plain ws_len_bytes_eq memcpy_def)
  ultimately show ?thesis using h(2,3) q by (simp add: ws_client_read_message_def q_def [symmetric])
qed

lemma conn_io_sends_frame_witness:
  "\<exists>c' b. conn_io_queue (Some (conn_io_zero\<lparr>ci_mode := CONN_IO_MODE_WS\<rparr>)) (Some [5, 6]) 2 = (CONN_IO_OK, Some c') \<and> conn_io_pending_ptr (Some c') = Some b \<and>
    ws_client_read_message (Some list_reader) (take (conn_io_pending (Some c')) b) (Some (zeros 8)) 8 (Some 0) =
    Some (WS_CLIENT_OK, Some (memcpy (zeros 8) 0 [0, 0, 0, 2, 5, 6]), Some 6, [])"
proof -
  have n: "length [5, 6 :: byte] = 2" by simp
  have b: "frame_prefix 2 = [0, 0, 0, 2]" by (simp add: frame_prefix_def drop_bit_eq_div)
  have c: "conn_io_inv (conn_io_zero\<lparr>ci_mode := CONN_IO_MODE_WS\<rparr>)" "ci_out_len (conn_io_zero\<lparr>ci_mode := CONN_IO_MODE_WS\<rparr>) = ci_out_sent (conn_io_zero\<lparr>ci_mode := CONN_IO_MODE_WS\<rparr>)"
    "ws_reply_len (ci_ws (conn_io_zero\<lparr>ci_mode := CONN_IO_MODE_WS\<rparr>)) = ws_reply_sent (ci_ws (conn_io_zero\<lparr>ci_mode := CONN_IO_MODE_WS\<rparr>))"
    using conn_io_inv_zero by (simp, simp_all add: conn_io_zero_def ws_zero_def)
  show ?thesis
    using conn_io_sends_frame [OF c(1) _ c(2,3), of "[5, 6]" 8 "[]" "[]" "zeros 8" 0, unfolded n b] by simp
qed

text \<open>
  C35. A full buffer never stalls a connection: when the event loop finds no room left in the input after a
  push, the buffer holds a complete frame, or on the local listener a complete line, so serving it makes
  room again.\<close>

theorem conn_io_full_buffer:
  assumes c: "conn_io_inv c" "\<not> ci_failed c" and fit: "ci_mode c \<noteq> CONN_IO_MODE_LINE \<longrightarrow> conn_fits c d"
    and run: "conn_run base642bin bin2base64 c d = Some c'" and full: "conn_io_in_room (Some c') = 0"
  shows "(if ci_mode c' = CONN_IO_MODE_LINE then fst (conn_io_next_line (Some c') (Some 0) (Some 0))
    else fst (conn_io_next_frame (Some c') (Some 0) (Some 0))) = 1"
proof (cases "ci_mode c = CONN_IO_MODE_LINE")
  case False
  have f: "conn_fits c' []" using conn.feed_fits [of c d "[]" base642bin bin2base64 c'] fit False run by simp
  then have i: "conn_io_inv c'" "\<not> ci_failed c'" "note_out c' = Some c'" "ci_mode c' \<noteq> CONN_IO_MODE_LINE"
    and w: "ci_mode c' = CONN_IO_MODE_WS \<Longrightarrow> ws_stage (ci_ws c') = WS_STAGE_UPGRADE \<Longrightarrow> ci_in_len c' \<le> 4096"
    by (auto simp: conn_fits_def waiting_def)
  have n: "ci_in_len c' = 12317" "ci_frame_len c' \<le> 12313" using i(1) full by (auto simp: conn_io_inv_def conn_io_in_room_def split: if_splits)
  have "ci_frame_len c' \<noteq> 0" using i(3) n(1) w by (auto simp: note_out_settled)
  then show ?thesis using i(2,4) n by (simp add: conn_io_next_frame_def note_header_def)
next
  case True
  define v where "v = add_in c d"
  have fits: "length d \<le> 12317 - ci_in_len c"
    using run c(2) True by (cases "d = []") (auto simp: conn_run_def conn_io_push_def split: if_splits)
  have "conn_io_push base642bin bin2base64 (Some c) (Some d) (length d) = map_prod id Some (note_line_cap v)"
    using c(2) True fits by (cases "d = []") (auto simp: conn_io_push_def add_in_def [symmetric] v_def Let_def)
  then have r: "note_line_cap v = (CONN_IO_OK, c')" using run by (cases "note_line_cap v") (auto simp: conn_run_def split: if_splits)
  have i: "conn_io_inv v" using conn_io_inv_add_in [OF c(1) fits] by (simp add: v_def)
  have v: "c' = v" "memchr (take (ci_in_len v) (ci_in v)) 10 \<noteq> None \<or> ci_in_len v < 8192"
    using r by (auto simp: note_line_cap_def split: if_splits)
  have "ci_in_len v = 12317" using i full v(1) by (auto simp: conn_io_inv_def conn_io_in_room_def split: if_splits)
  then show ?thesis using v True c(2) by (auto simp: conn_io_next_line_def v_def Let_def)
qed

lemma conn_io_full_buffer_witness:
  "\<exists>c'. conn_run (\<lambda>_ _. (0, [])) id (conn_fresh CONN_IO_MODE_FRAME False) (frame_prefix 12313 @ replicate 12313 7) = Some c' \<and>
    conn_io_in_room (Some c') = 0 \<and> fst (conn_io_next_frame (Some c') (Some 0) (Some 0)) = 1"
proof -
  define c where "c = conn_fresh CONN_IO_MODE_FRAME False"
  define d where "d = frame_prefix 12313 @ replicate 12313 (7 :: byte)"
  have f: "conn_fits c d" unfolding c_def by (rule conn_fresh_fits) simp_all
  have m: "ci_mode c = CONN_IO_MODE_FRAME" "\<not> ci_failed c" "ci_in_len c = 0" "ci_frame_len c = 0" "ci_in c = zeros 12317"
    by (simp_all add: c_def conn_fresh_def conn_io_set_mode_def conn_io_set_proxy_def conn_io_reset_def conn_io_zero_def Let_def)
  have len: "length d = 12317" by (simp add: d_def)
  have "ci_in (add_in c d) = frame_prefix 12313 @ replicate 12313 7" using m len by (simp add: add_in_def memcpy_def d_def)
  then have "be32 (ci_in (add_in c d)) = 12313" using be32_prefix [of 12313 "replicate 12313 7"] by simp
  then have run: "conn_run (\<lambda>_ _. (0, [])) id c d = Some ((add_in c d)\<lparr>ci_frame_len := 12313\<rparr>)"
    using conn_run_frame [OF m(1,2), of "\<lambda>_ _. (0, [])" id d] m len by (simp add: note_out_eq)
  have full: "conn_io_in_room (Some ((add_in c d)\<lparr>ci_frame_len := 12313\<rparr>)) = 0" using m len by (simp add: conn_io_in_room_def)
  have i: "conn_io_inv c" using f by (simp add: conn_fits_def)
  from conn_io_full_buffer [OF i m(2) _ run full] f run full m(1) show ?thesis by (simp add: c_def [symmetric] d_def [symmetric])
qed

lemma memchr_None: "memchr b c = None \<longleftrightarrow> c \<notin> set b"
  by (induction b) auto

lemma memchr_append: "c \<notin> set a \<Longrightarrow> memchr (a @ c # b) c = Some (length a)"
  by (induction a) auto

lemma conn_run_line:
  assumes "ci_mode c = CONN_IO_MODE_LINE" "\<not> ci_failed c" "in_ok c" "length d \<le> 12317 - ci_in_len c"
  shows "conn_run f g c d = (if 10 \<notin> set (contents c @ d) \<and> ci_in_len c + length d \<ge> 8192 then None else Some (add_in c d))"
  using assms contents_add_in [OF assms(3), of d] unfolding contents_def [of "add_in c d"]
  by (cases "d = []") (auto simp: conn_run_def conn_io_push_def note_line_cap_def add_in_def [symmetric] Let_def memchr_None)



end
