(* ===== verification/Frame.thy ===== *)
theory Frame
  imports Wire_Int
begin

text \<open>
  Frames over a socket: \<open>apps/frame.c\<close> and the part of \<open>apps/net_io.c\<close> that it stands on, the exact read,
  the complete write and the bounded wait.

  The operating system is the argument \<open>os\<close>, the system calls that the code makes as functions of the
  system's state \<open>'s\<close>; \<open>errno\<close> is returned with the result. The loops end only if the system lets them,
  so they are partial functions: \<open>None\<close> is a call that never returns.
\<close>

abbreviation (input) NET_NO_DEADLINE :: u64 where "NET_NO_DEADLINE \<equiv> UINT64_MAX"
abbreviation (input) FRAME_HEADER_BYTES :: nat where "FRAME_HEADER_BYTES \<equiv> 4"
abbreviation (input) FRAME_MAX_PAYLOAD :: nat where "FRAME_MAX_PAYLOAD \<equiv> 65561"
abbreviation (input) INT_MAX :: int where "INT_MAX \<equiv> 2147483647"

datatype net_status_t = NET_OK | NET_EOF | NET_TIMEOUT | NET_ERR_IO | NET_ERR_INVALID_ARG

datatype frame_status_t = FRAME_OK | FRAME_EOF | FRAME_TRUNCATED | FRAME_TIMEOUT | FRAME_IO | FRAME_BAD_LENGTH | FRAME_INVALID_ARG

datatype errno_t = EINTR | EAGAIN | EOTHER

record net_stats_t =
  ns_recv_calls :: u64
  ns_send_calls :: u64
  ns_eintr_retries :: u64
  ns_bytes_rx :: u64
  ns_bytes_tx :: u64

record net_conn_t =
  nc_fd :: int
  nc_stats :: net_stats_t

record 's os_t =
  os_now_ms :: "'s \<Rightarrow> u64 \<times> 's"
  os_poll :: "'s \<Rightarrow> int \<Rightarrow> int \<times> errno_t \<times> 's"
  os_recv :: "'s \<Rightarrow> nat \<Rightarrow> int \<times> bytes \<times> errno_t \<times> 's"
  os_send :: "'s \<Rightarrow> bytes \<Rightarrow> int \<times> errno_t \<times> 's"

section \<open>Sockets\<close>

definition net_conn_init :: "net_conn_t ptr \<Rightarrow> net_conn_t ptr" where
  "net_conn_init cp =
     map_option (\<lambda>_. \<lparr>nc_fd = -1,
       nc_stats = \<lparr>ns_recv_calls = 0, ns_send_calls = 0, ns_eintr_retries = 0, ns_bytes_rx = 0, ns_bytes_tx = 0\<rparr>\<rparr>) cp"

definition net_deadline_in :: "'s os_t \<Rightarrow> 's \<Rightarrow> u64 \<Rightarrow> u64 \<times> 's" where
  "net_deadline_in os s ms =
     (let (now, s) = os_now_ms os s
      in if now = UINT64_MAX then (0, s)
         else if ms \<ge> (NET_NO_DEADLINE - 1) - now then (NET_NO_DEADLINE - 1, s)
         else (now + ms, s))"

partial_function (option) wait_io :: "'s os_t \<Rightarrow> 's \<Rightarrow> u64 \<Rightarrow> net_stats_t \<Rightarrow> (net_status_t \<times> net_stats_t \<times> 's) option" where
  "wait_io os s deadline_ms st =
     (let (now, s) = (if deadline_ms \<noteq> NET_NO_DEADLINE then os_now_ms os s else (0, s))
      in if deadline_ms \<noteq> NET_NO_DEADLINE \<and> (now = UINT64_MAX \<or> now \<ge> deadline_ms) then Some (NET_TIMEOUT, st, s)
      else
        let timeout = (if deadline_ms \<noteq> NET_NO_DEADLINE
              then let rem = deadline_ms - now in if uint rem > INT_MAX then INT_MAX else uint rem
              else -1);
            (r, e, s) = os_poll os s timeout
        in if r > 0 then Some (NET_OK, st, s)
        else if r = 0 then wait_io os s deadline_ms st
        else if e = EINTR then wait_io os s deadline_ms (st\<lparr>ns_eintr_retries := ns_eintr_retries st + 1\<rparr>)
        else Some (NET_ERR_IO, st, s))"

partial_function (option) net_read_loop ::
  "'s os_t \<Rightarrow> 's \<Rightarrow> net_stats_t \<Rightarrow> bytes \<Rightarrow> nat \<Rightarrow> nat \<Rightarrow> u64 \<Rightarrow> (net_status_t \<times> net_stats_t \<times> bytes \<times> nat \<times> 's) option" where
  "net_read_loop os s st buf off n deadline_ms =
     (if off < n
      then (case wait_io os s deadline_ms st of
        None \<Rightarrow> None
      | Some (w, st, s) \<Rightarrow>
        if w \<noteq> NET_OK then Some (w, st, buf, off, s)
        else
          let (r, b, e, s) = os_recv os s (n - off)
          in if r > 0
             then net_read_loop os s (st\<lparr>ns_recv_calls := ns_recv_calls st + 1, ns_bytes_rx := ns_bytes_rx st + of_int r\<rparr>)
               (memcpy buf off b) (off + nat r) n deadline_ms
          else if r = 0 then Some (NET_EOF, st\<lparr>ns_recv_calls := ns_recv_calls st + 1\<rparr>, buf, off, s)
          else if e = EINTR then net_read_loop os s (st\<lparr>ns_eintr_retries := ns_eintr_retries st + 1\<rparr>) buf off n deadline_ms
          else if e = EAGAIN then net_read_loop os s st buf off n deadline_ms
          else Some (NET_ERR_IO, st, buf, off, s))
      else Some (NET_OK, st, buf, off, s))"

definition net_read_exact ::
  "'s os_t \<Rightarrow> 's \<Rightarrow> net_conn_t ptr \<Rightarrow> bytes ptr \<Rightarrow> nat \<Rightarrow> u64 \<Rightarrow> nat ptr \<Rightarrow>
   (net_status_t \<times> net_conn_t ptr \<times> bytes ptr \<times> nat ptr \<times> 's) option" where
  "net_read_exact os s cp buf n deadline_ms got =
     (let got = map_option (\<lambda>_. 0) got
      in if cp = NULL \<or> nc_fd (the cp) < 0 \<or> got = NULL \<or> (buf = NULL \<and> n \<noteq> 0) then Some (NET_ERR_INVALID_ARG, cp, buf, got, s)
      else (case net_read_loop os s (nc_stats (the cp)) (case buf of NULL \<Rightarrow> [] | Some b \<Rightarrow> b) 0 n deadline_ms of
        None \<Rightarrow> None
      | Some (st, stats, b, off, s) \<Rightarrow> Some (st, Some ((the cp)\<lparr>nc_stats := stats\<rparr>), map_option (\<lambda>_. b) buf, Some off, s)))"

partial_function (option) net_write_loop ::
  "'s os_t \<Rightarrow> 's \<Rightarrow> net_stats_t \<Rightarrow> bytes \<Rightarrow> nat \<Rightarrow> nat \<Rightarrow> u64 \<Rightarrow> (net_status_t \<times> net_stats_t \<times> 's) option" where
  "net_write_loop os s st buf off n deadline_ms =
     (if off < n
      then (case wait_io os s deadline_ms st of
        None \<Rightarrow> None
      | Some (w, st, s) \<Rightarrow>
        if w \<noteq> NET_OK then Some (w, st, s)
        else
          let (r, e, s) = os_send os s (bslice buf off (n - off))
          in if r > 0
             then net_write_loop os s (st\<lparr>ns_send_calls := ns_send_calls st + 1, ns_bytes_tx := ns_bytes_tx st + of_int r\<rparr>)
               buf (off + nat r) n deadline_ms
          else if r < 0 \<and> e = EINTR then net_write_loop os s (st\<lparr>ns_eintr_retries := ns_eintr_retries st + 1\<rparr>) buf off n deadline_ms
          else if r < 0 \<and> e = EAGAIN then net_write_loop os s st buf off n deadline_ms
          else Some (NET_ERR_IO, st, s))
      else Some (NET_OK, st, s))"

definition net_write_all ::
  "'s os_t \<Rightarrow> 's \<Rightarrow> net_conn_t ptr \<Rightarrow> bytes ptr \<Rightarrow> nat \<Rightarrow> u64 \<Rightarrow> (net_status_t \<times> net_conn_t ptr \<times> 's) option" where
  "net_write_all os s cp buf n deadline_ms =
     (if cp = NULL \<or> nc_fd (the cp) < 0 \<or> (buf = NULL \<and> n \<noteq> 0) then Some (NET_ERR_INVALID_ARG, cp, s)
      else (case net_write_loop os s (nc_stats (the cp)) (case buf of NULL \<Rightarrow> [] | Some b \<Rightarrow> b) 0 n deadline_ms of
        None \<Rightarrow> None
      | Some (st, stats, s) \<Rightarrow> Some (st, Some ((the cp)\<lparr>nc_stats := stats\<rparr>), s)))"

definition net_status_name :: "net_status_t \<Rightarrow> string" where
  "net_status_name st =
     (case st of
        NET_OK \<Rightarrow> ''ok'' | NET_EOF \<Rightarrow> ''eof'' | NET_TIMEOUT \<Rightarrow> ''timeout'' | NET_ERR_IO \<Rightarrow> ''io-error''
      | NET_ERR_INVALID_ARG \<Rightarrow> ''invalid-arg'')"

section \<open>Frames\<close>

definition from_net :: "net_status_t \<Rightarrow> frame_status_t" where
  "from_net st =
     (case st of
        NET_OK \<Rightarrow> FRAME_OK
      | NET_TIMEOUT \<Rightarrow> FRAME_TIMEOUT
      | NET_ERR_INVALID_ARG \<Rightarrow> FRAME_INVALID_ARG
      | NET_EOF \<Rightarrow> FRAME_IO
      | NET_ERR_IO \<Rightarrow> FRAME_IO)"

definition frame_send ::
  "'s os_t \<Rightarrow> 's \<Rightarrow> net_conn_t ptr \<Rightarrow> bytes ptr \<Rightarrow> nat \<Rightarrow> u64 \<Rightarrow> (frame_status_t \<times> net_conn_t ptr \<times> bytes ptr \<times> 's) option" where
  "frame_send os s cp buf payload_len deadline_ms =
     (if cp = NULL \<or> buf = NULL \<or> payload_len = 0 \<or> payload_len > FRAME_MAX_PAYLOAD then Some (FRAME_INVALID_ARG, cp, buf, s)
      else
        let b = frame_put_header (the buf) (of_nat payload_len)
        in case net_write_all os s cp (Some b) (FRAME_HEADER_BYTES + payload_len) deadline_ms of
             None \<Rightarrow> None
           | Some (st, cp, s) \<Rightarrow> Some (if st = NET_EOF then FRAME_IO else from_net st, cp, Some b, s))"

definition frame_recv ::
  "'s os_t \<Rightarrow> 's \<Rightarrow> net_conn_t ptr \<Rightarrow> bytes ptr \<Rightarrow> nat \<Rightarrow> nat \<Rightarrow> nat ptr \<Rightarrow> u64 \<Rightarrow>
   (frame_status_t \<times> net_conn_t ptr \<times> bytes ptr \<times> nat ptr \<times> 's) option" where
  "frame_recv os s cp buf min_len max_len payload_len deadline_ms =
     (let payload_len = map_option (\<lambda>_. 0) payload_len
      in if cp = NULL \<or> buf = NULL \<or> payload_len = NULL \<or> min_len = 0 \<or> min_len > max_len \<or> max_len > FRAME_MAX_PAYLOAD
      then Some (FRAME_INVALID_ARG, cp, buf, payload_len, s)
      else (case net_read_exact os s cp buf FRAME_HEADER_BYTES deadline_ms (Some 0) of
        None \<Rightarrow> None
      | Some (st, cp, buf, got, s) \<Rightarrow>
        if st = NET_EOF then Some (if the got = 0 then FRAME_EOF else FRAME_TRUNCATED, cp, buf, payload_len, s)
        else if st \<noteq> NET_OK then Some (from_net st, cp, buf, payload_len, s)
        else
          let len = frame_get_header (the buf)
          in if unat len < min_len \<or> unat len > max_len then Some (FRAME_BAD_LENGTH, cp, buf, payload_len, s)
          else (case net_read_exact os s cp (Some (drop FRAME_HEADER_BYTES (the buf))) (unat len) deadline_ms (Some 0) of
            None \<Rightarrow> None
          | Some (st, cp, body, got, s) \<Rightarrow>
            let buf = Some (take FRAME_HEADER_BYTES (the buf) @ the body)
            in if st = NET_EOF then Some (FRAME_TRUNCATED, cp, buf, payload_len, s)
               else if st \<noteq> NET_OK then Some (from_net st, cp, buf, payload_len, s)
               else Some (FRAME_OK, cp, buf, Some (unat len), s))))"

definition frame_status_name :: "frame_status_t \<Rightarrow> string" where
  "frame_status_name st =
     (case st of
        FRAME_OK \<Rightarrow> ''ok'' | FRAME_EOF \<Rightarrow> ''eof'' | FRAME_TRUNCATED \<Rightarrow> ''truncated'' | FRAME_TIMEOUT \<Rightarrow> ''timeout''
      | FRAME_IO \<Rightarrow> ''io-error'' | FRAME_BAD_LENGTH \<Rightarrow> ''bad-length'' | FRAME_INVALID_ARG \<Rightarrow> ''invalid-arg'')"

section \<open>A system that does not fail\<close>

text \<open>
  What a stream socket promises: \<open>inp s\<close> is what the peer has sent and \<open>outp s\<close> what we have. A call
  moves a part of it, of at least one byte, or asks to be tried again; it reports the end only when the
  peer has sent no more. \<open>\<mu>\<close> bounds how often the system can ask in a row: each interruption or empty
  wait uses some of it up.
\<close>

definition healthy :: "'s os_t \<Rightarrow> ('s \<Rightarrow> bytes) \<Rightarrow> ('s \<Rightarrow> bytes) \<Rightarrow> ('s \<Rightarrow> nat) \<Rightarrow> bool" where
  "healthy os inp outp \<mu> \<longleftrightarrow>
     (\<forall>s t r e s'. os_poll os s t = (r, e, s') \<longrightarrow> inp s' = inp s \<and> outp s' = outp s \<and>
        (r > 0 \<and> \<mu> s' \<le> \<mu> s \<or> (r = 0 \<or> r < 0 \<and> e = EINTR) \<and> \<mu> s' < \<mu> s)) \<and>
     (\<forall>s n r b e s'. n > 0 \<longrightarrow> os_recv os s n = (r, b, e, s') \<longrightarrow> outp s' = outp s \<and>
        (r > 0 \<and> r = int (length b) \<and> length b \<le> n \<and> inp s = b @ inp s' \<and> \<mu> s' \<le> \<mu> s \<or>
         r = 0 \<and> inp s = [] \<and> inp s' = [] \<or>
         r < 0 \<and> e \<noteq> EOTHER \<and> inp s' = inp s \<and> \<mu> s' < \<mu> s)) \<and>
     (\<forall>s b r e s'. b \<noteq> [] \<longrightarrow> os_send os s b = (r, e, s') \<longrightarrow> inp s' = inp s \<and>
        (r > 0 \<and> r \<le> int (length b) \<and> outp s' = outp s @ take (nat r) b \<and> \<mu> s' \<le> \<mu> s \<or>
         r < 0 \<and> e \<noteq> EOTHER \<and> outp s' = outp s \<and> \<mu> s' < \<mu> s))"

lemma healthyD:
  assumes "healthy os inp outp \<mu>"
  shows "os_poll os s t = (r, e, s') \<Longrightarrow> inp s' = inp s \<and> outp s' = outp s \<and> (r > 0 \<and> \<mu> s' \<le> \<mu> s \<or> (r = 0 \<or> r < 0 \<and> e = EINTR) \<and> \<mu> s' < \<mu> s)"
    "n > 0 \<Longrightarrow> os_recv os s n = (r, b, e, s') \<Longrightarrow> outp s' = outp s \<and>
      (r > 0 \<and> r = int (length b) \<and> length b \<le> n \<and> inp s = b @ inp s' \<and> \<mu> s' \<le> \<mu> s \<or> r = 0 \<and> inp s = [] \<and> inp s' = [] \<or>
       r < 0 \<and> e \<noteq> EOTHER \<and> inp s' = inp s \<and> \<mu> s' < \<mu> s)"
    "c \<noteq> [] \<Longrightarrow> os_send os s c = (r, e, s') \<Longrightarrow> inp s' = inp s \<and>
      (r > 0 \<and> r \<le> int (length c) \<and> outp s' = outp s @ take (nat r) c \<and> \<mu> s' \<le> \<mu> s \<or> r < 0 \<and> e \<noteq> EOTHER \<and> outp s' = outp s \<and> \<mu> s' < \<mu> s)"
  using assms unfolding healthy_def by blast+

lemma wait_io_healthy:
  assumes h: "healthy os inp outp \<mu>"
  shows "\<exists>st' s'. wait_io os s UINT64_MAX st = Some (NET_OK, st', s') \<and> inp s' = inp s \<and> outp s' = outp s \<and> \<mu> s' \<le> \<mu> s"
proof (induction "\<mu> s" arbitrary: s st rule: less_induct)
  case less
  obtain r e s1 where p: "os_poll os s (-1) = (r, e, s1)" using prod_cases3 by blast
  note d = healthyD(1) [OF h p]
  show ?case
  proof (cases "r > 0")
    case True
    then show ?thesis using p d by (subst wait_io.simps) auto
  next
    case False
    then have m: "\<mu> s1 < \<mu> s" using d by auto
    have step: "wait_io os s UINT64_MAX st = (if r = 0 then wait_io os s1 UINT64_MAX st
        else wait_io os s1 UINT64_MAX (st\<lparr>ns_eintr_retries := ns_eintr_retries st + 1\<rparr>))"
      using p False d by (subst wait_io.simps) auto
    show ?thesis using less.hyps [OF m, of st] less.hyps [OF m, of "st\<lparr>ns_eintr_retries := ns_eintr_retries st + 1\<rparr>"] d m step
      by (cases "r = 0") (fastforce intro: order_trans [OF _ less_imp_le])+
  qed
qed

lemma net_read_loop_healthy:
  assumes h: "healthy os inp outp \<mu>"
  shows "off \<le> n \<Longrightarrow> n \<le> length buf \<Longrightarrow>
    \<exists>st' s'. net_read_loop os s st buf off n UINT64_MAX =
      Some (if n - off \<le> length (inp s) then NET_OK else NET_EOF, st', memcpy buf off (take (n - off) (inp s)), off + min (n - off) (length (inp s)), s') \<and>
      inp s' = drop (n - off) (inp s) \<and> outp s' = outp s"
proof (induction "n - off + \<mu> s" arbitrary: s st buf off rule: less_induct)
  case less
  show ?case
  proof (cases "off < n")
    case False
    then show ?thesis using less.prems by (subst net_read_loop.simps) (simp add: memcpy_def)
  next
    case True
    obtain st1 s1 where w: "wait_io os s UINT64_MAX st = Some (NET_OK, st1, s1)" "inp s1 = inp s" "outp s1 = outp s" "\<mu> s1 \<le> \<mu> s"
      using wait_io_healthy [OF h] by blast
    obtain r b e s2 where rc: "os_recv os s1 (n - off) = (r, b, e, s2)" using prod_cases4 by blast
    have d: "outp s2 = outp s" "r > 0 \<and> r = int (length b) \<and> length b \<le> n - off \<and> inp s = b @ inp s2 \<and> \<mu> s2 \<le> \<mu> s1 \<or> r = 0 \<and> inp s = [] \<and> inp s2 = [] \<or>
       r < 0 \<and> e \<noteq> EOTHER \<and> inp s2 = inp s \<and> \<mu> s2 < \<mu> s1"
      using healthyD(2) [OF h _ rc] True w(2,3) by auto
    note step = net_read_loop.simps [of os s st buf off n UINT64_MAX, unfolded w(1) option.case prod.case rc Let_def]
    from d(2) consider (data) "r > 0" "r = int (length b)" "length b \<le> n - off" "inp s = b @ inp s2" "\<mu> s2 \<le> \<mu> s1"
      | (eof) "r = 0" "inp s = []" "inp s2 = []" | (again) "r < 0" "e \<noteq> EOTHER" "inp s2 = inp s" "\<mu> s2 < \<mu> s1" by blast
    then show ?thesis
    proof cases
      case data
      have "0 < length b" using data(1,2) by simp
      then have m: "n - (off + length b) + \<mu> s2 < n - off + \<mu> s" using data(3,5) w(4) True by linarith
      have p: "off + length b \<le> n" "n \<le> length (memcpy buf off b)" using data(3) True less.prems by simp_all
      show ?thesis
        using less.hyps [OF m p, of "st1\<lparr>ns_recv_calls := ns_recv_calls st1 + 1, ns_bytes_rx := ns_bytes_rx st1 + of_int r\<rparr>"]
          step True data d(1) less.prems by (auto simp: memcpy_append min_def)
    next
      case eof
      then show ?thesis using step True d(1) by (simp add: memcpy_def)
    next
      case again
      have m: "n - off + \<mu> s2 < n - off + \<mu> s" using again w(4) by simp
      show ?thesis
        using less.hyps [OF m less.prems, of st1] less.hyps [OF m less.prems, of "st1\<lparr>ns_eintr_retries := ns_eintr_retries st1 + 1\<rparr>"] step True again d(1)
        by (cases e) auto
    qed
  qed
qed

lemma take_bslice: "k \<le> m \<Longrightarrow> take k (bslice b off m) @ bslice b (off + k) (m - k) = bslice b off m"
  using bslice_join [of b off k "m - k"] by (simp add: bslice_def min_absorb1)

lemma net_write_loop_healthy:
  assumes h: "healthy os inp outp \<mu>"
  shows "off \<le> n \<Longrightarrow> n \<le> length buf \<Longrightarrow>
    \<exists>st' s'. net_write_loop os s st buf off n UINT64_MAX = Some (NET_OK, st', s') \<and> outp s' = outp s @ bslice buf off (n - off) \<and> inp s' = inp s"
proof (induction "n - off + \<mu> s" arbitrary: s st off rule: less_induct)
  case less
  show ?case
  proof (cases "off < n")
    case False
    then show ?thesis using less.prems by (subst net_write_loop.simps) (simp add: bslice_def)
  next
    case True
    obtain st1 s1 where w: "wait_io os s UINT64_MAX st = Some (NET_OK, st1, s1)" "inp s1 = inp s" "outp s1 = outp s" "\<mu> s1 \<le> \<mu> s"
      using wait_io_healthy [OF h] by blast
    obtain r e s2 where rc: "os_send os s1 (bslice buf off (n - off)) = (r, e, s2)" using prod_cases3 by blast
    have ne: "bslice buf off (n - off) \<noteq> []" "length (bslice buf off (n - off)) = n - off" using True less.prems by (auto simp: bslice_def)
    have d: "inp s2 = inp s" "r > 0 \<and> r \<le> int (n - off) \<and> outp s2 = outp s @ take (nat r) (bslice buf off (n - off)) \<and> \<mu> s2 \<le> \<mu> s1 \<or>
       r < 0 \<and> e \<noteq> EOTHER \<and> outp s2 = outp s \<and> \<mu> s2 < \<mu> s1"
      using healthyD(3) [OF h ne(1) rc] ne(2) w(2,3) by auto
    note step = net_write_loop.simps [of os s st buf off n UINT64_MAX, unfolded w(1) option.case prod.case rc Let_def]
    from d(2) consider (data) "r > 0" "r \<le> int (n - off)" "outp s2 = outp s @ take (nat r) (bslice buf off (n - off))" "\<mu> s2 \<le> \<mu> s1"
      | (again) "r < 0" "e \<noteq> EOTHER" "outp s2 = outp s" "\<mu> s2 < \<mu> s1" by blast
    then show ?thesis
    proof cases
      case data
      have m: "n - (off + nat r) + \<mu> s2 < n - off + \<mu> s" using data(1,2,4) w(4) True by linarith
      have p: "off + nat r \<le> n" using data(2) True by linarith
      have j: "take (nat r) (bslice buf off (n - off)) @ bslice buf (off + nat r) (n - (off + nat r)) = bslice buf off (n - off)"
        using take_bslice [of "nat r" "n - off" buf off] p by simp
      show ?thesis
        using less.hyps [OF m p less.prems(2), of "st1\<lparr>ns_send_calls := ns_send_calls st1 + 1, ns_bytes_tx := ns_bytes_tx st1 + of_int r\<rparr>"]
          step True data(1,3) d(1) j by auto
    next
      case again
      have m: "n - off + \<mu> s2 < n - off + \<mu> s" using again w(4) by simp
      show ?thesis
        using less.hyps [OF m less.prems, of st1] less.hyps [OF m less.prems, of "st1\<lparr>ns_eintr_retries := ns_eintr_retries st1 + 1\<rparr>"] step True again d(1)
        by (cases e) auto
    qed
  qed
qed

lemma net_read_exact_healthy:
  assumes h: "healthy os inp outp \<mu>" and n: "n \<le> length b" and fd: "0 \<le> nc_fd c"
  obtains c' s' where "net_read_exact os s (Some c) (Some b) n UINT64_MAX (Some k) =
      Some (if n \<le> length (inp s) then NET_OK else NET_EOF, Some c', Some (memcpy b 0 (take n (inp s))), Some (min n (length (inp s))), s')"
    "inp s' = drop n (inp s)" "outp s' = outp s" "nc_fd c' = nc_fd c"
proof -
  obtain st' s' where "net_read_loop os s (nc_stats c) b 0 n UINT64_MAX =
      Some (if n \<le> length (inp s) then NET_OK else NET_EOF, st', memcpy b 0 (take n (inp s)), min n (length (inp s)), s')"
    "inp s' = drop n (inp s)" "outp s' = outp s"
    using net_read_loop_healthy [OF h, of 0 n b s "nc_stats c"] n by auto
  with fd that [of "c\<lparr>nc_stats := st'\<rparr>" s'] show thesis by (simp add: net_read_exact_def)
qed

section \<open>Properties\<close>

text \<open>What the bytes \<open>x\<close> from the peer mean to \<open>frame_recv\<close>: its status, the length it reports and the bytes it takes.\<close>

definition frame_outcome :: "nat \<Rightarrow> nat \<Rightarrow> bytes \<Rightarrow> frame_status_t \<times> nat \<times> nat" where
  "frame_outcome min_len max_len x =
     (let n = unat (frame_get_header x)
      in if x = [] then (FRAME_EOF, 0, 0)
         else if length x < 4 then (FRAME_TRUNCATED, 0, length x)
         else if n < min_len \<or> n > max_len then (FRAME_BAD_LENGTH, 0, 4)
         else if length x < 4 + n then (FRAME_TRUNCATED, 0, length x)
         else (FRAME_OK, n, 4 + n))"

lemma frame_get_header_take: "4 \<le> length x \<Longrightarrow> frame_get_header (memcpy b 0 (take 4 x)) = frame_get_header x"
  by (simp add: frame_get_header_def memcpy_def nth_append)

lemma frame_recv_total:
  assumes h: "healthy os inp outp \<mu>" and fd: "0 \<le> nc_fd c" and l: "0 < min_len" "min_len \<le> max_len" "max_len \<le> 65561" "4 + max_len \<le> length b"
    and o: "frame_outcome min_len max_len (inp s) = (st, n, used)"
  shows "\<exists>c' b' s'. frame_recv os s (Some c) (Some b) min_len max_len (Some k) UINT64_MAX = Some (st, Some c', Some b', Some n, s') \<and>
    inp s' = drop used (inp s) \<and> bslice b' 4 n = bslice (inp s) 4 n \<and> length b' = length b"
proof -
  define x where "x = inp s"
  obtain c1 s1 where r1: "net_read_exact os s (Some c) (Some b) 4 UINT64_MAX (Some 0) =
      Some (if 4 \<le> length x then NET_OK else NET_EOF, Some c1, Some (memcpy b 0 (take 4 x)), Some (min 4 (length x)), s1)"
    "inp s1 = drop 4 x" "nc_fd c1 = nc_fd c"
    using net_read_exact_healthy [OF h _ fd, of 4 b s 0] l unfolding x_def by (metis (no_types, lifting) add_leD1)
  have lb: "length (memcpy b 0 (take 4 x)) = length b" using l by simp
  show ?thesis
  proof (cases "length x < 4")
    case True
    then show ?thesis using o l r1 lb by (auto simp: frame_recv_def frame_outcome_def x_def [symmetric] Let_def bslice_def split: if_splits)
  next
    case False
    define m where "m = unat (frame_get_header x)"
    have m: "unat (frame_get_header (memcpy b 0 (take 4 x))) = m" using False by (simp add: frame_get_header_take m_def)
    show ?thesis
    proof (cases "m < min_len \<or> m > max_len")
      case True
      then show ?thesis using o l r1 lb m False by (auto simp: frame_recv_def frame_outcome_def x_def [symmetric] m_def [symmetric] Let_def bslice_def split: if_splits)
    next
      case ok: False
      have n: "m \<le> length (drop 4 (memcpy b 0 (take 4 x)))" using ok l(4) lb unfolding length_drop by linarith
      obtain c2 s2 where r2: "net_read_exact os s1 (Some c1) (Some (drop 4 (memcpy b 0 (take 4 x)))) m UINT64_MAX (Some 0) =
          Some (if m \<le> length (drop 4 x) then NET_OK else NET_EOF, Some c2, Some (memcpy (drop 4 (memcpy b 0 (take 4 x))) 0 (take m (drop 4 x))), Some (min m (length (drop 4 x))), s2)"
        "inp s2 = drop m (drop 4 x)"
        using net_read_exact_healthy [OF h n, of c1 s1 0] fd r1(2,3) by metis
      have t: "take 4 (memcpy b 0 (take 4 x)) = take 4 x" using False by (simp add: memcpy_def)
      have rest: "memcpy (drop 4 (memcpy b 0 (take 4 x))) 0 (take m (drop 4 x)) = take m (drop 4 x) @ drop (length (take m (drop 4 x))) (drop 4 b)"
        using False l by (simp add: memcpy_def)
      show ?thesis
        using o l r1 r2 m False ok t lb unfolding rest
        by (auto simp: frame_recv_def frame_outcome_def x_def [symmetric] m_def [symmetric] Let_def bslice_def add.commute split: if_splits)
    qed
  qed
qed


text \<open>A system for the witnesses: every call that could be interrupted is, once, and data goes one byte at a time.\<close>

type_synonym trickle = "bytes \<times> bytes \<times> nat"

definition trickle_os :: "trickle os_t" where
  "trickle_os = \<lparr>os_now_ms = \<lambda>s. (0, s),
     os_poll = \<lambda>(i, w, k) t. if k > 0 then (-1, EINTR, (i, w, k - 1)) else (1, EOTHER, (i, w, k)),
     os_recv = \<lambda>(i, w, k) n. if i = [] then (0, [], EOTHER, (i, w, k)) else (1, [hd i], EOTHER, (tl i, w, k)),
     os_send = \<lambda>(i, w, k) b. (1, EOTHER, (i, w @ take 1 b, k))\<rparr>"

lemma trickle_healthy: "healthy trickle_os fst (\<lambda>s. fst (snd s)) (\<lambda>s. snd (snd s))"
  by (auto simp: healthy_def trickle_os_def Suc_le_eq split: if_splits)

definition stats_zero :: net_stats_t where
  "stats_zero = \<lparr>ns_recv_calls = 0, ns_send_calls = 0, ns_eintr_retries = 0, ns_bytes_rx = 0, ns_bytes_tx = 0\<rparr>"


lemma frame_put_header_memcpy: "4 \<le> length b \<Longrightarrow> frame_put_header b len = memcpy b 0 (store_be 4 len)"
proof -
  assume "4 \<le> length b"
  then obtain t d where b: "b = t @ d" "length t = 4" by (metis append_take_drop_id length_take min.absorb2)
  then show ?thesis using frame_put_header_eq [OF b(2), of len] by (simp add: frame_put_header_def list_update_append memcpy_def)
qed

lemma frame_get_header_store: "frame_get_header (store_be 4 len @ r) = len"
  using frame_get_header_eq [of "store_be 4 len"] by (simp add: frame_get_header_def nth_append)



end
