(* ===== verification/Evloop.thy ===== *)
theory Evloop
  imports Conn_Io_Stream Frame
begin

text \<open>
  The event loop of the daemon: \<open>apps/authd/evloop.c\<close> with the types of \<open>evloop.h\<close>, and the accepting
  half of \<open>apps/authd/listener.c\<close>.

  The operating system is the argument \<open>os\<close>, the system calls as functions of the system's state \<open>'s\<close>; on
  Linux, so the credentials of a peer come from \<open>SO_PEERCRED\<close>. A slot is named by its pool and its index,
  the way the code uses a pointer into one of the two arrays. The callbacks are a record of their own,
  \<open>ev_calls\<close>, next to the other fields of \<open>evloop_t\<close>, with the value \<open>'u\<close> behind the user pointer as
  their state: the callback for a frame, for an address and for a close see their slot, and the callback
  for a line, which may close connections, sees the loop. The log is not modelled. Loops that end only if
  the system or a callback lets them are partial functions, in which \<open>None\<close> is a call that never returns.
\<close>

abbreviation (input) AUTHD_MAX_LISTENERS :: nat where "AUTHD_MAX_LISTENERS \<equiv> 4"
abbreviation (input) AUTHD_SLOTS_MAX :: nat where "AUTHD_SLOTS_MAX \<equiv> 4096"
abbreviation (input) AUTHD_LOCAL_SLOTS_MAX :: nat where "AUTHD_LOCAL_SLOTS_MAX \<equiv> 64"
abbreviation (input) LISTENER_MAX_ALLOW :: nat where "LISTENER_MAX_ALLOW \<equiv> 8"
abbreviation (input) READ_CHUNK :: nat where "READ_CHUNK \<equiv> 4096"
abbreviation (input) POLLIN :: "16 word" where "POLLIN \<equiv> 1"
abbreviation (input) POLLOUT :: "16 word" where "POLLOUT \<equiv> 4"
abbreviation (input) POLLERR :: "16 word" where "POLLERR \<equiv> 8"
abbreviation (input) POLLHUP :: "16 word" where "POLLHUP \<equiv> 16"
abbreviation (input) POLLNVAL :: "16 word" where "POLLNVAL \<equiv> 32"
abbreviation (input) O_NONBLOCK :: u32 where "O_NONBLOCK \<equiv> 2048"
abbreviation (input) FD_CLOEXEC :: u32 where "FD_CLOEXEC \<equiv> 1"

datatype slot_state_t = SLOT_FREE | SLOT_ACTIVE | SLOT_DRAINING

datatype slot_kind_t = SLOT_KIND_PROTO | SLOT_KIND_LOCAL

datatype ev_action_t = EV_ACTION_CONTINUE | EV_ACTION_CLOSE

datatype listener_status_t = LISTENER_OK | LISTENER_ERR_ARG | LISTENER_ERR_SOCKET | LISTENER_ERR_BIND | LISTENER_ERR_LISTEN
  | LISTENER_ERR_PATH | LISTENER_AGAIN | LISTENER_ERR_PEER

record listener_peer_t =
  lp_uid :: u32
  lp_pid :: int

record authd_slot_t =
  sl_fd :: int
  sl_kind :: slot_kind_t
  sl_peer :: listener_peer_t
  sl_is_admin :: bool
  sl_addr_settled :: bool
  sl_addr_admitted :: bool
  sl_state :: slot_state_t
  sl_io :: conn_io_t
  sl_deadline_ms :: u64
  sl_opened_ms :: u64
  sl_index :: nat
  sl_user :: "nat ptr"

record evloop_t =
  ev_slots :: "authd_slot_t list"
  ev_n_slots :: nat
  ev_in_use :: nat
  ev_local_slots :: "authd_slot_t list ptr"
  ev_n_local_slots :: nat
  ev_local_in_use :: nat
  ev_listen_fd :: "int list"
  ev_listen_kind :: "slot_kind_t list"
  ev_listen_is_admin :: "bool list"
  ev_listen_ws :: "bool list"
  ev_listen_proxy :: "bool list"
  ev_listen_allow :: "u32 list list"
  ev_listen_n_allow :: "nat list"
  ev_n_listeners :: nat
  ev_handshake_timeout_ms :: u32
  ev_idle_timeout_ms :: u32
  ev_stopping :: bool
  ev_accepted :: u64
  ev_refused_no_slot :: u64
  ev_closed_deadline :: u64
  ev_closed_protocol :: u64
  ev_closed_peer :: u64
  ev_local_accepted :: u64
  ev_local_refused_no_slot :: u64
  ev_closed_refused_addr :: u64

record ('u, 's) ev_calls =
  ec_on_frame :: "('u \<Rightarrow> authd_slot_t \<Rightarrow> bytes \<Rightarrow> ev_action_t \<times> 'u \<times> authd_slot_t) ptr"
  ec_on_line :: "('u \<Rightarrow> evloop_t \<Rightarrow> 's \<Rightarrow> nat \<Rightarrow> bytes \<Rightarrow> ev_action_t \<times> 'u \<times> evloop_t \<times> 's) ptr"
  ec_on_addr :: "('u \<Rightarrow> authd_slot_t \<Rightarrow> ev_action_t \<times> 'u \<times> authd_slot_t) ptr"
  ec_on_close :: "('u \<Rightarrow> authd_slot_t \<Rightarrow> 'u \<times> authd_slot_t) ptr"

datatype fcntl_cmd = F_GETFL | F_SETFL | F_GETFD | F_SETFD

record 's ev_os =
  eo_poll :: "'s \<Rightarrow> (int \<times> 16 word) list \<Rightarrow> int \<Rightarrow> int \<times> 16 word list \<times> errno_t \<times> 's"
  eo_read :: "'s \<Rightarrow> int \<Rightarrow> nat \<Rightarrow> int \<times> bytes \<times> errno_t \<times> 's"
  eo_write :: "'s \<Rightarrow> int \<Rightarrow> bytes \<Rightarrow> int \<times> errno_t \<times> 's"
  eo_close :: "'s \<Rightarrow> int \<Rightarrow> 's"
  eo_accept :: "'s \<Rightarrow> int \<Rightarrow> int \<times> errno_t \<times> 's"
  eo_fcntl :: "'s \<Rightarrow> int \<Rightarrow> fcntl_cmd \<Rightarrow> u32 \<Rightarrow> int \<times> 's"
  eo_peercred :: "'s \<Rightarrow> int \<Rightarrow> int \<times> u32 \<times> int \<times> 's"

section \<open>Accepting\<close>

definition listener_status_name :: "listener_status_t \<Rightarrow> string" where
  "listener_status_name st =
     (case st of
        LISTENER_OK \<Rightarrow> ''ok''
      | LISTENER_ERR_ARG \<Rightarrow> ''bad-argument''
      | LISTENER_ERR_SOCKET \<Rightarrow> ''socket''
      | LISTENER_ERR_BIND \<Rightarrow> ''bind''
      | LISTENER_ERR_LISTEN \<Rightarrow> ''listen''
      | LISTENER_ERR_PATH \<Rightarrow> ''path''
      | LISTENER_AGAIN \<Rightarrow> ''again''
      | LISTENER_ERR_PEER \<Rightarrow> ''peer-credential'')"

definition set_nonblock_cloexec :: "'s ev_os \<Rightarrow> 's \<Rightarrow> int \<Rightarrow> int \<times> 's" where
  "set_nonblock_cloexec os s fd =
     (let (fl, s) = eo_fcntl os s fd F_GETFL 0
      in if fl < 0 then (-1, s)
      else let (r, s) = eo_fcntl os s fd F_SETFL (of_int fl OR O_NONBLOCK)
      in if r < 0 then (-1, s)
      else let (fd_fl, s) = eo_fcntl os s fd F_GETFD 0
      in if fd_fl < 0 then (-1, s)
      else let (r, s) = eo_fcntl os s fd F_SETFD (of_int fd_fl OR FD_CLOEXEC)
      in if r < 0 then (-1, s)
      else (0, s))"

definition peer_creds :: "'s ev_os \<Rightarrow> 's \<Rightarrow> int \<Rightarrow> int \<times> listener_peer_t \<times> 's" where
  "peer_creds os s fd =
     (let p = \<lparr>lp_uid = -1, lp_pid = 0\<rparr>;
          (r, uid, pid, s) = eo_peercred os s fd
      in if r \<noteq> 0 then (-1, p, s)
         else (0, p\<lparr>lp_uid := uid, lp_pid := pid\<rparr>, s))"

partial_function (option) accept_retry :: "'s ev_os \<Rightarrow> 's \<Rightarrow> int \<Rightarrow> (int \<times> errno_t \<times> 's) option" where
  "accept_retry os s fd =
     (let (c, e, s) = eo_accept os s fd
      in if c < 0 \<and> e = EINTR then accept_retry os s fd else Some (c, e, s))"

definition listener_accept_ex ::
  "'s ev_os \<Rightarrow> 's \<Rightarrow> int \<Rightarrow> u32 list ptr \<Rightarrow> nat \<Rightarrow> int ptr \<Rightarrow> listener_peer_t ptr \<Rightarrow>
   (listener_status_t \<times> int ptr \<times> listener_peer_t ptr \<times> 's) option" where
  "listener_accept_ex os s listen_fd allow n_allow out_fd peer_out =
     (if out_fd = NULL \<or> listen_fd < 0 \<or> (n_allow > 0 \<and> allow = NULL) \<or> n_allow > LISTENER_MAX_ALLOW
      then Some (LISTENER_ERR_ARG, out_fd, peer_out, s)
      else
        let out_fd = Some (-1);
            peer_out = map_option (\<lambda>_. \<lparr>lp_uid = -1, lp_pid = 0\<rparr>) peer_out
        in (case accept_retry os s listen_fd of
          None \<Rightarrow> None
        | Some (c, e, s) \<Rightarrow>
          if c < 0
          then if e = EAGAIN then Some (LISTENER_AGAIN, out_fd, peer_out, s) else Some (LISTENER_ERR_SOCKET, out_fd, peer_out, s)
          else
            let (r, s) = set_nonblock_cloexec os s c
            in if r \<noteq> 0 then Some (LISTENER_ERR_SOCKET, out_fd, peer_out, eo_close os s c)
            else if n_allow > 0
            then
              let (r, p, s) = peer_creds os s c
              in if r \<noteq> 0 then Some (LISTENER_ERR_PEER, out_fd, peer_out, eo_close os s c)
              else if lp_uid p \<notin> set (take n_allow (the allow)) then Some (LISTENER_ERR_PEER, out_fd, peer_out, eo_close os s c)
              else Some (LISTENER_OK, Some c, map_option (\<lambda>_. p) peer_out, s)
            else (case peer_out of
                NULL \<Rightarrow> Some (LISTENER_OK, Some c, peer_out, s)
              | Some _ \<Rightarrow> let (r, p, s) = peer_creds os s c in Some (LISTENER_OK, Some c, Some p, s))))"

definition listener_close :: "'s ev_os \<Rightarrow> ('s \<Rightarrow> string \<Rightarrow> 's) \<Rightarrow> 's \<Rightarrow> int ptr \<Rightarrow> string ptr \<Rightarrow> int ptr \<times> 's" where
  "listener_close os unlink s fd unix_path =
     (case fd of
        NULL \<Rightarrow> (fd, s)
      | Some f \<Rightarrow>
        if f < 0 then (fd, s)
        else
          let s = eo_close os s f
          in (Some (-1), case unix_path of NULL \<Rightarrow> s | Some p \<Rightarrow> if p \<noteq> '''' then unlink s p else s))"

section \<open>Set-up\<close>

definition slot_zero :: authd_slot_t where
  "slot_zero = \<lparr>sl_fd = 0, sl_kind = SLOT_KIND_PROTO, sl_peer = \<lparr>lp_uid = 0, lp_pid = 0\<rparr>, sl_is_admin = False,
     sl_addr_settled = False, sl_addr_admitted = False, sl_state = SLOT_FREE, sl_io = conn_io_zero,
     sl_deadline_ms = 0, sl_opened_ms = 0, sl_index = 0, sl_user = NULL\<rparr>"

definition slot_init :: "nat \<Rightarrow> authd_slot_t" where
  "slot_init i =
     (let s = slot_zero\<lparr>sl_fd := -1, sl_state := SLOT_FREE, sl_index := i\<rparr>
      in s\<lparr>sl_io := the (conn_io_reset (Some (sl_io s)))\<rparr>)"

definition local_slot_init :: "nat \<Rightarrow> authd_slot_t" where
  "local_slot_init i =
     (let s = slot_zero\<lparr>sl_fd := -1, sl_state := SLOT_FREE, sl_kind := SLOT_KIND_LOCAL, sl_index := i\<rparr>
      in s\<lparr>sl_io := the (conn_io_set_mode (conn_io_reset (Some (sl_io s))) CONN_IO_MODE_LINE)\<rparr>)"

definition evloop_init ::
  "evloop_t ptr \<Rightarrow> ('u, 's) ev_calls \<Rightarrow> authd_slot_t list ptr \<Rightarrow> nat \<Rightarrow> u32 \<Rightarrow> u32 \<Rightarrow>
   ('u \<Rightarrow> authd_slot_t \<Rightarrow> bytes \<Rightarrow> ev_action_t \<times> 'u \<times> authd_slot_t) ptr \<Rightarrow> ('u \<Rightarrow> authd_slot_t \<Rightarrow> 'u \<times> authd_slot_t) ptr \<Rightarrow>
   int \<times> evloop_t ptr \<times> ('u, 's) ev_calls" where
  "evloop_init evp ec slots n_slots handshake_timeout_ms idle_timeout_ms on_frame on_close =
     (if evp = NULL \<or> slots = NULL \<or> n_slots = 0 \<or> n_slots > AUTHD_SLOTS_MAX \<or> on_frame = NULL then (-1, evp, ec)
      else
        (0, Some \<lparr>ev_slots = map slot_init [0..<n_slots], ev_n_slots = n_slots, ev_in_use = 0,
            ev_local_slots = NULL, ev_n_local_slots = 0, ev_local_in_use = 0,
            ev_listen_fd = replicate AUTHD_MAX_LISTENERS (-1), ev_listen_kind = replicate AUTHD_MAX_LISTENERS SLOT_KIND_PROTO,
            ev_listen_is_admin = replicate AUTHD_MAX_LISTENERS False, ev_listen_ws = replicate AUTHD_MAX_LISTENERS False,
            ev_listen_proxy = replicate AUTHD_MAX_LISTENERS False,
            ev_listen_allow = replicate AUTHD_MAX_LISTENERS (replicate LISTENER_MAX_ALLOW 0),
            ev_listen_n_allow = replicate AUTHD_MAX_LISTENERS 0, ev_n_listeners = 0,
            ev_handshake_timeout_ms = handshake_timeout_ms, ev_idle_timeout_ms = idle_timeout_ms, ev_stopping = False,
            ev_accepted = 0, ev_refused_no_slot = 0, ev_closed_deadline = 0, ev_closed_protocol = 0, ev_closed_peer = 0,
            ev_local_accepted = 0, ev_local_refused_no_slot = 0, ev_closed_refused_addr = 0\<rparr>,
         \<lparr>ec_on_frame = on_frame, ec_on_line = NULL, ec_on_addr = NULL, ec_on_close = on_close\<rparr>))"

definition evloop_set_on_addr ::
  "evloop_t ptr \<Rightarrow> ('u, 's) ev_calls \<Rightarrow> ('u \<Rightarrow> authd_slot_t \<Rightarrow> ev_action_t \<times> 'u \<times> authd_slot_t) ptr \<Rightarrow> int \<times> ('u, 's) ev_calls" where
  "evloop_set_on_addr evp ec on_addr =
     (if evp = NULL \<or> on_addr = NULL then (-1, ec) else (0, ec\<lparr>ec_on_addr := on_addr\<rparr>))"

definition evloop_set_local ::
  "evloop_t ptr \<Rightarrow> ('u, 's) ev_calls \<Rightarrow> authd_slot_t list ptr \<Rightarrow> nat \<Rightarrow>
   ('u \<Rightarrow> evloop_t \<Rightarrow> 's \<Rightarrow> nat \<Rightarrow> bytes \<Rightarrow> ev_action_t \<times> 'u \<times> evloop_t \<times> 's) ptr \<Rightarrow> int \<times> evloop_t ptr \<times> ('u, 's) ev_calls" where
  "evloop_set_local evp ec local_slots n_local_slots on_line =
     (if evp = NULL \<or> local_slots = NULL \<or> n_local_slots = 0 \<or> n_local_slots > AUTHD_LOCAL_SLOTS_MAX \<or> on_line = NULL
      then (-1, evp, ec)
      else
        (0, Some ((the evp)\<lparr>ev_local_slots := Some (map local_slot_init [0..<n_local_slots]), ev_n_local_slots := n_local_slots\<rparr>),
         ec\<lparr>ec_on_line := on_line\<rparr>))"

definition evloop_local_active :: "evloop_t ptr \<Rightarrow> nat" where
  "evloop_local_active evp = (case evp of NULL \<Rightarrow> 0 | Some ev \<Rightarrow> ev_local_in_use ev)"

definition evloop_add_local_listener ::
  "evloop_t ptr \<Rightarrow> ('u, 's) ev_calls \<Rightarrow> int \<Rightarrow> u32 list ptr \<Rightarrow> nat \<Rightarrow> bool \<Rightarrow> int \<times> evloop_t ptr" where
  "evloop_add_local_listener evp ec fd allow n_allow is_admin =
     (case evp of
        NULL \<Rightarrow> (-1, evp)
      | Some ev \<Rightarrow>
        if fd < 0 \<or> ev_n_listeners ev \<ge> AUTHD_MAX_LISTENERS \<or> ev_local_slots ev = NULL \<or> ec_on_line ec = NULL \<or>
           n_allow > LISTENER_MAX_ALLOW \<or> (n_allow > 0 \<and> allow = NULL)
        then (-1, evp)
        else
          let i = ev_n_listeners ev
          in (0, Some (ev\<lparr>ev_listen_fd := (ev_listen_fd ev)[i := fd],
                ev_listen_kind := (ev_listen_kind ev)[i := SLOT_KIND_LOCAL],
                ev_listen_is_admin := (ev_listen_is_admin ev)[i := is_admin],
                ev_listen_ws := (ev_listen_ws ev)[i := False],
                ev_listen_n_allow := (ev_listen_n_allow ev)[i := n_allow],
                ev_listen_allow := (ev_listen_allow ev)[i := (if n_allow > 0 then take n_allow (the allow) else []) @ drop n_allow (ev_listen_allow ev ! i)],
                ev_n_listeners := i + 1\<rparr>)))"

definition add_proto_listener ::
  "evloop_t ptr \<Rightarrow> int \<Rightarrow> u32 list ptr \<Rightarrow> nat \<Rightarrow> bool \<Rightarrow> bool \<Rightarrow> int \<times> evloop_t ptr" where
  "add_proto_listener evp fd allow n_allow is_ws proxy_v2 =
     (case evp of
        NULL \<Rightarrow> (-1, evp)
      | Some ev \<Rightarrow>
        if fd < 0 \<or> ev_n_listeners ev \<ge> AUTHD_MAX_LISTENERS \<or> n_allow > LISTENER_MAX_ALLOW \<or> (n_allow > 0 \<and> allow = NULL)
        then (-1, evp)
        else
          let i = ev_n_listeners ev
          in (0, Some (ev\<lparr>ev_listen_fd := (ev_listen_fd ev)[i := fd],
                ev_listen_kind := (ev_listen_kind ev)[i := SLOT_KIND_PROTO],
                ev_listen_is_admin := (ev_listen_is_admin ev)[i := False],
                ev_listen_ws := (ev_listen_ws ev)[i := is_ws],
                ev_listen_proxy := (ev_listen_proxy ev)[i := is_ws \<and> proxy_v2],
                ev_listen_n_allow := (ev_listen_n_allow ev)[i := n_allow],
                ev_listen_allow := (ev_listen_allow ev)[i := (if n_allow > 0 then take n_allow (the allow) else []) @ drop n_allow (ev_listen_allow ev ! i)],
                ev_n_listeners := i + 1\<rparr>)))"

definition evloop_add_listener :: "evloop_t ptr \<Rightarrow> int \<Rightarrow> u32 \<Rightarrow> int \<times> evloop_t ptr" where
  "evloop_add_listener evp fd require_uid =
     (if require_uid = -1 then add_proto_listener evp fd NULL 0 False False
      else add_proto_listener evp fd (Some [require_uid]) 1 False False)"

definition evloop_add_ws_listener :: "evloop_t ptr \<Rightarrow> int \<Rightarrow> u32 list ptr \<Rightarrow> nat \<Rightarrow> bool \<Rightarrow> int \<times> evloop_t ptr" where
  "evloop_add_ws_listener evp fd allow n_allow proxy_v2 = add_proto_listener evp fd allow n_allow True proxy_v2"

definition evloop_active :: "evloop_t ptr \<Rightarrow> nat" where
  "evloop_active evp = (case evp of NULL \<Rightarrow> 0 | Some ev \<Rightarrow> ev_in_use ev)"

section \<open>Slots\<close>

text \<open>A slot by its pool and its index, for the pointer that the code has.\<close>

type_synonym slot_ref = "slot_kind_t \<times> nat"

definition slot_at :: "evloop_t \<Rightarrow> slot_ref \<Rightarrow> authd_slot_t" where
  "slot_at ev r = (case r of (SLOT_KIND_PROTO, i) \<Rightarrow> ev_slots ev ! i | (SLOT_KIND_LOCAL, i) \<Rightarrow> the (ev_local_slots ev) ! i)"

definition put_slot :: "evloop_t \<Rightarrow> slot_ref \<Rightarrow> authd_slot_t \<Rightarrow> evloop_t" where
  "put_slot ev r s =
     (case r of
        (SLOT_KIND_PROTO, i) \<Rightarrow> ev\<lparr>ev_slots := (ev_slots ev)[i := s]\<rparr>
      | (SLOT_KIND_LOCAL, i) \<Rightarrow> ev\<lparr>ev_local_slots := map_option (\<lambda>l. l[i := s]) (ev_local_slots ev)\<rparr>)"

definition evloop_close_slot ::
  "'s ev_os \<Rightarrow> ('u, 's) ev_calls \<Rightarrow> 'u \<times> evloop_t \<times> 's \<Rightarrow> slot_ref \<Rightarrow> 'u \<times> evloop_t \<times> 's" where
  "evloop_close_slot os ec w r =
     (let (u, ev, s) = w; sl = slot_at ev r
      in if sl_state sl = SLOT_FREE then (u, ev, s)
      else
        let (u, sl) = (case ec_on_close ec of NULL \<Rightarrow> (u, sl) | Some on_close \<Rightarrow> on_close u sl);
            (sl, s) = (if sl_fd sl \<ge> 0 then (sl\<lparr>sl_fd := -1\<rparr>, eo_close os s (sl_fd sl)) else (sl, s));
            is_local = (sl_kind sl = SLOT_KIND_LOCAL);
            sl = sl\<lparr>sl_io := the (conn_io_reset (Some (sl_io sl)))\<rparr>;
            sl = (if is_local then sl\<lparr>sl_io := the (conn_io_set_mode (Some (sl_io sl)) CONN_IO_MODE_LINE)\<rparr> else sl);
            sl = sl\<lparr>sl_state := SLOT_FREE, sl_deadline_ms := 0, sl_opened_ms := 0, sl_user := NULL, sl_is_admin := False,
                   sl_addr_settled := False, sl_addr_admitted := False, sl_peer := \<lparr>lp_uid = -1, lp_pid = 0\<rparr>\<rparr>;
            ev = put_slot ev r sl
        in if is_local
           then (u, if ev_local_in_use ev > 0 then ev\<lparr>ev_local_in_use := ev_local_in_use ev - 1\<rparr> else ev, s)
           else (u, if ev_in_use ev > 0 then ev\<lparr>ev_in_use := ev_in_use ev - 1\<rparr> else ev, s))"

definition evloop_close_all ::
  "'s ev_os \<Rightarrow> ('u, 's) ev_calls \<Rightarrow> 'u \<times> evloop_t \<times> 's \<Rightarrow> 'u \<times> evloop_t \<times> 's" where
  "evloop_close_all os ec w =
     (let close1 = (\<lambda>k i w. if sl_state (slot_at (fst (snd w)) (k, i)) \<noteq> SLOT_FREE then evloop_close_slot os ec w (k, i) else w);
          w = fold (close1 SLOT_KIND_PROTO) [0..<ev_n_slots (fst (snd w))] w
      in fold (close1 SLOT_KIND_LOCAL) [0..<ev_n_local_slots (fst (snd w))] w)"

definition drain :: "authd_slot_t \<Rightarrow> authd_slot_t" where
  "drain sl = (if sl_state sl = SLOT_ACTIVE then sl\<lparr>sl_state := SLOT_DRAINING\<rparr> else sl)"

definition evloop_stop :: "evloop_t ptr \<Rightarrow> evloop_t ptr" where
  "evloop_stop evp =
     map_option (\<lambda>ev. ev\<lparr>ev_stopping := True, ev_slots := map drain (ev_slots ev),
       ev_local_slots := map_option (map drain) (ev_local_slots ev)\<rparr>) evp"

fun find_free :: "nat \<Rightarrow> authd_slot_t list \<Rightarrow> nat option" where
  "find_free i [] = None"
| "find_free i (sl # r) = (if sl_state sl = SLOT_FREE then Some i else find_free (i + 1) r)"

definition take_slot :: "evloop_t \<Rightarrow> slot_kind_t \<Rightarrow> slot_ref ptr" where
  "take_slot ev kind =
     map_option (Pair kind)
       (find_free 0 (if kind = SLOT_KIND_LOCAL then case ev_local_slots ev of NULL \<Rightarrow> [] | Some l \<Rightarrow> l else ev_slots ev))"

text \<open>The slot of a connection just accepted.\<close>

definition open_slot :: "evloop_t \<Rightarrow> nat \<Rightarrow> u64 \<Rightarrow> int \<Rightarrow> listener_peer_t \<Rightarrow> slot_ref \<Rightarrow> evloop_t" where
  "open_slot ev li now_ms cfd peer r =
     (let kind = ev_listen_kind ev ! li; sl = slot_at ev r;
          io = conn_io_set_proxy
            (conn_io_set_mode (conn_io_reset (Some (sl_io sl)))
              (if kind = SLOT_KIND_LOCAL then CONN_IO_MODE_LINE else if ev_listen_ws ev ! li then CONN_IO_MODE_WS else CONN_IO_MODE_FRAME))
            (ev_listen_proxy ev ! li);
          sl = sl\<lparr>sl_io := the io, sl_fd := cfd, sl_addr_settled := False, sl_addr_admitted := False, sl_kind := kind,
                 sl_state := SLOT_ACTIVE, sl_opened_ms := now_ms, sl_user := NULL\<rparr>
      in if kind = SLOT_KIND_LOCAL
         then (put_slot ev r (sl\<lparr>sl_peer := peer, sl_is_admin := ev_listen_is_admin ev ! li,
                 sl_deadline_ms := if ev_idle_timeout_ms ev > 0 then now_ms + ucast (ev_idle_timeout_ms ev) else 0\<rparr>))
              \<lparr>ev_local_in_use := ev_local_in_use ev + 1, ev_local_accepted := ev_local_accepted ev + 1\<rparr>
         else (put_slot ev r (sl\<lparr>
                 sl_deadline_ms := if ev_handshake_timeout_ms ev > 0 then now_ms + ucast (ev_handshake_timeout_ms ev) else 0\<rparr>))
              \<lparr>ev_in_use := ev_in_use ev + 1, ev_accepted := ev_accepted ev + 1\<rparr>)"

partial_function (option) accept_ready :: "'s ev_os \<Rightarrow> evloop_t \<Rightarrow> 's \<Rightarrow> nat \<Rightarrow> u64 \<Rightarrow> (evloop_t \<times> 's) option" where
  "accept_ready os ev s li now_ms =
     (if ev_stopping ev then Some (ev, s)
      else (case listener_accept_ex os s (ev_listen_fd ev ! li)
          (if ev_listen_n_allow ev ! li > 0 then Some (ev_listen_allow ev ! li) else NULL) (ev_listen_n_allow ev ! li)
          (Some (-1)) (Some \<lparr>lp_uid = 0, lp_pid = 0\<rparr>) of
        None \<Rightarrow> None
      | Some (st, cfd, peer, s) \<Rightarrow>
        if st = LISTENER_AGAIN then Some (ev, s)
        else if st = LISTENER_ERR_PEER then accept_ready os (ev\<lparr>ev_closed_peer := ev_closed_peer ev + 1\<rparr>) s li now_ms
        else if st \<noteq> LISTENER_OK then Some (ev, s)
        else (case take_slot ev (ev_listen_kind ev ! li) of
          NULL \<Rightarrow>
            accept_ready os
              (if ev_listen_kind ev ! li = SLOT_KIND_LOCAL then ev\<lparr>ev_local_refused_no_slot := ev_local_refused_no_slot ev + 1\<rparr>
               else ev\<lparr>ev_refused_no_slot := ev_refused_no_slot ev + 1\<rparr>)
              (eo_close os s (the cfd)) li now_ms
        | Some r \<Rightarrow> accept_ready os (open_slot ev li now_ms (the cfd) (the peer) r) s li now_ms)))"

section \<open>One iteration\<close>

text \<open>The payload or line that is complete in the input buffer, if any, and the connection afterwards.\<close>

definition next_input :: "authd_slot_t \<Rightarrow> bytes option \<times> conn_io_t" where
  "next_input sl =
     (let (have, io, p, n) =
        (if sl_kind sl = SLOT_KIND_LOCAL then conn_io_next_line (Some (sl_io sl)) (Some 0) (Some 0)
         else conn_io_next_frame (Some (sl_io sl)) (Some 0) (Some 0))
      in (if have \<noteq> 0 then Some (bslice (ci_in (the io)) (the p) (the n)) else None, the io))"

partial_function (option) serve_buffered ::
  "('u, 's) ev_calls \<Rightarrow> 'u \<Rightarrow> evloop_t \<Rightarrow> 's \<Rightarrow> slot_ref \<Rightarrow> u64 \<Rightarrow> ('u \<times> evloop_t \<times> 's) option" where
  "serve_buffered ec u ev s r now_ms =
     (let sl = slot_at ev r; (have, io) = next_input sl; sl = sl\<lparr>sl_io := io\<rparr>; ev = put_slot ev r sl
      in (case have of
        None \<Rightarrow> Some (u, ev, s)
      | Some payload \<Rightarrow>
        let (act, u, ev, s) =
              (if sl_kind sl = SLOT_KIND_LOCAL then the (ec_on_line ec) u ev s (snd r) payload
               else let (act, u, sl) = the (ec_on_frame ec) u sl payload in (act, u, put_slot ev r sl, s));
            sl = slot_at ev r;
            sl = sl\<lparr>sl_io := the (if sl_kind sl = SLOT_KIND_LOCAL then conn_io_consume_line (Some (sl_io sl))
                   else conn_io_consume_frame (Some (sl_io sl)))\<rparr>;
            sl = sl\<lparr>sl_deadline_ms := if ev_idle_timeout_ms ev > 0 then now_ms + ucast (ev_idle_timeout_ms ev) else 0\<rparr>
        in if act = EV_ACTION_CLOSE then Some (u, put_slot ev r (sl\<lparr>sl_state := SLOT_DRAINING\<rparr>), s)
           else if conn_io_pending (Some (sl_io sl)) > 0 then Some (u, put_slot ev r sl, s)
           else serve_buffered ec u (put_slot ev r sl) s r now_ms))"

partial_function (option) read_retry :: "'s ev_os \<Rightarrow> 's \<Rightarrow> int \<Rightarrow> nat \<Rightarrow> (int \<times> bytes \<times> errno_t \<times> 's) option" where
  "read_retry os s fd n =
     (let (k, b, e, s) = eo_read os s fd n
      in if k < 0 \<and> e = EINTR then read_retry os s fd n else Some (k, b, e, s))"

partial_function (option) write_retry :: "'s ev_os \<Rightarrow> 's \<Rightarrow> int \<Rightarrow> bytes \<Rightarrow> (int \<times> errno_t \<times> 's) option" where
  "write_retry os s fd b =
     (let (k, e, s) = eo_write os s fd b
      in if k < 0 \<and> e = EINTR then write_retry os s fd b else Some (k, e, s))"

partial_function (option) poll_retry :: "'s ev_os \<Rightarrow> 's \<Rightarrow> (int \<times> 16 word) list \<Rightarrow> int \<Rightarrow> (int \<times> 16 word list \<times> errno_t \<times> 's) option" where
  "poll_retry os s fds timeout =
     (let (rc, re, e, s) = eo_poll os s fds timeout
      in if rc < 0 \<and> e = EINTR then poll_retry os s fds timeout else Some (rc, re, e, s))"

text \<open>The two functions of libsodium that the upgrade needs are \<open>f\<close> and \<open>g\<close>.\<close>

definition slot_readable ::
  "(nat \<Rightarrow> bytes \<Rightarrow> int \<times> bytes) \<Rightarrow> (bytes \<Rightarrow> bytes) \<Rightarrow> 's ev_os \<Rightarrow> ('u, 's) ev_calls \<Rightarrow> 'u \<Rightarrow> evloop_t \<Rightarrow> 's \<Rightarrow> slot_ref \<Rightarrow> u64 \<Rightarrow>
   (int \<times> 'u \<times> evloop_t \<times> 's) option" where
  "slot_readable f g os ec u ev s r now_ms =
     (let sl = slot_at ev r; room = conn_io_in_room (Some (sl_io sl))
      in if room = 0 then Some (-1, u, ev\<lparr>ev_closed_protocol := ev_closed_protocol ev + 1\<rparr>, s)
      else (case read_retry os s (sl_fd sl) (if room < READ_CHUNK then room else READ_CHUNK) of
        None \<Rightarrow> None
      | Some (n, buf, e, s) \<Rightarrow>
        if n = 0 then Some (-1, u, ev, s)
        else if n < 0 then if e = EAGAIN then Some (0, u, ev, s) else Some (-1, u, ev, s)
        else
          let (cs, io) = conn_io_push f g (Some (sl_io sl)) (Some buf) (nat n); sl = sl\<lparr>sl_io := the io\<rparr>; ev = put_slot ev r sl
          in if cs \<noteq> CONN_IO_OK then Some (-1, u, ev\<lparr>ev_closed_protocol := ev_closed_protocol ev + 1\<rparr>, s)
          else
            let settle = \<not> sl_addr_settled sl \<and> conn_io_proxy_settled (Some (sl_io sl));
                sl = (if settle then sl\<lparr>sl_addr_settled := True\<rparr> else sl);
                (act, u, sl) = (if settle then case ec_on_addr ec of NULL \<Rightarrow> (EV_ACTION_CONTINUE, u, sl) | Some on_addr \<Rightarrow> on_addr u sl
                  else (EV_ACTION_CONTINUE, u, sl))
            in if act = EV_ACTION_CLOSE
               then Some (0, u, (put_slot ev r (sl\<lparr>sl_state := SLOT_DRAINING\<rparr>))\<lparr>ev_closed_refused_addr := ev_closed_refused_addr ev + 1\<rparr>, s)
               else map_option (Pair 0) (serve_buffered ec u (put_slot ev r sl) s r now_ms)))"

definition slot_writable :: "'s ev_os \<Rightarrow> evloop_t \<Rightarrow> 's \<Rightarrow> slot_ref \<Rightarrow> (int \<times> evloop_t \<times> 's) option" where
  "slot_writable os ev s r =
     (let sl = slot_at ev r; pending = conn_io_pending (Some (sl_io sl))
      in if pending = 0 then Some (if sl_state sl = SLOT_DRAINING then -1 else 0, ev, s)
      else (case write_retry os s (sl_fd sl) (take pending (the (conn_io_pending_ptr (Some (sl_io sl))))) of
        None \<Rightarrow> None
      | Some (n, e, s) \<Rightarrow>
        if n < 0 then if e = EAGAIN then Some (0, ev, s) else Some (-1, ev, s)
        else
          let sl = sl\<lparr>sl_io := the (conn_io_sent (Some (sl_io sl)) (nat n))\<rparr>; ev = put_slot ev r sl
          in if conn_io_pending (Some (sl_io sl)) = 0 \<and> sl_state sl = SLOT_DRAINING then Some (-1, ev, s)
             else Some (0, ev, s)))"

text \<open>The entries of the poll set: what is left of a pool is closed if it has nothing to send any more.\<close>

definition slot_events :: "authd_slot_t \<Rightarrow> 16 word" where
  "slot_events sl =
     (if conn_io_pending (Some (sl_io sl)) > 0 then POLLOUT else if sl_state sl = SLOT_ACTIVE then POLLIN else 0)"

type_synonym polled = "slot_ref \<times> int \<times> 16 word"

fun collect ::
  "'s ev_os \<Rightarrow> ('u, 's) ev_calls \<Rightarrow> nat \<Rightarrow> slot_ref list \<Rightarrow> 'u \<times> evloop_t \<times> 's \<Rightarrow> polled list \<times> 'u \<times> evloop_t \<times> 's" where
  "collect os ec room [] w = ([], w)"
| "collect os ec room (r # rs) w =
     (let sl = slot_at (fst (snd w)) r
      in if room = 0 then ([], w)
      else if sl_state sl = SLOT_FREE \<or> sl_fd sl < 0 then collect os ec room rs w
      else if sl_state sl = SLOT_DRAINING \<and> conn_io_pending (Some (sl_io sl)) = 0
      then collect os ec room rs (evloop_close_slot os ec w r)
      else apfst (Cons (r, sl_fd sl, slot_events sl)) (collect os ec (room - 1) rs w))"

definition listener_set :: "evloop_t \<Rightarrow> (int \<times> 16 word) list" where
  "listener_set ev =
     (if ev_stopping ev then []
      else map (\<lambda>fd. (fd, POLLIN)) (filter (\<lambda>fd. fd \<ge> 0) (take (ev_n_listeners ev) (ev_listen_fd ev))))"

fun accept_all :: "'s ev_os \<Rightarrow> evloop_t \<Rightarrow> 's \<Rightarrow> nat \<Rightarrow> 16 word list \<Rightarrow> u64 \<Rightarrow> (nat \<times> evloop_t \<times> 's) option" where
  "accept_all os ev s i [] now_ms = Some (0, ev, s)"
| "accept_all os ev s i (re # r) now_ms =
     (if re AND POLLIN \<noteq> 0
      then (case accept_ready os ev s i now_ms of
          None \<Rightarrow> None
        | Some (ev, s) \<Rightarrow> map_option (apfst Suc) (accept_all os ev s (i + 1) r now_ms))
      else accept_all os ev s (i + 1) r now_ms)"

definition slot_write_step ::
  "'s ev_os \<Rightarrow> ('u, 's) ev_calls \<Rightarrow> 'u \<times> evloop_t \<times> 's \<Rightarrow> slot_ref \<Rightarrow> 16 word \<Rightarrow> u64 \<Rightarrow> (bool \<times> 'u \<times> evloop_t \<times> 's) option" where
  "slot_write_step os ec w r re now_ms =
     (let (u, ev, s) = w
      in if re AND POLLOUT \<noteq> 0 \<or> (re AND POLLHUP \<noteq> 0 \<and> conn_io_pending (Some (sl_io (slot_at ev r))) > 0)
      then (case slot_writable os ev s r of
          None \<Rightarrow> None
        | Some (rc, ev, s) \<Rightarrow>
          if rc < 0 then Some (True, evloop_close_slot os ec (u, ev, s) r)
          else if sl_state (slot_at ev r) = SLOT_ACTIVE \<and> conn_io_pending (Some (sl_io (slot_at ev r))) = 0
          then map_option (Pair False) (serve_buffered ec u ev s r now_ms)
          else Some (False, u, ev, s))
      else Some (False, u, ev, s))"

definition slot_read_step ::
  "(nat \<Rightarrow> bytes \<Rightarrow> int \<times> bytes) \<Rightarrow> (bytes \<Rightarrow> bytes) \<Rightarrow> 's ev_os \<Rightarrow> ('u, 's) ev_calls \<Rightarrow> 'u \<times> evloop_t \<times> 's \<Rightarrow> slot_ref \<Rightarrow> 16 word \<Rightarrow> u64 \<Rightarrow>
   (bool \<times> 'u \<times> evloop_t \<times> 's) option" where
  "slot_read_step f g os ec w r re now_ms =
     (let (u, ev, s) = w
      in if re AND POLLIN \<noteq> 0
      then (case slot_readable f g os ec u ev s r now_ms of
          None \<Rightarrow> None
        | Some (rc, w) \<Rightarrow> if rc < 0 then Some (True, evloop_close_slot os ec w r) else Some (False, w))
      else Some (False, u, ev, s))"

definition slot_ready ::
  "(nat \<Rightarrow> bytes \<Rightarrow> int \<times> bytes) \<Rightarrow> (bytes \<Rightarrow> bytes) \<Rightarrow> 's ev_os \<Rightarrow> ('u, 's) ev_calls \<Rightarrow> 'u \<times> evloop_t \<times> 's \<Rightarrow> slot_ref \<Rightarrow> 16 word \<Rightarrow> u64 \<Rightarrow>
   ('u \<times> evloop_t \<times> 's) option" where
  "slot_ready f g os ec w r re now_ms =
     (case slot_write_step os ec w r re now_ms of
        None \<Rightarrow> None
      | Some (closed, w) \<Rightarrow>
        (case (if \<not> closed then slot_read_step f g os ec w r re now_ms else Some (closed, w)) of
          None \<Rightarrow> None
        | Some (closed, w) \<Rightarrow>
          let (closed, w) = (if \<not> closed \<and> re AND (POLLERR OR POLLNVAL) \<noteq> 0 then (True, evloop_close_slot os ec w r) else (closed, w))
          in Some (if \<not> closed \<and> re AND POLLHUP \<noteq> 0 \<and> conn_io_pending (Some (sl_io (slot_at (fst (snd w)) r))) = 0
                   then evloop_close_slot os ec w r else w)))"

fun serve_all ::
  "(nat \<Rightarrow> bytes \<Rightarrow> int \<times> bytes) \<Rightarrow> (bytes \<Rightarrow> bytes) \<Rightarrow> 's ev_os \<Rightarrow> ('u, 's) ev_calls \<Rightarrow> 'u \<times> evloop_t \<times> 's \<Rightarrow>
   (slot_ref \<times> 16 word) list \<Rightarrow> u64 \<Rightarrow> (nat \<times> 'u \<times> evloop_t \<times> 's) option" where
  "serve_all f g os ec w [] now_ms = Some (0, w)"
| "serve_all f g os ec w ((r, re) # rs) now_ms =
     (if sl_state (slot_at (fst (snd w)) r) = SLOT_FREE then serve_all f g os ec w rs now_ms
      else if re = 0 then serve_all f g os ec w rs now_ms
      else (case slot_ready f g os ec w r re now_ms of
          None \<Rightarrow> None
        | Some w \<Rightarrow> map_option (apfst Suc) (serve_all f g os ec w rs now_ms)))"

fun close_overdue ::
  "'s ev_os \<Rightarrow> ('u, 's) ev_calls \<Rightarrow> slot_ref list \<Rightarrow> u64 \<Rightarrow> 'u \<times> evloop_t \<times> 's \<Rightarrow> nat \<times> 'u \<times> evloop_t \<times> 's" where
  "close_overdue os ec [] now_ms w = (0, w)"
| "close_overdue os ec (r # rs) now_ms w =
     (let sl = slot_at (fst (snd w)) r
      in if sl_state sl = SLOT_FREE \<or> sl_deadline_ms sl = 0 then close_overdue os ec rs now_ms w
      else if now_ms \<ge> sl_deadline_ms sl
      then let (u, ev, s) = w;
               w = evloop_close_slot os ec (u, ev\<lparr>ev_closed_deadline := ev_closed_deadline ev + 1\<rparr>, s) r
        in apfst Suc (close_overdue os ec rs now_ms w)
      else close_overdue os ec rs now_ms w)"

text \<open>The slots of one pool, as far as the pool exists.\<close>

definition pool_refs :: "evloop_t \<Rightarrow> slot_kind_t \<Rightarrow> slot_ref list" where
  "pool_refs ev k =
     (case k of
        SLOT_KIND_PROTO \<Rightarrow> map (Pair k) [0..<ev_n_slots ev]
      | SLOT_KIND_LOCAL \<Rightarrow> if ev_local_slots ev = NULL then [] else map (Pair k) [0..<ev_n_local_slots ev])"

definition collect_all :: "'s ev_os \<Rightarrow> ('u, 's) ev_calls \<Rightarrow> 'u \<times> evloop_t \<times> 's \<Rightarrow> polled list \<times> 'u \<times> evloop_t \<times> 's" where
  "collect_all os ec w =
     (let (proto, w) = collect os ec AUTHD_SLOTS_MAX (pool_refs (fst (snd w)) SLOT_KIND_PROTO) w;
          (loc, w) = collect os ec AUTHD_LOCAL_SLOTS_MAX (pool_refs (fst (snd w)) SLOT_KIND_LOCAL) w
      in (proto @ loc, w))"

definition evloop_run_once ::
  "(nat \<Rightarrow> bytes \<Rightarrow> int \<times> bytes) \<Rightarrow> (bytes \<Rightarrow> bytes) \<Rightarrow> 's ev_os \<Rightarrow> ('u, 's) ev_calls \<Rightarrow> 'u \<times> evloop_t \<times> 's \<Rightarrow> int \<Rightarrow> u64 \<Rightarrow>
   (int \<times> 'u \<times> evloop_t \<times> 's) option" where
  "evloop_run_once f g os ec w poll_timeout_ms now_ms =
     (let listeners = listener_set (fst (snd w));
          (slots, w) = collect_all os ec w;
          (u, ev, s) = w;
          fds = listeners @ map snd slots
      in (case (if fds \<noteq> [] then poll_retry os s fds poll_timeout_ms else Some (0, [], EOTHER, s)) of
        None \<Rightarrow> None
      | Some (rc, re, e, s) \<Rightarrow>
        if rc < 0 then Some (-1, u, ev, s)
        else (case accept_all os ev s 0 (take (length listeners) re) now_ms of
          None \<Rightarrow> None
        | Some (a1, ev, s) \<Rightarrow>
          (case serve_all f g os ec (u, ev, s) (zip (map fst slots) (drop (length listeners) re)) now_ms of
            None \<Rightarrow> None
          | Some (a2, w) \<Rightarrow>
            let ev = fst (snd w);
                (a3, w) = close_overdue os ec (pool_refs ev SLOT_KIND_PROTO @ pool_refs ev SLOT_KIND_LOCAL) now_ms w
            in Some (int (a1 + a2 + a3), w)))))"

end
