(* ===== verification/Spec2Isabelle.thy ===== *)
theory Spec2Isabelle
  imports Handshake_Run Session_Link Ratelimit_Safety Authmsg Base32 Conn_Io_Stream Evloop
begin

text \<open>
  A verification library for \<^emph>\<open>mldsa-auth\<close>: an authenticated key exchange with ML-DSA-65 and ML-KEM-768 +
  X25519, the record layer on top of it, and the transport of the login daemon that serves it.

  \<^bold>\<open>The program.\<close> Two parties run a three-message handshake, ClientHello, ServerHello and ClientAuth
  (\<open>src/src/protocol/handshake.c\<close>), over the wire format of \<open>transcript.c\<close> and with the wrappers of
  \<open>src/src/crypto\<close>. Each knows the other's long-term key from a pinned key store (\<open>keystore.c\<close>); the
  responder keeps a ledger of handshakes in flight. The keys of an established handshake are handed to a
  session (\<open>session.c\<close>), which seals and opens records. The reference applications carry these messages in
  length-prefixed frames over sockets (\<open>src/apps/frame.c\<close>, \<open>net_io.c\<close>). The daemon
  (\<open>src/apps/authd\<close>) runs one event loop (\<open>evloop.c\<close>) over slots with fixed buffers (\<open>conn_io.c\<close>) and
  takes connections through a proxy (\<open>proxy_v2.c\<close>) and WebSocket (\<open>ws.c\<close>, with \<open>sha1.c\<close>), within a rate limit
  (\<open>ratelimit.c\<close>). Its own messages are those of \<open>authmsg.c\<close>; recovery codes are written in \<open>base32.c\<close>.

  \<^bold>\<open>Conventions.\<close> A struct is a record with the fields of the source, an enum a datatype with its
  constructors, a fixed-width integer a word of that width, and \<open>size_t\<close> a natural number. A pointer that
  may be null is an option; an output parameter is passed with its old contents and returned with the new
  ones. Every function is a definition of its own name, every guard, early return and error status of the
  source a branch of it. Third-party code is an argument: \<open>sodium\<close> and \<open>oqs\<close> (libsodium and liboqs, bundled
  as \<open>crypto\<close>), \<open>env\<close> (allocation, randomness, clock), the short hash, base64 and \<open>inet_ntop\<close>, and the
  operating system. Theorems name what they need of it (correctness of the primitives, sizes of their
  outputs, a system that makes progress) as hypotheses; \<open>Sample_Crypto\<close> has toy instances that satisfy
  them and on which the witnesses compute. No theorem assumes that a primitive is secure: where security is
  meant, the conclusion is an explicit forgery or collision.

  \<^bold>\<open>The theories, and what they show.\<close>

  \<^item> \<open>Prelude\<close>, \<open>Interfaces\<close>: shared types and lemmas; the locales \<open>wire_codec\<close>, \<open>delimited_codec\<close>,
    \<open>chunked_reader\<close>, \<open>stream_machine\<close>, \<open>pin_store\<close> and \<open>credit_machine\<close>, each interpreted by the components
    that provide it.
  \<^item> \<open>Wire_Int\<close> (\<open>util/wire_int.c\<close>), \<open>Primitives\<close> (\<open>util/secure_mem.c\<close> and \<open>crypto/*.c\<close>): integers on the wire,
    the wrappers, the inputs of the key derivation and that they are injective.
  \<^item> \<open>Transcript\<close> (\<open>protocol/transcript.c\<close>): the decoders accept exactly the encodings; equal transcript
    hashes mean equal transcripts or a collision.
  \<^item> \<open>Tables\<close>, \<open>Keystore\<close> (\<open>protocol/keystore.c\<close>): lemmas on slot arrays; the key store refines a finite map
    with write-once entries.
  \<^item> \<open>Pending\<close>, \<open>Handshake\<close>, \<open>Handshake_Safety\<close>, \<open>Handshake_Run\<close> (\<open>protocol/handshake.c\<close>): the ledger refines a
    map and an entry is used once; the state machine of both roles, the invariant of its contexts and the
    order of its states; what an accepted message guarantees; two honest parties agree.
  \<^item> \<open>Session\<close>, \<open>Session_Safety\<close>, \<open>Session_Link\<close> (\<open>protocol/session.c\<close>): nonces are never reused, records are
    accepted once and in order, every error kills the session; two linked sessions deliver everything.
  \<^item> \<open>Frame\<close> (\<open>apps/frame.c\<close>, part of \<open>apps/net_io.c\<close>): what \<open>frame_recv\<close> makes of a stream, and the round trip
    under interruptions and short reads and writes.
  \<^item> \<open>Proxy_V2\<close>, \<open>Ratelimit\<close>, \<open>Ratelimit_Safety\<close>, \<open>Authmsg\<close>, \<open>Sha1\<close>, \<open>Base32\<close>: the parts of the daemon by the same
    names: exactness of parsers, the bounds of the limiter over any run, round trips.
  \<^item> \<open>Ws\<close>, \<open>Ws_Safety\<close> (\<open>authd/ws.c\<close>), \<open>Conn_Io\<close>, \<open>Conn_Io_Safety\<close>, \<open>Conn_Io_Stream\<close> (\<open>authd/conn_io.c\<close>): buffers stay
    in their bounds, input does not depend on how the network cuts it, frames arrive whole in both
    directions, and a full buffer can always be served.
  \<^item> \<open>Evloop\<close> (\<open>authd/evloop.c\<close>, part of \<open>authd/listener.c\<close>): the slots and one iteration of the loop.
  \<^item> This theory: the handshake, the hand-over and the sessions composed.

  \<^bold>\<open>Bounds and loops.\<close> The limiter's theorems take times below \<open>TIME_MAX\<close>, \<open>2 ^ 48\<close> milliseconds of a
  monotonic clock, some 8900 years, so that the products in \<open>refill\<close> stay below \<open>2 ^ 64\<close>; nothing else
  bounds a run. Loops that end on every input are total functions; those that end only if the peer or the
  system lets them (\<open>wait_io\<close>, the exact reads and writes, the client's reader, the retries and the loops of
  the event loop) are partial functions in which \<open>None\<close> is a call that never returns. There is no fuel.

  \<^bold>\<open>Not modelled.\<close> The timing of the code and what the compiler makes of a wipe: a wipe is that the
  contents are zero. The log. The database (\<open>store/store.c\<close>), whose functions are queries of SQLite, and with
  it \<open>tokens.c\<close>, \<open>recovery.c\<close>, the local API (\<open>localapi.c\<close>), the connection handler (\<open>authd_conn.c\<close>) and the
  administration tool, which are mostly calls of it. Start-up and configuration (\<open>authd_main.c\<close>,
  \<open>authd_config.c\<close>, \<open>authd_secret.c\<close>, \<open>memlock.c\<close>, key files), the command-line programs and their prompts, the
  demonstration programs, the browser client, and the opening of sockets: file, terminal and system calls
  without a state of their own. \<open>passphrase_common.c\<close> is a word list.
\<close>

section \<open>From the handshake to the channel\<close>

lemma established_linked:
  assumes "handshake_inv A" "handshake_inv B" "hc_role A = HANDSHAKE_ROLE_INITIATOR" "hc_role B = HANDSHAKE_ROLE_RESPONDER"
    and "hc_state A = HANDSHAKE_STATE_ESTABLISHED" "hc_state B = HANDSHAKE_STATE_ESTABLISHED"
    and "hc_session_keys A = Some keys" "hc_session_keys B = Some keys" "hc_handshake_id A = hc_handshake_id B"
    and "la \<noteq> NULL \<longrightarrow> limits_valid (the la)" "lb \<noteq> NULL \<longrightarrow> limits_valid (the lb)"
  shows "linked (handed_over e1 A la) (handed_over e2 B lb)"
proof -
  have inv: "session_inv (handed_over e1 A la)" "session_inv (handed_over e2 B lb)"
    using assms by (simp_all add: handed_over_inv)
  have "length keys = 64" using established_keys [OF assms(1,5)] assms(7) by (metis option.inject)
  then have "session_feeds (handed_over e1 A la) (handed_over e2 B lb)" "session_feeds (handed_over e2 B lb) (handed_over e1 A la)"
    using assms(3,4,7-9) by (simp_all add: session_feeds_def handed_over_def Let_def)
  with inv show ?thesis by (simp add: linked_def) (simp add: handed_over_def Let_def)
qed

lemma fresh_may_hand_over:
  assumes "env_live e" "clock_ms e 0 \<noteq> UINT64_MAX" "l \<noteq> NULL \<longrightarrow> limits_valid (the l)"
    and "hc_state h = HANDSHAKE_STATE_ESTABLISHED" "hc_role h \<in> {HANDSHAKE_ROLE_INITIATOR, HANDSHAKE_ROLE_RESPONDER}"
  shows "may_hand_over e session_zero h l"
  using assms env_live_alloc [OF assms(1), of 64 0] by (auto simp: may_hand_over_def session_zero_def)



end
